(* ===== verification/VM_Prelude.thy ===== *)
theory VM_Prelude
  imports Main "HOL-Library.Word"
begin

text \<open>
  Shared vocabulary of the development: the machine types of the VM sources
  (\<open>utilities/globalDefinitions.hpp\<close>), the collections of rules the component theories
  extend, and generic facts about words, bits, lists and options.

  Types.  \<open>u_char\<close>/\<open>u1\<close>, \<open>jchar\<close>/\<open>u2\<close>, \<open>jint\<close>/\<open>juint\<close>, \<open>jlong\<close> and \<open>uintptr_t\<close>
  (LP64) are words of 8, 16, 32, 64 and 64 bits; \<open>+\<close>, \<open>-\<close> and shifts on them wrap.
  A \<open>size_t\<close> used as an index or a count is a \<open>nat\<close>; where the source relies on the
  wrap-around of such a value, the wrap-around (\<open>size_t\<close>, below) is written out.
\<close>

unbundle bit_operations_syntax

type_synonym u_char = "8 word"
type_synonym u1 = "8 word"
type_synonym u2 = "16 word"
type_synonym jchar = "16 word"
type_synonym jint = "32 word"
type_synonym juint = "32 word"
type_synonym jlong = "64 word"
type_synonym uintptr_t = "64 word"

text \<open>A \<open>size_t\<close> expression evaluated in 64 bits: the mathematical value reduced modulo \<open>2 ^ 64\<close>.\<close>

definition size_t :: "int \<Rightarrow> nat" where
  "size_t n = nat (n mod 2 ^ 64)"

type_synonym symbol = "u_char list"

definition symbol_of :: "string \<Rightarrow> symbol" where
  "symbol_of s = map of_char s"

text \<open>What ends an operation early: a pending Java exception (its class and message), an
  error recorded in the verifier (the kind of fault, the bytecode index and the message
  format), a failing \<open>ShouldNotReachHere\<close>, \<open>fatal\<close> or \<open>guarantee\<close>, or an operation that C++
  leaves undefined, such as an access outside an array.\<close>

datatype FaultType =
    INVALID_BYTECODE | WRONG_TYPE | FLAGS_MISMATCH | BAD_CP_INDEX | BAD_LOCAL_INDEX
  | LOCALS_SIZE_MISMATCH | STACK_SIZE_MISMATCH | STACK_OVERFLOW | STACK_UNDERFLOW
  | MISSING_STACKMAP | BAD_STACKMAP | NO_FAULT | UNKNOWN

datatype fault =
    Pending_Exception symbol string
  | Verify_Error FaultType int string
  | Class_Format_Error string
  | Should_Not_Reach_Here
  | Undefined_Behaviour

definition rbind :: "'e + 'a \<Rightarrow> ('a \<Rightarrow> 'e + 'b) \<Rightarrow> 'e + 'b" where
  "rbind m k = (case m of Inl e \<Rightarrow> Inl e | Inr x \<Rightarrow> k x)"

lemma rbind_simps [simp]: "rbind (Inl e) k = Inl e" "rbind (Inr x) k = k x"
  by (simp_all add: rbind_def)

lemma rbind_Inr_iff: "rbind m k = Inr y \<longleftrightarrow> (\<exists>x. m = Inr x \<and> k x = Inr y)"
  by (cases m) simp_all

lemma rbind_cong [fundef_cong]:
  "m = m' \<Longrightarrow> (\<And>x. m' = Inr x \<Longrightarrow> k x = k' x) \<Longrightarrow> rbind m k = rbind m' k'"
  by (cases m') simp_all

text \<open>A checked array read: \<open>None\<close> outside the array.\<close>

definition nth_opt :: "'a list \<Rightarrow> nat \<Rightarrow> 'a option" where
  "nth_opt xs i = (if i < length xs then Some (xs ! i) else None)"

text \<open>An array access with an \<open>int\<close> index: not defined outside the array.\<close>

definition arr_get :: "'a list \<Rightarrow> int \<Rightarrow> fault + 'a" where
  "arr_get xs i = (if 0 \<le> i \<and> i < int (length xs) then Inr (xs ! nat i) else Inl Undefined_Behaviour)"

definition arr_set :: "'a list \<Rightarrow> int \<Rightarrow> 'a \<Rightarrow> fault + 'a list" where
  "arr_set xs i v =
    (if 0 \<le> i \<and> i < int (length xs) then Inr (xs[nat i := v]) else Inl Undefined_Behaviour)"

lemma arr_get_Inr: "arr_get xs i = Inr v \<longleftrightarrow> 0 \<le> i \<and> i < int (length xs) \<and> v = xs ! nat i"
  by (auto simp: arr_get_def)

lemma arr_set_Inr: "arr_set xs i v = Inr ys \<longleftrightarrow> 0 \<le> i \<and> i < int (length xs) \<and> ys = xs[nat i := v]"
  by (auto simp: arr_set_def)

named_theorems vm_simps \<open>unfolding rules of the model's accessors\<close>
named_theorems vm_bits \<open>bit-level characterisations of word operations\<close>

section \<open>Size arithmetic\<close>

lemma size_t_small [simp]: "n < 2 ^ 64 \<Longrightarrow> size_t (int n) = n"
  by (simp add: size_t_def)

lemma size_t_nonneg_small: "0 \<le> n \<Longrightarrow> n < 2 ^ 64 \<Longrightarrow> size_t n = nat n"
  by (simp add: size_t_def)

lemma size_t_less: "size_t n < 2 ^ 64"
proof -
  have "n mod 2 ^ 64 < 2 ^ 64" and "0 \<le> n mod 2 ^ 64" by simp_all
  then show ?thesis by (simp add: size_t_def nat_less_iff)
qed

lemma size_t_neg: "- (2 ^ 64) \<le> n \<Longrightarrow> n < 0 \<Longrightarrow> size_t n = nat (n + 2 ^ 64)"
proof -
  assume "- (2 ^ 64) \<le> n" "n < 0"
  then have "(n + 2 ^ 64) mod 2 ^ 64 = n + 2 ^ 64"
    by (intro mod_pos_pos_trivial) simp_all
  then have "n mod 2 ^ 64 = n + 2 ^ 64" by simp
  then show ?thesis by (simp add: size_t_def)
qed

section \<open>Bits of words and numbers\<close>

lemma bit_beyond: "LENGTH('a) \<le> n \<Longrightarrow> \<not> bit (w :: 'a::len word) n"
  by (auto dest: bit_imp_le_length)

lemma nat_and_mask: "(b :: nat) AND (2 ^ k - 1) = b mod 2 ^ k"
  by (metis mask_eq_exp_minus_1 take_bit_eq_mask take_bit_eq_mod)

lemma nat_and_63 [vm_simps]: "(b :: nat) AND 63 = b mod 64"
  using nat_and_mask [of b 6] by simp

lemma less_8_cases: "(n :: nat) < 8 \<longleftrightarrow> n \<in> {0, 1, 2, 3, 4, 5, 6, 7}"
  by auto

lemma less_32_cases:
  "(n :: nat) < 32 \<longleftrightarrow> n \<in> {0, 1, 2, 3, 4, 5, 6, 7, 8, 9, 10, 11, 12, 13, 14, 15,
     16, 17, 18, 19, 20, 21, 22, 23, 24, 25, 26, 27, 28, 29, 30, 31}"
proof -
  have "[0, 1, 2, 3, 4, 5, 6, 7, 8, 9, 10, 11, 12, 13, 14, 15,
     16, 17, 18, 19, 20, 21, 22, 23, 24, 25, 26, 27, 28, 29, 30, 31] = [0..<32 :: nat]"
    by (simp add: upt_rec)
  from arg_cong [OF this, of set] show ?thesis
    by (simp only: set_upt list.set atLeastLessThan_iff) auto
qed

lemma unat_less_word_iff: "a < b \<longleftrightarrow> unat a < unat b"
  by (simp add: word_less_nat_alt)

lemma unat_8_less [simp]: "unat (b :: u_char) < 256"
  using unsigned_less [where ?'a = nat, of b] by simp

lemma uint_8_less [simp]: "uint (b :: u_char) < 256"
  using unsigned_less [where ?'a = int, of b] by simp

lemma uint_16_less [simp]: "uint (b :: 16 word) < 65536"
  using unsigned_less [where ?'a = int, of b] by simp

lemma unat_16_less [simp]: "unat (b :: jchar) < 65536"
  using unsigned_less [where ?'a = nat, of b] by simp

lemma unat_32_less [simp]: "unat (w :: jint) < 4294967296"
  using unsigned_less [where ?'a = nat, of w] by simp

lemma unat_ucast_8_32 [simp]: "unat (ucast (b :: u_char) :: jint) = unat b"
  using unat_8_less [of b]
  by (simp add: unsigned_ucast_eq take_bit_nat_eq_self del: unat_8_less)

lemma unat_ucast_8_16 [simp]: "unat (ucast (b :: u_char) :: jchar) = unat b"
  using unat_8_less [of b]
  by (simp add: unsigned_ucast_eq take_bit_nat_eq_self del: unat_8_less)

section \<open>Lists\<close>

lemma nth_opt_simps [simp]:
  "nth_opt [] i = None"
  "nth_opt (x # xs) 0 = Some x"
  "nth_opt (x # xs) (Suc i) = nth_opt xs i"
  "nth_opt (x # xs) (numeral k) = nth_opt xs (pred_numeral k)"
  by (simp_all add: nth_opt_def numeral_eq_Suc)

lemma nth_opt_Some_iff: "nth_opt xs i = Some x \<longleftrightarrow> i < length xs \<and> xs ! i = x"
  by (auto simp: nth_opt_def)

lemma nth_append_eq: "length xs = n \<Longrightarrow> (xs @ y # ys) ! n = y"
  by auto

lemma take_update_beyond [simp]: "n \<le> i \<Longrightarrow> take n (xs[i := x]) = take n xs"
  by simp

lemma drop_nth_Cons: "i < length xs \<Longrightarrow> drop i xs = xs ! i # drop (Suc i) xs"
  by (rule Cons_nth_drop_Suc [symmetric])

lemma map_Some_the: "None \<notin> set xs \<Longrightarrow> map (Some \<circ> the) xs = xs"
  by (induction xs) (auto simp: option.expand)

text \<open>A property of the words below a bound, checked one word at a time.\<close>

lemma word_enum: "(\<And>k. k < n \<Longrightarrow> P (word_of_nat k)) \<Longrightarrow> unat (w::'a::len word) < n \<Longrightarrow> P w"
  by (metis unsigned_of_nat of_nat_unat word_unat_eq_iff ucast_id)
lemma word_enum_all: "list_all (\<lambda>k. P (word_of_nat k)) [0..<n] \<Longrightarrow> unat (w::'a::len word) < n \<Longrightarrow> P w"
  by (rule word_enum) (auto simp: list_all_iff)

end
