(* ===== verification/Compressed_Stream.thy ===== *)
theory Compressed_Stream
  imports VM_Prelude
begin

text \<open>
  The compressed byte streams that hold debug information and dependencies:
  \<open>src/share/vm/code/compressedStream.hpp\<close> and \<open>.cpp\<close>.

  A stream is its byte array and a position; a write stream also has the size of its array.
  A byte of the array is an \<open>option\<close>: \<open>None\<close> is a byte of a freshly allocated resource array
  that has not been written.  Every read and store is checked: an access outside the array,
  a read of an unwritten byte, and the overflow of the \<open>int\<close> size in \<open>grow\<close> are \<open>None\<close>.
  A \<open>jfloat\<close> is the 32 bits \<open>jint_cast\<close> gives, a \<open>jdouble\<close> the 64 bits \<open>jlong_cast\<close> gives.
\<close>

section \<open>The streams\<close>

record CompressedStream =
  cs_buffer :: "u_char option list"
  cs_position :: nat

record CompressedWriteStream = CompressedStream +
  cs_size :: nat

definition lg_H :: nat where "lg_H = 6"
definition H_codes :: juint where "H_codes = push_bit lg_H 1"
definition L_codes :: juint where "L_codes = push_bit 8 1 - H_codes"
definition MAX_i :: nat where "MAX_i = 4"

definition encode_sign :: "jint \<Rightarrow> juint" where
  "encode_sign value = push_bit 1 value XOR signed_drop_bit 31 value"

definition decode_sign :: "juint \<Rightarrow> jint" where
  "decode_sign value = drop_bit 1 value XOR - (value AND 1)"

definition reverse_int :: "juint \<Rightarrow> juint" where
  "reverse_int i0 =
    (let i1 = push_bit 1 (i0 AND 0x55555555) OR (drop_bit 1 i0 AND 0x55555555);
         i2 = push_bit 2 (i1 AND 0x33333333) OR (drop_bit 2 i1 AND 0x33333333);
         i3 = push_bit 4 (i2 AND 0x0f0f0f0f) OR (drop_bit 4 i2 AND 0x0f0f0f0f)
     in push_bit 24 i3 OR push_bit 8 (i3 AND 0xff00) OR (drop_bit 8 i3 AND 0xff00)
        OR drop_bit 24 i3)"

text \<open>\<open>low\<close>, \<open>high\<close> and \<open>jlong_from\<close> of \<open>globalDefinitions.hpp\<close>.\<close>

definition low_jint :: "jlong \<Rightarrow> jint" where
  "low_jint value = ucast value"

definition high_jint :: "jlong \<Rightarrow> jint" where
  "high_jint value = ucast (signed_drop_bit 32 value)"

definition set_low :: "jlong \<Rightarrow> jint \<Rightarrow> jlong" where
  "set_low value lo = (value AND push_bit 32 0xffffffff) OR ucast lo"

definition set_high :: "jlong \<Rightarrow> jint \<Rightarrow> jlong" where
  "set_high value hi = (value AND 0xffffffff) OR push_bit 32 (scast hi)"

definition jlong_from :: "jint \<Rightarrow> jint \<Rightarrow> jlong" where
  "jlong_from h l = set_low (set_high 0 h) l"

section \<open>Reading\<close>

definition buffer_at :: "('a CompressedStream_scheme) \<Rightarrow> nat \<Rightarrow> u_char option" where
  "buffer_at s i = (if i < length (cs_buffer s) then cs_buffer s ! i else None)"

definition read_u_char :: "CompressedStream \<Rightarrow> (u_char \<times> CompressedStream) option" where
  "read_u_char s =
    (case buffer_at s (cs_position s) of
       None \<Rightarrow> None
     | Some b \<Rightarrow> Some (b, s\<lparr>cs_position := cs_position s + 1\<rparr>))"

text \<open>The loop of \<open>read_int_mb\<close>, from the value of \<open>i\<close>, \<open>lg_H_i\<close> and \<open>sum_v\<close> at its head.\<close>

function read_int_mb_loop ::
  "CompressedStream \<Rightarrow> nat \<Rightarrow> nat \<Rightarrow> nat \<Rightarrow> jint \<Rightarrow> (jint \<times> CompressedStream) option" where
  "read_int_mb_loop s pos i lg_H_i sum_v =
    (case buffer_at s (pos + (i + 1)) of
       None \<Rightarrow> None
     | Some b \<Rightarrow>
        (let b_i = ucast b; sum_v' = sum_v + push_bit lg_H_i b_i
         in if b_i <s L_codes \<or> i + 1 = MAX_i
            then Some (sum_v', s\<lparr>cs_position := pos + (i + 1) + 1\<rparr>)
            else read_int_mb_loop s pos (i + 1) (lg_H_i + lg_H) sum_v'))"
  by pat_completeness auto
termination
  by (relation "measure (\<lambda>(s, pos, i, _, _). length (cs_buffer s) - (pos + i))")
    (auto simp: buffer_at_def split: if_splits)

definition read_int_mb :: "jint \<Rightarrow> CompressedStream \<Rightarrow> (jint \<times> CompressedStream) option" where
  "read_int_mb b0 s = read_int_mb_loop s (cs_position s - 1) 0 lg_H b0"

definition read_int :: "CompressedStream \<Rightarrow> (jint \<times> CompressedStream) option" where
  "read_int s =
    (case read_u_char s of
       None \<Rightarrow> None
     | Some (b, s') \<Rightarrow>
        (let b0 = ucast b in if b0 <s L_codes then Some (b0, s') else read_int_mb b0 s'))"

definition read_signed_int :: "CompressedStream \<Rightarrow> (jint \<times> CompressedStream) option" where
  "read_signed_int s = map_option (apfst decode_sign) (read_int s)"

definition read_byte :: "CompressedStream \<Rightarrow> (u_char \<times> CompressedStream) option" where
  "read_byte s = read_u_char s"

definition read_bool :: "CompressedStream \<Rightarrow> (u_char \<times> CompressedStream) option" where
  "read_bool s = read_u_char s"

definition read_char :: "CompressedStream \<Rightarrow> (jchar \<times> CompressedStream) option" where
  "read_char s = map_option (apfst ucast) (read_int s)"

definition read_short :: "CompressedStream \<Rightarrow> (16 word \<times> CompressedStream) option" where
  "read_short s = map_option (apfst ucast) (read_signed_int s)"

definition read_float :: "CompressedStream \<Rightarrow> (32 word \<times> CompressedStream) option" where
  "read_float s = map_option (apfst reverse_int) (read_int s)"

definition read_double :: "CompressedStream \<Rightarrow> (64 word \<times> CompressedStream) option" where
  "read_double s =
    (case read_int s of
       None \<Rightarrow> None
     | Some (rh, s') \<Rightarrow>
        (case read_int s' of
           None \<Rightarrow> None
         | Some (rl, s'') \<Rightarrow> Some (jlong_from (reverse_int rh) (reverse_int rl), s'')))"

definition read_long :: "CompressedStream \<Rightarrow> (jlong \<times> CompressedStream) option" where
  "read_long s =
    (case read_signed_int s of
       None \<Rightarrow> None
     | Some (low, s') \<Rightarrow>
        (case read_signed_int s' of
           None \<Rightarrow> None
         | Some (high, s'') \<Rightarrow> Some (jlong_from high low, s'')))"

section \<open>Writing\<close>

definition new_write_stream :: "nat \<Rightarrow> CompressedWriteStream" where
  "new_write_stream initial_size =
    \<lparr>cs_buffer = replicate initial_size None, cs_position = 0, cs_size = initial_size\<rparr>"

definition full :: "CompressedWriteStream \<Rightarrow> bool" where
  "full s \<longleftrightarrow> cs_position s \<ge> cs_size s"

definition store :: "u_char \<Rightarrow> CompressedWriteStream \<Rightarrow> CompressedWriteStream option" where
  "store b s =
    (if cs_position s < length (cs_buffer s)
     then Some (s\<lparr>cs_buffer := (cs_buffer s)[cs_position s := Some b],
                  cs_position := cs_position s + 1\<rparr>)
     else None)"

definition grow :: "CompressedWriteStream \<Rightarrow> CompressedWriteStream option" where
  "grow s =
    (if cs_size s * 2 \<ge> 2 ^ 31 \<or> cs_position s > length (cs_buffer s)
        \<or> cs_position s > cs_size s * 2
     then None
     else Some (s\<lparr>cs_buffer := take (cs_position s) (cs_buffer s)
                     @ replicate (cs_size s * 2 - cs_position s) None,
                  cs_size := cs_size s * 2\<rparr>))"

definition write_u_char :: "u_char \<Rightarrow> CompressedWriteStream \<Rightarrow> CompressedWriteStream option" where
  "write_u_char b s = Option.bind (if full s then grow s else Some s) (store b)"

text \<open>The loop of \<open>write_int_mb\<close>, from the value of \<open>i\<close> and \<open>sum_v\<close> at its head.\<close>

function write_int_mb_loop ::
  "nat \<Rightarrow> juint \<Rightarrow> CompressedWriteStream \<Rightarrow> CompressedWriteStream option" where
  "write_int_mb_loop i sum_v s =
    (if sum_v < L_codes \<or> i = MAX_i then write_u_char (ucast sum_v) s
     else let sum_1 = sum_v - L_codes; b_i = L_codes + sum_1 mod H_codes
          in Option.bind (write_u_char (ucast b_i) s)
               (write_int_mb_loop (i + 1) (drop_bit lg_H sum_1)))"
  by pat_completeness auto
termination
proof (relation "measure (\<lambda>(i, sum_v, s). unat sum_v)")
  show "wf (measure (\<lambda>(i, sum_v :: juint, s :: CompressedWriteStream). unat sum_v))" by simp
next
  fix i and sum_v :: juint and s x xa and s' :: CompressedWriteStream
  assume *: "\<not> (sum_v < L_codes \<or> i = MAX_i)" "x = sum_v - L_codes"
  have L: "L_codes = 192" by (simp add: L_codes_def H_codes_def lg_H_def)
  from * have "192 \<le> unat sum_v" by (simp add: word_less_nat_alt L)
  moreover have "unat x = unat sum_v - 192"
    using * by (simp add: unat_sub word_le_nat_alt word_less_nat_alt L)
  ultimately have "unat (drop_bit lg_H x) < unat sum_v"
    by (simp add: drop_bit_eq_div unat_div lg_H_def)
  then show "((i + 1, drop_bit lg_H x, s'), i, sum_v, s) \<in> measure (\<lambda>(i, sum_v, s). unat sum_v)"
    by simp
qed

declare read_int_mb_loop.simps [simp del] write_int_mb_loop.simps [simp del]

definition write_int_mb :: "jint \<Rightarrow> CompressedWriteStream \<Rightarrow> CompressedWriteStream option" where
  "write_int_mb value s = write_int_mb_loop 0 value s"

definition write_int :: "jint \<Rightarrow> CompressedWriteStream \<Rightarrow> CompressedWriteStream option" where
  "write_int value s =
    (if value < L_codes \<and> \<not> full s then store (ucast value) s else write_int_mb value s)"

definition write_signed_int :: "jint \<Rightarrow> CompressedWriteStream \<Rightarrow> CompressedWriteStream option" where
  "write_signed_int value s = write_int (encode_sign value) s"

definition write_bool :: "u_char \<Rightarrow> CompressedWriteStream \<Rightarrow> CompressedWriteStream option" where
  "write_bool value s = write_u_char value s"

definition write_byte :: "u_char \<Rightarrow> CompressedWriteStream \<Rightarrow> CompressedWriteStream option" where
  "write_byte value s = write_u_char value s"

definition write_char :: "jchar \<Rightarrow> CompressedWriteStream \<Rightarrow> CompressedWriteStream option" where
  "write_char value s = write_int (ucast value) s"

definition write_short :: "16 word \<Rightarrow> CompressedWriteStream \<Rightarrow> CompressedWriteStream option" where
  "write_short value s = write_signed_int (scast value) s"

definition write_float :: "32 word \<Rightarrow> CompressedWriteStream \<Rightarrow> CompressedWriteStream option" where
  "write_float f s = write_int (reverse_int f) s"

definition write_double :: "64 word \<Rightarrow> CompressedWriteStream \<Rightarrow> CompressedWriteStream option" where
  "write_double value s =
    Option.bind (write_int (reverse_int (high_jint value)) s)
      (write_int (reverse_int (low_jint value)))"

definition write_long :: "jlong \<Rightarrow> CompressedWriteStream \<Rightarrow> CompressedWriteStream option" where
  "write_long value s =
    Option.bind (write_signed_int (low_jint value) s) (write_signed_int (high_jint value))"


section \<open>Specification\<close>

text \<open>
  The bytes a write stream holds, and the well-formed write streams: the array has
  \<open>cs_size\<close> bytes (at least one), the position lies in it, and everything below the
  position has been written.
\<close>

definition written :: "CompressedWriteStream \<Rightarrow> u_char list" where
  "written s = map the (take (cs_position s) (cs_buffer s))"

definition wf_writer :: "CompressedWriteStream \<Rightarrow> bool" where
  "wf_writer s \<longleftrightarrow> length (cs_buffer s) = cs_size s \<and> cs_position s \<le> cs_size s \<and> 0 < cs_size s
     \<and> None \<notin> set (take (cs_position s) (cs_buffer s))"

text \<open>A stream whose next bytes are \<open>bs\<close>, and the stream after them.\<close>

definition upcoming :: "CompressedStream \<Rightarrow> u_char list \<Rightarrow> bool" where
  "upcoming r bs \<longleftrightarrow> (\<forall>k < length bs. buffer_at r (cs_position r + k) = Some (bs ! k))"

definition skip_bytes :: "nat \<Rightarrow> CompressedStream \<Rightarrow> CompressedStream" where
  "skip_bytes n r = r\<lparr>cs_position := cs_position r + n\<rparr>"

text \<open>A reader over the bytes a write stream holds, from position \<open>p\<close>.\<close>

definition reader_at :: "CompressedWriteStream \<Rightarrow> nat \<Rightarrow> CompressedStream" where
  "reader_at s p = \<lparr>cs_buffer = cs_buffer s, cs_position = p\<rparr>"

text \<open>
  The UNSIGNED5 coding of Pack200, by the grammar in the comment of the source: byte \<open>i\<close> of
  the coding of \<open>n\<close> is a low code (below 192) and the last one, or a high code that
  carries six bits; the byte with index 4 is any byte and always the last one.
\<close>

fun unsigned5 :: "nat \<Rightarrow> nat \<Rightarrow> u_char list" where
  "unsigned5 i n =
    (if n < 192 \<or> i = 4 then [of_nat n]
     else of_nat (192 + (n - 192) mod 64) # unsigned5 (i + 1) ((n - 192) div 64))"

declare unsigned5.simps [simp del]

definition enc_int :: "jint \<Rightarrow> u_char list" where
  "enc_int v = unsigned5 0 (unat v)"

text \<open>Writing and reading a sequence of values with one pair of operations.\<close>

fun put_all :: "('v \<Rightarrow> CompressedWriteStream \<Rightarrow> CompressedWriteStream option) \<Rightarrow> 'v list
    \<Rightarrow> CompressedWriteStream \<Rightarrow> CompressedWriteStream option" where
  "put_all put [] s = Some s"
| "put_all put (v # vs) s = Option.bind (put v s) (put_all put vs)"

fun get_all :: "(CompressedStream \<Rightarrow> ('v \<times> CompressedStream) option) \<Rightarrow> nat
    \<Rightarrow> CompressedStream \<Rightarrow> ('v list \<times> CompressedStream) option" where
  "get_all get 0 r = Some ([], r)"
| "get_all get (Suc n) r =
    (case get r of
       None \<Rightarrow> None
     | Some (v, r') \<Rightarrow> map_option (apfst ((#) v)) (get_all get n r'))"

section \<open>Constants and word codings\<close>

lemma codes_eval [simp]:
  "lg_H = 6" "H_codes = 64" "L_codes = 192" "MAX_i = 4"
  by (simp_all add: lg_H_def H_codes_def L_codes_def MAX_i_def)

lemma ucast_sless_L [simp]: "(ucast (b :: u_char) :: jint) <s 192 \<longleftrightarrow> unat b < 192"
proof -
  have u: "uint (ucast b :: jint) = int (unat b)"
    by (metis uint_nat unat_ucast_8_32)
  have "sint (ucast b :: jint) = signed_take_bit 31 (int (unat b))"
    by (simp only: sint_uint u) simp
  also have "\<dots> = int (unat b)"
    using unat_8_less [of b]
    by (intro signed_take_bit_int_eq_self) (simp_all del: of_nat_unat unat_8_less)
  finally show ?thesis by (simp add: word_sless_alt del: of_nat_unat)
qed


text \<open>Sign coding: \<open>encode_sign\<close> and \<open>decode_sign\<close> are inverse bijections on 32-bit words.\<close>

lemma minus_and_one: "- (w AND 1 :: jint) = (if bit w 0 then -1 else 0)"
  by (auto simp: and_one_eq bit_0 mod_2_eq_odd)

lemma bit_encode_sign:
  "n < 32 \<Longrightarrow> bit (encode_sign v) n = ((n \<noteq> 0 \<and> bit v (n - 1)) \<noteq> bit v 31)"
  by (cases n) (auto simp: encode_sign_def bit_simps simp del: push_bit_Suc)

lemma bit_decode_sign:
  "n < 32 \<Longrightarrow> bit (decode_sign v) n = ((n \<noteq> 31 \<and> bit v (Suc n)) \<noteq> bit v 0)"
  using bit_beyond [of 32 v] by (auto simp: decode_sign_def minus_and_one bit_simps)

lemma decode_encode_sign [simp]: "decode_sign (encode_sign v) = v"
proof (rule bit_word_eqI)
  fix n assume "n < LENGTH(32)"
  then show "bit (decode_sign (encode_sign v)) n = bit v n"
    by (cases "n = 31") (auto simp: bit_decode_sign bit_encode_sign)
qed

lemma encode_decode_sign [simp]: "encode_sign (decode_sign v) = v"
proof (rule bit_word_eqI)
  fix n assume "n < LENGTH(32)"
  then show "bit (encode_sign (decode_sign v)) n = bit v n"
    by (cases n) (auto simp: bit_decode_sign bit_encode_sign)
qed

text \<open>Bit reversal in four exchange steps, each characterised bit by bit.\<close>

definition swap_fields :: "nat \<Rightarrow> juint \<Rightarrow> juint \<Rightarrow> juint" where
  "swap_fields k m i = push_bit k (i AND m) OR (drop_bit k i AND m)"

definition swap_bytes :: "juint \<Rightarrow> juint" where
  "swap_bytes i = push_bit 24 i OR push_bit 8 (i AND 0xff00) OR (drop_bit 8 i AND 0xff00)
     OR drop_bit 24 i"

lemma reverse_int_steps:
  "reverse_int i = swap_bytes (swap_fields 4 0x0f0f0f0f
     (swap_fields 2 0x33333333 (swap_fields (Suc 0) 0x55555555 i)))"
  by (simp add: reverse_int_def swap_fields_def swap_bytes_def)

lemma bit_swap_1:
  "n < 32 \<Longrightarrow> bit (swap_fields (Suc 0) 0x55555555 i) n = bit i (if even n then n + 1 else n - 1)"
  unfolding less_32_cases swap_fields_def
  by (elim insertE emptyE; simp add: bit_simps del: push_bit_Suc flip: numeral_2_eq_2)

lemma bit_swap_2:
  "n < 32 \<Longrightarrow> bit (swap_fields 2 0x33333333 i) n = bit i (if even (n div 2) then n + 2 else n - 2)"
  unfolding less_32_cases swap_fields_def
  by (elim insertE emptyE; simp add: bit_simps del: push_bit_Suc flip: numeral_2_eq_2)

lemma bit_swap_4:
  "n < 32 \<Longrightarrow> bit (swap_fields 4 0x0f0f0f0f i) n = bit i (if even (n div 4) then n + 4 else n - 4)"
  unfolding less_32_cases swap_fields_def
  by (elim insertE emptyE; simp add: bit_simps del: push_bit_Suc flip: numeral_2_eq_2)

lemma bit_swap_bytes: "n < 32 \<Longrightarrow> bit (swap_bytes i) n = bit i (8 * (3 - n div 8) + n mod 8)"
  unfolding less_32_cases swap_bytes_def
  by (elim insertE emptyE; simp add: bit_simps bit_beyond del: push_bit_Suc flip: numeral_2_eq_2)

lemma bit_reverse_int: "n < 32 \<Longrightarrow> bit (reverse_int i) n = bit i (31 - n)"
  unfolding reverse_int_steps less_32_cases
  by (elim insertE emptyE; simp add: bit_swap_1 bit_swap_2 bit_swap_4 bit_swap_bytes
      flip: numeral_2_eq_2)

lemma reverse_int_involutive [simp]: "reverse_int (reverse_int i) = i"
  by (rule bit_word_eqI) (simp add: bit_reverse_int)

lemma bit_ffffffff: "bit (0xffffffff :: jlong) n \<longleftrightarrow> n < 32"
proof -
  have "(0xffffffff :: jlong) = mask 32" by (simp add: mask_eq_exp_minus_1)
  then show ?thesis by (simp only: bit_mask_iff) auto
qed

lemma bit_set_low: "n < 64 \<Longrightarrow> bit (set_low v lo) n = (if n < 32 then bit lo n else bit v n)"
  unfolding set_low_def bit_or_iff bit_and_iff bit_push_bit_iff bit_ffffffff bit_ucast_iff
  by (auto dest: bit_imp_le_length)

lemma bit_set_high: "n < 64 \<Longrightarrow> bit (set_high v hi) n = (if n < 32 then bit v n else bit hi (n - 32))"
  unfolding set_high_def bit_or_iff bit_and_iff bit_push_bit_iff bit_ffffffff bit_signed_iff
  by (auto dest: bit_imp_le_length)

lemma jlong_from_parts [simp]: "jlong_from (high_jint v) (low_jint v) = v"
proof (rule bit_word_eqI)
  fix n assume "n < LENGTH(64)"
  then show "bit (jlong_from (high_jint v) (low_jint v)) n = bit v n"
    by (auto simp: jlong_from_def bit_set_low bit_set_high low_jint_def high_jint_def
        bit_ucast_iff bit_signed_drop_bit_iff)
qed


section \<open>Writing emits a byte string\<close>

lemma grow_wf:
  assumes "wf_writer s" and "cs_position s < 2 ^ 30" and "full s"
  shows "\<exists>s'. grow s = Some s' \<and> wf_writer s' \<and> cs_position s' = cs_position s
    \<and> cs_position s' < length (cs_buffer s')
    \<and> take (cs_position s) (cs_buffer s') = take (cs_position s) (cs_buffer s)"
proof -
  let ?s' = "s\<lparr>cs_buffer := take (cs_position s) (cs_buffer s)
      @ replicate (cs_size s * 2 - cs_position s) None, cs_size := cs_size s * 2\<rparr>"
  have pos: "cs_position s = cs_size s" "length (cs_buffer s) = cs_size s" "0 < cs_size s"
    using assms by (auto simp: wf_writer_def full_def)
  then have "grow s = Some ?s'"
    using assms(2) by (simp add: grow_def)
  moreover have "wf_writer ?s'"
    using assms(1) pos by (simp add: wf_writer_def)
  ultimately show ?thesis using pos by simp
qed

lemma write_u_char_wf:
  assumes "wf_writer s" and "cs_position s < 2 ^ 30"
  shows "\<exists>s'. write_u_char b s = Some s' \<and> wf_writer s' \<and> written s' = written s @ [b]
    \<and> cs_position s' = cs_position s + 1"
proof -
  obtain s1 where s1: "(if full s then grow s else Some s) = Some s1" "wf_writer s1"
      "cs_position s1 = cs_position s" "cs_position s1 < length (cs_buffer s1)"
      "take (cs_position s) (cs_buffer s1) = take (cs_position s) (cs_buffer s)"
  proof (cases "full s")
    case True
    from grow_wf [OF assms True] True that show ?thesis by auto
  next
    case False
    with assms that [of s] show ?thesis by (simp add: wf_writer_def full_def)
  qed
  let ?s' = "s1\<lparr>cs_buffer := (cs_buffer s1)[cs_position s1 := Some b],
                cs_position := cs_position s1 + 1\<rparr>"
  have "write_u_char b s = Some ?s'"
    using s1 by (simp add: write_u_char_def store_def)
  moreover have "wf_writer ?s'" and "written ?s' = written s @ [b]"
    using s1 by (auto simp: wf_writer_def written_def take_Suc_conv_app_nth)
  ultimately show ?thesis using s1(3) by auto
qed

lemma full_store_eq_write: "\<not> full s \<Longrightarrow> store b s = write_u_char b s"
  by (simp add: write_u_char_def)

lemma put_all_bytes_wf:
  "wf_writer s \<Longrightarrow> cs_position s + length bs \<le> 2 ^ 30 \<Longrightarrow>
    \<exists>s'. put_all write_u_char bs s = Some s' \<and> wf_writer s' \<and> written s' = written s @ bs
      \<and> cs_position s' = cs_position s + length bs"
proof (induction bs arbitrary: s)
  case Nil
  then show ?case by simp
next
  case (Cons b bs)
  then obtain s1 where s1: "write_u_char b s = Some s1" "wf_writer s1"
      "written s1 = written s @ [b]" "cs_position s1 = cs_position s + 1"
    using write_u_char_wf [of s b] by auto
  with Cons show ?case using Cons.IH [of s1] by simp
qed

lemma put_all_Nil_fun [simp]: "put_all put [] = Some"
  by (rule ext) simp

lemma length_unsigned5_pos: "0 < length (unsigned5 i n)"
  by (subst unsigned5.simps) simp

lemma write_int_mb_loop_eq:
  "write_int_mb_loop i v s = put_all write_u_char (unsigned5 i (unat v)) s"
proof (induction i v s rule: write_int_mb_loop.induct)
  case (1 i v s)
  show ?case
  proof (cases "v < L_codes \<or> i = MAX_i")
    case True
    then show ?thesis
      by (subst write_int_mb_loop.simps, subst unsigned5.simps)
        (auto simp: word_less_nat_alt)
  next
    case False
    then have v: "192 \<le> unat v" "unat (v - 192) = unat v - 192" "i \<noteq> 4"
      by (auto simp: word_less_nat_alt word_le_nat_alt unat_sub)
    have hi: "(ucast (192 + (v - 192) mod 64) :: u_char) = of_nat (192 + (unat v - 192) mod 64)"
    proof -
      have "unat (192 + (v - 192) mod 64) = 192 + (unat v - 192) mod 64"
        using v by (simp add: unat_word_ariths unat_mod)
      then show ?thesis by (metis of_nat_unat)
    qed
    have lo: "unat (drop_bit 6 (v - 192)) = (unat v - 192) div 64"
      using v by (simp add: drop_bit_eq_div unat_div)
    have "write_int_mb_loop i v s =
        Option.bind (write_u_char (ucast (192 + (v - 192) mod 64)) s)
          (write_int_mb_loop (i + 1) (drop_bit 6 (v - 192)))"
      using False by (subst write_int_mb_loop.simps) (simp add: Let_def)
    also have "\<dots> = Option.bind (write_u_char (of_nat (192 + (unat v - 192) mod 64)) s)
          (put_all write_u_char (unsigned5 (i + 1) ((unat v - 192) div 64)))"
      using 1 [OF False refl refl]
      by (cases "write_u_char (of_nat (192 + (unat v - 192) mod 64)) s") (simp_all add: hi lo)
    also have "\<dots> = put_all write_u_char (unsigned5 i (unat v)) s"
      using v False by (subst (2) unsigned5.simps) (simp add: word_less_nat_alt)
    finally show ?thesis .
  qed
qed

lemma write_int_eq: "write_int v s = put_all write_u_char (enc_int v) s"
proof (cases "v < L_codes \<and> \<not> full s")
  case True
  then have "enc_int v = [ucast v]"
    by (simp add: enc_int_def unsigned5.simps word_less_nat_alt)
  with True show ?thesis by (simp add: write_int_def full_store_eq_write)
next
  case False
  then show ?thesis
    by (auto simp: write_int_def write_int_mb_def write_int_mb_loop_eq enc_int_def)
qed


section \<open>Reading recovers the value\<close>

lemma skip_bytes_simps [simp]:
  "skip_bytes 0 r = r"
  "skip_bytes m (skip_bytes n r) = skip_bytes (n + m) r"
  "cs_position (skip_bytes n r) = cs_position r + n"
  "buffer_at (skip_bytes n r) i = buffer_at r i"
  by (simp_all add: skip_bytes_def buffer_at_def add.assoc)

lemma upcoming_append [simp]:
  "upcoming r (bs @ cs) \<longleftrightarrow> upcoming r bs \<and> upcoming (skip_bytes (length bs) r) cs"
proof
  assume *: "upcoming r (bs @ cs)"
  have "buffer_at r (cs_position r + k) = Some (bs ! k)" if "k < length bs" for k
    using * [unfolded upcoming_def, rule_format, of k] that by (simp add: nth_append)
  moreover have "buffer_at r (cs_position r + length bs + k) = Some (cs ! k)" if "k < length cs" for k
    using * [unfolded upcoming_def, rule_format, of "length bs + k"] that
    by (simp add: nth_append add.assoc)
  ultimately show "upcoming r bs \<and> upcoming (skip_bytes (length bs) r) cs"
    by (simp add: upcoming_def)
next
  assume *: "upcoming r bs \<and> upcoming (skip_bytes (length bs) r) cs"
  have "buffer_at r (cs_position r + k) = Some ((bs @ cs) ! k)" if k: "k < length (bs @ cs)" for k
  proof (cases "k < length bs")
    case True
    with * show ?thesis by (simp add: upcoming_def nth_append)
  next
    case False
    moreover from * have "\<forall>m < length cs. buffer_at r (cs_position r + length bs + m) = Some (cs ! m)"
      by (simp add: upcoming_def)
    ultimately show ?thesis using k [simplified] by (auto simp: nth_append dest: spec [of _ "k - length bs"])
  qed
  then show "upcoming r (bs @ cs)" by (simp add: upcoming_def)
qed

lemma read_u_char_upcoming: "upcoming r [b] \<Longrightarrow> read_u_char r = Some (b, skip_bytes 1 r)"
  by (simp add: upcoming_def read_u_char_def skip_bytes_def)

lemma unat_of_nat_u_char: "n < 256 \<Longrightarrow> unat (of_nat n :: u_char) = n"
  by (simp add: unsigned_of_nat take_bit_nat_eq_self)

lemma ucast_of_nat_u_char: "n < 256 \<Longrightarrow> (ucast (of_nat n :: u_char) :: jint) = of_nat n"
  by (metis of_nat_unat unat_of_nat_u_char)

lemma push_bit_ucast_6: "push_bit (6 * k) (ucast (b :: u_char) :: jint) = of_nat (64 ^ k * unat b)"
proof -
  have "(2 :: jint) ^ (6 * k) = 64 ^ k" by (simp add: power_mult)
  then show ?thesis by (simp add: push_bit_eq_mult mult.commute)
qed

lemma read_int_mb_loop_unsigned5:
  assumes "j = i + 1" and "j \<le> 4" and "n < 2 ^ (32 - 6 * j)"
    and "\<And>k. k < length (unsigned5 j n) \<Longrightarrow> buffer_at s (pos + j + k) = Some (unsigned5 j n ! k)"
  shows "read_int_mb_loop s pos i (6 * j) v =
    Some (v + of_nat (64 ^ j * n), s\<lparr>cs_position := pos + j + length (unsigned5 j n)\<rparr>)"
  using assms
proof (induction "4 - j" arbitrary: i j n v)
  case 0
  then have j: "j = 4" "i = 3" by simp_all
  with 0 have n: "n < 256" by simp
  have u: "unsigned5 4 n = [of_nat n]" by (subst unsigned5.simps) simp
  with 0(5) [of 0] j have "buffer_at s (pos + 4) = Some (of_nat n)" by simp
  then show ?case
    using n unfolding j
    by (subst read_int_mb_loop.simps)
      (simp add: u ucast_of_nat_u_char push_bit_eq_mult mult.commute Let_def add.assoc)
next
  case (Suc d)
  have ij: "i + 1 = j" and j: "j < 4" using Suc.prems(1) Suc.hyps(2) by simp_all
  show ?case
  proof (cases "n < 192")
    case True
    have u: "unsigned5 j n = [of_nat n]"
      using True by (subst unsigned5.simps) simp
    with Suc.prems(4) [of 0] have "buffer_at s (pos + j) = Some (of_nat n)" by simp
    with True show ?thesis
      unfolding u by (subst read_int_mb_loop.simps)
        (simp only: ij, simp add: unat_of_nat_u_char push_bit_ucast_6 Let_def del: of_nat_mult)
  next
    case False
    let ?b = "192 + (n - 192) mod 64" and ?n' = "(n - 192) div 64"
    have b: "?b < 256" by simp
    have u: "unsigned5 j n = of_nat ?b # unsigned5 (j + 1) ?n'"
      using False j by (subst unsigned5.simps) simp
    from Suc.prems(4) [of 0] have b0: "buffer_at s (pos + j) = Some (of_nat ?b)"
      by (simp add: u)
    have "?n' < 2 ^ (32 - 6 * (j + 1))"
    proof -
      have "32 - 6 * j = (32 - 6 * (j + 1)) + 6" using j by simp
      then have "n < 2 ^ (32 - 6 * (j + 1)) * 64"
        using Suc.prems(3) by (simp only: power_add) simp
      then show ?thesis by (simp add: less_mult_imp_div_less)
    qed
    moreover have "buffer_at s (pos + (j + 1) + k) = Some (unsigned5 (j + 1) ?n' ! k)"
      if "k < length (unsigned5 (j + 1) ?n')" for k
      using Suc.prems(4) [of "Suc k"] that by (simp add: u)
    ultimately have IH: "read_int_mb_loop s pos j (6 * (j + 1)) w =
        Some (w + of_nat (64 ^ (j + 1) * ?n'),
              s\<lparr>cs_position := pos + (j + 1) + length (unsigned5 (j + 1) ?n')\<rparr>)" for w
      using Suc.hyps(1) [of "j + 1" j ?n' w] Suc.hyps(2) j by simp
    have total: "64 ^ j * ?b + 64 ^ (j + 1) * ?n' = 64 ^ j * n"
    proof -
      have step: "64 ^ j * (192 + r) + 64 ^ (j + 1) * q = 64 ^ j * (192 + (r + 64 * q))" for r q :: nat
        by (simp add: algebra_simps)
      from False show ?thesis by (simp only: step mod_mult_div_eq) simp
    qed
    have "read_int_mb_loop s pos i (6 * j) v =
        read_int_mb_loop s pos j (6 * (j + 1)) (v + of_nat (64 ^ j * ?b))"
      using b0 b j
      by (subst read_int_mb_loop.simps)
        (simp only: ij, simp add: unat_of_nat_u_char push_bit_ucast_6 Let_def add.commute [of 6]
          del: of_nat_mult of_nat_add)
    also have "\<dots> = Some (v + of_nat (64 ^ j * n),
        s\<lparr>cs_position := pos + j + length (unsigned5 j n)\<rparr>)"
      unfolding IH u by (simp only: add.assoc of_nat_add [symmetric] total) simp
    finally show ?thesis .
  qed
qed

lemma read_int_enc: "upcoming r (enc_int v) \<Longrightarrow> read_int r = Some (v, skip_bytes (length (enc_int v)) r)"
proof (cases "unat v < 192")
  case True
  assume up: "upcoming r (enc_int v)"
  have e: "enc_int v = [ucast v]"
    using True by (simp add: enc_int_def unsigned5.simps)
  have u: "(ucast (ucast v :: u_char) :: jint) = v"
    using True ucast_of_nat_u_char [of "unat v"] by simp
  have "unat (ucast v :: u_char) = unat v"
    using True unat_of_nat_u_char [of "unat v"] by simp
  with up e True show ?thesis by (simp add: read_int_def read_u_char_upcoming u)
next
  case False
  assume up: "upcoming r (enc_int v)"
  let ?b = "192 + (unat v - 192) mod 64" and ?n = "(unat v - 192) div 64"
  have e: "enc_int v = [of_nat ?b] @ unsigned5 1 ?n"
    using False by (simp add: enc_int_def) (subst unsigned5.simps, simp)
  have "upcoming r [of_nat ?b]" and up': "upcoming (skip_bytes 1 r) (unsigned5 1 ?n)"
    using up [unfolded e upcoming_append] by simp_all
  then have rd: "read_u_char r = Some (of_nat ?b, skip_bytes 1 r)"
    by (simp add: read_u_char_upcoming)
  have b: "unat (of_nat ?b :: u_char) = ?b" by (rule unat_of_nat_u_char) simp
  have "unat v < 2 ^ 26 * 64" using unat_32_less [of v] by (simp del: unat_32_less)
  then have "unat v - 192 < 2 ^ 26 * 64" by linarith
  then have n: "?n < 2 ^ (32 - 6 * 1)" using less_mult_imp_div_less by fastforce
  have "read_int_mb_loop (skip_bytes 1 r) (cs_position r) 0 (6 * 1) (ucast (of_nat ?b :: u_char))
     = Some (ucast (of_nat ?b :: u_char) + of_nat (64 ^ 1 * ?n),
        (skip_bytes 1 r)\<lparr>cs_position := cs_position r + 1 + length (unsigned5 1 ?n)\<rparr>)"
    using up' n
    by (intro read_int_mb_loop_unsigned5) (simp_all add: upcoming_def)
  moreover have "ucast (of_nat ?b :: u_char) + of_nat (64 ^ 1 * ?n) = v"
  proof -
    have "ucast (of_nat ?b :: u_char) = (of_nat ?b :: jint)"
      by (rule ucast_of_nat_u_char) simp
    then have "ucast (of_nat ?b :: u_char) + of_nat (64 ^ 1 * ?n) = (of_nat (?b + 64 * ?n) :: jint)"
      by (simp only: of_nat_add power_one_right)
    also have "?b + 64 * ?n = unat v" using False by simp
    finally show ?thesis by simp
  qed
  ultimately show ?thesis
    using rd b e by (simp add: read_int_def read_int_mb_def skip_bytes_def Let_def)
qed


section \<open>Bytes of a write stream, seen by a reader\<close>

lemma take_buffer_written: "wf_writer s \<Longrightarrow> take (cs_position s) (cs_buffer s) = map Some (written s)"
  by (simp add: wf_writer_def written_def map_Some_the)

lemma length_written [simp]: "wf_writer s \<Longrightarrow> length (written s) = cs_position s"
  by (simp add: wf_writer_def written_def)

lemma upcoming_written:
  assumes "wf_writer s" and "written s = xs @ bs @ ys"
  shows "upcoming (reader_at s (length xs)) bs"
  unfolding upcoming_def
proof (intro allI impI)
  fix k assume k: "k < length bs"
  let ?i = "length xs + k"
  have i: "?i < cs_position s" using assms k by (simp flip: length_written)
  then have "cs_buffer s ! ?i = take (cs_position s) (cs_buffer s) ! ?i" by simp
  also have "\<dots> = Some (bs ! k)"
    using assms k i by (simp add: take_buffer_written nth_append)
  finally show "buffer_at (reader_at s (length xs)) (cs_position (reader_at s (length xs)) + k) = Some (bs ! k)"
    using i assms(1) by (simp add: buffer_at_def reader_at_def wf_writer_def)
qed

lemma skip_reader_at [simp]: "skip_bytes n (reader_at s p) = reader_at s (p + n)"
  by (simp add: skip_bytes_def reader_at_def)

lemma put_bytes_upcoming:
  assumes "wf_writer s" and "cs_position s + length bs \<le> 2 ^ 30"
  shows "\<exists>s'. put_all write_u_char bs s = Some s' \<and> wf_writer s'
    \<and> cs_position s' = cs_position s + length bs
    \<and> take (cs_position s) (cs_buffer s') = take (cs_position s) (cs_buffer s)
    \<and> upcoming (reader_at s' (cs_position s)) bs"
proof -
  obtain s' where s': "put_all write_u_char bs s = Some s'" "wf_writer s'"
      "written s' = written s @ bs" "cs_position s' = cs_position s + length bs"
    using put_all_bytes_wf [OF assms] by auto
  have "upcoming (reader_at s' (cs_position s)) bs"
    using upcoming_written [of s' "written s" bs "[]"] s' assms(1) by simp
  moreover have "take (cs_position s) (cs_buffer s') = take (cs_position s) (cs_buffer s)"
  proof -
    have "take (cs_position s) (map Some (written s')) = map Some (written s)"
      using s'(3) assms(1) by (simp add: take_map)
    then have "take (cs_position s) (take (cs_position s') (cs_buffer s')) = map Some (written s)"
      by (simp only: take_buffer_written [OF s'(2)])
    then show ?thesis using s'(4) by (simp add: take_buffer_written [OF assms(1)] min_def)
  qed
  ultimately show ?thesis using s' by auto
qed

section \<open>The stream interface\<close>

text \<open>
  What a pair of a write and a read operation promises: writing \<open>v\<close> to a well-formed stream
  appends the byte string \<open>enc v\<close>, and reading where \<open>enc v\<close> is next gives \<open>v\<close> back
  and moves past it.  Everything about sequences of values follows from the two laws.
\<close>

locale stream_codec =
  fixes put :: "'v \<Rightarrow> CompressedWriteStream \<Rightarrow> CompressedWriteStream option"
    and get :: "CompressedStream \<Rightarrow> ('v \<times> CompressedStream) option"
    and enc :: "'v \<Rightarrow> u_char list"
  assumes put_enc: "put v s = put_all write_u_char (enc v) s"
    and get_enc: "upcoming r (enc v) \<Longrightarrow> get r = Some (v, skip_bytes (length (enc v)) r)"
begin

lemma put_all_enc: "put_all put vs s = put_all write_u_char (concat (map enc vs)) s"
proof (induction vs arbitrary: s)
  case Nil
  then show ?case by simp
next
  case (Cons v vs)
  have app: "put_all write_u_char (xs @ ys) s =
      Option.bind (put_all write_u_char xs s) (put_all write_u_char ys)" for xs ys s
    by (induction xs arbitrary: s) (auto split: bind_splits)
  from Cons show ?case by (simp add: put_enc app cong: bind_option_cong)
qed

lemma get_all_enc:
  "upcoming r (concat (map enc vs)) \<Longrightarrow>
    get_all get (length vs) r = Some (vs, skip_bytes (length (concat (map enc vs))) r)"
proof (induction vs arbitrary: r)
  case Nil
  then show ?case by simp
next
  case (Cons v vs)
  then have "get r = Some (v, skip_bytes (length (enc v)) r)"
    by (simp add: get_enc)
  with Cons.prems Cons.IH [of "skip_bytes (length (enc v)) r"] show ?case by simp
qed

lemma round_trip:
  assumes "wf_writer s" and "cs_position s + length (concat (map enc vs)) \<le> 2 ^ 30"
  shows "\<exists>s'. put_all put vs s = Some s' \<and> wf_writer s'
    \<and> take (cs_position s) (cs_buffer s') = take (cs_position s) (cs_buffer s)
    \<and> get_all get (length vs) (reader_at s' (cs_position s)) = Some (vs, reader_at s' (cs_position s'))"
  using put_bytes_upcoming [OF assms] get_all_enc by (auto simp: put_all_enc)

text \<open>A codec carried along an injection, as the typed operations carry \<open>write_int\<close>.\<close>

lemma map_codec:
  assumes "\<And>v. g (f v) = v"
  shows "stream_codec (\<lambda>v. put (f v)) (\<lambda>r. map_option (apfst g) (get r)) (\<lambda>v. enc (f v))"
  by unfold_locales (simp_all add: put_enc get_enc assms)

end

lemma put_all_append:
  "put_all put (xs @ ys) s = Option.bind (put_all put xs s) (put_all put ys)"
  by (induction xs arbitrary: s) (auto split: bind_splits)

text \<open>Two codecs in sequence, split and joined by \<open>f\<close>, \<open>g\<close> and \<open>h\<close>.\<close>

lemma stream_codec_seq:
  assumes "stream_codec put1 get1 enc1" and "stream_codec put2 get2 enc2"
    and "\<And>v. h (f v) (g v) = v"
  shows "stream_codec (\<lambda>v s. Option.bind (put1 (f v) s) (put2 (g v)))
    (\<lambda>r. case get1 r of None \<Rightarrow> None
       | Some (a, r1) \<Rightarrow> (case get2 r1 of None \<Rightarrow> None | Some (b, r2) \<Rightarrow> Some (h a b, r2)))
    (\<lambda>v. enc1 (f v) @ enc2 (g v))"
proof unfold_locales
  show "Option.bind (put1 (f v) s) (put2 (g v)) = put_all write_u_char (enc1 (f v) @ enc2 (g v)) s"
    for v s
    by (simp add: put_all_append stream_codec.put_enc [OF assms(1)]
        stream_codec.put_enc [OF assms(2), abs_def] cong: bind_option_cong)
next
  fix r v assume "upcoming r (enc1 (f v) @ enc2 (g v))"
  then have "get1 r = Some (f v, skip_bytes (length (enc1 (f v))) r)"
    and "get2 (skip_bytes (length (enc1 (f v))) r)
      = Some (g v, skip_bytes (length (enc1 (f v)) + length (enc2 (g v))) r)"
    using stream_codec.get_enc [OF assms(1), of r "f v"]
      stream_codec.get_enc [OF assms(2), of "skip_bytes (length (enc1 (f v))) r" "g v"]
    by simp_all
  then show "(case get1 r of None \<Rightarrow> None
       | Some (a, r1) \<Rightarrow> (case get2 r1 of None \<Rightarrow> None | Some (b, r2) \<Rightarrow> Some (h a b, r2)))
      = Some (v, skip_bytes (length (enc1 (f v) @ enc2 (g v))) r)"
    using assms(3) by simp
qed

interpretation byte_codec: stream_codec write_byte read_byte "\<lambda>b. [b]"
  by unfold_locales (simp_all add: write_byte_def read_byte_def read_u_char_upcoming)

interpretation bool_codec: stream_codec write_bool read_bool "\<lambda>b. [b]"
  by unfold_locales (simp_all add: write_bool_def read_bool_def read_u_char_upcoming)

interpretation int_codec: stream_codec write_int read_int enc_int
  by unfold_locales (simp_all add: write_int_eq read_int_enc)

interpretation signed_codec: stream_codec write_signed_int read_signed_int "\<lambda>v. enc_int (encode_sign v)"
  unfolding write_signed_int_def [abs_def] read_signed_int_def [abs_def]
  by (rule int_codec.map_codec) simp

interpretation char_codec: stream_codec write_char read_char "\<lambda>v. enc_int (ucast v)"
  unfolding write_char_def [abs_def] read_char_def [abs_def]
  by (rule int_codec.map_codec) (auto simp: bit_simps intro: bit_word_eqI)

interpretation short_codec: stream_codec write_short read_short "\<lambda>v. enc_int (encode_sign (scast v))"
  unfolding write_short_def [abs_def] read_short_def [abs_def]
  by (rule signed_codec.map_codec) (auto simp: bit_simps intro: bit_word_eqI)

interpretation float_codec: stream_codec write_float read_float "\<lambda>v. enc_int (reverse_int v)"
  unfolding write_float_def [abs_def] read_float_def [abs_def]
  by (rule int_codec.map_codec) simp

interpretation double_codec: stream_codec write_double read_double
  "\<lambda>v. enc_int (reverse_int (high_jint v)) @ enc_int (reverse_int (low_jint v))"
  unfolding write_double_def [abs_def] read_double_def [abs_def]
  by (rule stream_codec_seq [OF int_codec.stream_codec_axioms int_codec.stream_codec_axioms]) simp

interpretation long_codec: stream_codec write_long read_long
  "\<lambda>v. enc_int (encode_sign (low_jint v)) @ enc_int (encode_sign (high_jint v))"
  unfolding write_long_def [abs_def] read_long_def [abs_def]
  by (rule stream_codec_seq [OF signed_codec.stream_codec_axioms signed_codec.stream_codec_axioms]) simp


section \<open>Mixed sequences\<close>

text \<open>
  The debug information recorder interleaves values of all kinds; the reader knows the
  kinds.  An item names its kind and its value, and reading takes the kind from an item.
\<close>

datatype stream_item =
    Bool_item u_char | Byte_item u_char | Char_item jchar | Short_item "16 word"
  | Int_item jint | Signed_item jint | Float_item "32 word" | Double_item "64 word" | Long_item jlong

fun put_item :: "stream_item \<Rightarrow> CompressedWriteStream \<Rightarrow> CompressedWriteStream option" where
  "put_item (Bool_item v) = write_bool v"
| "put_item (Byte_item v) = write_byte v"
| "put_item (Char_item v) = write_char v"
| "put_item (Short_item v) = write_short v"
| "put_item (Int_item v) = write_int v"
| "put_item (Signed_item v) = write_signed_int v"
| "put_item (Float_item v) = write_float v"
| "put_item (Double_item v) = write_double v"
| "put_item (Long_item v) = write_long v"

fun get_item :: "stream_item \<Rightarrow> CompressedStream \<Rightarrow> (stream_item \<times> CompressedStream) option" where
  "get_item (Bool_item _) r = map_option (apfst Bool_item) (read_bool r)"
| "get_item (Byte_item _) r = map_option (apfst Byte_item) (read_byte r)"
| "get_item (Char_item _) r = map_option (apfst Char_item) (read_char r)"
| "get_item (Short_item _) r = map_option (apfst Short_item) (read_short r)"
| "get_item (Int_item _) r = map_option (apfst Int_item) (read_int r)"
| "get_item (Signed_item _) r = map_option (apfst Signed_item) (read_signed_int r)"
| "get_item (Float_item _) r = map_option (apfst Float_item) (read_float r)"
| "get_item (Double_item _) r = map_option (apfst Double_item) (read_double r)"
| "get_item (Long_item _) r = map_option (apfst Long_item) (read_long r)"

fun get_items :: "stream_item list \<Rightarrow> CompressedStream \<Rightarrow> (stream_item list \<times> CompressedStream) option" where
  "get_items [] r = Some ([], r)"
| "get_items (k # ks) r =
    (case get_item k r of
       None \<Rightarrow> None
     | Some (v, r') \<Rightarrow> map_option (apfst ((#) v)) (get_items ks r'))"

fun enc_item :: "stream_item \<Rightarrow> u_char list" where
  "enc_item (Bool_item v) = [v]"
| "enc_item (Byte_item v) = [v]"
| "enc_item (Char_item v) = enc_int (ucast v)"
| "enc_item (Short_item v) = enc_int (encode_sign (scast v))"
| "enc_item (Int_item v) = enc_int v"
| "enc_item (Signed_item v) = enc_int (encode_sign v)"
| "enc_item (Float_item v) = enc_int (reverse_int v)"
| "enc_item (Double_item v) = enc_int (reverse_int (high_jint v)) @ enc_int (reverse_int (low_jint v))"
| "enc_item (Long_item v) = enc_int (encode_sign (low_jint v)) @ enc_int (encode_sign (high_jint v))"

lemmas codec_puts = bool_codec.put_enc byte_codec.put_enc char_codec.put_enc short_codec.put_enc
  int_codec.put_enc signed_codec.put_enc float_codec.put_enc double_codec.put_enc long_codec.put_enc

lemmas codec_gets = bool_codec.get_enc byte_codec.get_enc char_codec.get_enc short_codec.get_enc
  int_codec.get_enc signed_codec.get_enc float_codec.get_enc double_codec.get_enc long_codec.get_enc

lemma put_item_enc: "put_item x s = put_all write_u_char (enc_item x) s"
  by (cases x) (simp_all only: put_item.simps enc_item.simps codec_puts)

lemma get_item_enc: "upcoming r (enc_item x) \<Longrightarrow> get_item x r = Some (x, skip_bytes (length (enc_item x)) r)"
  by (cases x) (simp_all only: get_item.simps enc_item.simps codec_gets, simp_all)

lemma put_items_enc: "put_all put_item xs s = put_all write_u_char (concat (map enc_item xs)) s"
  by (induction xs arbitrary: s)
    (simp_all add: put_item_enc put_all_append cong: bind_option_cong)

lemma get_items_enc:
  "upcoming r (concat (map enc_item xs)) \<Longrightarrow>
    get_items xs r = Some (xs, skip_bytes (length (concat (map enc_item xs))) r)"
proof (induction xs arbitrary: r)
  case Nil
  then show ?case by simp
next
  case (Cons x xs)
  then have "get_item x r = Some (x, skip_bytes (length (enc_item x)) r)"
    by (simp add: get_item_enc)
  with Cons.prems Cons.IH [of "skip_bytes (length (enc_item x)) r"] show ?case by simp
qed

lemma length_unsigned5: "i \<le> 4 \<Longrightarrow> length (unsigned5 i n) \<le> 5 - i"
proof (induction i n rule: unsigned5.induct)
  case (1 i n)
  then show ?case by (subst unsigned5.simps) auto
qed

lemma length_enc_int: "length (enc_int v) \<le> 5"
  using length_unsigned5 [of 0] by (simp add: enc_int_def)

lemma length_enc_item: "length (enc_item x) \<le> 10"
  using length_enc_int
  by (cases x) (auto intro!: add_le_mono [of _ 5 _ 5, simplified] intro: le_trans [of _ 5 10])

lemma length_enc_items: "length (concat (map enc_item xs)) \<le> 10 * length xs"
  by (induction xs) (use length_enc_item in \<open>auto intro: add_le_mono\<close>)


lemma unsigned5_grammar:
  "i \<le> 4 \<Longrightarrow> n < 2 ^ (32 - 6 * i) \<Longrightarrow>
    (\<forall>k < length (unsigned5 i n) - 1. 192 \<le> unat (unsigned5 i n ! k))
    \<and> (unat (last (unsigned5 i n)) < 192 \<or> i + length (unsigned5 i n) = 5)"
proof (induction i n rule: unsigned5.induct)
  case (1 i n)
  show ?case
  proof (cases "n < 192 \<or> i = 4")
    case True
    then have "unsigned5 i n = [of_nat n]" by (subst unsigned5.simps) simp
    then show ?thesis using True by (auto simp: unat_of_nat_u_char)
  next
    case False
    let ?n' = "(n - 192) div 64"
    have u: "unsigned5 i n = of_nat (192 + (n - 192) mod 64) # unsigned5 (i + 1) ?n'"
      using False by (subst unsigned5.simps) simp
    have hi: "unat (of_nat (192 + (n - 192) mod 64) :: u_char) = 192 + (n - 192) mod 64"
      by (rule unat_of_nat_u_char) simp
    have "32 - 6 * i = (32 - 6 * (i + 1)) + 6" using False 1(2) by simp
    then have "n < 2 ^ (32 - 6 * (i + 1)) * 64" using 1(3) by (simp only: power_add) simp
    then have "?n' < 2 ^ (32 - 6 * (i + 1))" by (simp add: less_mult_imp_div_less)
    with 1(1) [OF False] False 1(2)
    have IH: "\<forall>k < length (unsigned5 (i + 1) ?n') - 1. 192 \<le> unat (unsigned5 (i + 1) ?n' ! k)"
      "unat (last (unsigned5 (i + 1) ?n')) < 192 \<or> i + 1 + length (unsigned5 (i + 1) ?n') = 5"
      by auto
    have "192 \<le> unat (unsigned5 i n ! k)" if "k < length (unsigned5 i n) - 1" for k
      using that IH(1) hi unfolding u by (cases k) (auto simp del: of_nat_add)
    moreover have "unat (last (unsigned5 i n)) < 192 \<or> i + length (unsigned5 i n) = 5"
      using IH(2) length_unsigned5_pos [of "i + 1" ?n'] unfolding u by auto
    ultimately show ?thesis by blast
  qed
qed

section \<open>Properties\<close>

text \<open>
  C30: Any sequence of writes of booleans, bytes, chars, shorts, ints, signed ints, floats,
  doubles and longs to a well-formed stream succeeds, leaves what was written before
  untouched, and the same sequence of reads from where the writing started gives the same
  values back and ends where the writing ended.
\<close>

theorem compressed_stream_round_trip:
  assumes "wf_writer s" and "cs_position s + 10 * length xs \<le> 2 ^ 30"
  shows "\<exists>s'. put_all put_item xs s = Some s' \<and> wf_writer s'
    \<and> take (cs_position s) (cs_buffer s') = take (cs_position s) (cs_buffer s)
    \<and> get_items xs (reader_at s' (cs_position s)) = Some (xs, reader_at s' (cs_position s'))"
proof -
  have "cs_position s + length (concat (map enc_item xs)) \<le> 2 ^ 30"
    using assms(2) length_enc_items [of xs] by linarith
  from put_bytes_upcoming [OF assms(1) this] get_items_enc show ?thesis
    by (fastforce simp: put_items_enc)
qed

theorem compressed_stream_round_trip_witness:
  "\<exists>s'. put_all put_item [Int_item 300, Long_item (-1), Float_item 0x3f800000, Bool_item 1]
        (new_write_stream 1) = Some s'
    \<and> get_items [Int_item 300, Long_item (-1), Float_item 0x3f800000, Bool_item 1] (reader_at s' 0)
      = Some ([Int_item 300, Long_item (-1), Float_item 0x3f800000, Bool_item 1],
              reader_at s' (cs_position s'))"
  using compressed_stream_round_trip [of "new_write_stream 1"
      "[Int_item 300, Long_item (-1), Float_item 0x3f800000, Bool_item 1]"]
  by (fastforce simp: wf_writer_def new_write_stream_def)

text \<open>
  C31: The UNSIGNED5 grammar holds for what \<open>write_int\<close> appends: one to five bytes, one byte
  exactly for the values below 192, every byte but the last a high code (192 or more), and
  the last a low code unless it is the fifth.
\<close>

theorem write_int_unsigned5_grammar:
  assumes "wf_writer s" and "cs_position s + 5 \<le> 2 ^ 30"
  shows "\<exists>s' bs. write_int v s = Some s' \<and> wf_writer s' \<and> written s' = written s @ bs
    \<and> 1 \<le> length bs \<and> length bs \<le> 5 \<and> (length bs = 1 \<longleftrightarrow> unat v < 192)
    \<and> (\<forall>k < length bs - 1. 192 \<le> unat (bs ! k)) \<and> (unat (last bs) < 192 \<or> length bs = 5)"
proof -
  have len: "1 \<le> length (enc_int v)" "length (enc_int v) \<le> 5"
    using length_unsigned5_pos [of 0 "unat v"] length_enc_int by (simp_all add: enc_int_def Suc_le_eq)
  have one: "length (enc_int v) = 1 \<longleftrightarrow> unat v < 192"
    using length_unsigned5_pos [of 1] by (subst enc_int_def, subst unsigned5.simps) auto
  have gram: "(\<forall>k < length (enc_int v) - 1. 192 \<le> unat (enc_int v ! k))
      \<and> (unat (last (enc_int v)) < 192 \<or> length (enc_int v) = 5)"
    using unsigned5_grammar [of 0 "unat v"] unat_32_less [of v]
    by (simp add: enc_int_def del: unat_32_less)
  obtain s' where "write_int v s = Some s'" "wf_writer s'" "written s' = written s @ enc_int v"
    using put_all_bytes_wf [of s "enc_int v"] assms len by (auto simp: write_int_eq)
  with len one gram show ?thesis by blast
qed

theorem write_int_unsigned5_grammar_witness:
  "\<exists>s' bs. write_int 192 (new_write_stream 4) = Some s' \<and> written s' = bs \<and> length bs \<le> 5
     \<and> length bs \<noteq> 1"
  using write_int_unsigned5_grammar [of "new_write_stream 4" 192]
  by (fastforce simp: wf_writer_def new_write_stream_def written_def)


lemma encode_sign_cases: "encode_sign v = (if 0 \<le> sint v then 2 * v else - 1 - 2 * v)"
proof -
  have sgn: "signed_drop_bit 31 v = (if bit v 31 then - 1 else 0)"
  proof (rule bit_word_eqI)
    fix n assume "n < LENGTH(32)"
    then show "bit (signed_drop_bit 31 v) n = bit (if bit v 31 then - 1 else 0 :: jint) n"
      by (cases n) (auto simp: bit_simps)
  qed
  have "bit v 31 \<longleftrightarrow> sint v < 0"
    using bit_last_iff [of v] by simp
  then show ?thesis
    by (auto simp: encode_sign_def sgn push_bit_eq_mult mult.commute not_eq_complement)
qed

lemma uint_encode_sign:
  "uint (encode_sign v) = (if 0 \<le> sint v then 2 * sint v else - 2 * sint v - 1)"
proof -
  let ?x = "sint v"
  have x: "- 2147483648 \<le> ?x" "?x < 2147483648" using sint_ge [of v] sint_lt [of v] by simp_all
  have v: "v = of_int ?x" by simp
  have "encode_sign v = of_int (if 0 \<le> ?x then 2 * ?x else - 2 * ?x - 1)"
    unfolding encode_sign_cases by (subst (2 3) v) (simp del: of_int_sint)
  then have "uint (encode_sign v) = (if 0 \<le> ?x then 2 * ?x else - 2 * ?x - 1) mod 4294967296"
    by (simp add: uint_word_of_int)
  also have "\<dots> = (if 0 \<le> ?x then 2 * ?x else - 2 * ?x - 1)"
    using x by (intro mod_pos_pos_trivial) auto
  finally show ?thesis .
qed

text \<open>
  The sign coding is the zig-zag numbering of the integers: a non-negative \<open>v\<close> has the
  code \<open>2 v\<close>, a negative one \<open>- 2 v - 1\<close>, and decoding inverts it; a value of small
  magnitude therefore has a small code.
\<close>

theorem encode_sign_zigzag:
  "int (unat (encode_sign v)) = (if 0 \<le> sint v then 2 * sint v else - 2 * sint v - 1)
    \<and> decode_sign (encode_sign v) = v"
  using uint_encode_sign [of v] by simp

end
