(* ===== verification/Signature.thy ===== *)
theory Signature
  imports VM_Prelude
begin

text \<open>
  Java signatures: \<open>src/share/vm/runtime/signature.hpp\<close> and \<open>.cpp\<close>.

  A signature is the bytes of its symbol.  \<open>SignatureIterator\<close> is a record of the fields that
  change during an iteration, with the virtual calls made so far, in order; its subclasses
  are functions of those calls.  \<open>SignatureStream\<close> is a record of its position.  A read
  outside the signature is \<open>Undefined_Behaviour\<close>.
\<close>

unbundle bit_operations_syntax

section \<open>Basic types\<close>

datatype BasicType =
    T_BOOLEAN | T_CHAR | T_FLOAT | T_DOUBLE | T_BYTE | T_SHORT | T_INT | T_LONG
  | T_OBJECT | T_ARRAY | T_VOID | T_ILLEGAL

fun basic_type_code :: "BasicType \<Rightarrow> nat" where
  "basic_type_code T_BOOLEAN = 4"
| "basic_type_code T_CHAR = 5"
| "basic_type_code T_FLOAT = 6"
| "basic_type_code T_DOUBLE = 7"
| "basic_type_code T_BYTE = 8"
| "basic_type_code T_SHORT = 9"
| "basic_type_code T_INT = 10"
| "basic_type_code T_LONG = 11"
| "basic_type_code T_OBJECT = 12"
| "basic_type_code T_ARRAY = 13"
| "basic_type_code T_VOID = 14"
| "basic_type_code T_ILLEGAL = 99"

fun type_size :: "BasicType \<Rightarrow> int" where
  "type_size T_LONG = 2"
| "type_size T_DOUBLE = 2"
| "type_size T_VOID = 0"
| "type_size _ = 1"

section \<open>The iterator\<close>

text \<open>The virtual calls: one per primitive type (\<open>do_bool\<close> is \<open>Do_Base T_BOOLEAN\<close> and so
  on, \<open>do_void\<close> included), and \<open>do_object\<close> and \<open>do_array\<close> with the range of their entry.\<close>

datatype sig_call = Do_Base BasicType | Do_Object nat nat | Do_Array nat nat

record SignatureIterator =
  si_index :: nat
  si_parameter_index :: int
  si_return_type :: BasicType
  si_calls :: "sig_call list"

definition new_iterator :: SignatureIterator where
  "new_iterator = \<lparr>si_index = 0, si_parameter_index = 0, si_return_type = T_ILLEGAL, si_calls = []\<rparr>"

definition byte_at :: "symbol \<Rightarrow> nat \<Rightarrow> fault + u_char" where
  "byte_at sig i = (case nth_opt sig i of None \<Rightarrow> Inl Undefined_Behaviour | Some c \<Rightarrow> Inr c)"

lemma byte_at_Inr: "byte_at sig i = Inr c \<longleftrightarrow> i < length sig \<and> sig ! i = c"
  by (auto simp: byte_at_def nth_opt_def)

definition si_expect :: "symbol \<Rightarrow> u_char \<Rightarrow> SignatureIterator \<Rightarrow> fault + SignatureIterator" where
  "si_expect sig c it = rbind (byte_at sig (si_index it)) (\<lambda>b.
     if b \<noteq> c then Inl Should_Not_Reach_Here else Inr (it\<lparr>si_index := si_index it + 1\<rparr>))"

function skip_optional_size :: "symbol \<Rightarrow> nat \<Rightarrow> fault + nat" where
  "skip_optional_size sig i = rbind (byte_at sig i) (\<lambda>c.
     if 48 \<le> c \<and> c \<le> 57 then skip_optional_size sig (i + 1) else Inr i)"
  by pat_completeness auto
termination
  by (relation "measure (\<lambda>(sig, i). length sig - i)") (auto simp: byte_at_Inr)

text \<open>\<open>while (sig->byte_at(_index++) != ';') ;\<close>\<close>

function skip_past_semicolon :: "symbol \<Rightarrow> nat \<Rightarrow> fault + nat" where
  "skip_past_semicolon sig i = rbind (byte_at sig i) (\<lambda>c.
     if c \<noteq> 59 then skip_past_semicolon sig (i + 1) else Inr (i + 1))"
  by pat_completeness auto
termination
  by (relation "measure (\<lambda>(sig, i). length sig - i)") (auto simp: byte_at_Inr)

declare skip_optional_size.simps [simp del] skip_past_semicolon.simps [simp del]

lemma skip_optional_size_bounds: "skip_optional_size sig i = Inr j \<Longrightarrow> i \<le> j \<and> j < length sig"
proof (induction sig i rule: skip_optional_size.induct)
  case (1 sig i)
  then show ?case
    by (subst (asm) skip_optional_size.simps)
      (fastforce simp: rbind_Inr_iff byte_at_Inr split: if_splits)
qed

lemma skip_past_semicolon_bounds: "skip_past_semicolon sig i = Inr j \<Longrightarrow> i < j \<and> j \<le> length sig"
proof (induction sig i rule: skip_past_semicolon.induct)
  case (1 sig i)
  then show ?case
    by (subst (asm) skip_past_semicolon.simps)
      (fastforce simp: rbind_Inr_iff byte_at_Inr split: if_splits)
qed

text \<open>The loop over further \<open>[\<close> of an array type, each followed by an optional size.\<close>

function skip_dimensions :: "symbol \<Rightarrow> nat \<Rightarrow> fault + nat" where
  "skip_dimensions sig i = rbind (byte_at sig i) (\<lambda>c.
     if c = 91 then rbind (skip_optional_size sig (i + 1)) (skip_dimensions sig) else Inr i)"
  by pat_completeness auto
termination
  by (relation "measure (\<lambda>(sig, i). length sig - i)")
    (auto simp: byte_at_Inr dest!: skip_optional_size_bounds)

declare skip_dimensions.simps [simp del]

lemma skip_dimensions_bounds: "skip_dimensions sig i = Inr j \<Longrightarrow> i \<le> j \<and> j < length sig"
proof (induction sig i rule: skip_dimensions.induct)
  case (1 sig i)
  from "1.prems" obtain c where c: "byte_at sig i = Inr c"
    and rest: "(if c = 91 then rbind (skip_optional_size sig (i + 1)) (skip_dimensions sig)
      else Inr i) = Inr j"
    by (subst (asm) skip_dimensions.simps) (auto simp: rbind_Inr_iff)
  show ?case
  proof (cases "c = 91")
    case True
    then obtain k where k: "skip_optional_size sig (i + 1) = Inr k" "skip_dimensions sig k = Inr j"
      using rest by (auto simp: rbind_Inr_iff)
    then show ?thesis using "1.IH" [OF c True k] skip_optional_size_bounds [OF k(1)] by simp
  next
    case False
    then show ?thesis using rest c by (simp add: byte_at_Inr)
  qed
qed

text \<open>The end of an array type whose entry begins at \<open>i\<close>, after its first \<open>[\<close>.\<close>

definition array_end :: "symbol \<Rightarrow> nat \<Rightarrow> fault + nat" where
  "array_end sig i = rbind (skip_optional_size sig i) (\<lambda>j. rbind (skip_dimensions sig j) (\<lambda>k.
     rbind (byte_at sig k) (\<lambda>c. if c = 76 then skip_past_semicolon sig k else Inr (k + 1))))"

lemma array_end_bounds: "array_end sig i = Inr j \<Longrightarrow> i < j \<and> j \<le> length sig"
  by (fastforce simp: array_end_def rbind_Inr_iff byte_at_Inr split: if_splits
      dest!: skip_optional_size_bounds skip_dimensions_bounds skip_past_semicolon_bounds)

definition si_call :: "sig_call \<Rightarrow> BasicType \<Rightarrow> SignatureIterator \<Rightarrow> SignatureIterator" where
  "si_call c t it = it\<lparr>si_calls := si_calls it @ [c],
     si_return_type := (if si_parameter_index it < 0 then t else si_return_type it)\<rparr>"

fun base_type :: "u_char \<Rightarrow> BasicType option" where
  "base_type c =
    (if c = 66 then Some T_BYTE else if c = 67 then Some T_CHAR else if c = 68 then Some T_DOUBLE
     else if c = 70 then Some T_FLOAT else if c = 73 then Some T_INT else if c = 74 then Some T_LONG
     else if c = 83 then Some T_SHORT else if c = 90 then Some T_BOOLEAN
     else if c = 86 then Some T_VOID else None)"

declare base_type.simps [simp del]

definition parse_type :: "symbol \<Rightarrow> SignatureIterator \<Rightarrow> fault + (int \<times> SignatureIterator)" where
  "parse_type sig it = rbind (byte_at sig (si_index it)) (\<lambda>c.
     case base_type c of
       Some t \<Rightarrow> Inr (type_size t, (si_call (Do_Base t) t it)\<lparr>si_index := si_index it + 1\<rparr>)
     | None \<Rightarrow>
         let begn = si_index it + 1 in
         if c = 76 then
           rbind (skip_past_semicolon sig begn) (\<lambda>e.
             Inr (type_size T_OBJECT, (si_call (Do_Object begn e) T_OBJECT it)\<lparr>si_index := e\<rparr>))
         else if c = 91 then
           rbind (array_end sig begn) (\<lambda>e.
             Inr (type_size T_ARRAY, (si_call (Do_Array begn e) T_ARRAY it)\<lparr>si_index := e\<rparr>))
         else Inl Should_Not_Reach_Here)"

lemma parse_type_progress:
  "parse_type sig it = Inr (n, it') \<Longrightarrow> si_index it < si_index it' \<and> si_index it' \<le> length sig"
  by (auto simp: parse_type_def rbind_Inr_iff byte_at_Inr Let_def split: option.splits if_splits
      dest!: skip_past_semicolon_bounds array_end_bounds)

text \<open>\<open>while (_signature->byte_at(_index) != ')') _parameter_index += parse_type();\<close>\<close>

function parse_parameters :: "symbol \<Rightarrow> SignatureIterator \<Rightarrow> fault + SignatureIterator" where
  "parse_parameters sig it = rbind (byte_at sig (si_index it)) (\<lambda>c.
     if c = 41 then Inr it
     else rbind (parse_type sig it) (\<lambda>(n, it').
       parse_parameters sig (it'\<lparr>si_parameter_index := si_parameter_index it + n\<rparr>)))"
  by pat_completeness auto
termination
  by (relation "measure (\<lambda>(sig, it). length sig - si_index it)")
    (auto simp: byte_at_Inr dest!: parse_type_progress)

declare parse_parameters.simps [simp del]

definition iterate_parameters :: "symbol \<Rightarrow> SignatureIterator \<Rightarrow> fault + SignatureIterator" where
  "iterate_parameters sig it =
     rbind (si_expect sig 40 (it\<lparr>si_index := 0, si_parameter_index := 0\<rparr>)) (\<lambda>it.
     rbind (parse_parameters sig it) (\<lambda>it.
     rbind (si_expect sig 41 it) (\<lambda>it. Inr (it\<lparr>si_parameter_index := 0\<rparr>))))"

text \<open>\<open>check_signature_end\<close> only prints.\<close>

definition dispatch_field :: "symbol \<Rightarrow> SignatureIterator \<Rightarrow> fault + SignatureIterator" where
  "dispatch_field sig it =
     rbind (parse_type sig (it\<lparr>si_index := 0, si_parameter_index := 0\<rparr>)) (\<lambda>(n, it). Inr it)"

definition parse_return :: "symbol \<Rightarrow> SignatureIterator \<Rightarrow> fault + SignatureIterator" where
  "parse_return sig it =
     rbind (si_expect sig 41 it) (\<lambda>it.
     rbind (parse_type sig (it\<lparr>si_parameter_index := - 1\<rparr>)) (\<lambda>(n, it).
       Inr (it\<lparr>si_parameter_index := 0\<rparr>)))"

definition iterate :: "symbol \<Rightarrow> SignatureIterator \<Rightarrow> fault + SignatureIterator" where
  "iterate sig it =
     rbind (si_expect sig 40 (it\<lparr>si_index := 0, si_parameter_index := 0\<rparr>)) (\<lambda>it.
     rbind (parse_parameters sig it) (parse_return sig))"

text \<open>The loop of \<open>iterate_returntype\<close> over the parameters, which it only skips.\<close>

function skip_parameters :: "symbol \<Rightarrow> nat \<Rightarrow> fault + nat" where
  "skip_parameters sig i = rbind (byte_at sig i) (\<lambda>c.
     if c = 41 then Inr i
     else if base_type c \<noteq> None then skip_parameters sig (i + 1)
     else if c = 76 then rbind (skip_past_semicolon sig i) (skip_parameters sig)
     else if c = 91 then rbind (array_end sig (i + 1)) (skip_parameters sig)
     else Inl Should_Not_Reach_Here)"
  by pat_completeness auto
termination
  by (relation "measure (\<lambda>(sig, i). length sig - i)")
    (auto simp: byte_at_Inr dest!: skip_past_semicolon_bounds array_end_bounds)

declare skip_parameters.simps [simp del]

definition iterate_returntype :: "symbol \<Rightarrow> SignatureIterator \<Rightarrow> fault + SignatureIterator" where
  "iterate_returntype sig it =
     rbind (si_expect sig 40 (it\<lparr>si_index := 0\<rparr>)) (\<lambda>it.
     rbind (skip_parameters sig (si_index it)) (\<lambda>i. parse_return sig (it\<lparr>si_index := i\<rparr>)))"

subsection \<open>Subclasses\<close>

fun call_type :: "sig_call \<Rightarrow> BasicType" where
  "call_type (Do_Base t) = t"
| "call_type (Do_Object b e) = T_OBJECT"
| "call_type (Do_Array b e) = T_ARRAY"

text \<open>\<open>ArgumentSizeComputer\<close>, \<open>ArgumentCount\<close> and \<open>ResultTypeFinder\<close> on a fresh object:
  their \<open>set\<close> is called with the size and type of each entry.\<close>

definition ArgumentSizeComputer_size :: "symbol \<Rightarrow> fault + int" where
  "ArgumentSizeComputer_size sig = rbind (iterate_parameters sig new_iterator) (\<lambda>it.
     Inr (fold (\<lambda>c size. size + type_size (call_type c)) (si_calls it) 0))"

definition ArgumentCount_size :: "symbol \<Rightarrow> fault + int" where
  "ArgumentCount_size sig = rbind (iterate_parameters sig new_iterator) (\<lambda>it.
     Inr (fold (\<lambda>c size. size + 1) (si_calls it) 0))"

definition ResultTypeFinder_type :: "symbol \<Rightarrow> fault + BasicType" where
  "ResultTypeFinder_type sig = rbind (iterate_returntype sig new_iterator) (\<lambda>it.
     Inr (fold (\<lambda>c t. call_type c) (si_calls it) (si_return_type it)))"

subsection \<open>Fingerprints\<close>

definition static_feature_size :: nat where "static_feature_size = 1"
definition result_feature_size :: nat where "result_feature_size = 4"
definition parameter_feature_size :: nat where "parameter_feature_size = 4"
definition parameter_feature_mask :: "64 word" where "parameter_feature_mask = 0xF"
definition done_parm :: "64 word" where "done_parm = 10"
definition max_size_of_parameters :: int where
  "max_size_of_parameters = (64 - 1 - 4 - 4 - 1) div 4"

lemmas feature_defs = static_feature_size_def result_feature_size_def parameter_feature_size_def
  parameter_feature_mask_def done_parm_def max_size_of_parameters_def

text \<open>The code of a parameter; \<open>do_void\<close> of \<open>Fingerprinter\<close> is a \<open>ShouldNotReachHere\<close>.\<close>

fun parm_code :: "sig_call \<Rightarrow> 64 word option" where
  "parm_code (Do_Base t) =
    (case t of
       T_BOOLEAN \<Rightarrow> Some 1 | T_BYTE \<Rightarrow> Some 2 | T_CHAR \<Rightarrow> Some 3 | T_SHORT \<Rightarrow> Some 4 | T_INT \<Rightarrow> Some 5
     | T_LONG \<Rightarrow> Some 6 | T_FLOAT \<Rightarrow> Some 7 | T_DOUBLE \<Rightarrow> Some 8 | _ \<Rightarrow> None)"
| "parm_code (Do_Object b e) = Some 9"
| "parm_code (Do_Array b e) = Some 9"

definition fingerprint_call :: "sig_call \<Rightarrow> 64 word \<times> nat \<Rightarrow> fault + 64 word \<times> nat" where
  "fingerprint_call c s =
    (case parm_code c of
       None \<Rightarrow> Inl Should_Not_Reach_Here
     | Some p \<Rightarrow>
         if snd s \<ge> 64 then Inl Undefined_Behaviour
         else Inr (fst s OR push_bit (snd s) p, snd s + parameter_feature_size))"

fun fingerprint_calls :: "sig_call list \<Rightarrow> 64 word \<times> nat \<Rightarrow> fault + 64 word \<times> nat" where
  "fingerprint_calls [] s = Inr s"
| "fingerprint_calls (c # cs) s = rbind (fingerprint_call c s) (fingerprint_calls cs)"

text \<open>The fields of the method that \<open>Fingerprinter::fingerprint\<close> reads, and the cached
  fingerprint that it sets.\<close>

record method_info =
  mi_signature :: symbol
  mi_is_static :: bool
  mi_size_of_parameters :: int
  mi_result_type :: BasicType
  mi_fingerprint :: "64 word"

definition fingerprint :: "method_info \<Rightarrow> fault + 64 word \<times> method_info" where
  "fingerprint mh =
    (if mi_fingerprint mh \<noteq> 0 then Inr (mi_fingerprint mh, mh)
     else if mi_size_of_parameters mh > max_size_of_parameters
       then Inr (- 1, mh\<lparr>mi_fingerprint := - 1\<rparr>)
     else
       let fp = push_bit static_feature_size (of_nat (basic_type_code (mi_result_type mh)));
           fp = (if mi_is_static mh then fp OR 1 else fp)
       in rbind (iterate_parameters (mi_signature mh) new_iterator) (\<lambda>it.
          rbind (fingerprint_calls (si_calls it) (fp, result_feature_size + static_feature_size))
            (\<lambda>(fp, shift).
              if shift \<ge> 64 then Inl Undefined_Behaviour
              else let fp = fp OR push_bit shift done_parm
                   in Inr (fp, mh\<lparr>mi_fingerprint := fp\<rparr>))))"

text \<open>The optimised \<open>iterate_parameters\<close>: the loop over the four-bit codes.  The loop has no
  exit but \<open>done_parm\<close>, whose \<open>return\<close> skips the final reset of \<open>_parameter_index\<close>.\<close>

definition parm_call :: "64 word \<Rightarrow> sig_call option" where
  "parm_call p =
    (if p = 1 then Some (Do_Base T_BOOLEAN) else if p = 2 then Some (Do_Base T_BYTE)
     else if p = 3 then Some (Do_Base T_CHAR) else if p = 4 then Some (Do_Base T_SHORT)
     else if p = 5 then Some (Do_Base T_INT) else if p = 9 then Some (Do_Object 0 0)
     else if p = 6 then Some (Do_Base T_LONG) else if p = 7 then Some (Do_Base T_FLOAT)
     else if p = 8 then Some (Do_Base T_DOUBLE) else None)"

lemma parm_call_nonzero: "parm_call (fp AND parameter_feature_mask) = Some c \<Longrightarrow> fp \<noteq> 0"
  by (auto simp: parm_call_def)

lemma drop_bit_less: "(w :: 64 word) \<noteq> 0 \<Longrightarrow> unat (drop_bit 4 w) < unat w"
proof -
  assume "w \<noteq> 0"
  then have "0 < unat w" by (simp add: unat_gt_0)
  then show ?thesis by (simp add: drop_bit_eq_div unat_div)
qed

function fingerprint_loop :: "64 word \<Rightarrow> SignatureIterator \<Rightarrow> fault + SignatureIterator" where
  "fingerprint_loop fp it =
    (case parm_call (fp AND parameter_feature_mask) of
       Some c \<Rightarrow>
         fingerprint_loop (drop_bit parameter_feature_size fp)
           (it\<lparr>si_calls := si_calls it @ [c],
               si_parameter_index := si_parameter_index it + type_size (call_type c)\<rparr>)
     | None \<Rightarrow>
         if fp AND parameter_feature_mask = done_parm then Inr it else Inl Should_Not_Reach_Here)"
  by pat_completeness auto
termination
  by (relation "measure (\<lambda>(fp, it). unat fp)")
    (auto simp: parameter_feature_size_def intro: drop_bit_less dest: parm_call_nonzero)

declare fingerprint_loop.simps [simp del]

definition iterate_parameters_fp ::
    "symbol \<Rightarrow> 64 word \<Rightarrow> SignatureIterator \<Rightarrow> fault + SignatureIterator" where
  "iterate_parameters_fp sig fp it =
    (if fp = - 1 then iterate_parameters sig it
     else fingerprint_loop (drop_bit (static_feature_size + result_feature_size) fp)
            (it\<lparr>si_parameter_index := 0\<rparr>))"

subsection \<open>Native calls\<close>

text \<open>\<open>NativeSignatureIterator\<close> on a 64-bit machine.  \<open>ni_passes\<close> holds the calls of \<open>pass_int\<close>,
  \<open>pass_long\<close> and so on, each with the values of \<open>offset()\<close> and \<open>jni_offset()\<close> it sees.\<close>

datatype native_pass = Pass_Int | Pass_Long | Pass_Object | Pass_Float | Pass_Double

record NativeIterator =
  ni_offset :: int
  ni_prepended :: int
  ni_jni_offset :: int
  ni_passes :: "(native_pass \<times> int \<times> int) list"

definition new_native_iterator :: "bool \<Rightarrow> NativeIterator" where
  "new_native_iterator is_static =
    (let JNIEnv_words = 1; mirror_words = 1
     in \<lparr>ni_offset = 0, ni_prepended = (if \<not> is_static then JNIEnv_words else JNIEnv_words + mirror_words),
         ni_jni_offset = 0, ni_passes = []\<rparr>)"

definition ni_pass :: "native_pass \<Rightarrow> int \<Rightarrow> NativeIterator \<Rightarrow> NativeIterator" where
  "ni_pass p words ni =
     ni\<lparr>ni_passes := ni_passes ni @ [(p, ni_offset ni, ni_jni_offset ni + ni_prepended ni)],
        ni_jni_offset := ni_jni_offset ni + 1, ni_offset := ni_offset ni + words\<rparr>"

fun ni_call :: "sig_call \<Rightarrow> NativeIterator \<Rightarrow> fault + NativeIterator" where
  "ni_call (Do_Base t) ni =
    (case t of
       T_FLOAT \<Rightarrow> Inr (ni_pass Pass_Float 1 ni)
     | T_DOUBLE \<Rightarrow> Inr (ni_pass Pass_Double 2 ni)
     | T_LONG \<Rightarrow> Inr (ni_pass Pass_Long 2 ni)
     | T_VOID \<Rightarrow> Inl Should_Not_Reach_Here
     | _ \<Rightarrow> Inr (ni_pass Pass_Int 1 ni))"
| "ni_call (Do_Object b e) ni = Inr (ni_pass Pass_Object 1 ni)"
| "ni_call (Do_Array b e) ni = Inr (ni_pass Pass_Object 1 ni)"

fun ni_calls :: "sig_call list \<Rightarrow> NativeIterator \<Rightarrow> fault + NativeIterator" where
  "ni_calls [] ni = Inr ni"
| "ni_calls (c # cs) ni = rbind (ni_call c ni) (ni_calls cs)"

definition native_iterate :: "method_info \<Rightarrow> fault + NativeIterator" where
  "native_iterate mh =
     rbind (fingerprint mh) (\<lambda>(fp, mh').
       let ni = new_native_iterator (mi_is_static mh);
           ni = (if \<not> mi_is_static mh then ni_pass Pass_Object 1 ni else ni)
       in rbind (iterate_parameters_fp (mi_signature mh) fp new_iterator) (\<lambda>it. ni_calls (si_calls it) ni))"

section \<open>The stream\<close>

record SignatureStream =
  ss_begin :: nat
  ss_end :: nat
  ss_type :: BasicType
  ss_at_return_type :: bool

definition ss_is_done :: "symbol \<Rightarrow> SignatureStream \<Rightarrow> bool" where
  "ss_is_done sig ss \<longleftrightarrow> ss_end ss > length sig"

text \<open>\<open>while ('0' <= c && c <= '9') c = sig->byte_at(_end++);\<close> -- unlike
  \<open>skip_optional_size\<close>, the loop ends one byte after the first byte that is not a digit.\<close>

function ss_skip_size :: "symbol \<Rightarrow> u_char \<Rightarrow> nat \<Rightarrow> fault + nat" where
  "ss_skip_size sig c e =
    (if 48 \<le> c \<and> c \<le> 57 then rbind (byte_at sig e) (\<lambda>c'. ss_skip_size sig c' (e + 1)) else Inr e)"
  by pat_completeness auto
termination
  by (relation "measure (\<lambda>(sig, c, e). length sig - e)") (auto simp: byte_at_Inr)

declare ss_skip_size.simps [simp del]

lemma ss_skip_size_bounds: "ss_skip_size sig c e = Inr e' \<Longrightarrow> e \<le> e'"
proof (induction sig c e rule: ss_skip_size.induct)
  case (1 sig c e)
  then show ?case
    by (subst (asm) ss_skip_size.simps) (fastforce simp: rbind_Inr_iff split: if_splits)
qed

function ss_skip_dimensions :: "symbol \<Rightarrow> nat \<Rightarrow> fault + nat" where
  "ss_skip_dimensions sig e = rbind (byte_at sig e) (\<lambda>b.
     if b = 91 then
       rbind (byte_at sig (e + 1)) (\<lambda>c. rbind (ss_skip_size sig c (e + 1)) (ss_skip_dimensions sig))
     else Inr e)"
  by pat_completeness auto
termination
  by (relation "measure (\<lambda>(sig, e). length sig - e)")
    (auto simp: byte_at_Inr dest!: ss_skip_size_bounds)

declare ss_skip_dimensions.simps [simp del]

definition ss_array_end :: "symbol \<Rightarrow> nat \<Rightarrow> fault + nat" where
  "ss_array_end sig e =
     rbind (byte_at sig e) (\<lambda>c. rbind (ss_skip_size sig c e) (\<lambda>e.
     rbind (ss_skip_dimensions sig e) (\<lambda>e. rbind (byte_at sig e) (\<lambda>b.
       if b = 66 \<or> b = 67 \<or> b = 68 \<or> b = 70 \<or> b = 73 \<or> b = 74 \<or> b = 83 \<or> b = 90
       then Inr (e + 1) else skip_past_semicolon sig e))))"

function ss_next :: "symbol \<Rightarrow> SignatureStream \<Rightarrow> fault + SignatureStream" where
  "ss_next sig ss =
    (if ss_end ss \<ge> length sig then Inr (ss\<lparr>ss_end := length sig + 1\<rparr>)
     else
       let ss = ss\<lparr>ss_begin := ss_end ss\<rparr>; t = sig ! ss_end ss in
       case base_type t of
         Some ty \<Rightarrow> Inr (ss\<lparr>ss_type := ty, ss_end := ss_end ss + 1\<rparr>)
       | None \<Rightarrow>
           if t = 76 then
             rbind (skip_past_semicolon sig (ss_end ss)) (\<lambda>e. Inr (ss\<lparr>ss_type := T_OBJECT, ss_end := e\<rparr>))
           else if t = 91 then
             rbind (ss_array_end sig (ss_end ss)) (\<lambda>e. Inr (ss\<lparr>ss_type := T_ARRAY, ss_end := e\<rparr>))
           else if t = 41 then
             rbind (ss_next sig (ss\<lparr>ss_end := ss_end ss + 1\<rparr>)) (\<lambda>ss. Inr (ss\<lparr>ss_at_return_type := True\<rparr>))
           else Inl Should_Not_Reach_Here)"
  by pat_completeness auto
termination
  by (relation "measure (\<lambda>(sig, ss). length sig - ss_end ss)") auto

declare ss_next.simps [simp del]

definition new_stream :: "symbol \<Rightarrow> bool \<Rightarrow> fault + SignatureStream" where
  "new_stream sig is_method =
    (let b = (if is_method then 1 else 0)
     in ss_next sig \<lparr>ss_begin = b, ss_end = b, ss_type = T_ILLEGAL, ss_at_return_type = False\<rparr>)"

definition ss_is_object :: "SignatureStream \<Rightarrow> bool" where
  "ss_is_object ss \<longleftrightarrow> ss_type ss = T_OBJECT \<or> ss_type ss = T_ARRAY"

definition ss_is_array :: "SignatureStream \<Rightarrow> bool" where
  "ss_is_array ss \<longleftrightarrow> ss_type ss = T_ARRAY"

text \<open>The symbol of the current entry; \<open>as_symbol_or_null\<close> builds the same bytes and looks
  them up.\<close>

definition as_symbol :: "symbol \<Rightarrow> SignatureStream \<Rightarrow> fault + symbol" where
  "as_symbol sig ss = rbind (byte_at sig (ss_begin ss)) (\<lambda>b.
     let range = (\<lambda>b e. if b \<le> e \<and> e \<le> length sig then Inr (take (e - b) (drop b sig))
                       else Inl Undefined_Behaviour) in
     if b = 76 then rbind (byte_at sig (ss_end ss - 1)) (\<lambda>c.
       if c = 59 then range (ss_begin ss + 1) (ss_end ss - 1) else range (ss_begin ss) (ss_end ss))
     else range (ss_begin ss) (ss_end ss))"

text \<open>\<open>reference_parameter_count\<close>: the loop has no exit when there is no return type, which
  is \<open>None\<close>.\<close>

partial_function (option) reference_parameter_count ::
    "symbol \<Rightarrow> SignatureStream \<Rightarrow> nat \<Rightarrow> (fault + nat) option" where
  "reference_parameter_count sig ss args_count =
    (if ss_at_return_type ss then Some (Inr args_count)
     else case ss_next sig ss of
            Inl e \<Rightarrow> Some (Inl e)
          | Inr ss' \<Rightarrow>
              reference_parameter_count sig ss'
                (if ss_is_object ss then args_count + 1 else args_count))"

section \<open>The signature verifier\<close>

definition invalid_name_char :: "u_char \<Rightarrow> bool" where
  "invalid_name_char c \<longleftrightarrow> c = 0 \<or> c = 46 \<or> c = 59 \<or> c = 91"

text \<open>The characters of a class name up to \<open>;\<close>, and the whole of \<open>is_valid_type\<close>; the list is
  the \<open>limit\<close> bytes from \<open>type\<close> on, the result the number of bytes of the type or \<open>-1\<close>.\<close>

fun valid_class_name :: "u_char list \<Rightarrow> int \<Rightarrow> int" where
  "valid_class_name [] index = - 1"
| "valid_class_name (c # rest) index =
    (if c = 59 then index + 1
     else if invalid_name_char c then - 1
     else valid_class_name rest (index + 1))"

fun valid_type_at :: "u_char list \<Rightarrow> int \<Rightarrow> int" where
  "valid_type_at [] index = - 1"
| "valid_type_at (c # rest) index =
    (if c = 91 then valid_type_at rest (index + 1)
     else if c = 66 \<or> c = 67 \<or> c = 68 \<or> c = 70 \<or> c = 73 \<or> c = 74 \<or> c = 83 \<or> c = 90 \<or> c = 86
       then index + 1
     else if c = 76 then valid_class_name rest (index + 1)
     else - 1)"

definition is_valid_type :: "u_char list \<Rightarrow> int" where
  "is_valid_type ty = valid_type_at ty 0"

lemma valid_class_name_bounds:
  "valid_class_name s i \<noteq> - 1 \<Longrightarrow> i < valid_class_name s i \<and> valid_class_name s i \<le> i + int (length s)"
  by (induction s i rule: valid_class_name.induct) (auto split: if_splits)

lemma valid_type_at_bounds:
  "valid_type_at s i \<noteq> - 1 \<Longrightarrow> i < valid_type_at s i \<and> valid_type_at s i \<le> i + int (length s)"
  by (induction s i rule: valid_type_at.induct)
    (auto split: if_splits dest: valid_class_name_bounds)

lemma is_valid_type_bounds:
  "is_valid_type s \<noteq> - 1 \<Longrightarrow> 0 < is_valid_type s \<and> is_valid_type s \<le> int (length s)"
  using valid_type_at_bounds [of s 0] by (simp add: is_valid_type_def)

function valid_parameters :: "u_char list \<Rightarrow> u_char list option" where
  "valid_parameters s =
    (case s of
       [] \<Rightarrow> Some []
     | c # rest \<Rightarrow>
         if c = 41 then Some s
         else let res = is_valid_type s in
              if res = - 1 then None else valid_parameters (drop (nat res) s))"
  by pat_completeness auto
termination
  by (relation "measure length") (auto dest: is_valid_type_bounds)

declare valid_parameters.simps [simp del]

definition is_valid_method_signature :: "symbol \<Rightarrow> bool" where
  "is_valid_method_signature sig \<longleftrightarrow>
     length sig > 1 \<and> hd sig = 40 \<and>
     (case valid_parameters (tl sig) of
        Some (c # rest) \<Rightarrow> c = 41 \<and> is_valid_type rest = int (length rest)
      | _ \<Rightarrow> False)"

definition is_valid_type_signature :: "symbol \<Rightarrow> bool" where
  "is_valid_type_signature sig \<longleftrightarrow> length sig \<ge> 1 \<and> is_valid_type sig = int (length sig)"

definition is_valid_signature :: "symbol \<Rightarrow> bool" where
  "is_valid_signature sig \<longleftrightarrow>
    (if sig = [] \<or> hd sig = 0 then False
     else if hd sig = 40 then is_valid_method_signature sig
     else is_valid_type_signature sig)"

section \<open>The grammar\<close>

lemma byte_at_drop: "drop i sig = c # rest \<Longrightarrow> byte_at sig i = Inr c"
  by (metis byte_at_Inr drop_eq_Nil hd_drop_conv_nth leI list.distinct(1) list.sel(1))

lemma drop_1: "drop i sig = c # rest \<Longrightarrow> drop (i + 1) sig = rest"
  by (metis drop_drop add.commute drop0 drop_Suc_Cons One_nat_def)

lemma drop_app: "drop i sig = s @ rest \<Longrightarrow> drop (i + length s) sig = rest"
  by (metis add.commute append_eq_conv_conj drop_drop)

lemma semicolon_skip:
  "drop i sig = n @ 59 # rest \<Longrightarrow> 59 \<notin> set n \<Longrightarrow> skip_past_semicolon sig i = Inr (i + length n + 1)"
proof (induction n arbitrary: i)
  case Nil
  then show ?case by (subst skip_past_semicolon.simps) (simp add: byte_at_drop)
next
  case (Cons a n)
  then show ?case using drop_1 [of i sig a]
    by (subst skip_past_semicolon.simps) (simp add: byte_at_drop)
qed

text \<open>The grammar of the comment at the head of \<open>signature.cpp\<close>, and its printing.\<close>

datatype field_type = FT_Base BasicType | FT_Class symbol | FT_Array field_type

fun base_char :: "BasicType \<Rightarrow> u_char" where
  "base_char T_BYTE = 66" | "base_char T_CHAR = 67" | "base_char T_DOUBLE = 68"
| "base_char T_FLOAT = 70" | "base_char T_INT = 73" | "base_char T_LONG = 74"
| "base_char T_SHORT = 83" | "base_char T_BOOLEAN = 90" | "base_char T_VOID = 86"
| "base_char _ = 0"

fun show_type :: "field_type \<Rightarrow> u_char list" where
  "show_type (FT_Base b) = [base_char b]"
| "show_type (FT_Class n) = 76 # n @ [59]"
| "show_type (FT_Array t) = 91 # show_type t"

fun wf_ft :: "field_type \<Rightarrow> bool" where
  "wf_ft (FT_Base b) \<longleftrightarrow> b \<notin> {T_OBJECT, T_ARRAY, T_ILLEGAL}"
| "wf_ft (FT_Class n) \<longleftrightarrow> 59 \<notin> set n"
| "wf_ft (FT_Array t) \<longleftrightarrow> wf_ft t"

lemma base_type_char: "b \<notin> {T_OBJECT, T_ARRAY, T_ILLEGAL} \<Longrightarrow> base_type (base_char b) = Some b"
  by (cases b) (simp_all add: base_type.simps)

lemma base_type_None [simp]: "base_type 76 = None" "base_type 91 = None" "base_type 41 = None"
  by (simp_all add: base_type.simps)

lemma base_char_not: "b \<notin> {T_OBJECT, T_ARRAY, T_ILLEGAL} \<Longrightarrow> base_char b \<noteq> 76 \<and> base_char b \<noteq> 91 \<and> base_char b \<noteq> 41 \<and>
   \<not> (48 \<le> base_char b \<and> base_char b \<le> 57)"
  by (cases b) simp_all

lemma show_type_first:
  assumes "wf_ft t"
  obtains c rest where "show_type t = c # rest" "\<not> (48 \<le> c \<and> c \<le> 57)" "c \<noteq> 41"
  using assms base_char_not by (cases t) auto

fun ft_type :: "field_type \<Rightarrow> BasicType" where
  "ft_type (FT_Base b) = b" | "ft_type (FT_Class n) = T_OBJECT" | "ft_type (FT_Array t) = T_ARRAY"

fun ft_call :: "field_type \<Rightarrow> nat \<Rightarrow> sig_call" where
  "ft_call (FT_Base b) i = Do_Base b"
| "ft_call (FT_Class n) i = Do_Object (i + 1) (i + length n + 2)"
| "ft_call (FT_Array t) i = Do_Array (i + 1) (i + 1 + length (show_type t))"

lemma no_size:
  "wf_ft t \<Longrightarrow> drop i sig = show_type t @ rest \<Longrightarrow> skip_optional_size sig i = Inr i"
  by (elim show_type_first [of t], subst skip_optional_size.simps) (auto simp: byte_at_drop)

fun ft_dims :: "field_type \<Rightarrow> nat" where
  "ft_dims (FT_Array t) = Suc (ft_dims t)" | "ft_dims _ = 0"
fun ft_elem :: "field_type \<Rightarrow> field_type" where
  "ft_elem (FT_Array t) = ft_elem t" | "ft_elem t = t"

lemma show_type_dims: "show_type t = replicate (ft_dims t) 91 @ show_type (ft_elem t)"
  by (induction t) simp_all
lemma ft_elem_wf: "wf_ft t \<Longrightarrow> wf_ft (ft_elem t) \<and> (\<forall>u. ft_elem t \<noteq> FT_Array u)"
  by (induction t) simp_all

lemma skip_dims_show:
  "wf_ft t \<Longrightarrow> drop i sig = show_type t @ rest \<Longrightarrow> skip_dimensions sig i = Inr (i + ft_dims t)"
proof (induction t arbitrary: i)
  case (FT_Base b)
  then show ?case using base_char_not [of b] by (subst skip_dimensions.simps) (simp add: byte_at_drop)
next
  case (FT_Class n)
  then show ?case by (subst skip_dimensions.simps) (simp add: byte_at_drop)
next
  case (FT_Array t)
  then have d: "drop (i + 1) sig = show_type t @ rest" using drop_1 [of i sig 91] by simp
  then show ?case using FT_Array no_size [OF _ d] 
    by (subst skip_dimensions.simps) (simp add: byte_at_drop)
qed

lemma array_end_show:
  assumes "wf_ft t" "drop i sig = show_type t @ rest"
  shows "array_end sig i = Inr (i + length (show_type t))"
proof -
  let ?k = "i + ft_dims t"
  have k: "drop ?k sig = show_type (ft_elem t) @ rest"
    using drop_app [of i sig "replicate (ft_dims t) 91" "show_type (ft_elem t) @ rest"] assms(2)
    by (simp add: show_type_dims [of t])
  have len: "length (show_type t) = ft_dims t + length (show_type (ft_elem t))"
    by (subst show_type_dims) simp
  show ?thesis
  proof (cases "ft_elem t")
    case (FT_Base b)
    then have "base_char b \<noteq> 76" using ft_elem_wf [OF assms(1)] base_char_not [of b] by auto
    then show ?thesis using k FT_Base assms len no_size [OF assms] skip_dims_show [OF assms]
      by (simp add: array_end_def byte_at_drop)
  next
    case (FT_Class n)
    then have "skip_past_semicolon sig ?k = Inr (?k + length (76 # n) + 1)"
      using k ft_elem_wf [OF assms(1)] by (intro semicolon_skip) auto
    then show ?thesis using k FT_Class assms len no_size [OF assms] skip_dims_show [OF assms]
      by (simp add: array_end_def byte_at_drop)
  next
    case (FT_Array u)
    then show ?thesis using ft_elem_wf [OF assms(1)] by simp
  qed
qed

lemma parse_type_show:
  assumes "wf_ft t" "drop (si_index it) sig = show_type t @ rest"
  shows "parse_type sig it = Inr (type_size (ft_type t),
    (si_call (ft_call t (si_index it)) (ft_type t) it)\<lparr>si_index := si_index it + length (show_type t)\<rparr>)"
proof (cases t)
  case (FT_Base b)
  then show ?thesis using assms base_type_char [of b] by (simp add: parse_type_def byte_at_drop)
next
  case (FT_Class n)
  then have "drop (si_index it + 1) sig = n @ 59 # rest" using assms drop_1 [of "si_index it" sig 76] by simp
  then show ?thesis using assms FT_Class semicolon_skip [of "si_index it + 1" sig n rest]
    by (simp add: parse_type_def byte_at_drop Let_def)
next
  case (FT_Array u)
  then have "drop (si_index it + 1) sig = show_type u @ rest" using assms drop_1 [of "si_index it" sig 91] by simp
  then show ?thesis using assms FT_Array array_end_show [of u "si_index it + 1" sig rest]
    by (simp add: parse_type_def byte_at_drop Let_def)
qed

section \<open>Iteration follows the grammar\<close>

fun calls_at :: "nat \<Rightarrow> field_type list \<Rightarrow> sig_call list" where
  "calls_at i [] = []"
| "calls_at i (t # ts) = ft_call t i # calls_at (i + length (show_type t)) ts"

abbreviation show_types :: "field_type list \<Rightarrow> symbol" where
  "show_types ts \<equiv> concat (map show_type ts)"

definition show_method :: "field_type list \<Rightarrow> field_type \<Rightarrow> symbol" where
  "show_method ps r = 40 # show_types ps @ 41 # show_type r"

abbreviation params_size :: "field_type list \<Rightarrow> int" where
  "params_size ts \<equiv> sum_list (map (\<lambda>t. type_size (ft_type t)) ts)"

lemma si_call_simps [simp]:
  "si_index (si_call c t it) = si_index it"
  "si_parameter_index (si_call c t it) = si_parameter_index it"
  "si_calls (si_call c t it) = si_calls it @ [c]"
  "0 \<le> si_parameter_index it \<Longrightarrow> si_return_type (si_call c t it) = si_return_type it"
  "si_parameter_index it < 0 \<Longrightarrow> si_return_type (si_call c t it) = t"
  by (simp_all add: si_call_def)

lemma type_size_nonneg: "0 \<le> type_size t"
  by (cases t) simp_all

lemma parse_parameters_show:
  assumes "\<forall>t \<in> set ps. wf_ft t" "drop (si_index it) sig = show_types ps @ 41 # rest"
    "0 \<le> si_parameter_index it"
  shows "\<exists>it'. parse_parameters sig it = Inr it' \<and> si_index it' = si_index it + length (show_types ps) \<and>
    si_parameter_index it' = si_parameter_index it + params_size ps \<and>
    si_calls it' = si_calls it @ calls_at (si_index it) ps \<and> si_return_type it' = si_return_type it"
  using assms
proof (induction ps arbitrary: it)
  case Nil
  then show ?case by (subst parse_parameters.simps) (simp add: byte_at_drop)
next
  case (Cons t ps)
  let ?it = "(si_call (ft_call t (si_index it)) (ft_type t) it)\<lparr>si_index := si_index it + length (show_type t),
    si_parameter_index := si_parameter_index it + type_size (ft_type t)\<rparr>"
  obtain c r where c: "show_type t = c # r" "c \<noteq> 41"
    using Cons.prems(1) by (meson list.set_intros(1) show_type_first)
  have b: "byte_at sig (si_index it) = Inr c"
    using Cons.prems(2) c by (auto intro: byte_at_drop)
  have d: "drop (si_index ?it) sig = show_types ps @ 41 # rest"
    using drop_app [of "si_index it" sig "show_type t"] Cons.prems(2) by simp
  have "parse_type sig it = Inr (type_size (ft_type t),
    (si_call (ft_call t (si_index it)) (ft_type t) it)\<lparr>si_index := si_index it + length (show_type t)\<rparr>)"
    using Cons.prems by (intro parse_type_show [where rest = "show_types ps @ 41 # rest"]) auto
  then have "parse_parameters sig it = parse_parameters sig ?it"
    using b c by (subst parse_parameters.simps) simp
  then show ?case using Cons.IH [of ?it] Cons.prems d type_size_nonneg [of "ft_type t"]
    by (auto simp: add.assoc)
qed

lemma parse_return_show:
  assumes "wf_ft r" "drop (si_index it) sig = 41 # show_type r"
  shows "\<exists>it'. parse_return sig it = Inr it' \<and> si_index it' = si_index it + 1 + length (show_type r) \<and>
    si_parameter_index it' = 0 \<and>
    si_calls it' = si_calls it @ [ft_call r (si_index it + 1)] \<and> si_return_type it' = ft_type r"
proof -
  let ?it = "it\<lparr>si_index := si_index it + 1, si_parameter_index := - 1\<rparr>"
  have d: "drop (si_index ?it) sig = show_type r @ []" using drop_1 [OF assms(2)] by simp
  then show ?thesis using byte_at_drop [OF assms(2)] parse_type_show [OF assms(1) d]
    by (simp add: parse_return_def si_expect_def add.assoc)
qed

lemma expect_open: 
  "si_expect (show_method ps r) 40 (it\<lparr>si_index := 0, si_parameter_index := 0\<rparr>)
     = Inr (it\<lparr>si_index := 1, si_parameter_index := 0\<rparr>)"
  by (simp add: si_expect_def show_method_def byte_at_def)

lemma calls_at_append: "calls_at i (xs @ ys) = calls_at i xs @ calls_at (i + length (show_types xs)) ys"
  by (induction xs arbitrary: i) (simp_all add: add.assoc)

lemma iterate_parameters_show:
  assumes "\<forall>t \<in> set ps. wf_ft t"
  shows "\<exists>it'. iterate_parameters (show_method ps r) it = Inr it' \<and>
    si_parameter_index it' = 0 \<and> si_return_type it' = si_return_type it \<and>
    si_calls it' = si_calls it @ calls_at 1 ps"
proof -
  let ?sig = "show_method ps r" and ?it = "it\<lparr>si_index := 1, si_parameter_index := 0\<rparr>"
  have d: "drop (si_index ?it) ?sig = show_types ps @ 41 # show_type r" by (simp add: show_method_def)
  obtain it' where it': "parse_parameters ?sig ?it = Inr it'" "si_index it' = 1 + length (show_types ps)"
    "si_calls it' = si_calls it @ calls_at 1 ps" "si_return_type it' = si_return_type it"
    using parse_parameters_show [OF assms d] by auto
  have "drop (si_index it') ?sig = 41 # show_type r"
    using drop_app [OF d] it'(2) by simp
  then show ?thesis using it' byte_at_drop [of "si_index it'" ?sig 41]
    by (simp add: iterate_parameters_def expect_open) (simp add: si_expect_def)
qed

lemma iterate_show:
  assumes "\<forall>t \<in> set ps. wf_ft t" "wf_ft r"
  shows "\<exists>it'. iterate (show_method ps r) it = Inr it' \<and> si_index it' = length (show_method ps r) \<and>
    si_parameter_index it' = 0 \<and> si_return_type it' = ft_type r \<and>
    si_calls it' = si_calls it @ calls_at 1 ps @ [ft_call r (length (show_types ps) + 2)]"
proof -
  let ?sig = "show_method ps r" and ?it = "it\<lparr>si_index := 1, si_parameter_index := 0\<rparr>"
  have d: "drop (si_index ?it) ?sig = show_types ps @ 41 # show_type r" by (simp add: show_method_def)
  obtain it' where it': "parse_parameters ?sig ?it = Inr it'" "si_index it' = 1 + length (show_types ps)"
    "si_calls it' = si_calls it @ calls_at 1 ps" "si_return_type it' = si_return_type it"
    using parse_parameters_show [OF assms(1) d] by auto
  have d': "drop (si_index it') ?sig = 41 # show_type r"
    using drop_app [OF d] it'(2) by simp
  have "iterate ?sig it = parse_return ?sig it'"
    using it'(1) by (simp add: iterate_def expect_open)
  then show ?thesis using parse_return_show [OF assms(2) d'] it'
    by (auto simp: show_method_def simp del: length_concat)
qed

lemma skip_parameters_show:
  assumes "\<forall>t \<in> set ps. wf_ft t" "drop i sig = show_types ps @ 41 # rest"
  shows "skip_parameters sig i = Inr (i + length (show_types ps))"
  using assms
proof (induction ps arbitrary: i)
  case Nil
  then show ?case by (subst skip_parameters.simps) (simp add: byte_at_drop)
next
  case (Cons t ps)
  have d: "drop (i + length (show_type t)) sig = show_types ps @ 41 # rest"
    using drop_app [of i sig "show_type t"] Cons.prems(2) by simp
  have IH: "skip_parameters sig (i + length (show_type t)) = Inr (i + length (show_type t) + length (show_types ps))"
    using Cons d by simp
  show ?case
  proof (cases t)
    case (FT_Base b)
    then show ?thesis using IH Cons.prems base_type_char [of b] base_char_not [of b]
      by (subst skip_parameters.simps) (simp add: byte_at_drop add.assoc)
  next
    case (FT_Class n)
    then have "skip_past_semicolon sig i = Inr (i + length (show_type t))"
      using semicolon_skip [of i sig "76 # n" "show_types ps @ 41 # rest"] Cons.prems by simp
    then show ?thesis using IH Cons.prems FT_Class
      by (subst skip_parameters.simps) (simp add: byte_at_drop add.assoc)
  next
    case (FT_Array u)
    then have "drop (i + 1) sig = show_type u @ show_types ps @ 41 # rest"
      using Cons.prems drop_1 [of i sig 91] by simp
    then have "array_end sig (i + 1) = Inr (i + length (show_type t))"
      using array_end_show [of u "i + 1" sig] Cons.prems FT_Array by simp
    then show ?thesis using IH Cons.prems FT_Array
      by (subst skip_parameters.simps) (simp add: byte_at_drop add.assoc)
  qed
qed

lemma call_type_ft: "call_type (ft_call t i) = ft_type t"
  by (cases t) simp_all

lemma calls_types: "map call_type (calls_at i ts) = map ft_type ts"
  by (induction ts arbitrary: i) (simp_all add: call_type_ft)

lemma fold_size: "fold (\<lambda>c size. size + f (call_type c)) cs n = n + sum_list (map (f \<circ> call_type) cs)" for n :: int
  by (induction cs arbitrary: n) simp_all

text \<open>The sizes and counts that the subclasses compute.\<close>

lemma ArgumentSizeComputer_show:
  "\<forall>t \<in> set ps. wf_ft t \<Longrightarrow> ArgumentSizeComputer_size (show_method ps r) = Inr (params_size ps)"
  using iterate_parameters_show [of ps r new_iterator] 
  by (auto simp: ArgumentSizeComputer_size_def fold_size new_iterator_def simp flip: map_map)
    (simp add: calls_types comp_def)

section \<open>The fingerprint determines the calls\<close>

fun sig_code :: "sig_call list \<Rightarrow> 64 word" where
  "sig_code [] = done_parm"
| "sig_code (c # cs) = the (parm_code c) OR push_bit 4 (sig_code cs)"

lemma parm_code_cases: "parm_code c = Some p \<Longrightarrow> p \<in> {1,2,3,4,5,6,7,8,9}"
  by (cases c) (auto split: BasicType.splits)

lemma code_bits: "p \<in> {1,2,3,4,5,6,7,8,9,10} \<Longrightarrow> bit (p :: 64 word) n \<Longrightarrow> n < 4"
proof -
  assume "p \<in> {1,2,3,4,5,6,7,8,9,10}" "bit p n"
  then have "take_bit 4 p = p" by auto
  then show "n < 4" using \<open>bit p n\<close> by (metis bit_take_bit_iff)
qed

lemma sig_code_bits:
  "\<forall>c \<in> set cs. parm_code c \<noteq> None \<Longrightarrow> bit (sig_code cs) n \<Longrightarrow> n < 4 * length cs + 4"
proof (induction cs arbitrary: n)
  case Nil
  then show ?case using code_bits [of 10 n] by (simp add: done_parm_def)
next
  case (Cons c cs)
  then obtain p where p: "parm_code c = Some p" by auto
  have low: "bit p n \<Longrightarrow> n < 4" using code_bits [of p n] parm_code_cases [OF p] by auto
  have "bit p n \<or> 4 \<le> n \<and> bit (sig_code cs) (n - 4)"
    using Cons.prems(2) p by (auto simp: bit_simps)
  then show ?case using low Cons.IH [of "n - 4"] Cons.prems(1) by fastforce
qed

lemma fingerprint_calls_code:
  assumes "\<forall>c \<in> set cs. parm_code c \<noteq> None" "s + 4 * length cs < 64"
  shows "\<exists>fp'. fingerprint_calls cs (fp, s) = Inr (fp', s + 4 * length cs) \<and>
    fp' OR push_bit (s + 4 * length cs) done_parm = fp OR push_bit s (sig_code cs)"
  using assms
proof (induction cs arbitrary: fp s)
  case Nil
  then show ?case by simp
next
  case (Cons c cs)
  then obtain p where p: "parm_code c = Some p" by auto
  have "push_bit (s + 4) w = push_bit s (push_bit 4 w)" for w :: "64 word"
    by (simp add: push_bit_push_bit)
  then show ?case using Cons.IH [of "s + 4" "fp OR push_bit s p"] Cons.prems p
    by (simp add: fingerprint_call_def parameter_feature_size_def push_bit_or or.assoc add.assoc)
qed

lemma mask_low: "p \<in> {1,2,3,4,5,6,7,8,9,10} \<Longrightarrow> (p OR push_bit 4 w) AND 0xF = (p :: 64 word)"
proof (rule bit_word_eqI)
  fix n assume p: "p \<in> {1,2,3,4,5,6,7,8,9,10}" and "n < LENGTH(64)"
  have "bit (0xF :: 64 word) n \<longleftrightarrow> n < 4"
    using bit_mask_iff [where ?'a = "64 word", of 4 n] by (auto simp: mask_eq_exp_minus_1)
  then show "bit ((p OR push_bit 4 w) AND 0xF) n = bit p n"
    using code_bits [OF p, of n] by (auto simp: bit_simps)
qed

lemma drop_code:
  assumes "\<And>n. bit (p :: 64 word) n \<Longrightarrow> n < k" "\<And>n. bit w n \<Longrightarrow> n + k < 64"
  shows "drop_bit k (p OR push_bit k w) = w"
proof (rule bit_word_eqI)
  fix n assume "n < LENGTH(64)"
  show "bit (drop_bit k (p OR push_bit k w)) n = bit w n"
    using assms(1) [of "k + n"] assms(2) [of n] by (auto simp: bit_simps)
qed

text \<open>What the fingerprint remembers of a call.\<close>
fun erase_call :: "sig_call \<Rightarrow> sig_call" where
  "erase_call (Do_Base t) = Do_Base t"
| "erase_call (Do_Object b e) = Do_Object 0 0"
| "erase_call (Do_Array b e) = Do_Object 0 0"

lemma parm_call_code: "parm_code c = Some p \<Longrightarrow> parm_call p = Some (erase_call c)"
  by (cases c) (auto simp: parm_call_def split: BasicType.splits)

lemma type_size_erase: "type_size (call_type (erase_call c)) = type_size (call_type c)"
  by (cases c) simp_all

lemma fingerprint_loop_code:
  assumes "\<forall>c \<in> set cs. parm_code c \<noteq> None" "4 * length cs + 4 < 64"
  shows "fingerprint_loop (sig_code cs) it = Inr (it\<lparr>si_calls := si_calls it @ map erase_call cs,
    si_parameter_index := si_parameter_index it + sum_list (map (\<lambda>c. type_size (call_type c)) cs)\<rparr>)"
  using assms
proof (induction cs arbitrary: it)
  case Nil
  then show ?case by (subst fingerprint_loop.simps) (simp add: done_parm_def parm_call_def parameter_feature_mask_def)
next
  case (Cons c cs)
  then obtain p where p: "parm_code c = Some p" by auto
  have m: "sig_code (c # cs) AND 0xF = p" using mask_low [of p "sig_code cs"] parm_code_cases [OF p] p by auto
  have low: "bit p n \<Longrightarrow> n < 4" for n using code_bits [of p n] parm_code_cases [OF p] by auto
  have high: "bit (sig_code cs) n \<Longrightarrow> n + 4 < 64" for n
    using sig_code_bits [of cs n] Cons.prems by (simp del: bit_0)
  have d: "drop_bit 4 (sig_code (c # cs)) = sig_code cs"
    using drop_code [OF low high] p by (simp only: sig_code.simps option.sel)
  show ?case using Cons.IH Cons.prems m d parm_call_code [OF p]
    by (subst fingerprint_loop.simps)
      (simp del: sig_code.simps add: parameter_feature_mask_def parameter_feature_size_def type_size_erase)
qed

lemma calls_le_size:
  "\<forall>c \<in> set cs. parm_code c \<noteq> None \<Longrightarrow> int (length cs) \<le> sum_list (map (\<lambda>c. type_size (call_type c)) cs)"
proof (induction cs)
  case (Cons c cs)
  have "1 \<le> type_size (call_type c)"
    using Cons.prems by (cases c) (auto split: BasicType.splits)
  then show ?case using Cons by simp
qed simp

definition sig_header :: "BasicType \<Rightarrow> bool \<Rightarrow> 64 word" where
  "sig_header t b = (let fp = push_bit static_feature_size (of_nat (basic_type_code t))
     in if b then fp OR 1 else fp)"

lemma sig_header_take: "t \<noteq> T_ILLEGAL \<Longrightarrow> take_bit 5 (sig_header t b) = sig_header t b"
  by (cases b; cases t; simp add: sig_header_def static_feature_size_def)

lemma sig_header_bits: "t \<noteq> T_ILLEGAL \<Longrightarrow> bit (sig_header t b) n \<Longrightarrow> n < 5"
  by (metis bit_take_bit_iff sig_header_take)

lemma fingerprint_value:
  assumes sig: "iterate_parameters (mi_signature mh) new_iterator = Inr it"
    and codes: "\<forall>c \<in> set (si_calls it). parm_code c \<noteq> None" and len: "length (si_calls it) \<le> 13"
    and fresh: "mi_fingerprint mh = 0" "mi_size_of_parameters mh \<le> max_size_of_parameters"
    and fp: "fp = sig_header (mi_result_type mh) (mi_is_static mh) OR push_bit 5 (sig_code (si_calls it))"
  shows "fingerprint mh = Inr (fp, mh\<lparr>mi_fingerprint := fp\<rparr>)"
proof -
  obtain fp' where "fingerprint_calls (si_calls it) (sig_header (mi_result_type mh) (mi_is_static mh), 5)
      = Inr (fp', 5 + 4 * length (si_calls it))"
    "fp' OR push_bit (5 + 4 * length (si_calls it)) done_parm = fp"
    using fingerprint_calls_code [OF codes, of 5] len fp by auto
  then show ?thesis using sig fresh len
    by (simp add: fingerprint_def sig_header_def Let_def result_feature_size_def static_feature_size_def
        split del: if_split)
qed

lemma fingerprint_not_all_ones:
  assumes "\<And>n. bit (h :: 64 word) n \<Longrightarrow> n < 5" "\<And>n. bit w n \<Longrightarrow> n < 56"
  shows "h OR push_bit 5 w \<noteq> - 1"
proof
  assume "h OR push_bit 5 w = - 1"
  then have "bit (h OR push_bit 5 w) 63" by simp
  then have "bit h 63 \<or> bit w 58" by (simp add: bit_simps)
  then show False using assms(1) [of 63] assms(2) [of 58] by auto
qed

lemma parm_code_none: "parm_code c = None \<Longrightarrow> c \<in> Do_Base ` {T_VOID, T_OBJECT, T_ARRAY, T_ILLEGAL}"
  by (cases c) (auto split: BasicType.splits)

text \<open>C22: Iterating over the fingerprint of a method makes the same calls, in the same order,
  as parsing its signature; only the ranges of object and array entries are forgotten, and
  an array is reported as an object.  The parameter index, which parsing resets to zero, is
  left at the total size of the parameters.\<close>

theorem fingerprint_iteration:
  assumes sig: "iterate_parameters (mi_signature mh) new_iterator = Inr it"
    and codes: "\<forall>c \<in> set (si_calls it). parm_code c \<noteq> None"
    and size: "sum_list (map (\<lambda>c. type_size (call_type c)) (si_calls it)) \<le> mi_size_of_parameters mh"
    and fresh: "mi_fingerprint mh = 0" "mi_result_type mh \<noteq> T_ILLEGAL"
  shows "\<exists>fp it'. fingerprint mh = Inr (fp, mh\<lparr>mi_fingerprint := fp\<rparr>) \<and>
    iterate_parameters_fp (mi_signature mh) fp new_iterator = Inr it' \<and>
    map erase_call (si_calls it') = map erase_call (si_calls it) \<and>
    (mi_size_of_parameters mh \<le> max_size_of_parameters \<longrightarrow>
      si_parameter_index it' = sum_list (map (\<lambda>c. type_size (call_type c)) (si_calls it)))"
proof (cases "mi_size_of_parameters mh \<le> max_size_of_parameters")
  case False
  then show ?thesis using sig fresh by (simp add: fingerprint_def iterate_parameters_fp_def)
next
  case True
  let ?cs = "si_calls it" and ?h = "sig_header (mi_result_type mh) (mi_is_static mh)"
  let ?fp = "?h OR push_bit 5 (sig_code ?cs)"
  have len: "length ?cs \<le> 13" using calls_le_size [OF codes] size True by (simp add: max_size_of_parameters_def)
  have hb: "bit ?h n \<Longrightarrow> n < 5" for n using sig_header_bits fresh(2) by blast
  have cb: "bit (sig_code ?cs) n \<Longrightarrow> n < 56" for n using sig_code_bits [OF codes, of n] len by linarith
  then have cb': "bit (sig_code ?cs) n \<Longrightarrow> n + 5 < 64" for n by fastforce
  have "iterate_parameters_fp (mi_signature mh) ?fp new_iterator = fingerprint_loop (sig_code ?cs) new_iterator"
    using drop_code [OF hb cb'] fingerprint_not_all_ones [OF hb cb]
    by (simp add: iterate_parameters_fp_def static_feature_size_def result_feature_size_def new_iterator_def)
  moreover have "map erase_call (map erase_call ?cs) = map erase_call ?cs"
  proof -
    have "erase_call (erase_call c) = erase_call c" for c by (cases c) simp_all
    then show ?thesis by simp
  qed
  ultimately show ?thesis
    using fingerprint_value [OF sig codes len fresh(1) True refl] fingerprint_loop_code [OF codes, of new_iterator] len
    by (auto simp: new_iterator_def)
qed

definition demo_method :: method_info where
  "demo_method = \<lparr>mi_signature = [40, 73, 91, 76, 65, 59, 74, 41, 86], mi_is_static = False,
     mi_size_of_parameters = 5, mi_result_type = T_VOID, mi_fingerprint = 0\<rparr>"

lemma demo_method_parameters: "iterate_parameters (mi_signature demo_method) new_iterator =
   Inr \<lparr>si_index = 8, si_parameter_index = 0, si_return_type = T_ILLEGAL,
     si_calls = [Do_Base T_INT, Do_Array 3 6, Do_Base T_LONG]\<rparr>"
  by (simp add: demo_method_def iterate_parameters_def new_iterator_def si_expect_def byte_at_def
      parse_parameters.simps parse_type_def base_type.simps si_call_def Let_def array_end_def
      skip_optional_size.simps skip_dimensions.simps skip_past_semicolon.simps)

theorem fingerprint_iteration_witness:
  "\<exists>fp it'. fingerprint demo_method = Inr (fp, demo_method\<lparr>mi_fingerprint := fp\<rparr>) \<and>
    iterate_parameters_fp (mi_signature demo_method) fp new_iterator = Inr it' \<and>
    map erase_call (si_calls it') = [Do_Base T_INT, Do_Object 0 0, Do_Base T_LONG] \<and>
    si_parameter_index it' = 4"
  using fingerprint_iteration [OF demo_method_parameters]
  by (simp add: demo_method_def max_size_of_parameters_def)

section \<open>The stream follows the grammar\<close>

lemma ss_no_size: "\<not> (48 \<le> c \<and> c \<le> 57) \<Longrightarrow> ss_skip_size sig c e = Inr e"
  by (subst ss_skip_size.simps) auto

lemma ss_skip_dims_show:
  "wf_ft t \<Longrightarrow> drop e sig = show_type t @ rest \<Longrightarrow> ss_skip_dimensions sig e = Inr (e + ft_dims t)"
proof (induction t arbitrary: e)
  case (FT_Base b)
  then show ?case using base_char_not [of b] by (subst ss_skip_dimensions.simps) (simp add: byte_at_drop)
next
  case (FT_Class n)
  then show ?case by (subst ss_skip_dimensions.simps) (simp add: byte_at_drop)
next
  case (FT_Array t)
  then have d: "drop (e + 1) sig = show_type t @ rest" using drop_1 [of e sig 91] by simp
  obtain c r where c: "show_type t = c # r" "\<not> (48 \<le> c \<and> c \<le> 57)"
    using FT_Array.prems by (meson show_type_first wf_ft.simps(3))
  have "byte_at sig (e + 1) = Inr c" using d c by (auto intro: byte_at_drop)
  then show ?case using FT_Array d ss_no_size [OF c(2), of sig "e + 1"]
    by (subst ss_skip_dimensions.simps) (simp add: byte_at_drop)
qed

definition no_void_array :: "field_type \<Rightarrow> bool" where
  "no_void_array t \<longleftrightarrow> (\<forall>u. t = FT_Array u \<longrightarrow> ft_elem u \<noteq> FT_Base T_VOID)"

lemma ss_array_end_show:
  assumes "wf_ft (FT_Array u)" "drop e sig = show_type (FT_Array u) @ rest" "no_void_array (FT_Array u)"
  shows "ss_array_end sig e = Inr (e + length (show_type (FT_Array u)))"
proof -
  let ?t = "FT_Array u" and ?k = "e + ft_dims (FT_Array u)"
  have "drop e sig = replicate (ft_dims ?t) 91 @ show_type (ft_elem ?t) @ rest"
    using assms(2) show_type_dims [of ?t] by (metis append.assoc)
  then have k: "drop ?k sig = show_type (ft_elem u) @ rest"
    using drop_app [of e sig "replicate (ft_dims ?t) 91"] by simp
  have len: "length (show_type ?t) = ft_dims ?t + length (show_type (ft_elem u))"
    by (subst show_type_dims) simp
  have pre: "byte_at sig e = Inr 91" "ss_skip_size sig 91 e = Inr e" "ss_skip_dimensions sig e = Inr ?k"
    using assms(2) ss_skip_dims_show [OF assms(1,2)] ss_no_size [of 91 sig e]
    by (auto simp: byte_at_drop)
  show ?thesis
  proof (cases "ft_elem u")
    case (FT_Base b)
    then have "b \<notin> {T_OBJECT, T_ARRAY, T_ILLEGAL, T_VOID}"
      using ft_elem_wf [of u] assms(1,3) by (auto simp: no_void_array_def)
    then have "base_char b \<in> {66, 67, 68, 70, 73, 74, 83, 90}" by (cases b) auto
    then show ?thesis using pre k FT_Base len by (auto simp: ss_array_end_def byte_at_drop)
  next
    case (FT_Class n)
    then have "skip_past_semicolon sig ?k = Inr (?k + length (76 # n) + 1)"
      using k ft_elem_wf [of u] assms(1) by (intro semicolon_skip) auto
    then show ?thesis using pre k FT_Class len by (simp add: ss_array_end_def byte_at_drop)
  next
    case (FT_Array v)
    then show ?thesis using ft_elem_wf [of u] assms(1) by simp
  qed
qed

lemma ss_next_show:
  assumes "wf_ft t" "no_void_array t" "drop (ss_end ss) sig = show_type t @ rest"
  shows "ss_next sig ss = Inr (ss\<lparr>ss_begin := ss_end ss, ss_end := ss_end ss + length (show_type t),
     ss_type := ft_type t\<rparr>)"
proof -
  obtain c r where c: "show_type t = c # r" using assms(1) by (meson show_type_first)
  have b: "byte_at sig (ss_end ss) = Inr c" using assms(3) c by (auto intro: byte_at_drop)
  then have len: "\<not> ss_end ss \<ge> length sig" "sig ! ss_end ss = c" by (auto simp: byte_at_Inr)
  show ?thesis
  proof (cases t)
    case (FT_Base x)
    then show ?thesis using assms c len base_type_char [of x]
      by (subst ss_next.simps) (simp add: Let_def)
  next
    case (FT_Class n)
    then have "skip_past_semicolon sig (ss_end ss) = Inr (ss_end ss + length (76 # n) + 1)"
      using assms by (intro semicolon_skip) auto
    then show ?thesis using FT_Class c len
      by (subst ss_next.simps) (auto simp: Let_def)
  next
    case (FT_Array u)
    then show ?thesis using assms ss_array_end_show [of u "ss_end ss" sig rest] c len
      by (subst ss_next.simps) (simp add: Let_def)
  qed
qed

lemma ss_next_return:
  assumes "wf_ft r" "no_void_array r" "drop (ss_end ss) sig = 41 # show_type r"
  shows "ss_next sig ss = Inr (ss\<lparr>ss_begin := ss_end ss + 1, ss_end := ss_end ss + 1 + length (show_type r),
     ss_type := ft_type r, ss_at_return_type := True\<rparr>)"
proof -
  let ?ss = "ss\<lparr>ss_begin := ss_end ss, ss_end := ss_end ss + 1\<rparr>"
  have "byte_at sig (ss_end ss) = Inr 41" using assms(3) by (rule byte_at_drop)
  then have len: "\<not> ss_end ss \<ge> length sig" "sig ! ss_end ss = 41" by (auto simp: byte_at_Inr)
  have "drop (ss_end ?ss) sig = show_type r @ []" using drop_1 [OF assms(3)] by simp
  from ss_next_show [OF assms(1,2) this] show ?thesis using len
    by (subst ss_next.simps) (simp add: Let_def)
qed

text \<open>The stream after \<open>k\<close> calls of \<open>next\<close> on a fresh stream.\<close>

fun ss_step :: "symbol \<Rightarrow> nat \<Rightarrow> fault + SignatureStream" where
  "ss_step sig 0 = new_stream sig True"
| "ss_step sig (Suc k) = rbind (ss_step sig k) (ss_next sig)"

lemma stream_entry_step:
  assumes wf: "\<forall>t \<in> set ps. wf_ft t \<and> no_void_array t" "wf_ft r \<and> no_void_array r"
    and d: "drop (ss_end ss) (show_method ps r) = show_types (drop k ps) @ 41 # show_type r"
    and at: "\<not> ss_at_return_type ss" "ss_end ss = 1 + length (show_types (take k ps))" and k: "k \<le> length ps"
  shows "\<exists>ss'. ss_next (show_method ps r) ss = Inr ss' \<and>
    (if k < length ps then ss_type ss' = ft_type (ps ! k) \<and> \<not> ss_at_return_type ss' \<and>
       ss_begin ss' = ss_end ss \<and> ss_end ss' = 1 + length (show_types (take (Suc k) ps)) \<and>
       drop (ss_end ss') (show_method ps r) = show_types (drop (Suc k) ps) @ 41 # show_type r
     else ss_type ss' = ft_type r \<and> ss_at_return_type ss' \<and> ss_begin ss' = ss_end ss + 1 \<and>
       ss_end ss' = length (show_method ps r))"
proof (cases "k < length ps")
  case True
  then have "drop k ps = ps ! k # drop (Suc k) ps" by (simp add: Cons_nth_drop_Suc)
  then have d': "drop (ss_end ss) (show_method ps r) = show_type (ps ! k) @ show_types (drop (Suc k) ps) @ 41 # show_type r"
    using d by simp
  have "take (Suc k) ps = take k ps @ [ps ! k]" using True by (simp add: take_Suc_conv_app_nth)
  moreover have "wf_ft (ps ! k)" "no_void_array (ps ! k)" using wf True by auto
  ultimately show ?thesis using ss_next_show [OF _ _ d'] drop_app [OF d'] at True by simp
next
  case False
  then have "k = length ps" using k by simp
  then show ?thesis using ss_next_return [of r ss "show_method ps r"] wf d at
    by (simp add: show_method_def)
qed

lemma stream_position:
  assumes wf: "\<forall>t \<in> set ps. wf_ft t \<and> no_void_array t" "wf_ft r \<and> no_void_array r"
  shows "k < length ps \<Longrightarrow> \<exists>ss. ss_step (show_method ps r) k = Inr ss \<and> ss_type ss = ft_type (ps ! k) \<and>
    \<not> ss_at_return_type ss \<and> ss_begin ss = 1 + length (show_types (take k ps)) \<and>
    ss_end ss = 1 + length (show_types (take (Suc k) ps)) \<and>
    drop (ss_end ss) (show_method ps r) = show_types (drop (Suc k) ps) @ 41 # show_type r"
proof (induction k)
  case 0
  let ?ss = "\<lparr>ss_begin = 1, ss_end = 1, ss_type = T_ILLEGAL, ss_at_return_type = False\<rparr>"
  have "drop (ss_end ?ss) (show_method ps r) = show_types (drop 0 ps) @ 41 # show_type r"
    by (simp add: show_method_def)
  from stream_entry_step [OF wf this] show ?case using 0 by (auto simp: new_stream_def)
next
  case (Suc k)
  then obtain ss where ss: "ss_step (show_method ps r) k = Inr ss" "\<not> ss_at_return_type ss"
    "ss_end ss = 1 + length (show_types (take (Suc k) ps))"
    "drop (ss_end ss) (show_method ps r) = show_types (drop (Suc k) ps) @ 41 # show_type r" by auto
  from stream_entry_step [OF wf ss(4,2,3)] show ?case using Suc.prems ss(1,3) by auto
qed

lemma stream_return_position:
  assumes wf: "\<forall>t \<in> set ps. wf_ft t \<and> no_void_array t" "wf_ft r \<and> no_void_array r"
  shows "\<exists>ss. ss_step (show_method ps r) (length ps) = Inr ss \<and> ss_type ss = ft_type r \<and>
    ss_at_return_type ss \<and> ss_begin ss = 2 + length (show_types ps) \<and>
    ss_end ss = length (show_method ps r)"
proof (cases ps rule: rev_cases)
  case Nil
  let ?ss = "\<lparr>ss_begin = 1, ss_end = 1, ss_type = T_ILLEGAL, ss_at_return_type = False\<rparr>"
  have "drop (ss_end ?ss) (show_method ps r) = show_types (drop 0 ps) @ 41 # show_type r"
    by (simp add: show_method_def)
  from stream_entry_step [OF wf this] show ?thesis using Nil by (auto simp: new_stream_def)
next
  case (snoc qs q)
  then obtain ss where ss: "ss_step (show_method ps r) (length qs) = Inr ss" "\<not> ss_at_return_type ss"
    "ss_end ss = 1 + length (show_types (take (length ps) ps))"
    "drop (ss_end ss) (show_method ps r) = show_types (drop (length ps) ps) @ 41 # show_type r"
    using stream_position [OF wf, of "length qs"] by auto
  from stream_entry_step [OF wf ss(4,2,3)] show ?thesis using ss(1,3) snoc by auto
qed

lemma show_method_split: "k < length ps \<Longrightarrow> show_method ps r =
    (40 # show_types (take k ps)) @ show_type (ps ! k) @ show_types (drop (Suc k) ps) @ 41 # show_type r"
  by (simp add: show_method_def) (metis append_assoc concat.simps(2) concat_append id_take_nth_drop list.simps(9) map_append)

text \<open>C38: The stream over a method signature yields its entries in order: after \<open>k\<close> calls of
  \<open>next\<close> the current entry is the \<open>k\<close>-th parameter, with its type and its bytes, and the entry
  after the parameters is the return type, flagged as such.\<close>

theorem stream_enumerates:
  assumes "\<forall>t \<in> set ps. wf_ft t \<and> no_void_array t" "wf_ft r \<and> no_void_array r" "k \<le> length ps"
  shows "\<exists>ss. ss_step (show_method ps r) k = Inr ss \<and> ss_type ss = ft_type ((ps @ [r]) ! k) \<and>
    (ss_at_return_type ss \<longleftrightarrow> k = length ps) \<and>
    take (ss_end ss - ss_begin ss) (drop (ss_begin ss) (show_method ps r)) = show_type ((ps @ [r]) ! k)"
proof (cases "k < length ps")
  case True
  then obtain ss where ss: "ss_step (show_method ps r) k = Inr ss" "ss_type ss = ft_type (ps ! k)"
    "\<not> ss_at_return_type ss" "ss_begin ss = 1 + length (show_types (take k ps))"
    "ss_end ss = 1 + length (show_types (take (Suc k) ps))"
    using stream_position [OF assms(1,2)] by blast
  have "drop (ss_begin ss) (show_method ps r) = show_type (ps ! k) @ show_types (drop (Suc k) ps) @ 41 # show_type r"
    using show_method_split [OF True, of r] ss(4) by simp
  moreover have "ss_end ss - ss_begin ss = length (show_type (ps ! k))"
    using ss(4,5) True by (simp add: take_Suc_conv_app_nth)
  ultimately show ?thesis using ss True by (auto simp: nth_append)
next
  case False
  then have k: "k = length ps" using assms(3) by simp
  obtain ss where ss: "ss_step (show_method ps r) k = Inr ss" "ss_type ss = ft_type r"
    "ss_at_return_type ss" "ss_begin ss = 2 + length (show_types ps)" "ss_end ss = length (show_method ps r)"
    using stream_return_position [OF assms(1,2)] k by blast
  have "show_method ps r = (40 # show_types ps @ [41]) @ show_type r" by (simp add: show_method_def)
  moreover have "ss_begin ss = length (40 # show_types ps @ [41])" using ss(4) by simp
  ultimately have "drop (ss_begin ss) (show_method ps r) = show_type r" by (metis append_eq_conv_conj)
  then show ?thesis using ss k by (auto simp: show_method_def)
qed

theorem stream_enumerates_witness:
  "\<exists>ss. ss_step (show_method [FT_Array (FT_Base T_INT), FT_Class [65]] (FT_Base T_VOID)) 1 = Inr ss \<and>
    ss_type ss = T_OBJECT \<and> \<not> ss_at_return_type ss"
  using stream_enumerates [of "[FT_Array (FT_Base T_INT), FT_Class [65]]" "FT_Base T_VOID" 1]
  by (auto simp: no_void_array_def)

section \<open>Validity\<close>

fun valid_ft :: "field_type \<Rightarrow> bool" where
  "valid_ft (FT_Base b) \<longleftrightarrow> b \<notin> {T_OBJECT, T_ARRAY, T_ILLEGAL}"
| "valid_ft (FT_Class n) \<longleftrightarrow> (\<forall>c \<in> set n. \<not> invalid_name_char c)"
| "valid_ft (FT_Array t) \<longleftrightarrow> valid_ft t"

lemma valid_ft_wf: "valid_ft t \<Longrightarrow> wf_ft t"
  by (induction t) (auto simp: invalid_name_char_def)

lemma valid_class_name_sound:
  "valid_class_name s i \<noteq> - 1 \<Longrightarrow> \<exists>n rest. s = n @ 59 # rest \<and> (\<forall>c \<in> set n. \<not> invalid_name_char c) \<and>
    valid_class_name s i = i + int (length n) + 1"
proof (induction s i rule: valid_class_name.induct)
  case (2 c rest i)
  show ?case
  proof (cases "c = 59")
    case True
    then show ?thesis by (intro exI [of _ "[]"] exI [of _ rest]) auto
  next
    case False
    then have nc: "\<not> invalid_name_char c" using "2.prems" by auto
    then obtain n r where "rest = n @ 59 # r" "\<forall>c \<in> set n. \<not> invalid_name_char c"
      "valid_class_name rest (i + 1) = i + 1 + int (length n) + 1"
      using 2 False by auto
    then show ?thesis using False nc by (intro exI [of _ "c # n"] exI [of _ r]) auto
  qed
qed simp

lemma valid_class_name_complete:
  "\<forall>c \<in> set n. \<not> invalid_name_char c \<Longrightarrow> valid_class_name (n @ 59 # rest) i = i + int (length n) + 1"
  by (induction n arbitrary: i) (auto simp: invalid_name_char_def)

lemma valid_type_sound:
  "valid_type_at s i \<noteq> - 1 \<Longrightarrow> \<exists>t rest. s = show_type t @ rest \<and> valid_ft t \<and>
    valid_type_at s i = i + int (length (show_type t))"
proof (induction s i rule: valid_type_at.induct)
  case (2 c rest i)
  consider "c = 91" | "c = 76" | "c \<noteq> 91" "c \<noteq> 76" by blast
  then show ?case
  proof cases
    case 1
    then obtain t r where "rest = show_type t @ r" "valid_ft t"
      "valid_type_at rest (i + 1) = i + 1 + int (length (show_type t))" using 2 by auto
    then show ?thesis using 1 by (intro exI [of _ "FT_Array t"] exI [of _ r]) auto
  next
    case 2
    then obtain n r where "rest = n @ 59 # r" "\<forall>c \<in> set n. \<not> invalid_name_char c"
      "valid_class_name rest (i + 1) = i + 1 + int (length n) + 1"
      using valid_class_name_sound [of rest "i + 1"] "2.prems" by auto
    then show ?thesis using 2 by (intro exI [of _ "FT_Class n"] exI [of _ r]) auto
  next
    case 3
    then have c: "c \<in> {66, 67, 68, 70, 73, 74, 83, 90, 86}" using "2.prems" by (auto split: if_splits)
    then obtain b where "c = base_char b" "b \<notin> {T_OBJECT, T_ARRAY, T_ILLEGAL}"
    proof -
      have "\<exists>b. c = base_char b \<and> b \<notin> {T_OBJECT, T_ARRAY, T_ILLEGAL}"
        using c by (elim insertE emptyE)
          (force intro: exI [of _ T_BYTE] exI [of _ T_CHAR] exI [of _ T_DOUBLE] exI [of _ T_FLOAT]
            exI [of _ T_INT] exI [of _ T_LONG] exI [of _ T_SHORT] exI [of _ T_BOOLEAN] exI [of _ T_VOID])+
      then show thesis using that by blast
    qed
    then show ?thesis using c by (intro exI [of _ "FT_Base b"] exI [of _ rest]) auto
  qed
qed simp

lemma valid_type_complete:
  "valid_ft t \<Longrightarrow> valid_type_at (show_type t @ rest) i = i + int (length (show_type t))"
proof (induction t arbitrary: i)
  case (FT_Base b)
  then show ?case by (cases b) auto
qed (auto simp: valid_class_name_complete)

lemma is_valid_type_show: "valid_ft t \<Longrightarrow> is_valid_type (show_type t @ rest) = int (length (show_type t))"
  by (simp add: is_valid_type_def valid_type_complete)

lemma valid_parameters_sound:
  "valid_parameters s = Some (c # rest) \<Longrightarrow>
   \<exists>ps. s = show_types ps @ 41 # rest \<and> c = 41 \<and> (\<forall>t \<in> set ps. valid_ft t)"
proof (induction s rule: valid_parameters.induct)
  case (1 s)
  show ?case
  proof (cases s)
    case Nil
    then show ?thesis using "1.prems" by (simp add: valid_parameters.simps)
  next
    case (Cons a as)
    show ?thesis
    proof (cases "a = 41")
      case True
      then show ?thesis using "1.prems" Cons
        by (subst (asm) valid_parameters.simps) (intro exI [of _ "[]"], simp)
    next
      case False
      then have ne: "is_valid_type s \<noteq> - 1" and
        rec: "valid_parameters (drop (nat (is_valid_type s)) s) = Some (c # rest)"
        using "1.prems" Cons by (subst (asm) valid_parameters.simps, auto simp: Let_def split: if_splits)+
      obtain t r where t: "s = show_type t @ r" "valid_ft t" "is_valid_type s = int (length (show_type t))"
        using valid_type_sound [of s 0] ne by (auto simp: is_valid_type_def)
      then have "drop (nat (is_valid_type s)) s = r" by simp
      then obtain ps where "r = show_types ps @ 41 # rest" "c = 41" "\<forall>t \<in> set ps. valid_ft t"
        using "1.IH" [OF Cons False refl ne rec] by auto
      then show ?thesis using t by (intro exI [of _ "t # ps"]) auto
    qed
  qed
qed

lemma valid_parameters_complete:
  "\<forall>t \<in> set ps. valid_ft t \<Longrightarrow> valid_parameters (show_types ps @ 41 # rest) = Some (41 # rest)"
proof (induction ps)
  case Nil
  then show ?case by (subst valid_parameters.simps) simp
next
  case (Cons t ps)
  obtain c r where c: "show_type t = c # r" "c \<noteq> 41"
    using Cons.prems by (meson list.set_intros(1) show_type_first valid_ft_wf)
  have "is_valid_type (c # r @ show_types ps @ 41 # rest) = int (length (show_type t))"
    using is_valid_type_show [of t "show_types ps @ 41 # rest"] Cons.prems c by simp
  then show ?case using Cons c
    by (subst valid_parameters.simps) (simp add: Let_def nat_add_distrib)
qed

lemma valid_method_signature_types:
  assumes "is_valid_method_signature sig"
  obtains ps r where "sig = show_method ps r" "\<forall>t \<in> set ps. valid_ft t" "valid_ft r"
proof -
  from assms obtain s c rest where s: "sig = 40 # s" "valid_parameters s = Some (c # rest)" "c = 41"
    "is_valid_type rest = int (length rest)"
    by (cases sig) (auto simp: is_valid_method_signature_def split: option.splits list.splits)
  then obtain ps where ps: "s = show_types ps @ 41 # rest" "\<forall>t \<in> set ps. valid_ft t"
    using valid_parameters_sound by blast
  have "valid_type_at rest 0 \<noteq> - 1" using s(4) by (simp add: is_valid_type_def)
  from valid_type_sound [OF this] obtain r x where "rest = show_type r @ x" "valid_ft r"
    "is_valid_type rest = int (length (show_type r))" unfolding is_valid_type_def by auto
  then have "rest = show_type r" "valid_ft r" using s(4) by auto
  then show thesis using that s ps unfolding show_method_def by blast
qed

text \<open>C23: \<open>is_valid_method_signature\<close> accepts exactly the strings of the grammar, with legal
  class names; but it takes \<open>V\<close> for a field type, so also as a parameter or component type.\<close>

theorem valid_method_signature_iff:
  "is_valid_method_signature sig \<longleftrightarrow>
    (\<exists>ps r. sig = show_method ps r \<and> list_all valid_ft ps \<and> valid_ft r)"
  unfolding list_all_iff
proof
  assume "is_valid_method_signature sig"
  then show "\<exists>ps r. sig = show_method ps r \<and> (\<forall>t \<in> set ps. valid_ft t) \<and> valid_ft r"
    using valid_method_signature_types by metis
next
  assume "\<exists>ps r. sig = show_method ps r \<and> (\<forall>t \<in> set ps. valid_ft t) \<and> valid_ft r"
  then obtain ps r where "sig = show_method ps r" "\<forall>t \<in> set ps. valid_ft t" "valid_ft r" by blast
  then show "is_valid_method_signature sig"
    using valid_parameters_complete [of ps "show_type r"] is_valid_type_show [of r "[]"]
    by (simp add: is_valid_method_signature_def show_method_def)
qed

text \<open>C36: Iterating over a signature that was found valid never reads outside it, meets no
  unexpected character, and ends at its end.\<close>

theorem valid_signature_iterates:
  assumes "is_valid_method_signature sig"
  shows "\<exists>it. iterate sig new_iterator = Inr it \<and> si_index it = length sig"
proof -
  obtain ps r where "sig = show_method ps r" "\<forall>t \<in> set ps. valid_ft t" "valid_ft r"
    using assms by (rule valid_method_signature_types)
  then show ?thesis using iterate_show [of ps r new_iterator] valid_ft_wf by blast
qed

theorem valid_signature_iterates_witness:
  "\<exists>it. iterate [40, 73, 76, 65, 59, 41, 86] new_iterator = Inr it \<and>
    si_index it = length [40, 73, 76, 65, 59, 41, 86 :: u_char]"
  using valid_signature_iterates [of "[40, 73, 76, 65, 59, 41, 86]"]
  by (simp add: is_valid_method_signature_def is_valid_type_def valid_parameters.simps Let_def
      invalid_name_char_def)

text \<open>A parameter that is an array of \<open>V\<close>, or \<open>V\<close> itself, is found valid, and on the
  former the stream runs past the end of the signature.\<close>

lemma valid_signature_void_array:
  "is_valid_method_signature [40, 91, 86, 41, 86] \<and> is_valid_method_signature [40, 86, 41, 86] \<and>
   new_stream [40, 91, 86, 41, 86] True = Inl Undefined_Behaviour"
  by (simp add: is_valid_method_signature_def is_valid_type_def valid_parameters.simps Let_def
     new_stream_def ss_next.simps ss_array_end_def byte_at_def ss_skip_size.simps ss_skip_dimensions.simps
     skip_past_semicolon.simps)

end
