(* ===== verification/Constant_Pool.thy ===== *)
theory Constant_Pool
  imports Signature
begin

text \<open>
  The constant pool: \<open>utilities/constantTag.{hpp,cpp}\<close>, and of \<open>oops/constantPool.{hpp,cpp}\<close>
  the stores and loads of entries, the references to members, and the operands of dynamic
  call sites.

  A slot is a machine word that holds an \<open>int\<close>, the bits of a longer constant, a symbol, or
  (for classes) either a resolved class or a symbol with its lowest bit set; here it is the value
  last stored, and reading it as something else is not defined.  Of a resolved class only the name
  matters here.  The cache of the interpreter is the list of the pool indices of its entries.
\<close>

unbundle bit_operations_syntax

section \<open>Tags\<close>

definition JVM_CONSTANT_Invalid :: int where "JVM_CONSTANT_Invalid = 0"
definition JVM_CONSTANT_Utf8 :: int where "JVM_CONSTANT_Utf8 = 1"
definition JVM_CONSTANT_Integer :: int where "JVM_CONSTANT_Integer = 3"
definition JVM_CONSTANT_Float :: int where "JVM_CONSTANT_Float = 4"
definition JVM_CONSTANT_Long :: int where "JVM_CONSTANT_Long = 5"
definition JVM_CONSTANT_Double :: int where "JVM_CONSTANT_Double = 6"
definition JVM_CONSTANT_Class :: int where "JVM_CONSTANT_Class = 7"
definition JVM_CONSTANT_String :: int where "JVM_CONSTANT_String = 8"
definition JVM_CONSTANT_Fieldref :: int where "JVM_CONSTANT_Fieldref = 9"
definition JVM_CONSTANT_Methodref :: int where "JVM_CONSTANT_Methodref = 10"
definition JVM_CONSTANT_InterfaceMethodref :: int where "JVM_CONSTANT_InterfaceMethodref = 11"
definition JVM_CONSTANT_NameAndType :: int where "JVM_CONSTANT_NameAndType = 12"
definition JVM_CONSTANT_MethodHandle :: int where "JVM_CONSTANT_MethodHandle = 15"
definition JVM_CONSTANT_MethodType :: int where "JVM_CONSTANT_MethodType = 16"
definition JVM_CONSTANT_InvokeDynamic :: int where "JVM_CONSTANT_InvokeDynamic = 18"
definition JVM_CONSTANT_UnresolvedClass :: int where "JVM_CONSTANT_UnresolvedClass = 100"
definition JVM_CONSTANT_ClassIndex :: int where "JVM_CONSTANT_ClassIndex = 101"
definition JVM_CONSTANT_StringIndex :: int where "JVM_CONSTANT_StringIndex = 102"
definition JVM_CONSTANT_UnresolvedClassInError :: int where "JVM_CONSTANT_UnresolvedClassInError = 103"
definition JVM_CONSTANT_MethodHandleInError :: int where "JVM_CONSTANT_MethodHandleInError = 104"
definition JVM_CONSTANT_MethodTypeInError :: int where "JVM_CONSTANT_MethodTypeInError = 105"

lemmas tag_values = JVM_CONSTANT_Invalid_def JVM_CONSTANT_Utf8_def JVM_CONSTANT_Integer_def
  JVM_CONSTANT_Float_def JVM_CONSTANT_Long_def JVM_CONSTANT_Double_def JVM_CONSTANT_Class_def
  JVM_CONSTANT_String_def JVM_CONSTANT_Fieldref_def JVM_CONSTANT_Methodref_def
  JVM_CONSTANT_InterfaceMethodref_def JVM_CONSTANT_NameAndType_def JVM_CONSTANT_MethodHandle_def
  JVM_CONSTANT_MethodType_def JVM_CONSTANT_InvokeDynamic_def JVM_CONSTANT_UnresolvedClass_def
  JVM_CONSTANT_ClassIndex_def JVM_CONSTANT_StringIndex_def JVM_CONSTANT_UnresolvedClassInError_def
  JVM_CONSTANT_MethodHandleInError_def JVM_CONSTANT_MethodTypeInError_def

type_synonym constantTag = int

definition tag_is_klass :: "constantTag \<Rightarrow> bool" where "tag_is_klass t \<longleftrightarrow> t = JVM_CONSTANT_Class"
definition tag_is_field :: "constantTag \<Rightarrow> bool" where "tag_is_field t \<longleftrightarrow> t = JVM_CONSTANT_Fieldref"
definition tag_is_method :: "constantTag \<Rightarrow> bool" where "tag_is_method t \<longleftrightarrow> t = JVM_CONSTANT_Methodref"
definition tag_is_interface_method :: "constantTag \<Rightarrow> bool" where
  "tag_is_interface_method t \<longleftrightarrow> t = JVM_CONSTANT_InterfaceMethodref"
definition tag_is_string :: "constantTag \<Rightarrow> bool" where "tag_is_string t \<longleftrightarrow> t = JVM_CONSTANT_String"
definition tag_is_int :: "constantTag \<Rightarrow> bool" where "tag_is_int t \<longleftrightarrow> t = JVM_CONSTANT_Integer"
definition tag_is_float :: "constantTag \<Rightarrow> bool" where "tag_is_float t \<longleftrightarrow> t = JVM_CONSTANT_Float"
definition tag_is_long :: "constantTag \<Rightarrow> bool" where "tag_is_long t \<longleftrightarrow> t = JVM_CONSTANT_Long"
definition tag_is_double :: "constantTag \<Rightarrow> bool" where "tag_is_double t \<longleftrightarrow> t = JVM_CONSTANT_Double"
definition tag_is_name_and_type :: "constantTag \<Rightarrow> bool" where
  "tag_is_name_and_type t \<longleftrightarrow> t = JVM_CONSTANT_NameAndType"
definition tag_is_utf8 :: "constantTag \<Rightarrow> bool" where "tag_is_utf8 t \<longleftrightarrow> t = JVM_CONSTANT_Utf8"
definition tag_is_invalid :: "constantTag \<Rightarrow> bool" where "tag_is_invalid t \<longleftrightarrow> t = JVM_CONSTANT_Invalid"
definition tag_is_unresolved_klass :: "constantTag \<Rightarrow> bool" where
  "tag_is_unresolved_klass t \<longleftrightarrow> t = JVM_CONSTANT_UnresolvedClass \<or> t = JVM_CONSTANT_UnresolvedClassInError"
definition tag_is_unresolved_klass_in_error :: "constantTag \<Rightarrow> bool" where
  "tag_is_unresolved_klass_in_error t \<longleftrightarrow> t = JVM_CONSTANT_UnresolvedClassInError"
definition tag_is_method_handle_in_error :: "constantTag \<Rightarrow> bool" where
  "tag_is_method_handle_in_error t \<longleftrightarrow> t = JVM_CONSTANT_MethodHandleInError"
definition tag_is_method_type_in_error :: "constantTag \<Rightarrow> bool" where
  "tag_is_method_type_in_error t \<longleftrightarrow> t = JVM_CONSTANT_MethodTypeInError"
definition tag_is_klass_index :: "constantTag \<Rightarrow> bool" where "tag_is_klass_index t \<longleftrightarrow> t = JVM_CONSTANT_ClassIndex"
definition tag_is_string_index :: "constantTag \<Rightarrow> bool" where "tag_is_string_index t \<longleftrightarrow> t = JVM_CONSTANT_StringIndex"
definition tag_is_klass_reference :: "constantTag \<Rightarrow> bool" where
  "tag_is_klass_reference t \<longleftrightarrow> tag_is_klass_index t \<or> tag_is_unresolved_klass t"
definition tag_is_klass_or_reference :: "constantTag \<Rightarrow> bool" where
  "tag_is_klass_or_reference t \<longleftrightarrow> tag_is_klass t \<or> tag_is_klass_reference t"
definition tag_is_field_or_method :: "constantTag \<Rightarrow> bool" where
  "tag_is_field_or_method t \<longleftrightarrow> tag_is_field t \<or> tag_is_method t \<or> tag_is_interface_method t"
definition tag_is_symbol :: "constantTag \<Rightarrow> bool" where "tag_is_symbol t = tag_is_utf8 t"
definition tag_is_method_type :: "constantTag \<Rightarrow> bool" where "tag_is_method_type t \<longleftrightarrow> t = JVM_CONSTANT_MethodType"
definition tag_is_method_handle :: "constantTag \<Rightarrow> bool" where
  "tag_is_method_handle t \<longleftrightarrow> t = JVM_CONSTANT_MethodHandle"
definition tag_is_invoke_dynamic :: "constantTag \<Rightarrow> bool" where
  "tag_is_invoke_dynamic t \<longleftrightarrow> t = JVM_CONSTANT_InvokeDynamic"
definition tag_is_loadable_constant :: "constantTag \<Rightarrow> bool" where
  "tag_is_loadable_constant t \<longleftrightarrow>
     (t \<ge> JVM_CONSTANT_Integer \<and> t \<le> JVM_CONSTANT_String) \<or> tag_is_method_type t \<or> tag_is_method_handle t \<or>
     tag_is_unresolved_klass t"

lemmas tag_defs = tag_is_klass_def tag_is_field_def tag_is_method_def tag_is_interface_method_def
  tag_is_string_def tag_is_int_def tag_is_float_def tag_is_long_def tag_is_double_def
  tag_is_name_and_type_def tag_is_utf8_def tag_is_invalid_def tag_is_unresolved_klass_def
  tag_is_unresolved_klass_in_error_def tag_is_method_handle_in_error_def tag_is_method_type_in_error_def
  tag_is_klass_index_def tag_is_string_index_def tag_is_klass_reference_def tag_is_klass_or_reference_def
  tag_is_field_or_method_def tag_is_symbol_def tag_is_method_type_def tag_is_method_handle_def
  tag_is_invoke_dynamic_def tag_is_loadable_constant_def

definition tag_basic_type :: "constantTag \<Rightarrow> fault + BasicType" where
  "tag_basic_type t =
    (if t = JVM_CONSTANT_Integer then Inr T_INT
     else if t = JVM_CONSTANT_Float then Inr T_FLOAT
     else if t = JVM_CONSTANT_Long then Inr T_LONG
     else if t = JVM_CONSTANT_Double then Inr T_DOUBLE
     else if t \<in> {JVM_CONSTANT_Class, JVM_CONSTANT_String, JVM_CONSTANT_UnresolvedClass,
       JVM_CONSTANT_UnresolvedClassInError, JVM_CONSTANT_ClassIndex, JVM_CONSTANT_StringIndex,
       JVM_CONSTANT_MethodHandle, JVM_CONSTANT_MethodHandleInError, JVM_CONSTANT_MethodType,
       JVM_CONSTANT_MethodTypeInError} then Inr T_OBJECT
     else Inl Should_Not_Reach_Here)"

definition tag_non_error_value :: "constantTag \<Rightarrow> constantTag" where
  "tag_non_error_value t =
    (if t = JVM_CONSTANT_UnresolvedClassInError then JVM_CONSTANT_UnresolvedClass
     else if t = JVM_CONSTANT_MethodHandleInError then JVM_CONSTANT_MethodHandle
     else if t = JVM_CONSTANT_MethodTypeInError then JVM_CONSTANT_MethodType
     else t)"

section \<open>The pool\<close>

definition extract_low_short_from_int :: "jint \<Rightarrow> int" where
  "extract_low_short_from_int x = sint (x AND 0xffff)"

definition extract_high_short_from_int :: "jint \<Rightarrow> int" where
  "extract_high_short_from_int x = sint (signed_drop_bit 16 x AND 0xffff)"

definition build_int_from_shorts :: "u2 \<Rightarrow> u2 \<Rightarrow> int" where
  "build_int_from_shorts low high = sint (push_bit 16 (ucast high) OR ucast low :: jint)"

text \<open>The word stored for a pair of indices: \<open>((jint) high << 16) | low\<close>.\<close>

definition pack_indices :: "int \<Rightarrow> int \<Rightarrow> jint" where
  "pack_indices high low = push_bit 16 (word_of_int high) OR word_of_int low"

datatype cp_slot =
    Slot_Int jint | Slot_Bits "64 word" | Slot_Symbol symbol | Slot_Null
  | Slot_Klass symbol | Slot_Unresolved symbol

record ConstantPool =
  cp_tags :: "constantTag list"
  cp_slots :: "cp_slot list"
  cp_cache :: "int list option"
  cp_operands :: "u2 list"

definition cp_length :: "ConstantPool \<Rightarrow> int" where "cp_length cp = int (length (cp_tags cp))"

definition is_within_bounds :: "int \<Rightarrow> ConstantPool \<Rightarrow> bool" where
  "is_within_bounds index cp \<longleftrightarrow> 0 \<le> index \<and> index < cp_length cp"

definition tag_at :: "int \<Rightarrow> ConstantPool \<Rightarrow> fault + constantTag" where
  "tag_at which cp = arr_get (cp_tags cp) which"

definition tag_at_put :: "int \<Rightarrow> constantTag \<Rightarrow> ConstantPool \<Rightarrow> fault + ConstantPool" where
  "tag_at_put which t cp = rbind (arr_set (cp_tags cp) which t) (\<lambda>ts. Inr (cp\<lparr>cp_tags := ts\<rparr>))"

definition slot_at :: "int \<Rightarrow> ConstantPool \<Rightarrow> fault + cp_slot" where
  "slot_at which cp = arr_get (cp_slots cp) which"

definition slot_at_put :: "int \<Rightarrow> cp_slot \<Rightarrow> ConstantPool \<Rightarrow> fault + ConstantPool" where
  "slot_at_put which s cp = rbind (arr_set (cp_slots cp) which s) (\<lambda>ss. Inr (cp\<lparr>cp_slots := ss\<rparr>))"

subsection \<open>Stores\<close>

definition entry_at_put :: "int \<Rightarrow> constantTag \<Rightarrow> cp_slot \<Rightarrow> ConstantPool \<Rightarrow> fault + ConstantPool" where
  "entry_at_put which t s cp = rbind (tag_at_put which t cp) (slot_at_put which s)"

definition klass_at_put :: "int \<Rightarrow> symbol \<Rightarrow> ConstantPool \<Rightarrow> fault + ConstantPool" where
  "klass_at_put which k cp = rbind (slot_at_put which (Slot_Klass k) cp) (tag_at_put which JVM_CONSTANT_Class)"

definition klass_index_at_put :: "int \<Rightarrow> int \<Rightarrow> ConstantPool \<Rightarrow> fault + ConstantPool" where
  "klass_index_at_put which name_index =
     entry_at_put which JVM_CONSTANT_ClassIndex (Slot_Int (word_of_int name_index))"

definition unresolved_klass_at_put :: "int \<Rightarrow> symbol \<Rightarrow> ConstantPool \<Rightarrow> fault + ConstantPool" where
  "unresolved_klass_at_put which s = entry_at_put which JVM_CONSTANT_UnresolvedClass (Slot_Unresolved s)"

definition method_handle_index_at_put :: "int \<Rightarrow> int \<Rightarrow> int \<Rightarrow> ConstantPool \<Rightarrow> fault + ConstantPool" where
  "method_handle_index_at_put which ref_kind ref_index =
     entry_at_put which JVM_CONSTANT_MethodHandle (Slot_Int (pack_indices ref_index ref_kind))"

definition method_type_index_at_put :: "int \<Rightarrow> int \<Rightarrow> ConstantPool \<Rightarrow> fault + ConstantPool" where
  "method_type_index_at_put which ref_index =
     entry_at_put which JVM_CONSTANT_MethodType (Slot_Int (word_of_int ref_index))"

definition invoke_dynamic_at_put :: "int \<Rightarrow> int \<Rightarrow> int \<Rightarrow> ConstantPool \<Rightarrow> fault + ConstantPool" where
  "invoke_dynamic_at_put which bootstrap_specifier_index name_and_type_index =
     entry_at_put which JVM_CONSTANT_InvokeDynamic
       (Slot_Int (pack_indices name_and_type_index bootstrap_specifier_index))"

definition unresolved_string_at_put :: "int \<Rightarrow> symbol option \<Rightarrow> ConstantPool \<Rightarrow> fault + ConstantPool" where
  "unresolved_string_at_put which s =
     entry_at_put which JVM_CONSTANT_String (case s of None \<Rightarrow> Slot_Null | Some s \<Rightarrow> Slot_Symbol s)"

definition int_at_put :: "int \<Rightarrow> jint \<Rightarrow> ConstantPool \<Rightarrow> fault + ConstantPool" where
  "int_at_put which i = entry_at_put which JVM_CONSTANT_Integer (Slot_Int i)"

definition long_at_put :: "int \<Rightarrow> jlong \<Rightarrow> ConstantPool \<Rightarrow> fault + ConstantPool" where
  "long_at_put which l = entry_at_put which JVM_CONSTANT_Long (Slot_Bits l)"

definition float_at_put :: "int \<Rightarrow> jint \<Rightarrow> ConstantPool \<Rightarrow> fault + ConstantPool" where
  "float_at_put which f = entry_at_put which JVM_CONSTANT_Float (Slot_Int f)"

definition double_at_put :: "int \<Rightarrow> 64 word \<Rightarrow> ConstantPool \<Rightarrow> fault + ConstantPool" where
  "double_at_put which d = entry_at_put which JVM_CONSTANT_Double (Slot_Bits d)"

definition symbol_at_put :: "int \<Rightarrow> symbol \<Rightarrow> ConstantPool \<Rightarrow> fault + ConstantPool" where
  "symbol_at_put which s = entry_at_put which JVM_CONSTANT_Utf8 (Slot_Symbol s)"

definition string_index_at_put :: "int \<Rightarrow> int \<Rightarrow> ConstantPool \<Rightarrow> fault + ConstantPool" where
  "string_index_at_put which string_index =
     entry_at_put which JVM_CONSTANT_StringIndex (Slot_Int (word_of_int string_index))"

definition field_at_put :: "int \<Rightarrow> int \<Rightarrow> int \<Rightarrow> ConstantPool \<Rightarrow> fault + ConstantPool" where
  "field_at_put which class_index name_and_type_index =
     entry_at_put which JVM_CONSTANT_Fieldref (Slot_Int (pack_indices name_and_type_index class_index))"

definition method_at_put :: "int \<Rightarrow> int \<Rightarrow> int \<Rightarrow> ConstantPool \<Rightarrow> fault + ConstantPool" where
  "method_at_put which class_index name_and_type_index =
     entry_at_put which JVM_CONSTANT_Methodref (Slot_Int (pack_indices name_and_type_index class_index))"

definition interface_method_at_put :: "int \<Rightarrow> int \<Rightarrow> int \<Rightarrow> ConstantPool \<Rightarrow> fault + ConstantPool" where
  "interface_method_at_put which class_index name_and_type_index =
     entry_at_put which JVM_CONSTANT_InterfaceMethodref (Slot_Int (pack_indices name_and_type_index class_index))"

definition name_and_type_at_put :: "int \<Rightarrow> int \<Rightarrow> int \<Rightarrow> ConstantPool \<Rightarrow> fault + ConstantPool" where
  "name_and_type_at_put which name_index signature_index =
     entry_at_put which JVM_CONSTANT_NameAndType (Slot_Int (pack_indices signature_index name_index))"

subsection \<open>Loads\<close>

definition int_at_addr :: "int \<Rightarrow> ConstantPool \<Rightarrow> fault + jint" where
  "int_at_addr which cp = rbind (slot_at which cp) (\<lambda>s.
     case s of Slot_Int i \<Rightarrow> Inr i | _ \<Rightarrow> Inl Undefined_Behaviour)"

definition bits_at_addr :: "int \<Rightarrow> ConstantPool \<Rightarrow> fault + 64 word" where
  "bits_at_addr which cp = rbind (slot_at which cp) (\<lambda>s.
     case s of Slot_Bits b \<Rightarrow> Inr b | _ \<Rightarrow> Inl Undefined_Behaviour)"

text \<open>\<open>*symbol_at_addr(which)\<close>, possibly null.\<close>

definition symbol_at_addr :: "int \<Rightarrow> ConstantPool \<Rightarrow> fault + symbol option" where
  "symbol_at_addr which cp = rbind (slot_at which cp) (\<lambda>s.
     case s of Slot_Symbol s \<Rightarrow> Inr (Some s) | Slot_Null \<Rightarrow> Inr None | _ \<Rightarrow> Inl Undefined_Behaviour)"

definition klass_name_at :: "int \<Rightarrow> ConstantPool \<Rightarrow> fault + symbol" where
  "klass_name_at which cp = rbind (slot_at which cp) (\<lambda>s.
     case s of Slot_Klass k \<Rightarrow> Inr k | Slot_Unresolved s \<Rightarrow> Inr s | _ \<Rightarrow> Inl Undefined_Behaviour)"

definition int_at :: "int \<Rightarrow> ConstantPool \<Rightarrow> fault + jint" where "int_at which cp = int_at_addr which cp"
definition long_at :: "int \<Rightarrow> ConstantPool \<Rightarrow> fault + jlong" where "long_at which cp = bits_at_addr which cp"
definition float_at :: "int \<Rightarrow> ConstantPool \<Rightarrow> fault + jint" where "float_at which cp = int_at_addr which cp"
definition double_at :: "int \<Rightarrow> ConstantPool \<Rightarrow> fault + 64 word" where "double_at which cp = bits_at_addr which cp"

definition symbol_at :: "int \<Rightarrow> ConstantPool \<Rightarrow> fault + symbol" where
  "symbol_at which cp = rbind (symbol_at_addr which cp) (\<lambda>s.
     case s of None \<Rightarrow> Inl Undefined_Behaviour | Some s \<Rightarrow> Inr s)"

definition unresolved_string_at :: "int \<Rightarrow> ConstantPool \<Rightarrow> fault + symbol option" where
  "unresolved_string_at which cp = symbol_at_addr which cp"

definition is_pseudo_string_at :: "int \<Rightarrow> ConstantPool \<Rightarrow> fault + bool" where
  "is_pseudo_string_at which cp = rbind (unresolved_string_at which cp) (\<lambda>s. Inr (s = None))"

definition name_and_type_at :: "int \<Rightarrow> ConstantPool \<Rightarrow> fault + jint" where
  "name_and_type_at which cp = int_at_addr which cp"

section \<open>References to members\<close>

definition is_invokedynamic_index :: "int \<Rightarrow> bool" where "is_invokedynamic_index i \<longleftrightarrow> i < 0"
definition decode_invokedynamic_index :: "int \<Rightarrow> int" where "decode_invokedynamic_index i = NOT i"
definition encode_invokedynamic_index :: "int \<Rightarrow> int" where "encode_invokedynamic_index i = NOT i"

text \<open>\<open>cache()->entry_at(i)->constant_pool_index()\<close>; without a cache the pointer is null.\<close>

definition cache_pool_index :: "int \<Rightarrow> ConstantPool \<Rightarrow> fault + int" where
  "cache_pool_index i cp = (case cp_cache cp of None \<Rightarrow> Inl Undefined_Behaviour | Some es \<Rightarrow> arr_get es i)"

definition remap_instruction_operand_from_cache :: "int \<Rightarrow> ConstantPool \<Rightarrow> fault + int" where
  "remap_instruction_operand_from_cache operand cp = cache_pool_index operand cp"

definition invoke_dynamic_name_and_type_ref_index_at :: "int \<Rightarrow> ConstantPool \<Rightarrow> fault + int" where
  "invoke_dynamic_name_and_type_ref_index_at which cp =
     rbind (int_at_addr which cp) (\<lambda>w. Inr (extract_high_short_from_int w))"

definition invoke_dynamic_bootstrap_specifier_index :: "int \<Rightarrow> ConstantPool \<Rightarrow> fault + int" where
  "invoke_dynamic_bootstrap_specifier_index which cp =
     rbind (int_at_addr which cp) (\<lambda>w. Inr (extract_low_short_from_int w))"

definition impl_name_and_type_ref_index_at :: "int \<Rightarrow> bool \<Rightarrow> ConstantPool \<Rightarrow> fault + int" where
  "impl_name_and_type_ref_index_at which uncached cp =
    (let member = (\<lambda>i. rbind (int_at_addr i cp) (\<lambda>ref_index. Inr (extract_high_short_from_int ref_index)))
     in if \<not> uncached \<and> cp_cache cp \<noteq> None
        then if is_invokedynamic_index which
             then rbind (cache_pool_index (decode_invokedynamic_index which) cp) (\<lambda>pool_index.
                    invoke_dynamic_name_and_type_ref_index_at pool_index cp)
             else rbind (remap_instruction_operand_from_cache which cp) member
        else rbind (tag_at which cp) (\<lambda>t.
               if tag_is_invoke_dynamic t then invoke_dynamic_name_and_type_ref_index_at which cp
               else member which))"

definition impl_klass_ref_index_at :: "int \<Rightarrow> bool \<Rightarrow> ConstantPool \<Rightarrow> fault + int" where
  "impl_klass_ref_index_at which uncached cp =
    (if is_invokedynamic_index which then Inl Should_Not_Reach_Here
     else rbind (if \<not> uncached \<and> cp_cache cp \<noteq> None
                 then remap_instruction_operand_from_cache which cp else Inr which) (\<lambda>i.
          rbind (int_at_addr i cp) (\<lambda>ref_index. Inr (extract_low_short_from_int ref_index))))"

definition name_ref_index_at :: "int \<Rightarrow> ConstantPool \<Rightarrow> fault + int" where
  "name_ref_index_at which_nt cp =
     rbind (name_and_type_at which_nt cp) (\<lambda>ref_index. Inr (extract_low_short_from_int ref_index))"

definition signature_ref_index_at :: "int \<Rightarrow> ConstantPool \<Rightarrow> fault + int" where
  "signature_ref_index_at which_nt cp =
     rbind (name_and_type_at which_nt cp) (\<lambda>ref_index. Inr (extract_high_short_from_int ref_index))"

definition impl_name_ref_at :: "int \<Rightarrow> bool \<Rightarrow> ConstantPool \<Rightarrow> fault + symbol" where
  "impl_name_ref_at which uncached cp =
     rbind (impl_name_and_type_ref_index_at which uncached cp) (\<lambda>nt.
     rbind (name_ref_index_at nt cp) (\<lambda>name_index. symbol_at name_index cp))"

definition impl_signature_ref_at :: "int \<Rightarrow> bool \<Rightarrow> ConstantPool \<Rightarrow> fault + symbol" where
  "impl_signature_ref_at which uncached cp =
     rbind (impl_name_and_type_ref_index_at which uncached cp) (\<lambda>nt.
     rbind (signature_ref_index_at nt cp) (\<lambda>signature_index. symbol_at signature_index cp))"

definition name_ref_at :: "int \<Rightarrow> ConstantPool \<Rightarrow> fault + symbol" where
  "name_ref_at which = impl_name_ref_at which False"
definition signature_ref_at :: "int \<Rightarrow> ConstantPool \<Rightarrow> fault + symbol" where
  "signature_ref_at which = impl_signature_ref_at which False"
definition klass_ref_index_at :: "int \<Rightarrow> ConstantPool \<Rightarrow> fault + int" where
  "klass_ref_index_at which = impl_klass_ref_index_at which False"
definition name_and_type_ref_index_at :: "int \<Rightarrow> ConstantPool \<Rightarrow> fault + int" where
  "name_and_type_ref_index_at which = impl_name_and_type_ref_index_at which False"
definition uncached_klass_ref_index_at :: "int \<Rightarrow> ConstantPool \<Rightarrow> fault + int" where
  "uncached_klass_ref_index_at which = impl_klass_ref_index_at which True"

definition klass_ref_at_noresolve :: "int \<Rightarrow> ConstantPool \<Rightarrow> fault + symbol" where
  "klass_ref_at_noresolve which cp = rbind (klass_ref_index_at which cp) (\<lambda>i. klass_name_at i cp)"

definition uncached_klass_ref_at_noresolve :: "int \<Rightarrow> ConstantPool \<Rightarrow> fault + symbol" where
  "uncached_klass_ref_at_noresolve which cp = rbind (uncached_klass_ref_index_at which cp) (\<lambda>i. klass_name_at i cp)"

definition method_handle_ref_kind_at :: "int \<Rightarrow> ConstantPool \<Rightarrow> fault + int" where
  "method_handle_ref_kind_at which cp = rbind (int_at_addr which cp) (\<lambda>w. Inr (extract_low_short_from_int w))"
definition method_handle_index_at :: "int \<Rightarrow> ConstantPool \<Rightarrow> fault + int" where
  "method_handle_index_at which cp = rbind (int_at_addr which cp) (\<lambda>w. Inr (extract_high_short_from_int w))"
definition method_type_index_at :: "int \<Rightarrow> ConstantPool \<Rightarrow> fault + int" where
  "method_type_index_at which cp = rbind (int_at_addr which cp) (\<lambda>w. Inr (sint w))"

definition method_handle_name_ref_at :: "int \<Rightarrow> ConstantPool \<Rightarrow> fault + symbol" where
  "method_handle_name_ref_at which cp = rbind (method_handle_index_at which cp) (\<lambda>m. impl_name_ref_at m True cp)"
definition method_handle_signature_ref_at :: "int \<Rightarrow> ConstantPool \<Rightarrow> fault + symbol" where
  "method_handle_signature_ref_at which cp =
     rbind (method_handle_index_at which cp) (\<lambda>m. impl_signature_ref_at m True cp)"
definition method_handle_klass_index_at :: "int \<Rightarrow> ConstantPool \<Rightarrow> fault + int" where
  "method_handle_klass_index_at which cp =
     rbind (method_handle_index_at which cp) (\<lambda>m. impl_klass_ref_index_at m True cp)"
definition method_type_signature_at :: "int \<Rightarrow> ConstantPool \<Rightarrow> fault + symbol" where
  "method_type_signature_at which cp = rbind (method_type_index_at which cp) (\<lambda>s. symbol_at s cp)"

section \<open>Operands of dynamic call sites\<close>

definition operand_offset_at :: "u2 list \<Rightarrow> int \<Rightarrow> fault + int" where
  "operand_offset_at operands bootstrap_specifier_index =
    (let n = bootstrap_specifier_index * 2
     in rbind (arr_get operands n) (\<lambda>low. rbind (arr_get operands (n + 1)) (\<lambda>high.
          Inr (build_int_from_shorts low high))))"

definition operand_offset_at_put :: "u2 list \<Rightarrow> int \<Rightarrow> int \<Rightarrow> fault + u2 list" where
  "operand_offset_at_put operands bootstrap_specifier_index offset =
    (let n = bootstrap_specifier_index * 2
     in rbind (arr_set operands n (word_of_int (extract_low_short_from_int (word_of_int offset)))) (\<lambda>ops.
        arr_set ops (n + 1) (word_of_int (extract_high_short_from_int (word_of_int offset)))))"

definition operand_array_length :: "u2 list option \<Rightarrow> fault + int" where
  "operand_array_length operands =
    (case operands of None \<Rightarrow> Inr 0
     | Some ops \<Rightarrow> if ops = [] then Inr 0
                    else rbind (operand_offset_at ops 0) (\<lambda>second_part. Inr (second_part div 2)))"

definition indy_bsm_offset :: int where "indy_bsm_offset = 0"
definition indy_argc_offset :: int where "indy_argc_offset = 1"
definition indy_argv_offset :: int where "indy_argv_offset = 2"

definition operand_bootstrap_method_ref_index_at :: "int \<Rightarrow> ConstantPool \<Rightarrow> fault + int" where
  "operand_bootstrap_method_ref_index_at i cp =
     rbind (operand_offset_at (cp_operands cp) i) (\<lambda>offset.
     rbind (arr_get (cp_operands cp) (offset + indy_bsm_offset)) (\<lambda>w. Inr (uint w)))"

definition operand_argument_count_at :: "int \<Rightarrow> ConstantPool \<Rightarrow> fault + int" where
  "operand_argument_count_at i cp =
     rbind (operand_offset_at (cp_operands cp) i) (\<lambda>offset.
     rbind (arr_get (cp_operands cp) (offset + indy_argc_offset)) (\<lambda>w. Inr (uint w)))"

definition operand_argument_index_at :: "int \<Rightarrow> int \<Rightarrow> ConstantPool \<Rightarrow> fault + int" where
  "operand_argument_index_at i j cp =
     rbind (operand_offset_at (cp_operands cp) i) (\<lambda>offset.
     rbind (arr_get (cp_operands cp) (offset + indy_argv_offset + j)) (\<lambda>w. Inr (uint w)))"

definition operand_next_offset_at :: "int \<Rightarrow> ConstantPool \<Rightarrow> fault + int" where
  "operand_next_offset_at i cp =
     rbind (operand_offset_at (cp_operands cp) i) (\<lambda>offset.
     rbind (operand_argument_count_at i cp) (\<lambda>argc. Inr (offset + indy_argv_offset + argc)))"

definition invoke_dynamic_operand_base :: "int \<Rightarrow> ConstantPool \<Rightarrow> fault + int" where
  "invoke_dynamic_operand_base which cp =
     rbind (invoke_dynamic_bootstrap_specifier_index which cp) (\<lambda>i. operand_offset_at (cp_operands cp) i)"

definition invoke_dynamic_bootstrap_method_ref_index_at :: "int \<Rightarrow> ConstantPool \<Rightarrow> fault + int" where
  "invoke_dynamic_bootstrap_method_ref_index_at which cp =
     rbind (invoke_dynamic_operand_base which cp) (\<lambda>op_base.
     rbind (arr_get (cp_operands cp) (op_base + indy_bsm_offset)) (\<lambda>w. Inr (uint w)))"

definition invoke_dynamic_argument_count_at :: "int \<Rightarrow> ConstantPool \<Rightarrow> fault + int" where
  "invoke_dynamic_argument_count_at which cp =
     rbind (invoke_dynamic_operand_base which cp) (\<lambda>op_base.
     rbind (arr_get (cp_operands cp) (op_base + indy_argc_offset)) (\<lambda>w. Inr (uint w)))"

definition invoke_dynamic_argument_index_at :: "int \<Rightarrow> int \<Rightarrow> ConstantPool \<Rightarrow> fault + int" where
  "invoke_dynamic_argument_index_at which j cp =
     rbind (invoke_dynamic_operand_base which cp) (\<lambda>op_base.
     rbind (arr_get (cp_operands cp) (op_base + indy_argv_offset + j)) (\<lambda>w. Inr (uint w)))"

section \<open>Pairs of indices\<close>

definition u2_index :: "int \<Rightarrow> bool" where "u2_index i \<longleftrightarrow> 0 \<le> i \<and> i < 65536"

lemma and_ffff: "x AND 0xffff = (take_bit 16 x :: jint)"
  by (simp add: take_bit_eq_mask mask_eq_exp_minus_1)

lemma sint_take_16: "sint (take_bit 16 x :: jint) = take_bit 16 (uint x)"
  by (rule bit_eqI) (auto simp: bit_simps min_def)

lemma u2_index_take: "u2_index i \<longleftrightarrow> take_bit 16 i = i"
  by (auto simp: u2_index_def take_bit_int_eq_self_iff)

lemma bit_u2_index: "u2_index i \<Longrightarrow> bit i n \<Longrightarrow> n < 16"
  by (metis bit_take_bit_iff u2_index_take)

lemma extract_low_pack: "u2_index l \<Longrightarrow> extract_low_short_from_int (pack_indices h l) = l"
  by (rule bit_eqI)
    (auto simp: extract_low_short_from_int_def and_ffff sint_take_16 pack_indices_def bit_simps dest: bit_u2_index)

lemma extract_high_pack: "u2_index h \<Longrightarrow> u2_index l \<Longrightarrow> extract_high_short_from_int (pack_indices h l) = h"
  by (rule bit_eqI)
    (auto simp: extract_high_short_from_int_def and_ffff sint_take_16 pack_indices_def bit_simps dest: bit_u2_index)

section \<open>Stores and loads\<close>

definition pool_wf :: "ConstantPool \<Rightarrow> bool" where
  "pool_wf cp \<longleftrightarrow> length (cp_slots cp) = length (cp_tags cp)"

definition same_except :: "int \<Rightarrow> ConstantPool \<Rightarrow> ConstantPool \<Rightarrow> bool" where
  "same_except i cp cp' \<longleftrightarrow> cp_length cp' = cp_length cp \<and> pool_wf cp' = pool_wf cp \<and>
     cp_cache cp' = cp_cache cp \<and> cp_operands cp' = cp_operands cp \<and>
     (\<forall>j. j \<noteq> i \<longrightarrow> tag_at j cp' = tag_at j cp \<and> slot_at j cp' = slot_at j cp)"

lemma entry_at_put_eq:
  "pool_wf cp \<Longrightarrow> is_within_bounds i cp \<Longrightarrow> entry_at_put i t s cp =
    Inr (cp\<lparr>cp_tags := (cp_tags cp)[nat i := t], cp_slots := (cp_slots cp)[nat i := s]\<rparr>)"
  by (simp add: pool_wf_def is_within_bounds_def cp_length_def entry_at_put_def tag_at_put_def slot_at_put_def arr_set_def)

lemma klass_at_put_eq: "klass_at_put i k cp = entry_at_put i JVM_CONSTANT_Class (Slot_Klass k) cp"
  by (auto simp: klass_at_put_def entry_at_put_def tag_at_put_def slot_at_put_def arr_set_def)

lemma arr_get_other: "0 \<le> i \<Longrightarrow> j \<noteq> i \<Longrightarrow> arr_get (xs[nat i := x]) j = arr_get xs j"
  by (auto simp: arr_get_def nth_list_update_neq)

lemma entry_at_put_Inr:
  assumes "entry_at_put i t s cp = Inr cp'"
  shows "tag_at i cp' = Inr t" "slot_at i cp' = Inr s" "same_except i cp cp'" "0 \<le> i"
proof -
  have b: "0 \<le> i" "i < int (length (cp_tags cp))" "i < int (length (cp_slots cp))"
    and cp': "cp' = cp\<lparr>cp_tags := (cp_tags cp)[nat i := t], cp_slots := (cp_slots cp)[nat i := s]\<rparr>"
    using assms by (auto simp: entry_at_put_def tag_at_put_def slot_at_put_def arr_set_def split: if_splits)
  show "tag_at i cp' = Inr t" "slot_at i cp' = Inr s" using b cp' by (simp_all add: tag_at_def slot_at_def arr_get_def)
  show "0 \<le> i" by (rule b(1))
  show "same_except i cp cp'"
    using b(1) cp' by (simp add: same_except_def pool_wf_def cp_length_def tag_at_def slot_at_def arr_get_other)
qed

section \<open>Entries as an interface\<close>

text \<open>What a kind of entry promises: a store succeeds within bounds, sets the tag, is read back,
  and leaves every other entry, the cache and the operands alone.\<close>

fun store_all :: "(int \<Rightarrow> 'v \<Rightarrow> ConstantPool \<Rightarrow> fault + ConstantPool) \<Rightarrow> (int \<times> 'v) list \<Rightarrow> ConstantPool \<Rightarrow>
    fault + ConstantPool" where
  "store_all store [] cp = Inr cp"
| "store_all store ((i, v) # ivs) cp = rbind (store i v cp) (store_all store ivs)"

locale pool_entry =
  fixes store :: "int \<Rightarrow> 'v \<Rightarrow> ConstantPool \<Rightarrow> fault + ConstantPool"
    and load :: "int \<Rightarrow> ConstantPool \<Rightarrow> fault + 'v"
    and tag :: constantTag
    and legal :: "'v \<Rightarrow> bool"
  assumes store_ok: "pool_wf cp \<Longrightarrow> is_within_bounds i cp \<Longrightarrow> \<exists>cp'. store i v cp = Inr cp'"
    and load_store: "store i v cp = Inr cp' \<Longrightarrow> legal v \<Longrightarrow> load i cp' = Inr v"
    and tag_store: "store i v cp = Inr cp' \<Longrightarrow> tag_at i cp' = Inr tag"
    and store_same: "store i v cp = Inr cp' \<Longrightarrow> same_except i cp cp'"
    and load_same: "same_except i cp cp' \<Longrightarrow> j \<noteq> i \<Longrightarrow> 0 \<le> j \<Longrightarrow> load j cp' = load j cp"
begin

lemma store_all_loads:
  "pool_wf cp \<Longrightarrow> distinct (map fst ivs) \<Longrightarrow> (\<forall>(i, v) \<in> set ivs. is_within_bounds i cp \<and> legal v) \<Longrightarrow>
   \<exists>cp'. store_all store ivs cp = Inr cp' \<and> pool_wf cp' \<and> cp_length cp' = cp_length cp \<and>
     (\<forall>(i, v) \<in> set ivs. load i cp' = Inr v \<and> tag_at i cp' = Inr tag) \<and>
     (\<forall>j. j \<notin> fst ` set ivs \<and> 0 \<le> j \<longrightarrow> load j cp' = load j cp \<and> tag_at j cp' = tag_at j cp)"
proof (induction ivs arbitrary: cp)
  case (Cons iv ivs)
  obtain i v where iv: "iv = (i, v)" by fastforce
  then have i: "is_within_bounds i cp" "legal v" "i \<notin> fst ` set ivs" using Cons.prems by auto
  then have i0: "0 \<le> i" by (simp add: is_within_bounds_def)
  obtain cp1 where cp1: "store i v cp = Inr cp1" using store_ok Cons.prems(1) i(1) by blast
  note same = store_same [OF cp1]
  have "pool_wf cp1" "cp_length cp1 = cp_length cp" using same Cons.prems(1) by (auto simp: same_except_def)
  moreover have "\<forall>(i, v) \<in> set ivs. is_within_bounds i cp1 \<and> legal v"
    using Cons.prems(3) same by (auto simp: same_except_def is_within_bounds_def)
  ultimately obtain cp' where cp': "store_all store ivs cp1 = Inr cp'" "pool_wf cp'" "cp_length cp' = cp_length cp"
    and all: "\<forall>(i, v) \<in> set ivs. load i cp' = Inr v \<and> tag_at i cp' = Inr tag"
    and others: "\<forall>j. j \<notin> fst ` set ivs \<and> 0 \<le> j \<longrightarrow> load j cp' = load j cp1 \<and> tag_at j cp' = tag_at j cp1"
    using Cons.IH [of cp1] Cons.prems(2) by auto
  have "load i cp' = Inr v" "tag_at i cp' = Inr tag"
    using others i(3) i0 load_store [OF cp1 i(2)] tag_store [OF cp1] by auto
  moreover have "load j cp' = load j cp \<and> tag_at j cp' = tag_at j cp" if "j \<notin> fst ` set (iv # ivs)" "0 \<le> j" for j
    using that others load_same [OF same, of j] same iv by (auto simp: same_except_def)
  ultimately show ?case using cp1 cp' all iv by auto
qed auto

end

named_theorems pool_unfold \<open>the stores and loads of the pool in terms of tags and slots\<close>

lemmas [pool_unfold] = klass_at_put_eq klass_index_at_put_def unresolved_klass_at_put_def method_handle_index_at_put_def
  method_type_index_at_put_def invoke_dynamic_at_put_def unresolved_string_at_put_def int_at_put_def long_at_put_def
  float_at_put_def double_at_put_def symbol_at_put_def string_index_at_put_def field_at_put_def method_at_put_def
  interface_method_at_put_def name_and_type_at_put_def int_at_addr_def bits_at_addr_def symbol_at_addr_def
  klass_name_at_def int_at_def long_at_def float_at_def double_at_def symbol_at_def unresolved_string_at_def
  name_and_type_at_def name_ref_index_at_def signature_ref_index_at_def

lemma entry_laws:
  "pool_wf cp \<Longrightarrow> is_within_bounds i cp \<Longrightarrow> \<exists>cp'. entry_at_put i t s cp = Inr cp'"
  "same_except i cp cp' \<Longrightarrow> j \<noteq> i \<Longrightarrow> slot_at j cp' = slot_at j cp"
  "same_except i cp cp' \<Longrightarrow> j \<noteq> i \<Longrightarrow> tag_at j cp' = tag_at j cp"
  "same_except i cp cp' \<Longrightarrow> cp_cache cp' = cp_cache cp"
  by (auto simp: entry_at_put_eq same_except_def)

lemmas entry_stored = entry_at_put_Inr entry_laws

interpretation symbols: pool_entry symbol_at_put symbol_at JVM_CONSTANT_Utf8 "\<lambda>_. True"
  by unfold_locales (auto simp: pool_unfold entry_stored)

interpretation ints: pool_entry int_at_put int_at JVM_CONSTANT_Integer "\<lambda>_. True"
  by unfold_locales (auto simp: pool_unfold entry_stored)

interpretation longs: pool_entry long_at_put long_at JVM_CONSTANT_Long "\<lambda>_. True"
  by unfold_locales (auto simp: pool_unfold entry_stored)

interpretation floats: pool_entry float_at_put float_at JVM_CONSTANT_Float "\<lambda>_. True"
  by unfold_locales (auto simp: pool_unfold entry_stored)

interpretation doubles: pool_entry double_at_put double_at JVM_CONSTANT_Double "\<lambda>_. True"
  by unfold_locales (auto simp: pool_unfold entry_stored)

interpretation klasses: pool_entry klass_at_put klass_name_at JVM_CONSTANT_Class "\<lambda>_. True"
  by unfold_locales (auto simp: pool_unfold entry_stored)

interpretation unresolved_klasses:
  pool_entry unresolved_klass_at_put klass_name_at JVM_CONSTANT_UnresolvedClass "\<lambda>_. True"
  by unfold_locales (auto simp: pool_unfold entry_stored)

definition load_pair :: "(int \<Rightarrow> ConstantPool \<Rightarrow> fault + int) \<Rightarrow> (int \<Rightarrow> ConstantPool \<Rightarrow> fault + int) \<Rightarrow>
    int \<Rightarrow> ConstantPool \<Rightarrow> fault + int \<times> int" where
  "load_pair f g i cp = rbind (f i cp) (\<lambda>x. rbind (g i cp) (\<lambda>y. Inr (x, y)))"

definition u2_pair :: "int \<times> int \<Rightarrow> bool" where "u2_pair p \<longleftrightarrow> u2_index (fst p) \<and> u2_index (snd p)"

lemmas pair_unfold = pool_unfold load_pair_def u2_pair_def extract_low_pack extract_high_pack

interpretation name_and_types: pool_entry "\<lambda>i (n, s). name_and_type_at_put i n s"
    "load_pair name_ref_index_at signature_ref_index_at" JVM_CONSTANT_NameAndType u2_pair
  by unfold_locales (auto simp: pair_unfold entry_stored)

lemmas member_unfold = pair_unfold uncached_klass_ref_index_at_def impl_klass_ref_index_at_def
  impl_name_and_type_ref_index_at_def is_invokedynamic_index_def tag_defs tag_values
  invoke_dynamic_name_and_type_ref_index_at_def

lemma member_entry:
  assumes "t = JVM_CONSTANT_Fieldref \<or> t = JVM_CONSTANT_Methodref \<or> t = JVM_CONSTANT_InterfaceMethodref"
  shows "pool_entry (\<lambda>i (c, nt). entry_at_put i t (Slot_Int (pack_indices nt c)))
    (load_pair uncached_klass_ref_index_at (\<lambda>i. impl_name_and_type_ref_index_at i True)) t u2_pair"
proof
  fix i p cp cp'
  assume s: "(case p of (c, nt) \<Rightarrow> entry_at_put i t (Slot_Int (pack_indices nt c))) cp = Inr cp'" and u: "u2_pair p"
  obtain c nt where p: "p = (c, nt)" by fastforce
  note stored = entry_at_put_Inr [of i t "Slot_Int (pack_indices nt c)" cp cp']
  show "load_pair uncached_klass_ref_index_at (\<lambda>i. impl_name_and_type_ref_index_at i True) i cp' = Inr p"
    using s u p stored assms by (auto simp: member_unfold)
qed (auto simp: entry_stored member_unfold cong: if_cong)

interpretation fields: pool_entry "\<lambda>i (c, nt). field_at_put i c nt"
    "load_pair uncached_klass_ref_index_at (\<lambda>i. impl_name_and_type_ref_index_at i True)"
    JVM_CONSTANT_Fieldref u2_pair
  unfolding field_at_put_def by (rule member_entry) simp

interpretation methods: pool_entry "\<lambda>i (c, nt). method_at_put i c nt"
    "load_pair uncached_klass_ref_index_at (\<lambda>i. impl_name_and_type_ref_index_at i True)"
    JVM_CONSTANT_Methodref u2_pair
  unfolding method_at_put_def by (rule member_entry) simp

interpretation interface_methods: pool_entry "\<lambda>i (c, nt). interface_method_at_put i c nt"
    "load_pair uncached_klass_ref_index_at (\<lambda>i. impl_name_and_type_ref_index_at i True)"
    JVM_CONSTANT_InterfaceMethodref u2_pair
  unfolding interface_method_at_put_def by (rule member_entry) simp

section \<open>Round trips\<close>

text \<open>The entries of a member reference in the order the parser creates them.\<close>

definition add_member :: "(int \<Rightarrow> int \<Rightarrow> int \<Rightarrow> ConstantPool \<Rightarrow> fault + ConstantPool) \<Rightarrow> int \<Rightarrow> int \<times> symbol \<Rightarrow> int \<Rightarrow>
    int \<times> symbol \<Rightarrow> int \<times> symbol \<Rightarrow> ConstantPool \<Rightarrow> fault + ConstantPool" where
  "add_member put i klass nt name sig cp =
     rbind (unresolved_klass_at_put (fst klass) (snd klass) cp) (\<lambda>cp.
     rbind (symbol_at_put (fst name) (snd name) cp) (\<lambda>cp.
     rbind (symbol_at_put (fst sig) (snd sig) cp) (\<lambda>cp.
     rbind (name_and_type_at_put nt (fst name) (fst sig) cp) (\<lambda>cp. put i (fst klass) nt cp))))"

lemma entry_within: "entry_at_put i t s cp = Inr cp' \<Longrightarrow> is_within_bounds j cp' = is_within_bounds j cp \<and> pool_wf cp' = pool_wf cp"
  using entry_at_put_Inr(3) [of i t s cp cp'] by (simp add: same_except_def is_within_bounds_def)

lemma member_put_entry:
  "put \<in> {field_at_put, method_at_put, interface_method_at_put} \<Longrightarrow>
   \<exists>t. put i c nt cp = entry_at_put i t (Slot_Int (pack_indices nt c)) cp \<and> \<not> tag_is_invoke_dynamic t"
  by (auto simp: field_at_put_def method_at_put_def interface_method_at_put_def tag_defs tag_values)

text \<open>C27: A reference to a field or method, built from its class, name and signature at distinct
  in-range indices, resolves to that class name, name and signature.\<close>

theorem member_reference_round_trip:
  assumes put: "put \<in> {field_at_put, method_at_put, interface_method_at_put}"
    and cp: "pool_wf cp" "cp_cache cp = None"
    and d: "distinct [i, fst klass, nt, fst name, fst sig]"
    and b: "list_all (\<lambda>j. is_within_bounds j cp \<and> u2_index j) [i, fst klass, nt, fst name, fst sig]"
  shows "\<exists>cp'. add_member put i klass nt name sig cp = Inr cp' \<and> name_ref_at i cp' = Inr (snd name) \<and>
    signature_ref_at i cp' = Inr (snd sig) \<and> klass_ref_at_noresolve i cp' = Inr (snd klass)"
proof -
  obtain cp1 where 1: "unresolved_klass_at_put (fst klass) (snd klass) cp = Inr cp1"
    using unresolved_klasses.store_ok [OF cp(1), of "fst klass" "snd klass"] b by auto
  note e1 = 1 [unfolded unresolved_klass_at_put_def]
  obtain cp2 where 2: "symbol_at_put (fst name) (snd name) cp1 = Inr cp2"
    using symbols.store_ok [of cp1 "fst name" "snd name"] entry_within [OF e1] cp(1) b by auto
  note e2 = 2 [unfolded symbol_at_put_def]
  obtain cp3 where 3: "symbol_at_put (fst sig) (snd sig) cp2 = Inr cp3"
    using symbols.store_ok [of cp2 "fst sig" "snd sig"] entry_within [OF e2] entry_within [OF e1] cp(1) b by auto
  note e3 = 3 [unfolded symbol_at_put_def]
  obtain cp4 where 4: "name_and_type_at_put nt (fst name) (fst sig) cp3 = Inr cp4"
    using name_and_types.store_ok [of cp3 nt "(fst name, fst sig)"]
      entry_within [OF e3] entry_within [OF e2] entry_within [OF e1] cp(1) b by auto
  note e4 = 4 [unfolded name_and_type_at_put_def]
  obtain t where t: "put i (fst klass) nt cp4 = entry_at_put i t (Slot_Int (pack_indices nt (fst klass))) cp4"
    "\<not> tag_is_invoke_dynamic t" using member_put_entry [OF put] by blast
  have w: "pool_wf cp4" "is_within_bounds i cp4"
    using entry_within [OF e4] entry_within [OF e3] entry_within [OF e2] entry_within [OF e1] cp(1) b by auto
  obtain cp5 where 5: "put i (fst klass) nt cp4 = Inr cp5" using t(1) entry_at_put_eq [OF w] by simp
  note e5 = 5 [unfolded t(1)]
  note s1 = entry_at_put_Inr [OF e1] and s2 = entry_at_put_Inr [OF e2] and s3 = entry_at_put_Inr [OF e3]
    and s4 = entry_at_put_Inr [OF e4] and s5 = entry_at_put_Inr [OF e5]
  have ne: "fst klass \<noteq> i" "nt \<noteq> i" "fst name \<noteq> i" "fst sig \<noteq> i" "fst klass \<noteq> nt" "fst name \<noteq> nt" "fst sig \<noteq> nt"
    "fst klass \<noteq> fst name" "fst klass \<noteq> fst sig" "fst name \<noteq> fst sig" using d by auto
  have slots: "slot_at (fst klass) cp5 = Inr (Slot_Unresolved (snd klass))" "slot_at (fst name) cp5 = Inr (Slot_Symbol (snd name))"
    "slot_at (fst sig) cp5 = Inr (Slot_Symbol (snd sig))" "slot_at nt cp5 = Inr (Slot_Int (pack_indices (fst sig) (fst name)))"
    "slot_at i cp5 = Inr (Slot_Int (pack_indices nt (fst klass)))" "tag_at i cp5 = Inr t"
    using ne s1 s2 s3 s4 s5 by (simp_all add: same_except_def)
  have "cp_cache cp5 = None" using cp(2) s1(3) s2(3) s3(3) s4(3) s5(3) by (simp add: same_except_def)
  moreover have "add_member put i klass nt name sig cp = Inr cp5" using 1 2 3 4 5 by (simp add: add_member_def)
  moreover have u: "u2_index (fst klass)" "u2_index nt" "u2_index (fst name)" "u2_index (fst sig)" "\<not> is_invokedynamic_index i"
    using b by (auto simp: u2_index_def is_invokedynamic_index_def)
  ultimately show ?thesis using slots t(2)
    by (auto simp: name_ref_at_def signature_ref_at_def klass_ref_at_noresolve_def klass_ref_index_at_def
        impl_name_ref_at_def impl_signature_ref_at_def impl_klass_ref_index_at_def impl_name_and_type_ref_index_at_def
        pool_unfold extract_low_pack extract_high_pack)
qed

definition empty_pool :: "nat \<Rightarrow> ConstantPool" where
  "empty_pool n = \<lparr>cp_tags = replicate n JVM_CONSTANT_Invalid, cp_slots = replicate n Slot_Null,
     cp_cache = None, cp_operands = []\<rparr>"

theorem member_reference_round_trip_witness:
  "\<exists>cp'. add_member method_at_put 5 (1, [65]) 2 (3, [102]) (4, [40, 41, 86]) (empty_pool 6) = Inr cp' \<and>
    name_ref_at 5 cp' = Inr [102] \<and> signature_ref_at 5 cp' = Inr [40, 41, 86] \<and> klass_ref_at_noresolve 5 cp' = Inr [65]"
  using member_reference_round_trip [of method_at_put "empty_pool 6" 5 "(1, [65])" 2 "(3, [102])" "(4, [40, 41, 86])"]
  by (simp add: empty_pool_def pool_wf_def is_within_bounds_def cp_length_def u2_index_def)

text \<open>After storing field references at distinct indices, each is tagged as such and both of its
  indices are read back, also at the ends of the 16-bit range.\<close>

theorem fields_stored:
  assumes "pool_wf cp" "distinct (map fst refs)"
    and "list_all (\<lambda>(i, c, nt). is_within_bounds i cp \<and> u2_index c \<and> u2_index nt) refs"
  shows "\<exists>cp'. store_all (\<lambda>i (c, nt). field_at_put i c nt) refs cp = Inr cp' \<and>
    list_all (\<lambda>(i, c, nt). tag_at i cp' = Inr JVM_CONSTANT_Fieldref \<and> uncached_klass_ref_index_at i cp' = Inr c \<and>
      impl_name_and_type_ref_index_at i True cp' = Inr nt) refs"
proof -
  have "\<forall>(i, p) \<in> set refs. is_within_bounds i cp \<and> u2_pair p"
    using assms(3) by (auto simp: list_all_iff u2_pair_def)
  from fields.store_all_loads [OF assms(1,2) this] obtain cp' where
    "store_all (\<lambda>i (c, nt). field_at_put i c nt) refs cp = Inr cp'"
    "\<forall>(i, p) \<in> set refs. load_pair uncached_klass_ref_index_at (\<lambda>i. impl_name_and_type_ref_index_at i True) i cp' = Inr p \<and>
       tag_at i cp' = Inr JVM_CONSTANT_Fieldref" by blast
  then show ?thesis by (auto simp: list_all_iff load_pair_def rbind_Inr_iff)
qed

theorem fields_stored_witness:
  "\<exists>cp'. store_all (\<lambda>i (c, nt). field_at_put i c nt) [(1, 2, 3), (2, 65535, 0)] (empty_pool 3) = Inr cp' \<and>
    uncached_klass_ref_index_at 2 cp' = Inr 65535"
  using fields_stored [of "empty_pool 3" "[(1, 2, 3), (2, 65535, 0)]"]
  by (auto simp: empty_pool_def pool_wf_def is_within_bounds_def cp_length_def u2_index_def)

lemma build_extract:
  "build_int_from_shorts (word_of_int (extract_low_short_from_int w)) (word_of_int (extract_high_short_from_int w)) = sint w"
proof -
  have "(push_bit 16 (ucast (word_of_int (extract_high_short_from_int w) :: u2)) OR
      ucast (word_of_int (extract_low_short_from_int w) :: u2)) = w"
    by (rule bit_word_eqI)
      (auto simp: extract_low_short_from_int_def extract_high_short_from_int_def and_ffff sint_take_16 bit_simps)
  then show ?thesis by (simp add: build_int_from_shorts_def)
qed

text \<open>An offset stored in the operand array as two shorts is read back, for every 32-bit
  offset, and the other offsets are unchanged.\<close>

theorem operand_offset_round_trip:
  assumes "operand_offset_at_put ops i offset = Inr ops'" "- (2 ^ 31) \<le> offset" "offset < 2 ^ 31"
  shows "operand_offset_at ops' i = Inr offset \<and> (\<forall>j. j \<noteq> i \<longrightarrow> operand_offset_at ops' j = operand_offset_at ops j)"
proof -
  let ?w = "word_of_int offset :: jint"
  have o: "sint ?w = offset" using assms(2,3) by (simp add: sint_sbintrunc' signed_take_bit_int_eq_self)
  obtain ops1 where 1: "arr_set ops (i * 2) (word_of_int (extract_low_short_from_int ?w)) = Inr ops1"
    and 2: "arr_set ops1 (i * 2 + 1) (word_of_int (extract_high_short_from_int ?w)) = Inr ops'"
    using assms(1) by (auto simp: operand_offset_at_put_def Let_def rbind_Inr_iff)
  have ops1: "ops1 = ops[nat (i * 2) := word_of_int (extract_low_short_from_int ?w)]" "0 \<le> i * 2" "i * 2 < int (length ops)"
    using 1 by (auto simp: arr_set_Inr)
  have ops': "ops' = ops1[nat (i * 2 + 1) := word_of_int (extract_high_short_from_int ?w)]" "i * 2 + 1 < int (length ops)"
    using 2 ops1 by (auto simp: arr_set_Inr)
  have "operand_offset_at ops' i = Inr offset"
    using ops1 ops' build_extract [of ?w] o
    by (simp add: operand_offset_at_def arr_get_def Let_def nat_add_distrib nat_mult_distrib)
  moreover have "operand_offset_at ops' j = operand_offset_at ops j" if "j \<noteq> i" for j
  proof -
    have "j * 2 \<noteq> i * 2" "j * 2 \<noteq> i * 2 + 1" "j * 2 + 1 \<noteq> i * 2" "j * 2 + 1 \<noteq> i * 2 + 1" using that by presburger+
    then show ?thesis using ops1 ops' by (simp add: operand_offset_at_def arr_get_other)
  qed
  ultimately show ?thesis by blast
qed

theorem operand_offset_round_trip_witness:
  "\<exists>ops'. operand_offset_at_put [0, 0, 7, 8] 0 70000 = Inr ops' \<and> operand_offset_at ops' 0 = Inr 70000"
proof -
  obtain ops' where "operand_offset_at_put [0, 0, 7, 8] 0 70000 = Inr ops'"
    by (simp add: operand_offset_at_put_def arr_set_def)
  then show ?thesis using operand_offset_round_trip [of "[0, 0, 7, 8]" 0 70000 ops'] by auto
qed

end
