(* ===== verification/Class_File_Stream.thy ===== *)
theory Class_File_Stream
  imports Constant_Pool
begin

text \<open>
  The stream over the bytes of a class file (\<open>classfile/classFileStream.hpp\<close>, \<open>.cpp\<close>).  A pointer is
  an index into the buffer.  The \<open>_fast\<close> operations do not test the end of the buffer; the others do
  when the file is to be verified.  A read outside the buffer is not defined.
\<close>

record ClassFileStream =
  cfs_buffer :: "u1 list"
  cfs_current :: int
  cfs_need_verify :: bool

definition new_class_file_stream :: "u1 list \<Rightarrow> ClassFileStream" where
  "new_class_file_stream buffer = \<lparr>cfs_buffer = buffer, cfs_current = 0, cfs_need_verify = False\<rparr>"

definition set_current :: "int \<Rightarrow> ClassFileStream \<Rightarrow> ClassFileStream" where
  "set_current pos s = s\<lparr>cfs_current := pos\<rparr>"

definition set_verify :: "bool \<Rightarrow> ClassFileStream \<Rightarrow> ClassFileStream" where
  "set_verify flag s = s\<lparr>cfs_need_verify := flag\<rparr>"

definition truncated_file_error :: "fault + 'a" where
  "truncated_file_error = Inl (Class_Format_Error ''Truncated class file'')"

text \<open>The rest of the buffer is a \<open>size_t\<close>, the size asked for an \<open>unsigned int\<close>.\<close>

definition guarantee_more :: "int \<Rightarrow> ClassFileStream \<Rightarrow> fault + unit" where
  "guarantee_more sz s =
    (let remaining = (int (length (cfs_buffer s)) - cfs_current s) mod 2 ^ 64; usize = sz mod 2 ^ 32
     in if usize > remaining then truncated_file_error else Inr ())"

definition get_u1_fast :: "ClassFileStream \<Rightarrow> fault + int \<times> ClassFileStream" where
  "get_u1_fast s = rbind (arr_get (cfs_buffer s) (cfs_current s)) (\<lambda>b. Inr (uint b, s\<lparr>cfs_current := cfs_current s + 1\<rparr>))"

definition get_u2_fast :: "ClassFileStream \<Rightarrow> fault + int \<times> ClassFileStream" where
  "get_u2_fast s = rbind (get_u1_fast s) (\<lambda>(a, s). rbind (get_u1_fast s) (\<lambda>(b, s). Inr (a * 256 + b, s)))"

definition get_u4_fast :: "ClassFileStream \<Rightarrow> fault + int \<times> ClassFileStream" where
  "get_u4_fast s = rbind (get_u2_fast s) (\<lambda>(a, s). rbind (get_u2_fast s) (\<lambda>(b, s). Inr (a * 65536 + b, s)))"

definition get_u8_fast :: "ClassFileStream \<Rightarrow> fault + int \<times> ClassFileStream" where
  "get_u8_fast s = rbind (get_u4_fast s) (\<lambda>(a, s). rbind (get_u4_fast s) (\<lambda>(b, s). Inr (a * 4294967296 + b, s)))"

definition skip_u1_fast :: "int \<Rightarrow> ClassFileStream \<Rightarrow> ClassFileStream" where
  "skip_u1_fast n s = s\<lparr>cfs_current := cfs_current s + n\<rparr>"
definition skip_u2_fast :: "int \<Rightarrow> ClassFileStream \<Rightarrow> ClassFileStream" where
  "skip_u2_fast n s = s\<lparr>cfs_current := cfs_current s + 2 * n\<rparr>"
definition skip_u4_fast :: "int \<Rightarrow> ClassFileStream \<Rightarrow> ClassFileStream" where
  "skip_u4_fast n s = s\<lparr>cfs_current := cfs_current s + 4 * n\<rparr>"

definition checked_more :: "int \<Rightarrow> ClassFileStream \<Rightarrow> fault + unit" where
  "checked_more n s = (if cfs_need_verify s then guarantee_more n s else Inr ())"

definition get_u1 :: "ClassFileStream \<Rightarrow> fault + int \<times> ClassFileStream" where
  "get_u1 s = rbind (checked_more 1 s) (\<lambda>_. get_u1_fast s)"
definition get_u2 :: "ClassFileStream \<Rightarrow> fault + int \<times> ClassFileStream" where
  "get_u2 s = rbind (checked_more 2 s) (\<lambda>_. get_u2_fast s)"
definition get_u4 :: "ClassFileStream \<Rightarrow> fault + int \<times> ClassFileStream" where
  "get_u4 s = rbind (checked_more 4 s) (\<lambda>_. get_u4_fast s)"
definition get_u8 :: "ClassFileStream \<Rightarrow> fault + int \<times> ClassFileStream" where
  "get_u8 s = rbind (checked_more 8 s) (\<lambda>_. get_u8_fast s)"

definition skip_u1 :: "int \<Rightarrow> ClassFileStream \<Rightarrow> fault + ClassFileStream" where
  "skip_u1 n s = rbind (checked_more n s) (\<lambda>_. Inr (skip_u1_fast n s))"
definition skip_u2 :: "int \<Rightarrow> ClassFileStream \<Rightarrow> fault + ClassFileStream" where
  "skip_u2 n s = rbind (checked_more (n * 2) s) (\<lambda>_. Inr (skip_u2_fast n s))"
definition skip_u4 :: "int \<Rightarrow> ClassFileStream \<Rightarrow> fault + ClassFileStream" where
  "skip_u4 n s = rbind (checked_more (n * 4) s) (\<lambda>_. Inr (skip_u4_fast n s))"

definition at_eos :: "ClassFileStream \<Rightarrow> bool" where
  "at_eos s \<longleftrightarrow> cfs_current s = int (length (cfs_buffer s))"

section \<open>Reads within the buffer\<close>

text \<open>At least \<open>n\<close> bytes are left.\<close>

definition has_more :: "int \<Rightarrow> ClassFileStream \<Rightarrow> bool" where
  "has_more n s \<longleftrightarrow> 0 \<le> cfs_current s \<and> cfs_current s + n \<le> int (length (cfs_buffer s))"

definition advanced :: "int \<Rightarrow> ClassFileStream \<Rightarrow> ClassFileStream \<Rightarrow> bool" where
  "advanced n s s' \<longleftrightarrow> cfs_buffer s' = cfs_buffer s \<and> cfs_current s' = cfs_current s + n \<and> cfs_need_verify s' = cfs_need_verify s"

lemma has_more_advanced: "has_more n s \<Longrightarrow> advanced k s s' \<Longrightarrow> 0 \<le> k \<Longrightarrow> has_more (n - k) s'"
  by (simp add: has_more_def advanced_def)

lemma has_more_mono: "has_more n s \<Longrightarrow> m \<le> n \<Longrightarrow> has_more m s"
  by (simp add: has_more_def)

text \<open>\<open>guarantee_more\<close> is exact as long as sizes and the buffer are smaller than \<open>2 ^ 32\<close>.\<close>

lemma guarantee_more_eq:
  assumes "has_more 0 s" "0 \<le> n" "n < 2 ^ 32" "length (cfs_buffer s) < 2 ^ 64"
  shows "guarantee_more n s = (if has_more n s then Inr () else truncated_file_error)"
proof -
  have "(int (length (cfs_buffer s)) - cfs_current s) mod 2 ^ 64 = int (length (cfs_buffer s)) - cfs_current s"
    using assms(1,4) by (intro mod_pos_pos_trivial) (auto simp: has_more_def)
  moreover have "n mod 2 ^ 32 = n" using assms(2,3) by (intro mod_pos_pos_trivial) auto
  ultimately show ?thesis using assms(1) by (auto simp: guarantee_more_def Let_def has_more_def)
qed

lemma u1_read: "has_more 1 s \<Longrightarrow> \<exists>v s'. get_u1_fast s = Inr (v, s') \<and> 0 \<le> v \<and> v < 256 \<and> advanced 1 s s'"
  using uint_bounded [of "cfs_buffer s ! nat (cfs_current s)"]
  by (auto simp: get_u1_fast_def arr_get_def has_more_def advanced_def)

lemma u2_read:
  assumes "has_more 2 s" shows "\<exists>v s'. get_u2_fast s = Inr (v, s') \<and> 0 \<le> v \<and> v < 65536 \<and> advanced 2 s s'"
proof -
  obtain a s1 where 1: "get_u1_fast s = Inr (a, s1)" "0 \<le> a" "a < 256" "advanced 1 s s1"
    using u1_read [of s] assms by (auto simp: has_more_def)
  then obtain b s2 where 2: "get_u1_fast s1 = Inr (b, s2)" "0 \<le> b" "b < 256" "advanced 1 s1 s2"
    using u1_read [of s1] assms by (auto simp: has_more_def advanced_def)
  then show ?thesis using 1 by (auto simp: get_u2_fast_def advanced_def)
qed

lemma u4_read:
  assumes "has_more 4 s" shows "\<exists>v s'. get_u4_fast s = Inr (v, s') \<and> advanced 4 s s'"
proof -
  obtain a s1 where 1: "get_u2_fast s = Inr (a, s1)" "advanced 2 s s1" using u2_read [of s] assms by (auto simp: has_more_def)
  then obtain b s2 where "get_u2_fast s1 = Inr (b, s2)" "advanced 2 s1 s2" using u2_read [of s1] assms by (auto simp: has_more_def advanced_def)
  then show ?thesis using 1 by (auto simp: get_u4_fast_def advanced_def)
qed

lemma u8_read:
  assumes "has_more 8 s" shows "\<exists>v s'. get_u8_fast s = Inr (v, s') \<and> advanced 8 s s'"
proof -
  obtain a s1 where 1: "get_u4_fast s = Inr (a, s1)" "advanced 4 s s1" using u4_read [of s] assms by (auto simp: has_more_def)
  then obtain b s2 where "get_u4_fast s1 = Inr (b, s2)" "advanced 4 s1 s2" using u4_read [of s1] assms by (auto simp: has_more_def advanced_def)
  then show ?thesis using 1 by (auto simp: get_u8_fast_def advanced_def)
qed

end
