(* ===== verification/Utf8.thy ===== *)
theory Utf8
  imports VM_Prelude "HOL-Library.Sublist"
begin

text \<open>
  Modified UTF-8, the form of names and string constants in class files:
  \<open>src/share/vm/utilities/utf8.cpp\<close>, classes \<open>UTF8\<close> and \<open>UNICODE\<close>.

  A \<open>const char*\<close> that is read is the list of the bytes from the pointer to the end of the
  allocation; a read past it is \<open>None\<close>, and advancing the pointer drops bytes.  A function
  that writes to a buffer returns the bytes it writes; the buffer's length is a parameter
  and a store outside the buffer is \<open>None\<close>.  \<open>from_quoted_ascii\<close> reads a C string, given by
  its bytes before the terminating zero; its loops may not end, which is \<open>None\<close>.
\<close>

unbundle bit_operations_syntax

section \<open>Decoding\<close>

definition utf8_next :: "u_char list \<Rightarrow> (jchar \<times> u_char list) option" where
  "utf8_next ptr =
    (case ptr of
       [] \<Rightarrow> None
     | ch # rest \<Rightarrow>
        (let bad = Some (ucast ch, rest); tag = drop_bit 4 ch in
         if tag = 0x8 \<or> tag = 0x9 \<or> tag = 0xA \<or> tag = 0xB \<or> tag = 0xF then bad
         else if tag = 0xC \<or> tag = 0xD then
           (case rest of
              [] \<Rightarrow> None
            | ch2 # rest2 \<Rightarrow>
               if ch2 AND 0xC0 = 0x80
               then (let high_five = ch AND 0x1F; low_six = ch2 AND 0x3F
                     in Some (push_bit 6 (ucast high_five) + ucast low_six, rest2))
               else bad)
         else if tag = 0xE then
           (case rest of
              [] \<Rightarrow> None
            | ch2 # rest2 \<Rightarrow>
               if ch2 AND 0xC0 = 0x80
               then (case rest2 of
                       [] \<Rightarrow> None
                     | ch3 # rest3 \<Rightarrow>
                        if ch3 AND 0xC0 = 0x80
                        then (let high_four = ch AND 0x0f; mid_six = ch2 AND 0x3f;
                                  low_six = ch3 AND 0x3f
                              in Some (push_bit 6 (push_bit 6 (ucast high_four) + ucast mid_six)
                                   + ucast low_six, rest3))
                        else bad)
               else bad)
         else Some (ucast ch, rest)))"

text \<open>One conjunct \<open>(str[i] & mask) == val\<close> of a short-circuit conjunction.\<close>

definition byte_test :: "u_char list \<Rightarrow> nat \<Rightarrow> u_char \<Rightarrow> u_char \<Rightarrow> bool option \<Rightarrow> bool option" where
  "byte_test str i msk val rest =
    (case nth_opt str i of
       None \<Rightarrow> None
     | Some b \<Rightarrow> if b AND msk = val then rest else Some False)"

definition is_supplementary_character :: "u_char list \<Rightarrow> bool option" where
  "is_supplementary_character str =
    byte_test str 0 0xFF 0xED (byte_test str 1 0xF0 0xA0 (byte_test str 2 0xC0 0x80
      (byte_test str 3 0xFF 0xED (byte_test str 4 0xF0 0xB0 (byte_test str 5 0xC0 0x80
        (Some True))))))"

definition get_supplementary_character :: "u_char list \<Rightarrow> jint option" where
  "get_supplementary_character str =
    (case (nth_opt str 1, nth_opt str 2, nth_opt str 4, nth_opt str 5) of
       (Some b1, Some b2, Some b4, Some b5) \<Rightarrow>
         Some (0x10000 + push_bit 16 (ucast (b1 AND 0x0f)) + push_bit 10 (ucast (b2 AND 0x3f))
               + push_bit 6 (ucast (b4 AND 0x0f)) + ucast (b5 AND 0x3f))
     | _ \<Rightarrow> None)"

definition next_character :: "u_char list \<Rightarrow> (jint \<times> u_char list) option" where
  "next_character str =
    (case is_supplementary_character str of
       None \<Rightarrow> None
     | Some True \<Rightarrow> map_option (\<lambda>v. (v, drop 6 str)) (get_supplementary_character str)
     | Some False \<Rightarrow> map_option (apfst ucast) (utf8_next str))"

text \<open>\<open>UTF8::unicode_length\<close> with and without a length.\<close>

fun unicode_length_n :: "u_char list \<Rightarrow> nat \<Rightarrow> nat option" where
  "unicode_length_n str 0 = Some 0"
| "unicode_length_n [] (Suc len) = None"
| "unicode_length_n (c # str) (Suc len) =
    map_option (\<lambda>n. if c AND 0xC0 = 0x80 then n else Suc n) (unicode_length_n str len)"

fun unicode_length_z :: "u_char list \<Rightarrow> nat option" where
  "unicode_length_z [] = None"
| "unicode_length_z (c # str) =
    (if c = 0 then Some 0
     else map_option (\<lambda>n. if c AND 0xC0 \<noteq> 0x80 then Suc n else n) (unicode_length_z str))"

text \<open>The two loops of \<open>UTF8::convert_to_unicode\<close>: ASCII bytes first, then \<open>next\<close>.\<close>

fun convert_rest :: "u_char list \<Rightarrow> nat \<Rightarrow> jchar list option" where
  "convert_rest ptr 0 = Some []"
| "convert_rest ptr (Suc n) =
    (case utf8_next ptr of
       None \<Rightarrow> None
     | Some (v, ptr') \<Rightarrow> map_option ((#) v) (convert_rest ptr' n))"

fun convert_to_unicode :: "u_char list \<Rightarrow> nat \<Rightarrow> jchar list option" where
  "convert_to_unicode ptr 0 = Some []"
| "convert_to_unicode ptr (Suc n) =
    (case ptr of
       [] \<Rightarrow> None
     | ch # rest \<Rightarrow>
        if ch > 0x7F then convert_rest ptr (Suc n)
        else map_option ((#) (ucast ch)) (convert_to_unicode rest n))"

section \<open>Encoding\<close>

definition utf8_write :: "jchar \<Rightarrow> u_char list" where
  "utf8_write ch =
    (if ch \<noteq> 0 \<and> ch \<le> 0x7f then [ucast ch]
     else if ch \<le> 0x7FF then
       (let high_five = ucast (drop_bit 6 ch); low_six = ucast (ch AND 0x3F)
        in [high_five OR 0xC0, low_six OR 0x80])
     else
       (let high_four = ucast (drop_bit 12 ch); mid_six = ucast (drop_bit 6 ch AND 0x3F);
            low_six = ucast (ch AND 0x3f)
        in [high_four OR 0xE0, mid_six OR 0x80, low_six OR 0x80]))"

definition utf8_size :: "jchar \<Rightarrow> nat" where
  "utf8_size c = (if 0x0001 \<le> c \<and> c \<le> 0x007F then 1 else if c \<le> 0x07FF then 2 else 3)"

fun utf8_length :: "jchar list \<Rightarrow> nat" where
  "utf8_length [] = 0"
| "utf8_length (c # cs) =
    (if 0x0001 \<le> c \<and> c \<le> 0x007F then 1 else if c \<le> 0x07FF then 2 else 3) + utf8_length cs"

text \<open>\<open>UNICODE::convert_to_utf8\<close>, and \<open>as_utf8\<close> into a fresh array of \<open>utf8_len + 1\<close> bytes.\<close>

fun convert_to_utf8 :: "jchar list \<Rightarrow> u_char list" where
  "convert_to_utf8 [] = [0]"
| "convert_to_utf8 (c # cs) = utf8_write c @ convert_to_utf8 cs"

definition as_utf8 :: "jchar list \<Rightarrow> u_char list option" where
  "as_utf8 base =
    (let utf8_len = utf8_length base; result = convert_to_utf8 base
     in if length result \<le> utf8_len + 1 then Some result else None)"

text \<open>\<open>UNICODE::as_utf8\<close> into a caller's buffer: the loop from the number \<open>p\<close> of bytes
  already written, then the final zero.\<close>

fun as_utf8_loop :: "jchar list \<Rightarrow> nat \<Rightarrow> nat \<Rightarrow> u_char list" where
  "as_utf8_loop [] p buflen = []"
| "as_utf8_loop (c # cs) p buflen =
    (if p + utf8_size c \<ge> buflen then []
     else utf8_write c @ as_utf8_loop cs (p + length (utf8_write c)) buflen)"

definition as_utf8_buf :: "jchar list \<Rightarrow> nat \<Rightarrow> u_char list option" where
  "as_utf8_buf base buflen =
    (let out = as_utf8_loop base 0 buflen
     in if length out < buflen then Some (out @ [0]) else None)"

section \<open>Quoted ASCII\<close>

text \<open>The output of \<open>sprintf(p, "\\u%04x", c)\<close>: a backslash, \<open>u\<close> and four lower-case
  hexadecimal digits.\<close>

definition hex_digit :: "jchar \<Rightarrow> u_char" where
  "hex_digit d = (if d < 10 then 48 + ucast d else 87 + ucast d)"

definition sprintf_u04x :: "jchar \<Rightarrow> u_char list" where
  "sprintf_u04x c =
    [92, 117, hex_digit (drop_bit 12 c), hex_digit (drop_bit 8 c AND 0xf),
     hex_digit (drop_bit 4 c AND 0xf), hex_digit (c AND 0xf)]"

fun unicode_quoted_ascii_length :: "jchar list \<Rightarrow> nat" where
  "unicode_quoted_ascii_length [] = 0"
| "unicode_quoted_ascii_length (c # cs) =
    (if c \<ge> 32 \<and> c < 127 then 1 else 6) + unicode_quoted_ascii_length cs"

fun unicode_quoted_loop :: "jchar list \<Rightarrow> nat \<Rightarrow> nat \<Rightarrow> u_char list" where
  "unicode_quoted_loop [] p buflen = []"
| "unicode_quoted_loop (c # cs) p buflen =
    (if c \<ge> 32 \<and> c < 127
     then (if p + 1 \<ge> buflen then [] else ucast c # unicode_quoted_loop cs (p + 1) buflen)
     else (if p + 6 \<ge> buflen then [] else sprintf_u04x c @ unicode_quoted_loop cs (p + 6) buflen))"

definition unicode_as_quoted_ascii :: "jchar list \<Rightarrow> nat \<Rightarrow> u_char list option" where
  "unicode_as_quoted_ascii base buflen =
    (let out = unicode_quoted_loop base 0 buflen
     in if length out < buflen then Some (out @ [0]) else None)"

text \<open>The \<open>UTF8\<close> variants walk the bytes with \<open>next\<close>; \<open>left\<close> is \<open>end - ptr\<close>, which a
  character that crosses the end makes negative.\<close>

lemma utf8_next_shorter: "utf8_next ptr = Some (v, ptr') \<Longrightarrow> length ptr' < length ptr"
  by (auto simp: utf8_next_def Let_def split: list.splits if_splits)

function quoted_ascii_length :: "u_char list \<Rightarrow> int \<Rightarrow> nat option" where
  "quoted_ascii_length ptr left =
    (if left \<le> 0 then Some 0
     else case utf8_next ptr of
            None \<Rightarrow> None
          | Some (c, ptr') \<Rightarrow>
              map_option ((+) (if c \<ge> 32 \<and> c < 127 then 1 else 6))
                (quoted_ascii_length ptr' (left - int (length ptr - length ptr'))))"
  by pat_completeness auto
termination
  by (relation "measure (\<lambda>(ptr, left). length ptr)") (auto dest: utf8_next_shorter)

declare quoted_ascii_length.simps [simp del]

function as_quoted_loop :: "u_char list \<Rightarrow> int \<Rightarrow> nat \<Rightarrow> nat \<Rightarrow> u_char list option" where
  "as_quoted_loop ptr left p buflen =
    (if left \<le> 0 then Some []
     else case utf8_next ptr of
            None \<Rightarrow> None
          | Some (c, ptr') \<Rightarrow>
              let left' = left - int (length ptr - length ptr') in
              if c \<ge> 32 \<and> c < 127
              then (if p + 1 \<ge> buflen then Some []
                    else map_option ((#) (ucast c)) (as_quoted_loop ptr' left' (p + 1) buflen))
              else (if p + 6 \<ge> buflen then Some []
                    else map_option ((@) (sprintf_u04x c))
                           (as_quoted_loop ptr' left' (p + 6) buflen)))"
  by pat_completeness auto
termination
  by (relation "measure (\<lambda>(ptr, left, p, buflen). length ptr)") (auto dest: utf8_next_shorter)

declare as_quoted_loop.simps [simp del]

definition as_quoted_ascii :: "u_char list \<Rightarrow> nat \<Rightarrow> nat \<Rightarrow> u_char list option" where
  "as_quoted_ascii utf8_str utf8_len buflen =
    (case as_quoted_loop utf8_str (int utf8_len) 0 buflen of
       None \<Rightarrow> None
     | Some out \<Rightarrow> if length out < buflen then Some (out @ [0]) else None)"

text \<open>\<open>UTF8::from_quoted_ascii\<close>.  The first loop tests \<open>*ptr\<close> and never advances \<open>ptr\<close>; nor
  does the branch of the second loop for a byte other than a backslash.  \<open>None\<close> is a loop
  that does not end, \<open>Some (Inl ())\<close> a \<open>ShouldNotReachHere\<close>.  The bytes stored from
  \<open>buffer[0]\<close> on are the accumulator \<open>out\<close>, whose length is the variable \<open>length\<close>; the first
  round only counts them, and the second starts from the count the first one left.\<close>

definition unprintable :: "u_char \<Rightarrow> bool" where
  "unprintable c \<longleftrightarrow> c <s 32 \<or> \<not> c <s 127"

partial_function (option) quoted_scan :: "u_char list \<Rightarrow> u_char list option" where
  "quoted_scan ptr =
    (if ptr = [] then Some ptr
     else if unprintable (hd ptr) then Some ptr
     else quoted_scan ptr)"

definition hex_value :: "u_char \<Rightarrow> jchar option" where
  "hex_value c =
    (if 48 \<le> c \<and> c \<le> 57 then Some (ucast c - 48)
     else if 97 \<le> c \<and> c \<le> 102 then Some (10 + ucast c - 97)
     else if 65 \<le> c \<and> c \<le> 70 then Some (10 + ucast c - 65)
     else None)"

fun quoted_hex :: "nat \<Rightarrow> jchar \<Rightarrow> u_char list \<Rightarrow> (jchar \<times> u_char list) option" where
  "quoted_hex 0 value ptr = Some (value, ptr)"
| "quoted_hex (Suc i) value ptr =
    (case ptr of
       [] \<Rightarrow> None
     | c # ptr' \<Rightarrow>
        (case hex_value c of
           None \<Rightarrow> None
         | Some d \<Rightarrow> quoted_hex i (push_bit 4 value + d) ptr'))"

partial_function (option) quoted_round ::
    "u_char list \<Rightarrow> u_char list \<Rightarrow> (unit + u_char list) option" where
  "quoted_round ptr out =
    (if ptr = [] then Some (Inr out)
     else if hd ptr \<noteq> 92 then quoted_round ptr (out @ [hd ptr])
     else case nth_opt ptr 1 of
            None \<Rightarrow> Some (Inl ())
          | Some c \<Rightarrow>
              if c = 117 then
                (case quoted_hex 4 0 (drop 2 ptr) of
                   None \<Rightarrow> Some (Inl ())
                 | Some (value, ptr') \<Rightarrow> quoted_round ptr' (out @ utf8_write value))
              else if c = 116 then quoted_round (drop 2 ptr) (out @ [9])
              else if c = 110 then quoted_round (drop 2 ptr) (out @ [10])
              else if c = 114 then quoted_round (drop 2 ptr) (out @ [13])
              else if c = 102 then quoted_round (drop 2 ptr) (out @ [12])
              else Some (Inl ()))"

definition from_quoted_ascii :: "u_char list \<Rightarrow> (unit + u_char list) option" where
  "from_quoted_ascii quoted_ascii_str =
    (case quoted_scan quoted_ascii_str of
       None \<Rightarrow> None
     | Some ptr \<Rightarrow>
        if ptr = [] then Some (Inr quoted_ascii_str)
        else (case quoted_round ptr (take (length quoted_ascii_str - length ptr) quoted_ascii_str) of
                None \<Rightarrow> None
              | Some (Inl e) \<Rightarrow> Some (Inl e)
              | Some (Inr counted) \<Rightarrow> quoted_round quoted_ascii_str counted))"

section \<open>Utilities\<close>

fun utf8_strrchr :: "u_char list \<Rightarrow> nat \<Rightarrow> u_char \<Rightarrow> nat option option" where
  "utf8_strrchr base 0 c = Some None"
| "utf8_strrchr base (Suc n) c =
    (case nth_opt base n of
       None \<Rightarrow> None
     | Some b \<Rightarrow> if b \<noteq> c then utf8_strrchr base n c else Some (Some n))"

fun utf8_equal_loop :: "u_char list \<Rightarrow> u_char list \<Rightarrow> nat \<Rightarrow> bool option" where
  "utf8_equal_loop base1 base2 0 = Some True"
| "utf8_equal_loop (a # base1) (b # base2) (Suc n) =
    (if a \<noteq> b then Some False else utf8_equal_loop base1 base2 n)"
| "utf8_equal_loop _ _ (Suc n) = None"

definition utf8_equal :: "u_char list \<Rightarrow> nat \<Rightarrow> u_char list \<Rightarrow> nat \<Rightarrow> bool option" where
  "utf8_equal base1 length1 base2 length2 =
    (if length1 \<noteq> length2 then Some False else utf8_equal_loop base1 base2 length1)"

section \<open>The encoding is inverted by the decoding\<close>

lemma tag_C: "drop_bit 4 (h OR 0xC0) = (0xC::u_char) \<or> drop_bit 4 (h OR 0xC0) = (0xD::u_char)" if "unat (h::u_char) < 32"
  by (rule word_enum_all [OF _ that]) code_simp
lemma cont_byte: "(x OR 0x80) AND 0xC0 = (0x80 :: u_char) \<and> (x OR 0x80) AND 0x3F = x" if "unat x < 64"
  by (rule word_enum_all [OF _ that]) code_simp
lemma tag_0: "drop_bit 4 (h::u_char) \<in> {0,1,2,3,4,5,6,7}" if "unat (h::u_char) < 128"
  by (rule word_enum_all [OF _ that]) code_simp

lemma unat_ucast_16_8: "unat (c :: jchar) < 256 \<Longrightarrow> unat (ucast c :: u_char) = unat c"
  by (simp add: unsigned_ucast_eq take_bit_nat_eq_self)
lemma unat_and_3F: "unat (c AND 0x3F :: jchar) = unat c mod 64"
  using nat_and_mask [of "unat c" 6] by (simp add: unsigned_and_eq)
lemma unat_drop_6: "unat (drop_bit 6 c :: jchar) = unat c div 64"
  by (simp add: unat_div drop_bit_eq_div)
lemma unat_drop_12: "unat (drop_bit 12 c :: jchar) = unat c div 4096"
  by (simp add: unat_div drop_bit_eq_div)

lemma or_C0: "(h OR 0xC0) AND 0x1F = (h::u_char) \<and> \<not> h OR 0xC0 \<le> 0x7F \<and> (h OR 0xC0) AND 0xC0 \<noteq> 0x80 
  \<and> h OR 0xC0 \<noteq> 0" if "unat (h::u_char) < 32"
  by (rule word_enum_all [OF _ that]) code_simp
lemma or_E0: "(h OR 0xE0) AND 0x0F = (h::u_char) \<and> drop_bit 4 (h OR 0xE0) = 0xE \<and> \<not> h OR 0xE0 \<le> 0x7F \<and> (h OR 0xE0) AND 0xC0 \<noteq> 0x80" if "unat (h::u_char) < 16"
  by (rule word_enum_all [OF _ that]) code_simp

lemma two_byte_value:
  "unat (h::u_char) < 32 \<Longrightarrow> unat (l::u_char) < 64 \<Longrightarrow>
   unat (push_bit 6 (ucast h) + ucast l :: jchar) = unat h * 64 + unat l"
  by (simp add: unat_word_ariths push_bit_eq_mult unat_ucast_8_16 del: of_nat_unat)
lemma three_byte_value:
  "unat (h::u_char) < 16 \<Longrightarrow> unat (m::u_char) < 64 \<Longrightarrow> unat (l::u_char) < 64 \<Longrightarrow>
   unat (push_bit 6 (push_bit 6 (ucast h) + ucast m) + ucast l :: jchar)
     = (unat h * 64 + unat m) * 64 + unat l"
  by (simp add: unat_word_ariths push_bit_eq_mult unat_ucast_8_16 del: of_nat_unat)

lemma utf8_next_two:
  "utf8_next ((h OR 0xC0) # (l OR 0x80) # rest) = Some (push_bit 6 (ucast h) + ucast l, rest)"
  if "unat h < 32" "unat l < 64"
  using tag_C [OF that(1)] or_C0 [OF that(1)] cont_byte [OF that(2)]
  by (auto simp: utf8_next_def Let_def)

lemma utf8_next_three:
  "utf8_next ((h OR 0xE0) # (m OR 0x80) # (l OR 0x80) # rest)
    = Some (push_bit 6 (push_bit 6 (ucast h) + ucast m) + ucast l, rest)"
  if "unat h < 16" "unat m < 64" "unat l < 64"
  using or_E0 [OF that(1)] cont_byte [OF that(2)] cont_byte [OF that(3)]
  by (auto simp: utf8_next_def Let_def)

lemma utf8_next_one: "utf8_next (c # rest) = Some (ucast c, rest)" if "unat c < 128"
  using tag_0 [OF that] by (auto simp: utf8_next_def Let_def)

lemma utf8_write_cases:
  obtains (one) "c \<noteq> 0" "unat c < 128" "utf8_write c = [ucast c]"
  | (two) h l where "unat c = unat h * 64 + unat l" "unat h < 32" "unat l < 64" "unat c < 128 \<longrightarrow> c = 0"
      "utf8_write c = [h OR 0xC0, l OR 0x80]"
  | (three) h m l where "unat c = (unat h * 64 + unat m) * 64 + unat l" "unat h < 16" "unat m < 64"
      "unat l < 64" "\<not> unat c < 2048" "utf8_write c = [h OR 0xE0, m OR 0x80, l OR 0x80]"
proof -
  have le: "c \<le> 0x7f \<longleftrightarrow> unat c < 128" "c \<le> 0x7FF \<longleftrightarrow> unat c < 2048"
    by (auto simp: word_le_nat_alt)
  consider "c \<noteq> 0 \<and> unat c < 128" | "\<not> (c \<noteq> 0 \<and> unat c < 128)" "unat c < 2048" | "\<not> unat c < 2048"
    by blast
  then show thesis
  proof cases
    case 1 then show thesis by (intro one) (auto simp: utf8_write_def le)
  next
    case 2
    let ?h = "ucast (drop_bit 6 c) :: u_char" and ?l = "ucast (c AND 0x3F) :: u_char"
    have h: "unat ?h = unat c div 64" and l: "unat ?l = unat c mod 64"
      using 2 by (simp_all add: unat_ucast_16_8 unat_drop_6 unat_and_3F)
    show thesis using 2
      by (intro two [of ?h ?l]; simp only: h l) (auto simp: utf8_write_def le)
  next
    case 3
    let ?h = "ucast (drop_bit 12 c) :: u_char" and ?m = "ucast (drop_bit 6 c AND 0x3F) :: u_char"
      and ?l = "ucast (c AND 0x3F) :: u_char"
    have b: "unat c < 65536" by simp
    then have d: "unat c div 4096 < 16" by (simp add: div_less_iff_less_mult)
    have h: "unat ?h = unat c div 4096" and m: "unat ?m = unat c div 64 mod 64"
      and l: "unat ?l = unat c mod 64"
      using d by (simp_all add: unat_ucast_16_8 unat_drop_6 unat_drop_12 unat_and_3F)
    have "unat c div 4096 = unat c div 64 div 64" by (simp flip: div_mult2_eq)
    then have "unat c = (unat c div 4096 * 64 + unat c div 64 mod 64) * 64 + unat c mod 64"
      by (simp only: div_mult_mod_eq)
    moreover have "\<not> (c \<noteq> 0 \<and> c \<le> 0x7f)" "\<not> c \<le> 0x7FF" using 3 by (auto simp: le)
    ultimately show thesis using 3 d
      by (intro three [of ?h ?m ?l]; simp only: h m l) (auto simp: utf8_write_def)
  qed
qed

lemma utf8_next_write [simp]: "utf8_next (utf8_write c @ rest) = Some (c, rest)"
proof (cases c rule: utf8_write_cases)
  case one then show ?thesis
    by (auto simp: utf8_next_one unat_ucast_16_8 word_unat_eq_iff unat_ucast_8_16 simp del: of_nat_unat)
next
  case (two h l) then show ?thesis
    by (auto simp: utf8_next_two word_unat_eq_iff two_byte_value simp del: of_nat_unat)
next
  case (three h m l) then show ?thesis
    by (auto simp: utf8_next_three word_unat_eq_iff three_byte_value simp del: of_nat_unat)
qed

lemma utf8_write_length: "length (utf8_write c) = utf8_size c"
  by (simp add: utf8_write_def utf8_size_def Let_def word_le_nat_alt word_unat_eq_iff)

lemma utf8_length_eq: "utf8_length cs = sum_list (map utf8_size cs)"
  by (induction cs) (simp_all add: utf8_size_def)

abbreviation utf8_bytes :: "jchar list \<Rightarrow> u_char list" where
  "utf8_bytes cs \<equiv> concat (map utf8_write cs)"

lemma convert_to_utf8_eq: "convert_to_utf8 cs = utf8_bytes cs @ [0]"
  by (induction cs) simp_all

lemma utf8_bytes_length: "length (utf8_bytes cs) = utf8_length cs"
  by (induction cs) (simp_all add: utf8_write_length utf8_size_def)

lemma convert_rest_bytes: "convert_rest (utf8_bytes cs @ rest) (length cs) = Some cs"
  by (induction cs) simp_all

lemma utf8_write_first:
  obtains b bs where "utf8_write c = b # bs" "b > 0x7F \<or> (bs = [] \<and> ucast b = c)"
proof (cases c rule: utf8_write_cases)
  case one
  then show thesis
    by (intro that [of "ucast c" "[]"])
      (auto simp: word_unat_eq_iff unat_ucast_16_8 unat_ucast_8_16 simp del: of_nat_unat)
next
  case (two h l) then show thesis using or_C0 [of h] by (intro that) auto
next
  case (three h m l) then show thesis using or_E0 [of h] by (intro that) auto
qed

lemma convert_to_unicode_bytes: "convert_to_unicode (utf8_bytes cs @ rest) (length cs) = Some cs"
proof (induction cs)
  case (Cons c cs)
  obtain b bs where b: "utf8_write c = b # bs" "b > 0x7F \<or> (bs = [] \<and> ucast b = c)"
    by (rule utf8_write_first)
  show ?case
  proof (cases "b > 0x7F")
    case True
    then show ?thesis using convert_rest_bytes [of "c # cs" rest] b by simp
  next
    case False
    then show ?thesis using b Cons.IH by simp
  qed
qed simp

lemma utf8_write_nonzero: "0 \<notin> set (utf8_write c)"
proof (cases c rule: utf8_write_cases)
  case one then show ?thesis by (auto simp: word_unat_eq_iff unat_ucast_16_8 simp del: of_nat_unat)
next
  case (two h l) then show ?thesis using or_C0 [of h] cont_byte [of l] by auto
next
  case (three h m l) then show ?thesis using or_E0 [of h] cont_byte [of l] cont_byte [of m] by auto
qed

lemma ascii_not_continuation: "b AND 0xC0 \<noteq> 0x80" if "unat (b::u_char) < 128"
  by (rule word_enum_all [OF _ that]) code_simp

lemma continuation_count: "length (filter (\<lambda>b. b AND 0xC0 \<noteq> 0x80) (utf8_write c)) = 1"
proof (cases c rule: utf8_write_cases)
  case one then show ?thesis using ascii_not_continuation [of "ucast c"] by (auto simp: unat_ucast_16_8)
next
  case (two h l) then show ?thesis using or_C0 [of h] cont_byte [of l] by auto
next
  case (three h m l) then show ?thesis using or_E0 [of h] cont_byte [of l] cont_byte [of m] by auto
qed

lemma unicode_length_n_eq:
  "unicode_length_n (bs @ rest) (length bs) = Some (length (filter (\<lambda>b. b AND 0xC0 \<noteq> 0x80) bs))"
  by (induction bs) simp_all

lemma unicode_length_z_eq:
  "0 \<notin> set bs \<Longrightarrow> unicode_length_z (bs @ 0 # rest) = Some (length (filter (\<lambda>b. b AND 0xC0 \<noteq> 0x80) bs))"
  by (induction bs) auto

lemma utf8_bytes_chars: "length (filter (\<lambda>b. b AND 0xC0 \<noteq> 0x80) (utf8_bytes cs)) = length cs"
  by (induction cs) (simp_all add: continuation_count)

text \<open>C26: Encoding and decoding agree on every string of \<open>jchar\<close>s, zero and surrogates
  included.  \<open>as_utf8\<close> fills the array it allocates exactly; the predicted length is the
  number of bytes; no byte before the terminator is zero; \<open>convert_to_unicode\<close> gives the
  string back; both \<open>unicode_length\<close> functions give its length.\<close>
theorem utf8_round_trip:
  "as_utf8 cs = Some (convert_to_utf8 cs) \<and>
   length (convert_to_utf8 cs) = utf8_length cs + 1 \<and>
   0 \<notin> set (butlast (convert_to_utf8 cs)) \<and>
   convert_to_unicode (convert_to_utf8 cs) (length cs) = Some cs \<and>
   unicode_length_z (convert_to_utf8 cs) = Some (length cs) \<and>
   unicode_length_n (convert_to_utf8 cs) (utf8_length cs) = Some (length cs)"
  using convert_to_unicode_bytes [of cs "[0]"] unicode_length_n_eq [of "utf8_bytes cs" "[0]"]
    unicode_length_z_eq [of "utf8_bytes cs" "[]"]
  by (auto simp: as_utf8_def Let_def convert_to_utf8_eq utf8_bytes_chars utf8_bytes_length utf8_write_nonzero
    simp del: length_concat filter_concat)

section \<open>Encoding into a bounded buffer\<close>

lemma as_utf8_loop_take:
  "p < buflen \<Longrightarrow> \<exists>k \<le> length cs. as_utf8_loop cs p buflen = utf8_bytes (take k cs) \<and>
     p + utf8_length (take k cs) < buflen \<and>
     (k < length cs \<longrightarrow> buflen \<le> p + utf8_length (take (Suc k) cs))"
proof (induction cs arbitrary: p)
  case (Cons c cs)
  show ?case
  proof (cases "p + utf8_size c \<ge> buflen")
    case True
    then show ?thesis using Cons.prems by (intro exI [of _ 0]) (simp add: utf8_length_eq)
  next
    case False
    then obtain k where "k \<le> length cs"
      "as_utf8_loop cs (p + utf8_size c) buflen = utf8_bytes (take k cs)"
      "p + utf8_size c + utf8_length (take k cs) < buflen"
      "k < length cs \<longrightarrow> buflen \<le> p + utf8_size c + utf8_length (take (Suc k) cs)"
      using Cons.IH [of "p + utf8_size c"] by auto
    then show ?thesis using False
      by (intro exI [of _ "Suc k"]) (auto simp: utf8_write_length utf8_length_eq)
  qed
qed simp

text \<open>C32: \<open>as_utf8\<close> into a buffer of positive size never writes outside it, ends what it
  writes with a zero, never cuts a character in two, and drops characters only when the
  next one does not fit.\<close>
theorem as_utf8_buf_truncates:
  assumes "0 < buflen"
  shows "\<exists>k \<le> length cs. as_utf8_buf cs buflen = Some (convert_to_utf8 (take k cs)) \<and>
     length (convert_to_utf8 (take k cs)) \<le> buflen \<and>
     (k < length cs \<longrightarrow> buflen < length (convert_to_utf8 (take (Suc k) cs)))"
proof -
  obtain k where "k \<le> length cs" "as_utf8_loop cs 0 buflen = utf8_bytes (take k cs)"
    "utf8_length (take k cs) < buflen" "k < length cs \<longrightarrow> buflen \<le> utf8_length (take (Suc k) cs)"
    using as_utf8_loop_take [OF assms, of cs] by auto
  then show ?thesis
    by (intro exI [of _ k])
      (auto simp: as_utf8_buf_def Let_def convert_to_utf8_eq utf8_bytes_length simp del: length_concat)
qed


theorem as_utf8_buf_truncates_witness:
  "\<exists>k \<le> length [65, 0x20AC, 66 :: jchar]. as_utf8_buf [65, 0x20AC, 66] 5
      = Some (convert_to_utf8 (take k [65, 0x20AC, 66])) \<and>
     length (convert_to_utf8 (take k [65, 0x20AC, 66])) \<le> 5 \<and>
     (k < length [65, 0x20AC, 66 :: jchar] \<longrightarrow>
       5 < length (convert_to_utf8 (take (Suc k) [65, 0x20AC, 66])))"
  by (rule as_utf8_buf_truncates) simp

section \<open>Decoding arbitrary bytes\<close>

lemma utf8_next_one_byte:
  "ch2 AND 0xC0 \<noteq> 0x80 \<Longrightarrow> utf8_next (ch # ch2 # rest) = Some (ucast ch, ch2 # rest)"
  by (simp add: utf8_next_def Let_def)

lemma utf8_next_two_bytes:
  "ch3 AND 0xC0 \<noteq> 0x80 \<Longrightarrow> \<exists>v. utf8_next (ch # ch2 # ch3 # rest) = Some (v, ch2 # ch3 # rest) \<or>
     utf8_next (ch # ch2 # ch3 # rest) = Some (v, ch3 # rest)"
  by (simp add: utf8_next_def Let_def)

lemma utf8_next_three_bytes:
  "\<exists>v. utf8_next (ch # ch2 # ch3 # rest) = Some (v, ch2 # ch3 # rest) \<or>
     utf8_next (ch # ch2 # ch3 # rest) = Some (v, ch3 # rest) \<or>
     utf8_next (ch # ch2 # ch3 # rest) = Some (v, rest)"
  by (simp add: utf8_next_def Let_def)

lemma utf8_next_stops:
  assumes "s \<noteq> []"
  shows "\<exists>v s'. utf8_next (s @ 0 # rest) = Some (v, s' @ 0 # rest) \<and> strict_suffix s' s"
proof -
  consider ch where "s = [ch]" | ch ch2 where "s = [ch, ch2]" | ch ch2 ch3 t where "s = ch # ch2 # ch3 # t"
    using assms by (cases s rule: remdups_adj.cases; cases "tl (tl s)") auto
  then show ?thesis
  proof cases
    case 1
    then show ?thesis using utf8_next_one_byte [of 0 ch rest] by (auto simp: strict_suffix_def)
  next
    case 2
    then obtain v where "utf8_next (s @ 0 # rest) = Some (v, [ch2] @ 0 # rest) \<or>
      utf8_next (s @ 0 # rest) = Some (v, [] @ 0 # rest)"
      using utf8_next_two_bytes [of 0 ch ch2 rest] by auto
    moreover have "strict_suffix [ch2] s" "strict_suffix [] s"
      using 2 by (auto simp: strict_suffix_def suffix_def)
    ultimately show ?thesis by blast
  next
    case 3
    then obtain v where "utf8_next (s @ 0 # rest) = Some (v, (ch2 # ch3 # t) @ 0 # rest) \<or>
      utf8_next (s @ 0 # rest) = Some (v, (ch3 # t) @ 0 # rest) \<or>
      utf8_next (s @ 0 # rest) = Some (v, t @ 0 # rest)"
      using utf8_next_three_bytes [of ch ch2 ch3 "t @ 0 # rest"] by auto
    moreover have "strict_suffix (ch2 # ch3 # t) s" "strict_suffix (ch3 # t) s" "strict_suffix t s"
      using 3 by (auto simp: strict_suffix_def suffix_def)
    ultimately show ?thesis by blast
  qed
qed

text \<open>C33: On a zero-terminated string, legal or not, \<open>next\<close> reads nothing after the
  terminator, never steps over it, and makes progress.\<close>

theorem utf8_next_terminated:
  assumes "s \<noteq> []"
  shows "\<exists>v s'. utf8_next (s @ 0 # rest) = Some (v, s' @ 0 # rest) \<and> strict_suffix s' s"
  by (rule utf8_next_stops [OF assms])

theorem utf8_next_terminated_witness:
  "\<exists>v s'. utf8_next ([0xE0, 0x80] @ 0 # [1]) = Some (v, s' @ 0 # [1]) \<and> strict_suffix s' [0xE0, 0x80]"
  by (rule utf8_next_terminated) simp

section \<open>Supplementary characters\<close>

text \<open>The six bytes of the surrogate pair of a code point above \<open>0xFFFF\<close>.\<close>

definition supplementary_bytes :: "jint \<Rightarrow> u_char list" where
  "supplementary_bytes c = (let u = c - 0x10000 in
     utf8_write (0xD800 + ucast (drop_bit 10 u)) @ utf8_write (0xDC00 + ucast (u AND 0x3FF)))"

lemma continuation_mod: "unat ((m OR 0x80) AND 0x0F) = unat m mod 16 \<and> 
   (32 \<le> unat m \<and> unat m < 48 \<longrightarrow> (m OR 0x80) AND 0xF0 = 0xA0) \<and>
   (48 \<le> unat m \<longrightarrow> (m OR 0x80) AND 0xF0 = (0xB0::u_char))" if "unat m < 64"
  by (rule word_enum_all [OF _ that]) code_simp

lemma digit_unique:
  assumes "x * 64 + l = y * 64 + (r :: nat)" "l < 64" "r < 64"
  shows "x = y \<and> l = r"
proof -
  have "x = y" using assms div_mult_self3 [of 64 x l] div_mult_self3 [of 64 y r] by auto
  then show ?thesis using assms(1) by simp
qed

lemma digit_sum:
  "p * 64 + q = a \<Longrightarrow> p' * 64 + q' = b \<Longrightarrow> p * 65536 + q * 1024 + p' * 64 + q' = a * 1024 + (b :: nat)"
  by auto

lemma supplementary_value:
  assumes "unat (x :: u_char) < 16" "unat (l :: u_char) < 64" "unat (y :: u_char) < 16"
    "unat (l' :: u_char) < 64"
  shows "unat (0x10000 + push_bit 16 (ucast x) + push_bit 10 (ucast l) + push_bit 6 (ucast y)
      + ucast l' :: jint) = 65536 + (unat x * 65536 + unat l * 1024 + unat y * 64 + unat l')"
  using assms by (simp add: unat_word_ariths push_bit_eq_mult unat_ucast_8_32 del: of_nat_unat)

lemma mod_16_offset: "x < 16 \<Longrightarrow> (32 + x) mod 16 = x \<and> (48 + x) mod 16 = (x :: nat)"
  by (simp add: mod_if)

lemma surrogate_bytes:
  assumes "unat c = 55296 + k * 1024 + a" "a < 1024" "k < 2"
  obtains m l where "utf8_write c = [0xED, m OR 0x80, l OR 0x80]"
    "unat m = 32 + 16 * k + a div 64" "unat l = a mod 64"
proof (cases c rule: utf8_write_cases)
  case (three h m l)
  have "(unat h * 64 + unat m) * 64 + unat l = (864 + k * 16 + a div 64) * 64 + a mod 64"
    using three(1) assms(1) by simp
  from digit_unique [OF this three(4)] assms(2)
  have "unat h * 64 + unat m = 864 + k * 16 + a div 64" "unat l = a mod 64" by auto
  moreover from this have "unat h = 13" using three(2,3) assms(2,3) by auto
  moreover from this have "h = 13" by (simp add: word_unat_eq_iff)
  ultimately show thesis using three(6) by (intro that [of m l]) auto
qed (use assms in auto)

text \<open>C35: \<open>next_character\<close> recombines the encoded surrogate pair of a supplementary code
  point into that code point.\<close>

theorem next_character_supplementary:
  assumes "0x10000 \<le> c" "c < 0x110000"
  shows "next_character (supplementary_bytes c @ rest) = Some (c, rest)"
proof -
  let ?u = "c - 0x10000"
  have u: "unat ?u = unat c - 65536" "65536 \<le> unat c" "unat c < 1114112"
    using assms by (simp_all add: unat_sub word_le_nat_alt word_less_nat_alt)
  define a b where ab: "a = unat ?u div 1024" "b = unat ?u mod 1024"
  have bounds: "a < 1024" "b < 1024" "unat c = 65536 + a * 1024 + b"
    using u by (auto simp: ab less_mult_imp_div_less)
  have "unat (drop_bit 10 ?u) = a" 
    by (simp add: ab unat_div drop_bit_eq_div)
  then have hi: "unat (0xD800 + ucast (drop_bit 10 ?u) :: jchar) = 55296 + 0 * 1024 + a"
    using bounds by (simp add: unat_word_ariths unsigned_ucast_eq take_bit_nat_eq_self del: of_nat_unat)
  have "unat (?u AND 0x3FF) = b"
    using nat_and_mask [of "unat ?u" 10] by (simp add: ab unsigned_and_eq)
  then have lo: "unat (0xDC00 + ucast (?u AND 0x3FF) :: jchar) = 55296 + 1 * 1024 + b"
    using bounds by (simp add: unat_word_ariths unsigned_ucast_eq take_bit_nat_eq_self del: of_nat_unat)
  obtain m l where ml: "utf8_write (0xD800 + ucast (drop_bit 10 ?u)) = [0xED, m OR 0x80, l OR 0x80]"
    "unat m = 32 + a div 64" "unat l = a mod 64"
    using surrogate_bytes [OF hi bounds(1)] by auto
  obtain m' l' where ml': "utf8_write (0xDC00 + ucast (?u AND 0x3FF)) = [0xED, m' OR 0x80, l' OR 0x80]"
    "unat m' = 48 + b div 64" "unat l' = b mod 64"
    using surrogate_bytes [OF lo bounds(2)] by auto
  have d: "a div 64 < 16" "b div 64 < 16" using bounds by auto
  have m: "unat m < 64" "unat m < 48" "32 \<le> unat m" "unat m mod 16 = a div 64" 
      "unat m' < 64" "48 \<le> unat m'" "unat m' mod 16 = b div 64"
    using d mod_16_offset by (simp_all add: ml ml')
  have l: "unat l < 64" "unat l' < 64" by (simp_all add: ml ml')
  note cs = continuation_mod [OF m(1)] continuation_mod [OF m(5)] cont_byte [OF l(1)] cont_byte [OF l(2)]
    cont_byte [OF m(1)] cont_byte [OF m(5)]
  have val: "unat (0x10000 + push_bit 16 (ucast x) + push_bit 10 (ucast l) + push_bit 6 (ucast y)
      + ucast l' :: jint) = 65536 + a * 1024 + b"
    if "unat (x :: u_char) = a div 64" "unat (y :: u_char) = b div 64" for x y
    using supplementary_value [of x l y l'] digit_sum [OF div_mult_mod_eq div_mult_mod_eq, of a b]
      d l that ml(3) ml'(3) by (simp only: add.assoc)
  have "unat ((m OR 0x80) AND 0x0F) = a div 64" "unat ((m' OR 0x80) AND 0x0F) = b div 64"
    using cs m by simp_all
  from val [OF this] have "0x10000 + push_bit 16 (ucast ((m OR 0x80) AND 0x0F))
      + push_bit 10 (ucast l) + push_bit 6 (ucast ((m' OR 0x80) AND 0x0F)) + ucast l' = c"
    by (simp only: word_unat_eq_iff bounds)
  then have "get_supplementary_character (supplementary_bytes c @ rest) = Some c"
    using cs by (simp add: get_supplementary_character_def supplementary_bytes_def Let_def ml ml')
  moreover have "is_supplementary_character (supplementary_bytes c @ rest) = Some True"
    using cs m by (simp add: is_supplementary_character_def byte_test_def supplementary_bytes_def Let_def ml ml' del: of_nat_unat)
  moreover have "drop 6 (supplementary_bytes c @ rest) = rest"
    by (simp add: supplementary_bytes_def Let_def ml ml')
  ultimately show ?thesis by (simp add: next_character_def)
qed

theorem next_character_supplementary_witness:
  "next_character (supplementary_bytes 0x1F600 @ [0]) = Some (0x1F600, [0])"
  by (rule next_character_supplementary) simp_all

section \<open>Quoted ASCII\<close>

lemma utf8_next_bytes_Cons:
  "utf8_next (utf8_bytes (c # cs) @ rest) = Some (c, utf8_bytes cs @ rest)"
  by simp

lemma utf8_write_length_pos: "\<not> int (length (utf8_write c)) + int n \<le> 0"
  by (simp add: utf8_write_length utf8_size_def)

lemma quoted_ascii_length_bytes:
  "quoted_ascii_length (utf8_bytes cs @ rest) (int (length (utf8_bytes cs))) = Some (unicode_quoted_ascii_length cs)"
proof (induction cs)
  case (Cons c cs)
  then show ?case 
    by (subst quoted_ascii_length.simps) (simp add: utf8_write_length_pos del: length_concat)
qed (simp add: quoted_ascii_length.simps)

lemma as_quoted_loop_bytes:
  "as_quoted_loop (utf8_bytes cs @ rest) (int (length (utf8_bytes cs))) p buflen = Some (unicode_quoted_loop cs p buflen)"
proof (induction cs arbitrary: p)
  case (Cons c cs)
  then show ?case 
    by (subst as_quoted_loop.simps) (simp add: Let_def utf8_write_length_pos del: length_concat)
qed (simp add: as_quoted_loop.simps)

lemma unicode_quoted_loop_bound: "p < buflen \<Longrightarrow> p + length (unicode_quoted_loop cs p buflen) < buflen"
  by (induction cs p buflen rule: unicode_quoted_loop.induct) (auto simp: sprintf_u04x_def)

lemma unicode_quoted_loop_full:
  "p + unicode_quoted_ascii_length cs < buflen \<Longrightarrow>
   length (unicode_quoted_loop cs p buflen) = unicode_quoted_ascii_length cs"
  by (induction cs p buflen rule: unicode_quoted_loop.induct)
    (auto simp: sprintf_u04x_def split: if_splits)

text \<open>The two \<open>as_quoted_ascii\<close> agree: quoting the encoding of a string is quoting
  the string, the two length functions agree, the output stays in the buffer, and a buffer
  longer than the predicted length receives the whole string.\<close>

theorem quoted_ascii_agree:
  assumes "0 < buflen"
  shows "as_quoted_ascii (convert_to_utf8 cs) (utf8_length cs) buflen = unicode_as_quoted_ascii cs buflen \<and>
   quoted_ascii_length (convert_to_utf8 cs) (int (utf8_length cs)) = Some (unicode_quoted_ascii_length cs) \<and>
   (\<exists>out. unicode_as_quoted_ascii cs buflen = Some out \<and> length out \<le> buflen \<and>
      (unicode_quoted_ascii_length cs < buflen \<longrightarrow> length out = unicode_quoted_ascii_length cs + 1))"
  using as_quoted_loop_bytes [of cs "[0]" 0 buflen] quoted_ascii_length_bytes [of cs "[0]"]
    unicode_quoted_loop_bound [OF assms, of cs] unicode_quoted_loop_full [of 0 cs buflen]
  by (auto simp: as_quoted_ascii_def unicode_as_quoted_ascii_def Let_def convert_to_utf8_eq utf8_bytes_length
      simp del: length_concat)

theorem quoted_ascii_agree_witness:
  "as_quoted_ascii (convert_to_utf8 [72, 0x20AC]) (utf8_length [72, 0x20AC]) 20
      = unicode_as_quoted_ascii [72, 0x20AC] 20 \<and>
   quoted_ascii_length (convert_to_utf8 [72, 0x20AC]) (int (utf8_length [72, 0x20AC]))
      = Some (unicode_quoted_ascii_length [72, 0x20AC]) \<and>
   (\<exists>out. unicode_as_quoted_ascii [72, 0x20AC] 20 = Some out \<and> length out \<le> 20 \<and>
      (unicode_quoted_ascii_length [72, 0x20AC] < 20 \<longrightarrow>
        length out = unicode_quoted_ascii_length [72, 0x20AC] + 1))"
  by (rule quoted_ascii_agree) simp

lemma utf8_equal_loop_take:
  "n \<le> length xs \<Longrightarrow> n \<le> length ys \<Longrightarrow> utf8_equal_loop xs ys n = Some (take n xs = take n ys)"
  by (induction xs ys n rule: utf8_equal_loop.induct) auto

lemma utf8_equal_correct:
  assumes "length1 \<le> length base1" "length2 \<le> length base2"
  shows "utf8_equal base1 length1 base2 length2 = Some (take length1 base1 = take length2 base2)"
proof (cases "length1 = length2")
  case True
  then show ?thesis using assms by (simp add: utf8_equal_def utf8_equal_loop_take)
next
  case False
  then have "take length1 base1 \<noteq> take length2 base2"
    using assms by (metis length_take min.absorb2)
  then show ?thesis using False by (simp add: utf8_equal_def)
qed

lemma utf8_strrchr_correct:
  assumes "n \<le> length base"
  shows "utf8_strrchr base n c = Some (if c \<in> set (take n base)
     then Some (Max {i. i < n \<and> base ! i = c}) else None)"
  using assms
proof (induction n)
  case (Suc n)
  then have t: "take (Suc n) base = take n base @ [base ! n]" by (simp add: take_Suc_conv_app_nth)
  show ?case
  proof (cases "base ! n = c")
    case True
    then have "Max {i. i < Suc n \<and> base ! i = c} = n" by (intro Max_eqI) auto
    then show ?thesis using Suc True by (simp add: nth_opt_def t)
  next
    case False
    then have "{i. i < Suc n \<and> base ! i = c} = {i. i < n \<and> base ! i = c}" by (auto simp: less_Suc_eq)
    then show ?thesis using Suc False by (simp add: nth_opt_def t)
  qed
qed simp

lemma quoted_scan_stops: "quoted_scan ptr = Some r \<Longrightarrow> ptr = [] \<or> unprintable (hd ptr)"
  by (erule quoted_scan.raw_induct [of "\<lambda>ptr r. ptr = [] \<or> unprintable (hd ptr)", rotated])
    (auto split: if_splits)

lemma quoted_round_stops: "quoted_round ptr out = Some r \<Longrightarrow> ptr = [] \<or> hd ptr = 92"
  by (erule quoted_round.raw_induct [of "\<lambda>ptr out r. ptr = [] \<or> hd ptr = 92", rotated])
    (metis (full_types))

lemma quoted_scan_result: "quoted_scan ptr = Some r \<Longrightarrow> r = ptr"
  by (erule quoted_scan.raw_induct [of "\<lambda>ptr r. r = ptr", rotated]) (auto split: if_splits)

lemma backslash_printable: "\<not> unprintable 92"
  by (simp add: unprintable_def word_sless_alt)

text \<open>C39: \<open>from_quoted_ascii\<close> returns only on the empty string: on every other argument
  one of its loops tests the same byte forever.\<close>

theorem from_quoted_ascii_returns_iff:
  "(\<exists>r. from_quoted_ascii str = Some r) \<longleftrightarrow> str = []"
proof
  assume "\<exists>r. from_quoted_ascii str = Some r"
  then obtain p where p: "quoted_scan str = Some p"
    and round: "p = [] \<or> (\<exists>out r. quoted_round p out = Some r)"
    by (auto simp: from_quoted_ascii_def split: option.splits if_splits)
  have "p = str" using p by (rule quoted_scan_result)
  then show "str = []"
    using quoted_scan_stops [OF p] round quoted_round_stops [of p] backslash_printable by metis
next
  assume "str = []"
  then show "\<exists>r. from_quoted_ascii str = Some r"
    by (simp add: from_quoted_ascii_def quoted_scan.simps)
qed

end
