(* ===== verification/Verification_Type.thy ===== *)
theory Verification_Type
  imports VM_Prelude
begin

text \<open>
  The types of the bytecode verifier: \<open>src/share/vm/classfile/verificationType.hpp\<close> and
  \<open>.cpp\<close>, class \<open>VerificationType\<close>.

  The C++ object is one machine word, the union of a \<open>Symbol*\<close> and an encoded \<open>_data\<close> word.
  Symbols are interned, so that two pointers are equal exactly when the names are, and they
  are aligned and not null.  The model keeps the two members of the union apart: \<open>Sym s\<close> is
  the pointer to the symbol with bytes \<open>s\<close> and \<open>Data w\<close> the word \<open>w\<close>.  Every bit test of the
  header is a clause for each; \<open>verification_type_encoding\<close> below shows that for every
  placement of the symbols at distinct, aligned, non-null addresses the clauses are the bit
  tests of the header on the raw word.

  Class resolution and the class hierarchy are the fields of \<open>class_env\<close>.  The flag
  \<open>DumpSharedSpaces\<close> is off (it only records dependencies for an archive), and assertions
  are not compiled in.
\<close>

unbundle bit_operations_syntax

type_synonym klass = nat

record class_env =
  resolve_or_fail :: "symbol \<Rightarrow> fault + klass"
  klass_is_interface :: "klass \<Rightarrow> bool"
  klass_is_subclass_of :: "klass \<Rightarrow> klass \<Rightarrow> bool"

definition java_lang_Object :: symbol where
  "java_lang_Object = symbol_of ''java/lang/Object''"

section \<open>The encoding\<close>

named_theorems vt_consts

definition ITEM_Top :: u1 where "ITEM_Top = 0"
definition ITEM_Integer :: u1 where "ITEM_Integer = 1"
definition ITEM_Float :: u1 where "ITEM_Float = 2"
definition ITEM_Double :: u1 where "ITEM_Double = 3"
definition ITEM_Long :: u1 where "ITEM_Long = 4"
definition ITEM_Null :: u1 where "ITEM_Null = 5"
definition ITEM_UninitializedThis :: u1 where "ITEM_UninitializedThis = 6"
definition ITEM_Object :: u1 where "ITEM_Object = 7"
definition ITEM_Uninitialized :: u1 where "ITEM_Uninitialized = 8"

lemmas item_consts = ITEM_Top_def ITEM_Integer_def ITEM_Float_def ITEM_Double_def ITEM_Long_def
  ITEM_Null_def ITEM_UninitializedThis_def ITEM_Object_def ITEM_Uninitialized_def

definition TypeMask :: uintptr_t where "TypeMask = 0x3"
definition Reference :: uintptr_t where "Reference = 0x0"
definition Primitive :: uintptr_t where "Primitive = 0x1"
definition Uninitialized :: uintptr_t where "Uninitialized = 0x2"
definition TypeQuery :: uintptr_t where "TypeQuery = 0x3"
definition Null :: uintptr_t where "Null = 0"

definition Category1 :: uintptr_t where "Category1 = push_bit 8 0x01 OR Primitive"
definition Category2 :: uintptr_t where "Category2 = push_bit 8 0x02 OR Primitive"
definition Category2_2nd :: uintptr_t where "Category2_2nd = push_bit 8 0x04 OR Primitive"

definition ITEM_Bogus :: juint where "ITEM_Bogus = 0xFFFFFFFF"
definition Bogus :: uintptr_t where "Bogus = ucast (push_bit 16 ITEM_Bogus) OR Category1"
definition Boolean :: uintptr_t where "Boolean = push_bit 16 9 OR Category1"
definition Byte :: uintptr_t where "Byte = push_bit 16 10 OR Category1"
definition Short :: uintptr_t where "Short = push_bit 16 11 OR Category1"
definition Char :: uintptr_t where "Char = push_bit 16 12 OR Category1"
definition Integer :: uintptr_t where "Integer = push_bit 16 1 OR Category1"
definition Float :: uintptr_t where "Float = push_bit 16 2 OR Category1"
definition Long :: uintptr_t where "Long = push_bit 16 4 OR Category2"
definition Double :: uintptr_t where "Double = push_bit 16 3 OR Category2"
definition Long_2nd :: uintptr_t where "Long_2nd = push_bit 16 13 OR Category2_2nd"
definition Double_2nd :: uintptr_t where "Double_2nd = push_bit 16 14 OR Category2_2nd"

definition BciMask :: uintptr_t where "BciMask = push_bit 8 0xffff"
definition BciForThis :: u2 where "BciForThis = - 1"

definition ReferenceQuery :: uintptr_t where "ReferenceQuery = push_bit 8 0x00 OR TypeQuery"
definition Category1Query :: uintptr_t where "Category1Query = push_bit 8 0x01 OR TypeQuery"
definition Category2Query :: uintptr_t where "Category2Query = push_bit 8 0x02 OR TypeQuery"
definition Category2_2ndQuery :: uintptr_t where
  "Category2_2ndQuery = push_bit 8 0x04 OR TypeQuery"

lemma vt_const_values [vt_consts]:
  "TypeMask = 0x3" "Reference = 0" "Primitive = 0x1" "Uninitialized = 0x2" "TypeQuery = 0x3"
  "Null = 0" "Category1 = 0x101" "Category2 = 0x201" "Category2_2nd = 0x401"
  "Bogus = 0xFFFF0101" "Boolean = 0x90101" "Byte = 0xA0101" "Short = 0xB0101" "Char = 0xC0101"
  "Integer = 0x10101" "Float = 0x20101" "Long = 0x40201" "Double = 0x30201"
  "Long_2nd = 0xD0401" "Double_2nd = 0xE0401" "BciMask = 0xFFFF00" "BciForThis = 0xFFFF"
  "ReferenceQuery = 0x3" "Category1Query = 0x103" "Category2Query = 0x203"
  "Category2_2ndQuery = 0x403"
  by (simp_all add: TypeMask_def Reference_def Primitive_def Uninitialized_def TypeQuery_def
      Null_def Category1_def Category2_def Category2_2nd_def ITEM_Bogus_def Bogus_def Boolean_def Byte_def
      Short_def Char_def Integer_def Float_def Long_def Double_def Long_2nd_def Double_2nd_def
      BciMask_def BciForThis_def ReferenceQuery_def Category1Query_def Category2Query_def
      Category2_2ndQuery_def)

datatype VerificationType = Sym symbol | Data uintptr_t

definition bogus_type :: VerificationType where "bogus_type = Data Bogus"
definition null_type :: VerificationType where "null_type = Data Null"
definition integer_type :: VerificationType where "integer_type = Data Integer"
definition float_type :: VerificationType where "float_type = Data Float"
definition long_type :: VerificationType where "long_type = Data Long"
definition long2_type :: VerificationType where "long2_type = Data Long_2nd"
definition double_type :: VerificationType where "double_type = Data Double"
definition boolean_type :: VerificationType where "boolean_type = Data Boolean"
definition byte_type :: VerificationType where "byte_type = Data Byte"
definition char_type :: VerificationType where "char_type = Data Char"
definition short_type :: VerificationType where "short_type = Data Short"
definition double2_type :: VerificationType where "double2_type = Data Double_2nd"
definition reference_check :: VerificationType where "reference_check = Data ReferenceQuery"
definition category1_check :: VerificationType where "category1_check = Data Category1Query"
definition category2_check :: VerificationType where "category2_check = Data Category2Query"
definition category2_2nd_check :: VerificationType where
  "category2_2nd_check = Data Category2_2ndQuery"
definition reference_type :: "symbol \<Rightarrow> VerificationType" where "reference_type sh = Sym sh"
definition uninitialized_type :: "u2 \<Rightarrow> VerificationType" where
  "uninitialized_type bci = Data (ucast (push_bit 8 (ucast bci :: jint)) OR Uninitialized)"
definition uninitialized_this_type :: VerificationType where
  "uninitialized_this_type = uninitialized_type BciForThis"

lemmas type_defs = bogus_type_def null_type_def integer_type_def float_type_def long_type_def
  long2_type_def double_type_def boolean_type_def byte_type_def char_type_def short_type_def
  double2_type_def reference_check_def category1_check_def category2_check_def
  category2_2nd_check_def reference_type_def

definition from_tag :: "u1 \<Rightarrow> fault + VerificationType" where
  "from_tag tag =
    (if tag = ITEM_Top then Inr bogus_type
     else if tag = ITEM_Integer then Inr integer_type
     else if tag = ITEM_Float then Inr float_type
     else if tag = ITEM_Double then Inr double_type
     else if tag = ITEM_Long then Inr long_type
     else if tag = ITEM_Null then Inr null_type
     else Inl Should_Not_Reach_Here)"

section \<open>Tests\<close>

definition is_bogus :: "VerificationType \<Rightarrow> bool" where "is_bogus t \<longleftrightarrow> t = Data Bogus"
definition is_null :: "VerificationType \<Rightarrow> bool" where "is_null t \<longleftrightarrow> t = Data Null"
definition is_boolean :: "VerificationType \<Rightarrow> bool" where "is_boolean t \<longleftrightarrow> t = Data Boolean"
definition is_byte :: "VerificationType \<Rightarrow> bool" where "is_byte t \<longleftrightarrow> t = Data Byte"
definition is_char :: "VerificationType \<Rightarrow> bool" where "is_char t \<longleftrightarrow> t = Data Char"
definition is_short :: "VerificationType \<Rightarrow> bool" where "is_short t \<longleftrightarrow> t = Data Short"
definition is_integer :: "VerificationType \<Rightarrow> bool" where "is_integer t \<longleftrightarrow> t = Data Integer"
definition is_long :: "VerificationType \<Rightarrow> bool" where "is_long t \<longleftrightarrow> t = Data Long"
definition is_float :: "VerificationType \<Rightarrow> bool" where "is_float t \<longleftrightarrow> t = Data Float"
definition is_double :: "VerificationType \<Rightarrow> bool" where "is_double t \<longleftrightarrow> t = Data Double"
definition is_long2 :: "VerificationType \<Rightarrow> bool" where "is_long2 t \<longleftrightarrow> t = Data Long_2nd"
definition is_double2 :: "VerificationType \<Rightarrow> bool" where "is_double2 t \<longleftrightarrow> t = Data Double_2nd"

lemmas is_type_defs = is_bogus_def is_null_def is_boolean_def is_byte_def is_char_def
  is_short_def is_integer_def is_long_def is_float_def is_double_def is_long2_def is_double2_def

fun is_reference :: "VerificationType \<Rightarrow> bool" where
  "is_reference (Sym s) = True"
| "is_reference (Data w) = (w AND TypeMask = Reference)"

fun is_category1 :: "VerificationType \<Rightarrow> bool" where
  "is_category1 (Sym s) = True"
| "is_category1 (Data w) = (w AND Category1 \<noteq> Primitive)"

fun is_category2 :: "VerificationType \<Rightarrow> bool" where
  "is_category2 (Sym s) = False"
| "is_category2 (Data w) = (w AND Category2 = Category2)"

fun is_category2_2nd :: "VerificationType \<Rightarrow> bool" where
  "is_category2_2nd (Sym s) = False"
| "is_category2_2nd (Data w) = (w AND Category2_2nd = Category2_2nd)"

definition is_reference_check :: "VerificationType \<Rightarrow> bool" where
  "is_reference_check t \<longleftrightarrow> t = Data ReferenceQuery"
definition is_category1_check :: "VerificationType \<Rightarrow> bool" where
  "is_category1_check t \<longleftrightarrow> t = Data Category1Query"
definition is_category2_check :: "VerificationType \<Rightarrow> bool" where
  "is_category2_check t \<longleftrightarrow> t = Data Category2Query"
definition is_category2_2nd_check :: "VerificationType \<Rightarrow> bool" where
  "is_category2_2nd_check t \<longleftrightarrow> t = Data Category2_2ndQuery"

fun is_check :: "VerificationType \<Rightarrow> bool" where
  "is_check (Sym s) = False"
| "is_check (Data w) = (w AND TypeQuery = TypeQuery)"

fun is_uninitialized :: "VerificationType \<Rightarrow> bool" where
  "is_uninitialized (Sym s) = False"
| "is_uninitialized (Data w) = (w AND Uninitialized = Uninitialized)"

text \<open>The functions that are only called on types of one kind; on the others, where the code
  has an assertion, the value is arbitrary.\<close>

fun vt_bci :: "VerificationType \<Rightarrow> u2" where
  "vt_bci (Sym s) = 0"
| "vt_bci (Data w) = ucast (drop_bit 8 (w AND BciMask))"

fun vt_name :: "VerificationType \<Rightarrow> symbol" where
  "vt_name (Sym s) = s"
| "vt_name (Data w) = []"

definition is_uninitialized_this :: "VerificationType \<Rightarrow> bool" where
  "is_uninitialized_this t \<longleftrightarrow> is_uninitialized t \<and> vt_bci t = BciForThis"

definition to_category2_2nd :: "VerificationType \<Rightarrow> VerificationType" where
  "to_category2_2nd t = Data (if is_long t then Long_2nd else Double_2nd)"

definition byte_at_is :: "symbol \<Rightarrow> nat \<Rightarrow> u_char \<Rightarrow> bool" where
  "byte_at_is s i c \<longleftrightarrow> nth_opt s i = Some c"

definition is_object :: "VerificationType \<Rightarrow> bool" where
  "is_object t \<longleftrightarrow> is_reference t \<and> \<not> is_null t \<and> length (vt_name t) \<ge> 1 \<and>
     \<not> byte_at_is (vt_name t) 0 91"

definition is_array :: "VerificationType \<Rightarrow> bool" where
  "is_array t \<longleftrightarrow> is_reference t \<and> \<not> is_null t \<and> length (vt_name t) \<ge> 2 \<and>
     byte_at_is (vt_name t) 0 91"

definition is_x_array :: "VerificationType \<Rightarrow> u_char \<Rightarrow> bool" where
  "is_x_array t sig \<longleftrightarrow> is_null t \<or> (is_array t \<and> byte_at_is (vt_name t) 1 sig)"

definition is_int_array :: "VerificationType \<Rightarrow> bool" where "is_int_array t = is_x_array t 73"
definition is_byte_array :: "VerificationType \<Rightarrow> bool" where "is_byte_array t = is_x_array t 66"
definition is_bool_array :: "VerificationType \<Rightarrow> bool" where "is_bool_array t = is_x_array t 90"
definition is_char_array :: "VerificationType \<Rightarrow> bool" where "is_char_array t = is_x_array t 67"
definition is_short_array :: "VerificationType \<Rightarrow> bool" where "is_short_array t = is_x_array t 83"
definition is_long_array :: "VerificationType \<Rightarrow> bool" where "is_long_array t = is_x_array t 74"
definition is_float_array :: "VerificationType \<Rightarrow> bool" where "is_float_array t = is_x_array t 70"
definition is_double_array :: "VerificationType \<Rightarrow> bool" where
  "is_double_array t = is_x_array t 68"
definition is_object_array :: "VerificationType \<Rightarrow> bool" where
  "is_object_array t = is_x_array t 76"
definition is_array_array :: "VerificationType \<Rightarrow> bool" where
  "is_array_array t = is_x_array t 91"
definition is_reference_array :: "VerificationType \<Rightarrow> bool" where
  "is_reference_array t \<longleftrightarrow> is_object_array t \<or> is_array_array t"

text \<open>The loop ends at the first byte that is not \<open>[\<close>, and reads past a name that has none.\<close>

definition dimensions :: "VerificationType \<Rightarrow> fault + int" where
  "dimensions t =
    (let n = length (takeWhile (\<lambda>b. b = 91) (vt_name t))
     in if n < length (vt_name t) then Inr (int n) else Inl Undefined_Behaviour)"

definition vt_equals :: "VerificationType \<Rightarrow> VerificationType \<Rightarrow> bool" where
  "vt_equals this t \<longleftrightarrow>
     this = t \<or>
     (is_reference this \<and> is_reference t \<and> \<not> is_null this \<and> \<not> is_null t \<and>
      vt_name this = vt_name t)"

section \<open>Components and assignability\<close>

text \<open>\<open>ClassVerifier::create_temporary_symbol\<close>: the interned symbol of the bytes from
  \<open>begin\<close> to \<open>end\<close>; it is not defined for a negative length.\<close>

definition create_temporary_symbol :: "symbol \<Rightarrow> nat \<Rightarrow> nat \<Rightarrow> fault + symbol" where
  "create_temporary_symbol s begn ennd =
    (if begn \<le> ennd \<and> ennd \<le> length s then Inr (take (ennd - begn) (drop begn s))
     else Inl Undefined_Behaviour)"

definition get_component :: "VerificationType \<Rightarrow> fault + VerificationType" where
  "get_component t =
    (case nth_opt (vt_name t) 1 of
       None \<Rightarrow> Inl Undefined_Behaviour
     | Some c \<Rightarrow>
        if c = 90 then Inr (Data Boolean)
        else if c = 66 then Inr (Data Byte)
        else if c = 67 then Inr (Data Char)
        else if c = 83 then Inr (Data Short)
        else if c = 73 then Inr (Data Integer)
        else if c = 74 then Inr (Data Long)
        else if c = 70 then Inr (Data Float)
        else if c = 68 then Inr (Data Double)
        else if c = 91 then
          (case create_temporary_symbol (vt_name t) 1 (length (vt_name t)) of
             Inl e \<Rightarrow> Inl e
           | Inr component \<Rightarrow> Inr (reference_type component))
        else if c = 76 then
          (case create_temporary_symbol (vt_name t) 2 (length (vt_name t) - 1) of
             Inl e \<Rightarrow> Inl e
           | Inr component \<Rightarrow> Inr (reference_type component))
        else Inr bogus_type)"

lemma get_component_shorter:
  "get_component t = Inr c \<Longrightarrow> length (vt_name c) < length (vt_name t)"
  by (cases t) (auto simp: get_component_def create_temporary_symbol_def reference_type_def
      bogus_type_def nth_opt_def split: option.splits if_splits sum.splits)

function is_assignable_from ::
      "class_env \<Rightarrow> VerificationType \<Rightarrow> VerificationType \<Rightarrow> bool \<Rightarrow> fault + bool"
  and is_reference_assignable_from ::
      "class_env \<Rightarrow> VerificationType \<Rightarrow> VerificationType \<Rightarrow> bool \<Rightarrow> fault + bool" where
  "is_assignable_from context this from from_field_is_protected =
    (if vt_equals this from \<or> is_bogus this then Inr True
     else if this = Data Category1Query then Inr (is_category1 from)
     else if this = Data Category2Query then Inr (is_category2 from)
     else if this = Data Category2_2ndQuery then Inr (is_category2_2nd from)
     else if this = Data ReferenceQuery then Inr (is_reference from \<or> is_uninitialized from)
     else if this = Data Boolean \<or> this = Data Byte \<or> this = Data Char \<or> this = Data Short
       then Inr (is_integer from)
     else if is_reference this \<and> is_reference from
       then is_reference_assignable_from context this from from_field_is_protected
     else Inr False)"
| "is_reference_assignable_from context this from from_field_is_protected =
    (if is_null from then Inr True
     else if is_null this then Inr False
     else if vt_name this = vt_name from then Inr True
     else if is_object this then
       (if vt_name this = java_lang_Object then Inr True
        else case resolve_or_fail context (vt_name this) of
               Inl e \<Rightarrow> Inl e
             | Inr this_class \<Rightarrow>
                 if klass_is_interface context this_class \<and>
                    (\<not> from_field_is_protected \<or> vt_name from \<noteq> java_lang_Object)
                 then Inr True
                 else if is_object from then
                   (case resolve_or_fail context (vt_name from) of
                      Inl e \<Rightarrow> Inl e
                    | Inr from_class \<Rightarrow> Inr (klass_is_subclass_of context from_class this_class))
                 else Inr False)
     else if is_array this \<and> is_array from then
       (case get_component this of
          Inl e \<Rightarrow> Inl e
        | Inr comp_this \<Rightarrow>
            (case get_component from of
               Inl e \<Rightarrow> Inl e
             | Inr comp_from \<Rightarrow>
                 if \<not> is_bogus comp_this \<and> \<not> is_bogus comp_from
                 then is_assignable_from context comp_this comp_from from_field_is_protected
                 else Inr False))
     else Inr False)"
  by pat_completeness auto
termination
  by (relation "measure (\<lambda>x. case x of
        Inl (context, this, from, p) \<Rightarrow> 2 * length (vt_name this) + 1
      | Inr (context, this, from, p) \<Rightarrow> 2 * length (vt_name this))")
    (auto dest: get_component_shorter)

declare is_assignable_from.simps [simp del] is_reference_assignable_from.simps [simp del]

section \<open>The encoding is faithful\<close>

lemma aligned_bits: "p AND 3 = (0 :: uintptr_t) \<Longrightarrow> \<not> bit p 0 \<and> \<not> bit p 1"
proof -
  assume a: "p AND 3 = (0 :: uintptr_t)"
  have "bit (p AND 3) 0 = bit p 0" "bit (p AND 3) 1 = bit p 1" by (simp_all add: bit_simps)
  then show ?thesis using a by simp
qed

lemma bit_0_tests:
  assumes "\<not> bit (p :: uintptr_t) 0"
  shows "p AND 0x101 \<noteq> 1" "p AND 0x201 \<noteq> 0x201" "p AND 0x401 \<noteq> 0x401"
proof -
  have "bit (p AND 0x101) 0 = bit (1 :: uintptr_t) 0 \<longrightarrow> bit p 0"
    "bit (p AND 0x201) 0 = bit (0x201 :: uintptr_t) 0 \<longrightarrow> bit p 0"
    "bit (p AND 0x401) 0 = bit (0x401 :: uintptr_t) 0 \<longrightarrow> bit p 0"
    by (simp_all add: bit_simps)
  then show "p AND 0x101 \<noteq> 1" "p AND 0x201 \<noteq> 0x201" "p AND 0x401 \<noteq> 0x401"
    using assms by metis+
qed

lemma bit_1_test: "\<not> bit (p :: uintptr_t) 1 \<Longrightarrow> p AND 2 \<noteq> 2"
proof
  assume "\<not> bit p 1" "p AND 2 = 2"
  moreover have "bit (p AND 2) 1 = (bit p 1 \<and> bit (2 :: uintptr_t) 1)" by (rule bit_and_iff)
  moreover have "bit (2 :: uintptr_t) 1" by simp
  ultimately show False by metis
qed

text \<open>The machine word of a type, for a placement \<open>addr\<close> of the symbols in memory; the
  types whose symbols are in a set \<open>S\<close>.\<close>

fun raw :: "(symbol \<Rightarrow> uintptr_t) \<Rightarrow> VerificationType \<Rightarrow> uintptr_t" where
  "raw addr (Sym s) = addr s"
| "raw addr (Data w) = w"

definition symbols_placed :: "(symbol \<Rightarrow> uintptr_t) \<Rightarrow> symbol set \<Rightarrow> bool" where
  "symbols_placed addr S \<longleftrightarrow> inj_on addr S \<and> (\<forall>s\<in>S. addr s AND 3 = 0 \<and> addr s \<noteq> 0)"

fun wf_type :: "symbol set \<Rightarrow> VerificationType \<Rightarrow> bool" where
  "wf_type S (Sym s) \<longleftrightarrow> s \<in> S"
| "wf_type S (Data w) \<longleftrightarrow> w AND 3 = 0 \<longrightarrow> w = 0"

lemma uninitialized_type_bits:
  "uninitialized_type b = Data w \<Longrightarrow> w AND 3 = 2 \<and> w AND 2 = 2 \<and> ucast (drop_bit 8 (w AND 0xFFFF00)) = b
    \<and> w AND 0x101 \<noteq> 1 \<and> w AND 0x201 \<noteq> 0x201 \<and> w AND 0x401 \<noteq> 0x401"
proof -
  assume "uninitialized_type b = Data w"
  then have w: "w = ucast (push_bit 8 (ucast b :: jint)) OR 2"
    by (simp add: uninitialized_type_def vt_consts)
  have low: "w AND 3 = 2"
  proof (rule bit_word_eqI)
    fix n assume "n < LENGTH(64)"
    have "bit (3 :: uintptr_t) n \<longleftrightarrow> n < 2"
      using bit_mask_iff [where ?'a = "64 word", of 2 n] by (auto simp: mask_eq_exp_minus_1)
    then show "bit (w AND 3) n = bit (2 :: uintptr_t) n" by (auto simp: w bit_simps)
  qed
  have "bit (w AND 3) 0 = bit w 0" by (simp add: bit_simps)
  then have z: "\<not> bit w 0" by (simp add: low)
  have "w AND 2 = 2" by (rule bit_word_eqI; unfold w) (auto simp: bit_simps)
  moreover have "ucast (drop_bit 8 (w AND 0xFFFF00)) = b"
  proof (rule bit_word_eqI)
    fix n assume n: "n < LENGTH(16)"
    have m: "(0xFFFF00 :: uintptr_t) = push_bit 8 (mask 16)" by (simp add: mask_eq_exp_minus_1)
    have "bit (2 :: uintptr_t) (n + 8) = False" by (simp add: bit_simps)
    then show "bit (ucast (drop_bit 8 (w AND 0xFFFF00)) :: u2) n = bit b n"
      using n by (simp only: w m bit_simps) (simp add: bit_simps)
  qed
  ultimately show ?thesis using low bit_0_tests [OF z] by blast
qed

lemma uninitialized_type_word:
  obtains w where "uninitialized_type b = Data w" "w AND 3 = 2" "w AND 2 = 2"
    "ucast (drop_bit 8 (w AND 0xFFFF00)) = b"
    "w AND 0x101 \<noteq> 1" "w AND 0x201 \<noteq> 0x201" "w AND 0x401 \<noteq> 0x401"
  using uninitialized_type_bits [of b] uninitialized_type_def [of b] by blast

lemma wf_uninitialized [simp]: "wf_type S (uninitialized_type b)"
  by (rule uninitialized_type_word [of b]) simp

lemma uninitialized_type_tests [simp]:
  "is_uninitialized (uninitialized_type b)" "\<not> is_reference (uninitialized_type b)"
  "vt_bci (uninitialized_type b) = b" "\<not> is_check (uninitialized_type b)"
  "\<not> is_category2 (uninitialized_type b)" "\<not> is_category2_2nd (uninitialized_type b)"
  "is_category1 (uninitialized_type b)"
  by (rule uninitialized_type_word [of b]; simp add: vt_consts)+

text \<open>C21: For every placement of the symbols at distinct aligned non-null addresses, the
  tests on the two members of the union are the bit tests of the header on the machine word,
  and equality of types is equality of words.\<close>

theorem verification_type_encoding:
  assumes "symbols_placed addr S" "wf_type S t" "wf_type S u"
  shows "(raw addr t = raw addr u \<longleftrightarrow> vt_equals t u) \<and>
    (is_reference t \<longleftrightarrow> raw addr t AND TypeMask = Reference) \<and>
    (is_null t \<longleftrightarrow> raw addr t = Null) \<and>
    (is_bogus t \<longleftrightarrow> raw addr t = Bogus) \<and>
    (is_category1 t \<longleftrightarrow> raw addr t AND Category1 \<noteq> Primitive) \<and>
    (is_category2 t \<longleftrightarrow> raw addr t AND Category2 = Category2) \<and>
    (is_category2_2nd t \<longleftrightarrow> raw addr t AND Category2_2nd = Category2_2nd) \<and>
    (is_check t \<longleftrightarrow> raw addr t AND TypeQuery = TypeQuery) \<and>
    (is_uninitialized t \<longleftrightarrow> raw addr t AND Uninitialized = Uninitialized)"
proof -
  have sym: "addr s AND 3 = 0" "addr s \<noteq> 0" if "s \<in> S" for s
    using assms(1) that by (auto simp: symbols_placed_def)
  have eq: "raw addr t = raw addr u \<longleftrightarrow> vt_equals t u"
    using assms sym
    by (cases t; cases u) (auto simp: vt_equals_def symbols_placed_def is_null_def vt_consts dest: inj_onD)
  show ?thesis
  proof (cases t)
    case (Sym s)
    then have s: "addr s AND 3 = 0" "addr s \<noteq> 0" using sym assms(2) by auto
    then have "\<not> bit (addr s) 0" "\<not> bit (addr s) 1" using aligned_bits by blast+
    moreover have "addr s \<noteq> 0xFFFF0101" using s by auto
    ultimately show ?thesis using s eq bit_0_tests [of "addr s"] bit_1_test [of "addr s"]
      by (simp add: Sym vt_consts is_null_def is_bogus_def)
  next
    case (Data w)
    then show ?thesis using eq by (simp add: is_null_def is_bogus_def)
  qed
qed

theorem verification_type_encoding_witness:
  "(raw (\<lambda>s. if s = [65] then 8 else 16) (Sym [65]) = raw (\<lambda>s. if s = [65] then 8 else 16) (Sym [66])
     \<longleftrightarrow> vt_equals (Sym [65]) (Sym [66])) \<and> is_category1 (Sym [65])"
  using verification_type_encoding
    [of "\<lambda>s. if s = [65] then 8 else 16" "{[65], [66]}" "Sym [65]" "Sym [66]"]
  by (simp add: symbols_placed_def)

section \<open>Assignability\<close>

text \<open>What the verifier relies on of the class hierarchy: subclassing is transitive, and the
  only class above an interface, or above \<open>java.lang.Object\<close>, that is not an interface is
  \<open>java.lang.Object\<close>.\<close>

definition hierarchy_ok :: "class_env \<Rightarrow> bool" where
  "hierarchy_ok context \<longleftrightarrow>
     (\<forall>a b c. klass_is_subclass_of context a b \<and> klass_is_subclass_of context b c \<longrightarrow>
        klass_is_subclass_of context a c) \<and>
     (\<forall>s a b. resolve_or_fail context s = Inr a \<and> klass_is_subclass_of context b a \<and>
        \<not> klass_is_interface context a \<and>
        (klass_is_interface context b \<or> resolve_or_fail context java_lang_Object = Inr b) \<longrightarrow>
        s = java_lang_Object)"

lemma vt_equals_wf: "wf_type S t \<Longrightarrow> wf_type S u \<Longrightarrow> vt_equals t u \<longleftrightarrow> t = u"
  by (cases t; cases u) (auto simp: vt_equals_def is_null_def vt_consts)

lemma assignable_refl: "is_assignable_from context t t p = Inr True"
  by (simp add: is_assignable_from.simps vt_equals_def)

lemma assignable_bogus: "is_assignable_from context bogus_type t p = Inr True"
  by (simp add: is_assignable_from.simps bogus_type_def is_bogus_def)

lemma assignable_prim:
  "wf_type S (Data w) \<Longrightarrow> wf_type S f \<Longrightarrow> w \<noteq> Null \<Longrightarrow> \<not> is_check (Data w) \<Longrightarrow>
   is_assignable_from context (Data w) f p =
     Inr (f = Data w \<or> w = Bogus \<or> (w \<in> {Boolean, Byte, Char, Short} \<and> f = Data Integer))"
  by (auto simp: is_assignable_from.simps vt_equals_wf is_type_defs vt_consts)

lemma assignable_null_target:
  "wf_type S f \<Longrightarrow> is_assignable_from context (Data Null) f p = Inr (f = Data Null)"
  by (cases f) (auto simp: is_assignable_from.simps is_reference_assignable_from.simps vt_equals_wf
      is_type_defs vt_consts vt_equals_def)

lemma assignable_sym_data:
  "wf_type S (Data w) \<Longrightarrow> is_assignable_from context (Sym s) (Data w) p = Inr (w = Null)"
  by (auto simp: is_assignable_from.simps is_reference_assignable_from.simps is_type_defs vt_consts
      vt_equals_def)

lemma assignable_sym:
  "is_assignable_from context (Sym s) (Sym t) p =
    (if s = t then Inr True else is_reference_assignable_from context (Sym s) (Sym t) p)"
  by (auto simp: is_assignable_from.simps is_type_defs vt_equals_def)

lemma object_not_array: "is_object t \<Longrightarrow> \<not> is_array t"
  by (simp add: is_object_def is_array_def)

lemma component_wf: "get_component t = Inr c \<Longrightarrow> wf_type UNIV c \<and> \<not> is_check c"
  by (auto simp: get_component_def create_temporary_symbol_def reference_type_def bogus_type_def
      vt_consts split: option.splits if_splits sum.splits)

lemma ref_object:
  assumes "s \<noteq> t" "is_object (Sym s)" "s \<noteq> java_lang_Object"
  shows "is_reference_assignable_from context (Sym s) (Sym t) False = Inr True \<longleftrightarrow>
    (\<exists>k. resolve_or_fail context s = Inr k \<and>
       (klass_is_interface context k \<or>
        is_object (Sym t) \<and> (\<exists>f. resolve_or_fail context t = Inr f \<and> klass_is_subclass_of context f k)))"
  using assms
  by (auto simp: is_reference_assignable_from.simps is_null_def split: sum.splits)

lemma ref_array:
  assumes "s \<noteq> t" "\<not> is_object (Sym s)"
  shows "is_reference_assignable_from context (Sym s) (Sym t) p = Inr True \<longleftrightarrow>
    is_array (Sym s) \<and> is_array (Sym t) \<and>
    (\<exists>c d. get_component (Sym s) = Inr c \<and> get_component (Sym t) = Inr d \<and> \<not> is_bogus c \<and> \<not> is_bogus d \<and>
      is_assignable_from context c d p = Inr True)"
  using assms
  by (subst is_reference_assignable_from.simps) (auto simp: is_null_def split: sum.splits)

lemma java_lang_Object_object: "is_object (Sym java_lang_Object)"
  by (simp add: is_object_def is_null_def byte_at_is_def java_lang_Object_def symbol_of_def)

lemma ref_any_object: "is_reference_assignable_from context (Sym java_lang_Object) t p = Inr True"
  using java_lang_Object_object
  by (subst is_reference_assignable_from.simps) (simp add: is_null_def)

lemma ref_trans_object:
  assumes h: "hierarchy_ok context"
    and AB: "is_reference_assignable_from context (Sym a) (Sym b) False = Inr True"
    and BC: "is_reference_assignable_from context (Sym b) (Sym c) False = Inr True"
    and d: "a \<noteq> b" "b \<noteq> c" "a \<noteq> c" "a \<noteq> java_lang_Object" and obj: "is_object (Sym a)"
  shows "is_reference_assignable_from context (Sym a) (Sym c) False = Inr True"
proof -
  obtain ka where ka: "resolve_or_fail context a = Inr ka"
    and split: "klass_is_interface context ka \<or> is_object (Sym b) \<and>
      (\<exists>f. resolve_or_fail context b = Inr f \<and> klass_is_subclass_of context f ka)"
    using AB ref_object [OF d(1) obj d(4)] by auto
  show ?thesis
  proof (cases "klass_is_interface context ka")
    case True
    then show ?thesis using ka ref_object [OF d(3) obj d(4)] by blast
  next
    case False
    then obtain kb where kb: "is_object (Sym b)" "resolve_or_fail context b = Inr kb"
      "klass_is_subclass_of context kb ka" using split by blast
    have nb: "b \<noteq> java_lang_Object" "\<not> klass_is_interface context kb"
      using h ka kb False d(4) unfolding hierarchy_ok_def by blast+
    then obtain kc where "is_object (Sym c)" "resolve_or_fail context c = Inr kc"
      "klass_is_subclass_of context kc kb"
      using BC ref_object [OF d(2) kb(1) nb(1)] kb(2) by auto
    moreover from this have "klass_is_subclass_of context kc ka"
      using h kb(3) unfolding hierarchy_ok_def by blast
    ultimately show ?thesis using ka ref_object [OF d(3) obj d(4)] by blast
  qed
qed

lemma assignable_trans_sym:
  assumes h: "hierarchy_ok context"
  shows "is_assignable_from context A B False = Inr True \<Longrightarrow> is_assignable_from context B C False = Inr True \<Longrightarrow>
     wf_type UNIV A \<Longrightarrow> wf_type UNIV B \<Longrightarrow> wf_type UNIV C \<Longrightarrow> \<not> is_check A \<Longrightarrow>
     is_assignable_from context A C False = Inr True"
proof (induction "length (vt_name A)" arbitrary: A B C rule: less_induct)
  case less
  note AB = less.prems(1) and BC = less.prems(2) and wf = less.prems(3,4,5) and nc = less.prems(6)
  show ?case
  proof (cases A)
    case (Data w)
    show ?thesis
    proof (cases "w = Null")
      case True
      then show ?thesis using AB BC wf Data assignable_null_target by auto
    next
      case False
      have Bint: "B = Data Integer \<Longrightarrow> C = B"
        using BC wf assignable_prim [of UNIV Integer C "context" False] by (auto simp: vt_consts)
      show ?thesis using AB BC wf nc False Data Bint
        assignable_prim [of UNIV w B "context" False] assignable_prim [of UNIV w C "context" False] 
        by auto
    qed
  next
    case (Sym a)
    show ?thesis
    proof (cases B)
      case (Data v)
      then have "B = Data Null" using AB wf Sym assignable_sym_data by auto
      then show ?thesis using AB BC wf assignable_null_target by auto
    next
      case B: (Sym b)
      show ?thesis
      proof (cases C)
        case (Data v)
        then show ?thesis using BC wf Sym B assignable_sym_data by auto
      next
        case C: (Sym c)
        show ?thesis
        proof (cases "a = b \<or> b = c \<or> a = c \<or> a = java_lang_Object")
          case True
          then show ?thesis using AB BC Sym B C ref_any_object by (auto simp: assignable_sym)
        next
          case False
          then have AB': "is_reference_assignable_from context (Sym a) (Sym b) False = Inr True"
            and BC': "is_reference_assignable_from context (Sym b) (Sym c) False = Inr True"
            using AB BC Sym B C by (auto simp: assignable_sym)
          have "is_reference_assignable_from context (Sym a) (Sym c) False = Inr True"
          proof (cases "is_object (Sym a)")
            case True
            then show ?thesis using ref_trans_object [OF h AB' BC'] False by blast
          next
            case arr: False
            obtain x y where xy: "is_array (Sym a)" "is_array (Sym b)"
              "get_component (Sym a) = Inr x" "get_component (Sym b) = Inr y"
              "\<not> is_bogus x" "\<not> is_bogus y" "is_assignable_from context x y False = Inr True"
              using AB' ref_array [of a b "context"] arr False by auto
            have "\<not> is_object (Sym b)" using xy(2) object_not_array by blast
            then obtain z where z: "is_array (Sym c)" "get_component (Sym c) = Inr z"
              "\<not> is_bogus z" "is_assignable_from context y z False = Inr True"
              using BC' ref_array [of b c "context"] False xy(4) by auto
            have "is_assignable_from context x z False = Inr True"
              using less.hyps [of x y z] get_component_shorter [OF xy(3)] xy z Sym
                component_wf [OF xy(3)] component_wf [OF xy(4)] component_wf [OF z(2)] by simp
            then show ?thesis using ref_array [of a c "context"] arr False xy z by blast
          qed
          then show ?thesis using Sym C by (simp add: assignable_sym)
        qed
      qed
    qed
  qed
qed

text \<open>C20: Assignability between the types of values is transitive: a type that is accepted
  for an intermediate type is accepted wherever the intermediate type is.  (A query type as
  the target is excluded: it also accepts the top type, to which everything is assignable.)\<close>

theorem is_assignable_from_trans:
  assumes "hierarchy_ok context" "is_assignable_from context A B False = Inr True"
    "is_assignable_from context B C False = Inr True"
    "wf_type UNIV A" "wf_type UNIV B" "wf_type UNIV C" "\<not> is_check A"
  shows "is_assignable_from context A C False = Inr True"
  using assms by (rule assignable_trans_sym)

text \<open>A hierarchy with the classes \<open>A\<close> and \<open>B extends A\<close> and the interface \<open>I\<close>.\<close>

definition demo_env :: class_env where
  "demo_env = \<lparr>resolve_or_fail = (\<lambda>s. if s = java_lang_Object then Inr 0
       else if s = [65] then Inr 1 else if s = [66] then Inr 2 else if s = [73] then Inr 3
       else Inl (Pending_Exception (symbol_of ''java/lang/NoClassDefFoundError'') [])),
     klass_is_interface = (\<lambda>k. k = 3),
     klass_is_subclass_of = (\<lambda>a b. a = b \<or> b = 0 \<or> (a = 2 \<and> b = 1))\<rparr>"

lemma demo_env_ok: "hierarchy_ok demo_env"
  by (auto simp: hierarchy_ok_def demo_env_def split: if_splits)

lemmas assignable_eval = is_assignable_from.simps is_reference_assignable_from.simps
  is_object_def is_array_def byte_at_is_def get_component_def create_temporary_symbol_def
  reference_type_def is_type_defs vt_equals_def vt_consts

theorem is_assignable_from_trans_witness:
  "is_assignable_from demo_env (Sym [91, 76, 65, 59]) (Sym [91, 76, 66, 59]) False = Inr True \<and>
   is_assignable_from demo_env (Sym [91, 76, 73, 59]) (Sym [91, 76, 66, 59]) False = Inr True"
proof
  have AB: "is_assignable_from demo_env (Sym [91, 76, 65, 59]) (Sym [91, 76, 66, 59]) False = Inr True"
    by (simp add: assignable_eval demo_env_def java_lang_Object_def symbol_of_def)
  then show "is_assignable_from demo_env (Sym [91, 76, 65, 59]) (Sym [91, 76, 66, 59]) False = Inr True" .
  have "is_assignable_from demo_env (Sym [91, 76, 73, 59]) (Sym [91, 76, 65, 59]) False = Inr True"
    by (simp add: assignable_eval demo_env_def java_lang_Object_def symbol_of_def)
  from is_assignable_from_trans [OF demo_env_ok this AB]
  show "is_assignable_from demo_env (Sym [91, 76, 73, 59]) (Sym [91, 76, 66, 59]) False = Inr True"
    by simp
qed

text \<open>C37: A type that is neither a reference nor a query accepts exactly itself; the top type
  accepts everything, and the four types narrower than \<open>int\<close> also accept \<open>int\<close>.\<close>

theorem assignable_to_value_type:
  assumes "wf_type S t" "wf_type S f" "\<not> is_reference t" "\<not> is_check t"
  shows "is_assignable_from context t f p =
     Inr (f = t \<or> t = bogus_type \<or>
       (t \<in> {boolean_type, byte_type, char_type, short_type} \<and> f = integer_type))"
proof (cases t)
  case (Data w)
  then have "w \<noteq> Null" using assms(3) by (auto simp: vt_consts)
  then show ?thesis using assms Data assignable_prim [of S w f "context" p]
    by (auto simp: type_defs)
qed (use assms in simp)

theorem assignable_to_value_type_witness:
  "is_assignable_from demo_env float_type integer_type False = Inr False \<and>
   is_assignable_from demo_env byte_type integer_type False = Inr True"
  using assignable_to_value_type [of UNIV float_type integer_type demo_env False]
    assignable_to_value_type [of UNIV byte_type integer_type demo_env False]
  by (simp add: type_defs vt_consts)

text \<open>Arrays of basic types, by the bytes of their names.\<close>

definition basic_types :: "(u1 \<times> VerificationType) list" where
  "basic_types = [(90, Data Boolean), (66, Data Byte), (67, Data Char), (83, Data Short), (73, Data Integer), (74, Data Long),
     (70, Data Float), (68, Data Double)]"

definition array_of :: "nat \<Rightarrow> u1 \<Rightarrow> VerificationType" where
  "array_of n b = Sym (replicate n 91 @ [b])"

definition small_ints :: "u1 list" where "small_ints = [90, 66, 67, 83]"

lemma basic_component: "(b, t) \<in> set basic_types \<Longrightarrow> get_component (array_of 1 b) = Inr t \<and> \<not> is_bogus t \<and> b \<noteq> 91"
  by (auto simp: basic_types_def array_of_def get_component_def nth_opt_def is_bogus_def vt_consts)

lemma array_component: "0 < n \<Longrightarrow> get_component (array_of (Suc n) b) = Inr (array_of n b)"
  by (cases n) (simp_all add: array_of_def get_component_def nth_opt_def create_temporary_symbol_def reference_type_def)

lemma array_of_facts: "0 < n \<Longrightarrow> is_array (array_of n b) \<and> \<not> is_object (array_of n b) \<and> \<not> is_null (array_of n b) \<and> \<not> is_bogus (array_of n b)"
  by (cases n) (auto simp: array_of_def is_array_def is_object_def is_null_def is_bogus_def byte_at_is_def vt_consts)

lemma array_of_eq: "(b, t) \<in> set basic_types \<Longrightarrow> (c, u) \<in> set basic_types \<Longrightarrow> array_of n b = array_of m c \<longleftrightarrow> n = m \<and> b = c"
  using basic_component by (auto simp: array_of_def append_eq_append_conv2 replicate_eq_replicate)

lemma basic_wf: "(b, t) \<in> set basic_types \<Longrightarrow> \<exists>w. t = Data w \<and> wf_type UNIV t \<and> w \<noteq> Null \<and> w \<noteq> Bogus \<and> \<not> is_check (Data w)"
  unfolding basic_types_def by (auto simp: vt_consts)

lemma basic_inj:
  assumes "(b, t) \<in> set basic_types" "(c, u) \<in> set basic_types"
  shows "t = u \<longleftrightarrow> b = c" "t \<in> {Data Boolean, Data Byte, Data Char, Data Short} \<longleftrightarrow> b \<in> set small_ints" "t = Data Integer \<longleftrightarrow> b = 73"
  using assms unfolding basic_types_def small_ints_def by (auto simp: vt_consts)

lemma basic_assignable:
  assumes "(b, t) \<in> set basic_types" "(c, u) \<in> set basic_types"
  shows "is_assignable_from context t u p = Inr (b = c \<or> c = 73 \<and> b \<in> set small_ints)"
proof -
  obtain w x where w: "t = Data w" "wf_type UNIV t" "w \<noteq> Null" "w \<noteq> Bogus" "\<not> is_check (Data w)" and x: "u = Data x" "wf_type UNIV u"
    using basic_wf [OF assms(1)] basic_wf [OF assms(2)] by blast
  then show ?thesis
    using assignable_prim [of UNIV w u "context" p] basic_inj [OF assms] basic_inj(3) [OF assms(2) assms(1)] by auto
qed

lemma basic_array_not:
  assumes "(b, t) \<in> set basic_types"
  shows "is_assignable_from context t (array_of n c) p = Inr False" "is_assignable_from context (array_of n c) t p = Inr False"
proof -
  obtain w where w: "t = Data w" "wf_type UNIV t" "w \<noteq> Null" "w \<noteq> Bogus" "\<not> is_check (Data w)" using basic_wf [OF assms] by blast
  then show "is_assignable_from context t (array_of n c) p = Inr False"
    using assignable_prim [of UNIV w "array_of n c" "context" p] by (simp add: array_of_def wf_type.simps)
  show "is_assignable_from context (array_of n c) t p = Inr False"
    using w assignable_sym_data [of UNIV w "context" _ p] by (simp add: array_of_def)
qed

lemma array_step:
  assumes "0 < n" "0 < m" "array_of n b \<noteq> array_of m c" "get_component (array_of n b) = Inr t" "get_component (array_of m c) = Inr u"
    "\<not> is_bogus t" "\<not> is_bogus u"
  shows "is_assignable_from context (array_of n b) (array_of m c) p = is_assignable_from context t u p"
  using assms array_of_facts [OF assms(1), of b] array_of_facts [OF assms(2), of c] unfolding array_of_def
  by (auto simp: assignable_sym is_reference_assignable_from.simps)

lemma basic_arrays:
  assumes b: "(b, t) \<in> set basic_types" and c: "(c, u) \<in> set basic_types"
  shows "0 < n \<Longrightarrow> 0 < m \<Longrightarrow>
    is_assignable_from context (array_of n b) (array_of m c) p = Inr (n = m \<and> (b = c \<or> c = 73 \<and> b \<in> set small_ints))"
proof (induction n arbitrary: m)
  case (Suc n)
  obtain k where m: "m = Suc k" using Suc.prems by (cases m) auto
  have comp: "get_component (array_of (Suc i) a) = Inr (if i = 0 then x else array_of i a) \<and> \<not> is_bogus (if i = 0 then x else array_of i a)"
    if "(a, x) \<in> set basic_types" for i a x
    using basic_component [OF that] array_component [of i a] array_of_facts [of i a] by auto
  show ?case
  proof (cases "Suc n = m \<and> b = c")
    case True
    then show ?thesis by (simp add: assignable_refl)
  next
    case False
    then have "array_of (Suc n) b \<noteq> array_of m c" using array_of_eq [OF b c] by simp
    from array_step [OF _ _ this [unfolded m]] have "is_assignable_from context (array_of (Suc n) b) (array_of m c) p =
        is_assignable_from context (if n = 0 then t else array_of n b) (if k = 0 then u else array_of k c) p"
      using comp [OF b, of n] comp [OF c, of k] m by simp
    then show ?thesis using Suc.IH [of k] basic_assignable [OF b c] basic_array_not [OF b] basic_array_not [OF c] m by auto
  qed
qed simp

text \<open>C40: Components of arrays are compared with the same relation as values.  An array of a basic type is accepted where another one
  is expected exactly when both have the same number of dimensions and the same elements, or the given elements are
  \<open>int\<close> and the expected ones \<open>boolean\<close>, \<open>byte\<close>, \<open>char\<close> or \<open>short\<close>.\<close>

theorem basic_array_assignable:
  assumes "b \<in> fst ` set basic_types" "c \<in> fst ` set basic_types" "0 < n" "0 < m"
  shows "is_assignable_from context (array_of n b) (array_of m c) p =
    Inr (n = m \<and> (b = c \<or> c = 73 \<and> b \<in> {90, 66, 67, 83}))"
  using basic_arrays [OF _ _ assms(3,4)] assms(1,2) by (auto simp: small_ints_def)

theorem basic_array_assignable_witness:
  "is_assignable_from demo_env (array_of 2 66) (array_of 2 73) False = Inr True \<and>
   is_assignable_from demo_env (array_of 2 73) (array_of 2 66) False = Inr False"
  using basic_array_assignable [of 66 73 2 2 demo_env False] basic_array_assignable [of 73 66 2 2 demo_env False] by (simp add: basic_types_def)

end
