(* ===== verification/Stack_Map_Frame.thy ===== *)
theory Stack_Map_Frame
  imports Verification_Type Signature
begin

text \<open>
  The type state of the verifier: \<open>src/share/vm/classfile/stackMapFrame.hpp\<close> and \<open>.cpp\<close>,
  class \<open>StackMapFrame\<close>, with \<open>ClassVerifier::change_sig_to_verificationType\<close> of
  \<open>verifier.hpp\<close>.

  The fields are those of the class, the \<open>int32_t\<close> ones as \<open>int\<close> (they hold sizes of at most
  16 bits and one sentinel, \<open>-1\<close>); the back pointer to the verifier is the argument
  \<open>context\<close> of the operations that use it.  An operation returns the frame it leaves, or the
  fault it records: callers stop at the first fault.  An access outside an array is
  \<open>Undefined_Behaviour\<close>.  Of an error context, the kind of fault and the bytecode index are
  kept, not the frames and types that are only printed.
\<close>

unbundle bit_operations_syntax

definition u2_of :: "int \<Rightarrow> int" where "u2_of i = i mod 65536"

section \<open>Frames\<close>

record StackMapFrame =
  smf_offset :: int
  locals_size :: int
  stack_size :: int
  stack_mark :: int
  max_locals :: int
  max_stack :: int
  flags :: u1
  locals :: "VerificationType list"
  stack :: "VerificationType list"

definition FLAG_THIS_UNINIT :: u1 where "FLAG_THIS_UNINIT = 0x01"

definition flag_this_uninit :: "StackMapFrame \<Rightarrow> bool" where
  "flag_this_uninit f \<longleftrightarrow> flags f AND FLAG_THIS_UNINIT \<noteq> 0"

definition new_frame :: "u2 \<Rightarrow> u2 \<Rightarrow> StackMapFrame" where
  "new_frame mlocals mstack =
    \<lparr>smf_offset = 0, locals_size = 0, stack_size = 0, stack_mark = 0, max_locals = uint mlocals,
     max_stack = uint mstack, flags = 0, locals = replicate (unat mlocals) bogus_type,
     stack = replicate (unat mstack) bogus_type\<rparr>"

text \<open>The constructor for the frames of a stack map table.\<close>

definition table_frame ::
    "int \<Rightarrow> u1 \<Rightarrow> int \<Rightarrow> int \<Rightarrow> u2 \<Rightarrow> u2 \<Rightarrow> VerificationType list \<Rightarrow> VerificationType list \<Rightarrow> StackMapFrame" where
  "table_frame off flgs lsize ssize mlocals mstack lcls stck =
    \<lparr>smf_offset = off, locals_size = u2_of lsize, stack_size = u2_of ssize, stack_mark = - 1,
     max_locals = uint mlocals, max_stack = uint mstack, flags = flgs, locals = lcls, stack = stck\<rparr>"

text \<open>The copy constructor; \<open>copy_prefix\<close> is its loop over one array.\<close>

definition copy_prefix :: "int \<Rightarrow> int \<Rightarrow> VerificationType list \<Rightarrow> fault + VerificationType list" where
  "copy_prefix mx sz xs =
    (if 0 \<le> mx \<and> min sz mx \<le> int (length xs)
     then Inr (map (\<lambda>i. if int i < sz then xs ! i else bogus_type) [0..<nat mx])
     else Inl Undefined_Behaviour)"

definition copy_frame :: "StackMapFrame \<Rightarrow> fault + StackMapFrame" where
  "copy_frame cp =
     rbind (copy_prefix (max_locals cp) (locals_size cp) (locals cp)) (\<lambda>ls.
     rbind (copy_prefix (max_stack cp) (max (stack_size cp) (stack_mark cp)) (stack cp)) (\<lambda>st.
       Inr (cp\<lparr>locals := ls, stack := st\<rparr>)))"

definition set_offset :: "int \<Rightarrow> StackMapFrame \<Rightarrow> StackMapFrame" where
  "set_offset off f = f\<lparr>smf_offset := off\<rparr>"
definition set_flags :: "u1 \<Rightarrow> StackMapFrame \<Rightarrow> StackMapFrame" where
  "set_flags fl f = f\<lparr>flags := fl\<rparr>"
definition set_locals_size :: "int \<Rightarrow> StackMapFrame \<Rightarrow> StackMapFrame" where
  "set_locals_size n f = f\<lparr>locals_size := u2_of n\<rparr>"
definition set_stack_size :: "int \<Rightarrow> StackMapFrame \<Rightarrow> StackMapFrame" where
  "set_stack_size n f = f\<lparr>stack_size := u2_of n, stack_mark := u2_of n\<rparr>"
definition clear_stack :: "StackMapFrame \<Rightarrow> StackMapFrame" where
  "clear_stack f = f\<lparr>stack_size := 0\<rparr>"

text \<open>\<open>for (i = 0; i < n; i++) a[i] = bogus_type()\<close>\<close>

definition fill_bogus :: "int \<Rightarrow> VerificationType list \<Rightarrow> fault + VerificationType list" where
  "fill_bogus n xs =
    (if n \<le> int (length xs) then Inr (replicate (nat n) bogus_type @ drop (nat n) xs)
     else Inl Undefined_Behaviour)"

definition reset :: "StackMapFrame \<Rightarrow> fault + StackMapFrame" where
  "reset f =
     rbind (fill_bogus (max_locals f) (locals f)) (\<lambda>ls.
     rbind (fill_bogus (max_stack f) (stack f)) (\<lambda>st. Inr (f\<lparr>locals := ls, stack := st\<rparr>)))"

definition set_mark :: "StackMapFrame \<Rightarrow> StackMapFrame" where
  "set_mark f = f\<lparr>stack_mark := stack_size f\<rparr>"

definition restore :: "StackMapFrame \<Rightarrow> StackMapFrame" where
  "restore f = (if stack_mark f \<noteq> - 1 then f\<lparr>stack_size := stack_mark f\<rparr> else f)"

text \<open>The frame shares the locals array of the current frame and has a fresh one-element stack,
  whose default constructor stores the top type.\<close>

definition frame_in_exception_handler :: "u1 \<Rightarrow> StackMapFrame \<Rightarrow> StackMapFrame" where
  "frame_in_exception_handler fl f =
     table_frame (smf_offset f) fl (locals_size f) 0 (word_of_int (max_locals f))
       (word_of_int (max_stack f)) (locals f) [bogus_type]"

section \<open>The operand stack\<close>

definition push_stack :: "VerificationType \<Rightarrow> StackMapFrame \<Rightarrow> fault + StackMapFrame" where
  "push_stack ty f =
    (if stack_size f \<ge> max_stack f
     then Inl (Verify_Error STACK_OVERFLOW (u2_of (smf_offset f)) ''Operand stack overflow'')
     else rbind (arr_set (stack f) (stack_size f) ty) (\<lambda>st.
            Inr (f\<lparr>stack := st, stack_size := stack_size f + 1\<rparr>)))"

definition push_stack_2 ::
    "VerificationType \<Rightarrow> VerificationType \<Rightarrow> StackMapFrame \<Rightarrow> fault + StackMapFrame" where
  "push_stack_2 type1 type2 f =
    (if stack_size f \<ge> max_stack f - 1
     then Inl (Verify_Error STACK_OVERFLOW (u2_of (smf_offset f)) ''Operand stack overflow'')
     else rbind (arr_set (stack f) (stack_size f) type1) (\<lambda>st.
          rbind (arr_set st (stack_size f + 1) type2) (\<lambda>st.
            Inr (f\<lparr>stack := st, stack_size := stack_size f + 2\<rparr>))))"

definition pop_stack :: "StackMapFrame \<Rightarrow> fault + VerificationType \<times> StackMapFrame" where
  "pop_stack f =
    (if stack_size f \<le> 0
     then Inl (Verify_Error STACK_UNDERFLOW (u2_of (smf_offset f)) ''Operand stack underflow'')
     else rbind (arr_get (stack f) (stack_size f - 1)) (\<lambda>top.
            Inr (top, f\<lparr>stack_size := stack_size f - 1\<rparr>)))"

text \<open>The uncommon case also returns the frame it leaves behind a fault, since
  \<open>pop_stack_2\<close> continues with it.\<close>

definition pop_stack_ex ::
    "class_env \<Rightarrow> VerificationType \<Rightarrow> StackMapFrame \<Rightarrow> (fault + VerificationType) \<times> StackMapFrame" where
  "pop_stack_ex context ty f =
    (if stack_size f \<le> 0
     then (Inl (Verify_Error STACK_UNDERFLOW (u2_of (smf_offset f)) ''Operand stack underflow''), f)
     else (rbind (arr_get (stack f) (stack_size f - 1)) (\<lambda>top.
             rbind (is_assignable_from context ty top False) (\<lambda>subtype.
               if \<not> subtype
               then Inl (Verify_Error WRONG_TYPE (u2_of (smf_offset f)) ''Bad type on operand stack'')
               else Inr top)),
           f\<lparr>stack_size := stack_size f - 1\<rparr>))"

definition pop_stack_type ::
    "class_env \<Rightarrow> VerificationType \<Rightarrow> StackMapFrame \<Rightarrow> fault + VerificationType \<times> StackMapFrame" where
  "pop_stack_type context ty f =
    (let slow = (case pop_stack_ex context ty f of (r, f') \<Rightarrow> rbind r (\<lambda>top. Inr (top, f'))) in
     if stack_size f \<noteq> 0
     then rbind (arr_get (stack f) (stack_size f - 1)) (\<lambda>top.
          rbind (is_assignable_from context ty top False) (\<lambda>subtype.
            if subtype then Inr (top, f\<lparr>stack_size := stack_size f - 1\<rparr>) else slow))
     else slow)"

text \<open>Of two faults recorded one after the other, the one that the caller sees: a pending
  exception hides an error of the verifier, otherwise the later one counts.\<close>

fun later_fault :: "fault \<Rightarrow> fault \<Rightarrow> fault" where
  "later_fault (Pending_Exception c m) (Pending_Exception c' m') = Pending_Exception c' m'"
| "later_fault (Pending_Exception c m) e = Pending_Exception c m"
| "later_fault e e' = e'"

definition pop_stack_2 ::
    "class_env \<Rightarrow> VerificationType \<Rightarrow> VerificationType \<Rightarrow> StackMapFrame \<Rightarrow> fault + StackMapFrame" where
  "pop_stack_2 context type1 type2 f =
    (let slow = (case pop_stack_ex context type1 f of (r1, f1) \<Rightarrow>
                 case pop_stack_ex context type2 f1 of (r2, f2) \<Rightarrow>
                   (case (r1, r2) of
                      (Inl e1, Inl e2) \<Rightarrow> Inl (later_fault e1 e2)
                    | (Inl e1, Inr _) \<Rightarrow> Inl e1
                    | (Inr _, Inl e2) \<Rightarrow> Inl e2
                    | (Inr _, Inr _) \<Rightarrow> Inr f2)) in
     if stack_size f \<ge> 2
     then rbind (arr_get (stack f) (stack_size f - 1)) (\<lambda>top1.
          rbind (is_assignable_from context type1 top1 False) (\<lambda>subtype1.
          rbind (arr_get (stack f) (stack_size f - 2)) (\<lambda>top2.
          rbind (is_assignable_from context type2 top2 False) (\<lambda>subtype2.
            if subtype1 \<and> subtype2 then Inr (f\<lparr>stack_size := stack_size f - 2\<rparr>) else slow))))
     else slow)"

definition local_at :: "int \<Rightarrow> StackMapFrame \<Rightarrow> fault + VerificationType" where
  "local_at index f = arr_get (locals f) index"

definition stack_at :: "int \<Rightarrow> StackMapFrame \<Rightarrow> fault + VerificationType" where
  "stack_at index f = arr_get (stack f) index"

section \<open>Local variables\<close>

definition get_local ::
    "class_env \<Rightarrow> int \<Rightarrow> VerificationType \<Rightarrow> StackMapFrame \<Rightarrow> fault + VerificationType \<times> StackMapFrame" where
  "get_local context index ty f =
    (if index \<ge> max_locals f
     then Inl (Verify_Error BAD_LOCAL_INDEX (u2_of (smf_offset f)) ''Local variable table overflow'')
     else rbind (arr_get (locals f) index) (\<lambda>l.
          rbind (is_assignable_from context ty l False) (\<lambda>subtype.
            if \<not> subtype
            then Inl (Verify_Error WRONG_TYPE (u2_of (smf_offset f)) ''Bad local variable type'')
            else Inr (l, if index \<ge> locals_size f then f\<lparr>locals_size := index + 1\<rparr> else f))))"

definition get_local_2 ::
    "class_env \<Rightarrow> int \<Rightarrow> VerificationType \<Rightarrow> VerificationType \<Rightarrow> StackMapFrame \<Rightarrow> fault + unit" where
  "get_local_2 context index type1 type2 f =
    (if index \<ge> locals_size f - 1
     then Inl (Verify_Error BAD_LOCAL_INDEX (u2_of (smf_offset f)) ''get long/double overflows locals'')
     else rbind (arr_get (locals f) index) (\<lambda>l1.
          rbind (is_assignable_from context type1 l1 False) (\<lambda>subtype.
            if \<not> subtype
            then Inl (Verify_Error WRONG_TYPE (u2_of (smf_offset f)) ''Bad local variable type'')
            else rbind (arr_get (locals f) (index + 1)) (\<lambda>l2.
                 rbind (is_assignable_from context type2 l2 False) (\<lambda>subtype.
                   if \<not> subtype
                   then Inl (Verify_Error WRONG_TYPE (u2_of (smf_offset f)) ''Bad local variable type'')
                   else Inr ())))))"

text \<open>The two guards shared by the stores: a first half whose second half becomes unusable,
  and a second half whose first half does.\<close>

definition unuse_next :: "int \<Rightarrow> VerificationType list \<Rightarrow> fault + VerificationType list" where
  "unuse_next index ls = rbind (arr_get ls index) (\<lambda>l.
     if is_double l \<or> is_long l then arr_set ls (index + 1) bogus_type else Inr ls)"

definition unuse_previous :: "int \<Rightarrow> VerificationType list \<Rightarrow> fault + VerificationType list" where
  "unuse_previous index ls = rbind (arr_get ls index) (\<lambda>l.
     if is_double2 l \<or> is_long2 l then arr_set ls (index - 1) bogus_type else Inr ls)"

definition set_local :: "int \<Rightarrow> VerificationType \<Rightarrow> StackMapFrame \<Rightarrow> fault + StackMapFrame" where
  "set_local index ty f =
    (if index \<ge> max_locals f
     then Inl (Verify_Error BAD_LOCAL_INDEX (u2_of (smf_offset f)) ''Local variable table overflow'')
     else rbind (unuse_next index (locals f)) (\<lambda>ls.
          rbind (unuse_previous index ls) (\<lambda>ls.
          rbind (arr_set ls index ty) (\<lambda>ls.
            Inr (f\<lparr>locals := ls,
              locals_size := (if index \<ge> locals_size f then index + 1 else locals_size f)\<rparr>)))))"

definition set_local_2 ::
    "int \<Rightarrow> VerificationType \<Rightarrow> VerificationType \<Rightarrow> StackMapFrame \<Rightarrow> fault + StackMapFrame" where
  "set_local_2 index type1 type2 f =
    (if index \<ge> max_locals f - 1
     then Inl (Verify_Error BAD_LOCAL_INDEX (u2_of (smf_offset f)) ''Local variable table overflow'')
     else rbind (unuse_next (index + 1) (locals f)) (\<lambda>ls.
          rbind (unuse_previous index ls) (\<lambda>ls.
          rbind (arr_set ls index type1) (\<lambda>ls.
          rbind (arr_set ls (index + 1) type2) (\<lambda>ls.
            Inr (f\<lparr>locals := ls,
              locals_size := (if index \<ge> locals_size f - 1 then index + 2 else locals_size f)\<rparr>))))))"

text \<open>\<open>for (i = 0; i < n; i++) if (a[i].equals(old)) a[i] = new;\<close>\<close>

definition replace_types ::
    "int \<Rightarrow> VerificationType \<Rightarrow> VerificationType \<Rightarrow> VerificationType list \<Rightarrow> fault + VerificationType list" where
  "replace_types n old_object new_object xs =
    (if n \<le> int (length xs)
     then Inr (map (\<lambda>t. if vt_equals t old_object then new_object else t) (take (nat n) xs)
               @ drop (nat n) xs)
     else Inl Undefined_Behaviour)"

definition initialize_object ::
    "VerificationType \<Rightarrow> VerificationType \<Rightarrow> StackMapFrame \<Rightarrow> fault + StackMapFrame" where
  "initialize_object old_object new_object f =
     rbind (replace_types (max_locals f) old_object new_object (locals f)) (\<lambda>ls.
     rbind (replace_types (stack_size f) old_object new_object (stack f)) (\<lambda>st.
       Inr (f\<lparr>locals := ls, stack := st,
         flags := (if vt_equals old_object uninitialized_this_type then 0 else flags f)\<rparr>)))"

text \<open>\<open>for (i = 0; i < len; i++) dst[i] = src[i];\<close>\<close>

definition copy_types ::
    "int \<Rightarrow> VerificationType list \<Rightarrow> VerificationType list \<Rightarrow> fault + VerificationType list" where
  "copy_types len src dst =
    (if len \<le> int (length src) \<and> len \<le> int (length dst)
     then Inr (take (nat len) src @ drop (nat len) dst) else Inl Undefined_Behaviour)"

definition copy_locals :: "StackMapFrame \<Rightarrow> StackMapFrame \<Rightarrow> fault + StackMapFrame" where
  "copy_locals src f =
    (let len = (if locals_size src < locals_size f then locals_size src else locals_size f)
     in rbind (copy_types len (locals src) (locals f)) (\<lambda>ls. Inr (f\<lparr>locals := ls\<rparr>)))"

definition copy_stack :: "StackMapFrame \<Rightarrow> StackMapFrame \<Rightarrow> fault + StackMapFrame" where
  "copy_stack src f =
    (let len = (if stack_size src < stack_size f then stack_size src else stack_size f)
     in rbind (copy_types len (stack src) (stack f)) (\<lambda>st. Inr (f\<lparr>stack := st\<rparr>)))"

section \<open>The locals of a method's arguments\<close>

text \<open>\<open>ClassVerifier::change_sig_to_verificationType\<close>: the types it stores, one or two.\<close>

definition change_sig_to_verificationType ::
    "symbol \<Rightarrow> SignatureStream \<Rightarrow> fault + VerificationType list" where
  "change_sig_to_verificationType sig ss =
    (case ss_type ss of
       T_OBJECT \<Rightarrow> rbind (as_symbol sig ss) (\<lambda>name.
         rbind (create_temporary_symbol name 0 (length name)) (\<lambda>n. Inr [reference_type n]))
     | T_ARRAY \<Rightarrow> rbind (as_symbol sig ss) (\<lambda>name.
         rbind (create_temporary_symbol name 0 (length name)) (\<lambda>n. Inr [reference_type n]))
     | T_LONG \<Rightarrow> Inr [long_type, long2_type]
     | T_DOUBLE \<Rightarrow> Inr [double_type, double2_type]
     | T_INT \<Rightarrow> Inr [integer_type]
     | T_BOOLEAN \<Rightarrow> Inr [integer_type]
     | T_BYTE \<Rightarrow> Inr [integer_type]
     | T_CHAR \<Rightarrow> Inr [integer_type]
     | T_SHORT \<Rightarrow> Inr [integer_type]
     | T_FLOAT \<Rightarrow> Inr [float_type]
     | _ \<Rightarrow> Inl Should_Not_Reach_Here)"

fun arr_set_all :: "VerificationType list \<Rightarrow> int \<Rightarrow> VerificationType list \<Rightarrow> fault + VerificationType list" where
  "arr_set_all xs i [] = Inr xs"
| "arr_set_all xs i (v # vs) = rbind (arr_set xs i v) (\<lambda>xs. arr_set_all xs (i + 1) vs)"

text \<open>\<open>while(!ss.at_return_type()) { init_local_num += change_sig_to_verificationType(...);
  ss.next(); }\<close> -- the loop does not end when there is no return type, which is \<open>None\<close>.\<close>

partial_function (option) args_loop ::
    "symbol \<Rightarrow> SignatureStream \<Rightarrow> int \<Rightarrow> VerificationType list \<Rightarrow>
     (fault + SignatureStream \<times> int \<times> VerificationType list) option" where
  "args_loop sig ss init_local_num ls =
    (if ss_at_return_type ss then Some (Inr (ss, init_local_num, ls))
     else case rbind (change_sig_to_verificationType sig ss) (\<lambda>ts.
                 rbind (arr_set_all ls init_local_num ts) (\<lambda>ls'.
                 rbind (ss_next sig ss) (\<lambda>ss'. Inr (ss', init_local_num + int (length ts), ls')))) of
            Inl e \<Rightarrow> Some (Inl e)
          | Inr (ss', n', ls') \<Rightarrow> args_loop sig ss' n' ls')"

declare args_loop.simps [code]

definition object_initializer_name :: symbol where
  "object_initializer_name = symbol_of ''<init>''"

definition return_type_of :: "symbol \<Rightarrow> SignatureStream \<Rightarrow> fault + VerificationType" where
  "return_type_of sig ss =
    (case ss_type ss of
       T_OBJECT \<Rightarrow> rbind (as_symbol sig ss) (\<lambda>name.
         rbind (create_temporary_symbol name 0 (length name)) (\<lambda>n. Inr (reference_type n)))
     | T_ARRAY \<Rightarrow> rbind (as_symbol sig ss) (\<lambda>name.
         rbind (create_temporary_symbol name 0 (length name)) (\<lambda>n. Inr (reference_type n)))
     | T_INT \<Rightarrow> Inr integer_type
     | T_BYTE \<Rightarrow> Inr byte_type
     | T_CHAR \<Rightarrow> Inr char_type
     | T_SHORT \<Rightarrow> Inr short_type
     | T_BOOLEAN \<Rightarrow> Inr boolean_type
     | T_FLOAT \<Rightarrow> Inr float_type
     | T_DOUBLE \<Rightarrow> Inr double_type
     | T_LONG \<Rightarrow> Inr long_type
     | T_VOID \<Rightarrow> Inr bogus_type
     | _ \<Rightarrow> Inl Should_Not_Reach_Here)"

definition set_locals_from_arg ::
    "symbol \<Rightarrow> bool \<Rightarrow> symbol \<Rightarrow> VerificationType \<Rightarrow> StackMapFrame \<Rightarrow>
     (fault + VerificationType \<times> StackMapFrame) option" where
  "set_locals_from_arg name is_static sig thisKlass f =
    (let uninit = name = object_initializer_name \<and> vt_name thisKlass \<noteq> java_lang_Object;
         start =
           (if is_static then Inr (0, f)
            else rbind (arr_set (locals f) 0 (if uninit then uninitialized_this_type else thisKlass)) (\<lambda>ls.
                   Inr (1, f\<lparr>locals := ls,
                     flags := (if uninit then flags f OR FLAG_THIS_UNINIT else flags f)\<rparr>)))
     in case rbind (new_stream sig True) (\<lambda>ss. rbind start (\<lambda>(n, f). Inr (ss, n, f))) of
          Inl e \<Rightarrow> Some (Inl e)
        | Inr (ss, n, f) \<Rightarrow>
            (case args_loop sig ss n (locals f) of
               None \<Rightarrow> None
             | Some (Inl e) \<Rightarrow> Some (Inl e)
             | Some (Inr (ss, n, ls)) \<Rightarrow>
                 Some (rbind (return_type_of sig ss) (\<lambda>r. Inr (r, f\<lparr>locals := ls, locals_size := n\<rparr>)))))"

section \<open>Assignability of frames\<close>

text \<open>The index of the first mismatch, or \<open>len\<close>.  The loop passes \<open>THREAD\<close> and leaves on an
  exception, which its callers then see.\<close>

function types_assignable ::
    "class_env \<Rightarrow> VerificationType list \<Rightarrow> VerificationType list \<Rightarrow> int \<Rightarrow> int \<Rightarrow> fault + int" where
  "types_assignable context from to len i =
    (if i < len
     then rbind (arr_get to i) (\<lambda>t. rbind (arr_get from i) (\<lambda>f.
          rbind (is_assignable_from context t f False) (\<lambda>ok.
            if \<not> ok then Inr i else types_assignable context from to len (i + 1))))
     else Inr i)"
  by pat_completeness auto
termination
  by (relation "measure (\<lambda>(context, from, to, len, i). nat (len - i))") auto

declare types_assignable.simps [simp del]

text \<open>\<open>None\<close> is an assignable frame, \<open>Some\<close> the context of the mismatch.\<close>

definition frame_is_assignable_to ::
    "class_env \<Rightarrow> StackMapFrame \<Rightarrow> StackMapFrame \<Rightarrow> fault + (FaultType \<times> int) option" where
  "frame_is_assignable_to context f target =
    (if max_locals f \<noteq> max_locals target
     then Inr (Some (LOCALS_SIZE_MISMATCH, u2_of (smf_offset f)))
     else if stack_size f \<noteq> stack_size target
     then Inr (Some (STACK_SIZE_MISMATCH, u2_of (smf_offset f)))
     else rbind (types_assignable context (locals f) (locals target) (locals_size target) 0) (\<lambda>m.
       if m \<noteq> locals_size target then Inr (Some (WRONG_TYPE, u2_of (smf_offset target)))
       else rbind (types_assignable context (stack f) (stack target) (stack_size f) 0) (\<lambda>m.
         if m \<noteq> stack_size f then Inr (Some (WRONG_TYPE, u2_of (smf_offset target)))
         else if flags f OR flags target = flags target then Inr None
         else Inr (Some (FLAGS_MISMATCH, u2_of (smf_offset target))))))"

section \<open>Types with defined components\<close>

text \<open>\<open>get_component\<close> reads the second byte of an array name and cuts the name of a class at both
  ends.  A name is sound when this stays inside the name at every level; every name of the
  constant pool that passed the checks of the parser is.\<close>

function sound_name :: "symbol \<Rightarrow> bool" where
  "sound_name s \<longleftrightarrow> (case s of
      [] \<Rightarrow> True
    | b # s' \<Rightarrow> b = 91 \<longrightarrow>
        (case s' of [] \<Rightarrow> False
         | c # s'' \<Rightarrow> if c = 91 then sound_name s'
                      else if c = 76 then s'' \<noteq> [] \<and> sound_name (take (length s'' - 1) s'')
                      else True))"
  by pat_completeness auto
termination by (relation "measure length") auto

declare sound_name.simps [simp del]

text \<open>The types that frames hold: names, the types of values and of slots, uninitialized objects.\<close>

definition value_types :: "VerificationType list" where
  "value_types = [bogus_type, null_type, integer_type, float_type, long_type, long2_type, double_type,
     double2_type, boolean_type, byte_type, char_type, short_type]"

fun sound_type :: "VerificationType \<Rightarrow> bool" where
  "sound_type (Sym s) \<longleftrightarrow> sound_name s"
| "sound_type (Data w) \<longleftrightarrow> Data w \<in> set value_types \<or> (\<exists>b. Data w = uninitialized_type b)"

text \<open>The types that an operation may ask for.\<close>

definition asked_type :: "VerificationType \<Rightarrow> bool" where
  "asked_type t \<longleftrightarrow> sound_type t \<or> t \<in> {reference_check, category1_check, category2_check, category2_2nd_check}"

lemma sound_asked [simp]: "sound_type t \<Longrightarrow> asked_type t"
  by (simp add: asked_type_def)

lemma sound_data: "sound_type t \<longleftrightarrow> (\<exists>s. t = Sym s \<and> sound_name s) \<or> t \<in> set value_types \<or> (\<exists>b. t = uninitialized_type b)"
proof (cases t)
  case (Sym s)
  moreover have "Sym s \<notin> set value_types" by (simp add: value_types_def type_defs)
  moreover have "Sym s \<noteq> uninitialized_type b" for b by (rule uninitialized_type_word [of b]) simp
  ultimately show ?thesis by auto
qed auto

lemma sound_uninitialized [simp]: "sound_type (uninitialized_type b)"
  by (auto simp: sound_data)

lemma sound_wf: "sound_type t \<Longrightarrow> wf_type UNIV t"
  by (auto simp: sound_data value_types_def type_defs vt_consts)

lemma sound_not_check: "sound_type t \<Longrightarrow> \<not> is_check t"
  by (auto simp: sound_data value_types_def type_defs vt_consts)

lemma sound_constants [simp]:
  "sound_type bogus_type" "sound_type integer_type" "sound_type long_type" "sound_type long2_type"
  "sound_type double_type" "sound_type double2_type" "sound_type float_type" "sound_type null_type"
  by (simp_all add: sound_data value_types_def)

definition env_defined :: "class_env \<Rightarrow> bool" where
  "env_defined context \<longleftrightarrow> (\<forall>s. resolve_or_fail context s \<noteq> Inl Undefined_Behaviour)"

lemma get_component_sound:
  assumes "is_array t" "sound_type t"
  shows "\<exists>c. get_component t = Inr c \<and> sound_type c"
proof -
  obtain s0 where t0: "t = Sym s0" using assms by (cases t) (auto simp: is_array_def)
  obtain s where s0: "s0 = 91 # s" using assms(1) t0 by (cases s0) (auto simp: is_array_def byte_at_is_def nth_opt_def)
  obtain c r where s: "s = c # r" using assms(1) t0 s0 by (cases s) (auto simp: is_array_def)
  have t: "t = Sym (91 # c # r)" using t0 s0 s by simp
  have snd: "c = 91 \<longrightarrow> sound_name (91 # r)" "c = 76 \<longrightarrow> r \<noteq> [] \<and> sound_name (take (length r - 1) r)"
    using assms(2) sound_name.simps [of "91 # c # r"] t by (auto split: if_splits)
  show ?thesis
  proof (cases "c = 76")
    case True
    then have "create_temporary_symbol (91 # c # r) 2 (length (91 # c # r) - 1) = Inr (take (length r - 1) r)"
      using snd(2) by (cases r) (simp_all add: create_temporary_symbol_def)
    then show ?thesis using True snd t by (simp add: get_component_def nth_opt_def reference_type_def)
  next
    case False
    show ?thesis
    proof (cases "c = 91")
      case True
      have "create_temporary_symbol (91 # c # r) 1 (length (91 # c # r)) = Inr (c # r)"
        by (simp add: create_temporary_symbol_def)
      then show ?thesis using True snd t by (simp add: get_component_def nth_opt_def reference_type_def)
    next
      case False
      then show ?thesis using t \<open>c \<noteq> 76\<close>
        by (auto simp: get_component_def nth_opt_def value_types_def type_defs)
    qed
  qed
qed

lemma assignable_defined:
  assumes e: "env_defined context"
  shows "sound_type t \<Longrightarrow> sound_type u \<Longrightarrow> is_assignable_from context t u p \<noteq> Inl Undefined_Behaviour"
proof (induction "length (vt_name t)" arbitrary: t u rule: less_induct)
  case less
  have ref: "is_reference_assignable_from context t u p \<noteq> Inl Undefined_Behaviour"
  proof (cases "is_array t \<and> is_array u")
    case True
    obtain c d where c: "get_component t = Inr c" "sound_type c" and d: "get_component u = Inr d" "sound_type d"
      using get_component_sound less.prems True by meson
    have "is_assignable_from context c d p \<noteq> Inl Undefined_Behaviour"
      using less.hyps [OF _ c(2) d(2)] get_component_shorter [OF c(1)] by blast
    moreover have "\<not> is_object t" using True by (auto simp: is_object_def is_array_def)
    ultimately show ?thesis using True c d by (subst is_reference_assignable_from.simps) simp
  next
    case False
    then show ?thesis using e
      by (subst is_reference_assignable_from.simps) (auto simp: env_defined_def split: sum.splits)
  qed
  then show ?case by (subst is_assignable_from.simps) auto
qed

lemma assignable_asked:
  assumes "env_defined context" "asked_type t" "sound_type u"
  shows "is_assignable_from context t u p \<noteq> Inl Undefined_Behaviour"
proof (cases "sound_type t")
  case False
  then have "t \<in> {reference_check, category1_check, category2_check, category2_2nd_check}"
    using assms(2) by (simp add: asked_type_def)
  then show ?thesis by (auto simp: is_assignable_from.simps type_defs vt_consts)
qed (use assignable_defined assms in blast)

section \<open>Two-slot values\<close>

text \<open>The types of the two slots of a \<open>long\<close> or \<open>double\<close> only occur as adjacent pairs.\<close>

definition half2 :: "VerificationType \<Rightarrow> VerificationType option" where
  "half2 t = (if t = long_type then Some long2_type else if t = double_type then Some double2_type else None)"

definition is_half2 :: "VerificationType \<Rightarrow> bool" where
  "is_half2 t \<longleftrightarrow> t = long2_type \<or> t = double2_type"

definition single :: "VerificationType \<Rightarrow> bool" where
  "single t \<longleftrightarrow> half2 t = None \<and> \<not> is_half2 t"

lemma half2_facts:
  "half2 t = Some u \<Longrightarrow> is_half2 u \<and> half2 u = None \<and> \<not> is_half2 t"
  "is_half2 t \<Longrightarrow> half2 t = None"
  by (auto simp: half2_def is_half2_def type_defs vt_consts split: if_splits)

lemma single_bogus [simp]: "single bogus_type"
  by (simp add: single_def half2_def is_half2_def type_defs vt_consts)

lemma first_half_iff: "is_double t \<or> is_long t \<longleftrightarrow> half2 t \<noteq> None"
  by (auto simp: half2_def is_type_defs type_defs)
lemma second_half_iff: "is_double2 t \<or> is_long2 t \<longleftrightarrow> is_half2 t"
  by (auto simp: is_half2_def is_type_defs type_defs)

definition pairs_ok :: "VerificationType list \<Rightarrow> bool" where
  "pairs_ok xs \<longleftrightarrow>
     (\<forall>i < length xs. \<forall>u. half2 (xs ! i) = Some u \<longrightarrow> Suc i < length xs \<and> xs ! Suc i = u) \<and>
     (\<forall>i < length xs. is_half2 (xs ! i) \<longrightarrow> 0 < i \<and> half2 (xs ! (i - 1)) = Some (xs ! i))"

lemma pairs_first: "pairs_ok xs \<Longrightarrow> i < length xs \<Longrightarrow> half2 (xs ! i) = Some u \<Longrightarrow> Suc i < length xs \<and> xs ! Suc i = u"
  by (simp add: pairs_ok_def)
lemma pairs_second: "pairs_ok xs \<Longrightarrow> i < length xs \<Longrightarrow> is_half2 (xs ! i) \<Longrightarrow> 0 < i \<and> half2 (xs ! (i - 1)) = Some (xs ! i)"
  by (simp add: pairs_ok_def)

text \<open>Storing a group of slots that is itself well paired, with the other half of each pair
  that it cuts made unusable.\<close>

lemma pairs_ok_store:
  assumes ok: "pairs_ok xs" and len: "length ys = length xs"
    and grp: "\<And>k. k < length ts \<Longrightarrow> ys ! (i + k) = ts ! k" and ts: "pairs_ok ts" "ts \<noteq> []" "i + length ts \<le> length xs"
    and other: "\<And>j. j < length xs \<Longrightarrow> j < i \<or> i + length ts \<le> j \<Longrightarrow>
      ys ! j = (if j = i + length ts \<and> half2 (xs ! (i + length ts - 1)) \<noteq> None then bogus_type
                else if Suc j = i \<and> is_half2 (xs ! i) then bogus_type else xs ! j)"
  shows "pairs_ok ys"
proof -
  let ?n = "length ts"
  have inner: "half2 (ys ! (i + k)) = Some u \<Longrightarrow> Suc k < ?n \<and> ys ! Suc (i + k) = u"
    "is_half2 (ys ! (i + k)) \<Longrightarrow> 0 < k \<and> half2 (ys ! (i + k - 1)) = Some (ys ! (i + k))" if "k < ?n" for k u
    using that grp [of k] grp [of "Suc k"] grp [of "k - 1"] pairs_first [OF ts(1) that, of u] pairs_second [OF ts(1) that]
    by auto
  have out: "half2 (ys ! j) = Some u \<Longrightarrow> Suc j < length xs \<and> ys ! Suc j = u"
    "is_half2 (ys ! j) \<Longrightarrow> 0 < j \<and> half2 (ys ! (j - 1)) = Some (ys ! j)"
    if j: "j < length xs" "j < i \<or> i + ?n \<le> j" for j u
  proof -
    have n: "0 < ?n" using ts(2) by simp
    { assume h: "half2 (ys ! j) = Some u"
      then have "ys ! j \<noteq> bogus_type" using single_bogus by (auto simp: single_def)
      then have same: "ys ! j = xs ! j" "\<not> (Suc j = i \<and> is_half2 (xs ! i))"
        using other [OF j] by presburger+
      then have x: "Suc j < length xs" "xs ! Suc j = u" "is_half2 u"
        using pairs_first [OF ok j(1), of u] half2_facts(1) [of "xs ! j" u] h by simp_all
      then have "Suc j \<noteq> i" using same(2) by auto
      then have o: "Suc j < i \<or> i + ?n \<le> Suc j" using j(2) by linarith
      have "\<not> (Suc j = i + ?n)" using j(2) n by linarith
      moreover have "\<not> (Suc (Suc j) = i \<and> is_half2 (xs ! i))"
      proof
        assume a: "Suc (Suc j) = i \<and> is_half2 (xs ! i)"
        then have "half2 (xs ! (i - 1)) = Some (xs ! i)" using pairs_second [OF ok, of i] ts(3) n by simp
        moreover have "i - 1 = Suc j" using a by linarith
        ultimately show False using x(2) half2_facts(2) [OF x(3)] by simp
      qed
      ultimately have "ys ! Suc j = u" using other [OF x(1) o] x(2) by presburger
      then show "Suc j < length xs \<and> ys ! Suc j = u" using x by simp }
    { assume h: "is_half2 (ys ! j)"
      then have "ys ! j \<noteq> bogus_type" using single_bogus by (auto simp: single_def)
      then have same: "ys ! j = xs ! j" "\<not> (j = i + ?n \<and> half2 (xs ! (i + ?n - 1)) \<noteq> None)"
        using other [OF j] by presburger+
      then have x: "0 < j" "half2 (xs ! (j - 1)) = Some (xs ! j)"
        using pairs_second [OF ok j(1)] h by simp_all
      then have o: "j - 1 < i \<or> i + ?n \<le> j - 1" using same(2) j(2) by (cases "j = i + ?n") (simp, linarith)
      have "\<not> (j - 1 = i + ?n \<and> half2 (xs ! (i + ?n - 1)) \<noteq> None)"
      proof
        assume a: "j - 1 = i + ?n \<and> half2 (xs ! (i + ?n - 1)) \<noteq> None"
        then obtain v where "half2 (xs ! (i + ?n - 1)) = Some v" by auto
        moreover have "i + ?n - 1 < length xs" using ts(3) n by linarith
        ultimately have "xs ! (i + ?n) = v" "half2 v = None"
          using pairs_first [OF ok, of "i + ?n - 1" v] half2_facts(1) [of "xs ! (i + ?n - 1)" v] ts(3) n
          by simp_all
        then show False using a x(2) by simp
      qed
      moreover have "\<not> (Suc (j - 1) = i)" using j(2) x(1) n by linarith
      moreover have "j - 1 < length xs" using j(1) by linarith
      ultimately have "ys ! (j - 1) = xs ! (j - 1)" using other [OF _ o] by presburger
      then show "0 < j \<and> half2 (ys ! (j - 1)) = Some (ys ! j)" using x same by simp }
  qed
  show ?thesis
    unfolding pairs_ok_def len
  proof (intro conjI allI impI)
    fix j u assume j: "j < length xs" "half2 (ys ! j) = Some u"
    show "Suc j < length xs" "ys ! Suc j = u"
      using inner(1) [of "j - i" u] out(1) [of j u] j ts(3) by (cases "j < i \<or> i + ?n \<le> j"; force)+
  next
    fix j assume j: "j < length xs" "is_half2 (ys ! j)"
    show "0 < j" "half2 (ys ! (j - 1)) = Some (ys ! j)"
      using inner(2) [of "j - i"] out(2) [of j] j ts(3) by (cases "j < i \<or> i + ?n \<le> j"; force)+
  qed
qed

section \<open>The invariant, and the stores\<close>

definition frame_ok :: "StackMapFrame \<Rightarrow> bool" where
  "frame_ok f \<longleftrightarrow>
     int (length (locals f)) = max_locals f \<and> int (length (stack f)) = max_stack f \<and>
     max_locals f < 65536 \<and> max_stack f < 65536 \<and>
     0 \<le> locals_size f \<and> locals_size f \<le> max_locals f \<and>
     0 \<le> stack_size f \<and> stack_size f \<le> max_stack f \<and>
     - 1 \<le> stack_mark f \<and> stack_mark f \<le> max_stack f \<and>
     (\<forall>i < length (locals f). locals_size f \<le> int i \<longrightarrow> locals f ! i = bogus_type) \<and>
     pairs_ok (locals f) \<and> list_all sound_type (locals f) \<and> list_all sound_type (stack f)"

lemma unuse_next_spec:
  assumes "pairs_ok ls" "0 \<le> index" "index < int (length ls)"
  shows "\<exists>ls'. unuse_next index ls = Inr ls' \<and> length ls' = length ls \<and>
    (\<forall>j < length ls. ls' ! j = (if j = Suc (nat index) \<and> half2 (ls ! nat index) \<noteq> None then bogus_type else ls ! j))"
proof (cases "half2 (ls ! nat index)")
  case None
  then show ?thesis using assms first_half_iff [of "ls ! nat index"]
    by (auto simp: unuse_next_def arr_get_def)
next
  case (Some u)
  then have "Suc (nat index) < length ls" using pairs_first [OF assms(1), of "nat index" u] assms by auto
  moreover have "nat (index + 1) = Suc (nat index)" using assms(2) by simp
  ultimately show ?thesis using assms Some first_half_iff [of "ls ! nat index"]
    by (auto simp: unuse_next_def arr_get_def arr_set_def nth_list_update)
qed

lemma unuse_previous_spec:
  assumes "is_half2 (ls ! nat index) \<Longrightarrow> 0 < index" "0 \<le> index" "index < int (length ls)"
  shows "\<exists>ls'. unuse_previous index ls = Inr ls' \<and> length ls' = length ls \<and>
    (\<forall>j < length ls. ls' ! j = (if Suc j = nat index \<and> is_half2 (ls ! nat index) then bogus_type else ls ! j))"
proof (cases "is_half2 (ls ! nat index)")
  case False
  then show ?thesis using assms second_half_iff [of "ls ! nat index"]
    by (auto simp: unuse_previous_def arr_get_def)
next
  case True
  then have "0 < index" using assms(1) by simp
  then have "nat (index - 1) = nat index - 1" "0 < nat index" by auto
  then show ?thesis using assms True second_half_iff [of "ls ! nat index"]
    by (auto simp: unuse_previous_def arr_get_def arr_set_def nth_list_update)
qed

lemma single_pairs: "single t \<Longrightarrow> pairs_ok [t]"
  by (simp add: pairs_ok_def single_def)

lemma double_pairs: "half2 t1 = Some t2 \<Longrightarrow> pairs_ok [t1, t2]"
  using half2_facts(1) [of t1 t2] by (auto simp: pairs_ok_def less_Suc_eq numeral_2_eq_2)

lemma set_local_spec:
  assumes ok: "frame_ok f" and i: "0 \<le> index" "index < max_locals f" and t: "single ty"
  shows "\<exists>ls. set_local index ty f = Inr (f\<lparr>locals := ls,
      locals_size := (if index \<ge> locals_size f then index + 1 else locals_size f)\<rparr>) \<and>
    length ls = length (locals f) \<and> ls ! nat index = ty \<and>
    (\<forall>j < length ls. j \<noteq> nat index \<longrightarrow> ls ! j = bogus_type \<or> ls ! j = locals f ! j) \<and> pairs_ok ls"
proof -
  have len: "index < int (length (locals f))" and p: "pairs_ok (locals f)" using ok i by (auto simp: frame_ok_def)
  obtain l1 where l1: "unuse_next index (locals f) = Inr l1" "length l1 = length (locals f)"
    "\<forall>j < length (locals f). l1 ! j = (if j = Suc (nat index) \<and> half2 (locals f ! nat index) \<noteq> None then bogus_type else locals f ! j)"
    using unuse_next_spec [OF p i(1) len] by blast
  have at: "l1 ! nat index = locals f ! nat index" using l1(3) len i(1) by auto
  have pos: "0 < index" if "is_half2 (l1 ! nat index)"
    using pairs_second [OF p, of "nat index"] that at i(1) len by auto
  obtain l2 where l2: "unuse_previous index l1 = Inr l2" "length l2 = length l1"
    "\<forall>j < length l1. l2 ! j = (if Suc j = nat index \<and> is_half2 (l1 ! nat index) then bogus_type else l1 ! j)"
    using unuse_previous_spec [OF pos i(1)] len l1(2) by metis
  let ?ls = "l2[nat index := ty]"
  have "pairs_ok ?ls"
  proof (rule pairs_ok_store [OF p, where ts = "[ty]" and i = "nat index"])
    show "?ls ! j = (if j = nat index + length [ty] \<and> half2 (locals f ! (nat index + length [ty] - 1)) \<noteq> None then bogus_type
        else if Suc j = nat index \<and> is_half2 (locals f ! nat index) then bogus_type else locals f ! j)"
      if "j < length (locals f)" "j < nat index \<or> nat index + length [ty] \<le> j" for j
      using that l1 l2 at by (auto simp: nth_list_update)
  qed (use single_pairs [OF t] l1 l2 len i in auto)
  moreover have "set_local index ty f = Inr (f\<lparr>locals := ?ls,
      locals_size := (if index \<ge> locals_size f then index + 1 else locals_size f)\<rparr>)"
    using l1 l2 i len by (simp add: set_local_def arr_set_def)
  moreover have "\<forall>j < length ?ls. j \<noteq> nat index \<longrightarrow> ?ls ! j = bogus_type \<or> ?ls ! j = locals f ! j"
    using l1 l2 by (auto simp: nth_list_update)
  moreover have "length ?ls = length (locals f)" "?ls ! nat index = ty" using l1 l2 len i by auto
  ultimately show ?thesis by blast
qed

lemma sound_store:
  assumes "list_all sound_type xs" "length ls = length xs"
    and "\<forall>j < length ls. ls ! j = bogus_type \<or> ls ! j = xs ! j \<or> sound_type (ls ! j)"
  shows "list_all sound_type ls"
  unfolding list_all_length
proof (intro allI impI)
  fix j assume j: "j < length ls"
  then have "sound_type (xs ! j)" using assms(1,2) by (simp add: list_all_length)
  then show "sound_type (ls ! j)" using assms(3) j by (metis sound_constants(1))
qed

lemma frame_ok_store:
  assumes ok: "frame_ok f" and ls: "length ls = length (locals f)" "pairs_ok ls" "list_all sound_type ls"
    and n: "locals_size f \<le> n" "n \<le> max_locals f"
    and beyond: "\<forall>j < length ls. n \<le> int j \<longrightarrow> ls ! j = bogus_type \<or> ls ! j = locals f ! j"
  shows "frame_ok (f\<lparr>locals := ls, locals_size := n\<rparr>)"
proof -
  have "\<forall>i < length ls. n \<le> int i \<longrightarrow> ls ! i = bogus_type"
  proof (intro allI impI)
    fix i assume i: "i < length ls" "n \<le> int i"
    then have "locals f ! i = bogus_type" using ok ls(1) n(1) by (simp add: frame_ok_def)
    then show "ls ! i = bogus_type" using beyond i by metis
  qed
  then show ?thesis using ok ls n by (simp add: frame_ok_def)
qed

lemma set_local_ok:
  assumes ok: "frame_ok f" and i: "0 \<le> index" and t: "single ty" "sound_type ty"
    and r: "set_local index ty f = Inr f'"
  shows "frame_ok f'"
proof -
  have ix: "index < max_locals f" using r by (auto simp: set_local_def split: if_splits)
  obtain ls where ls: "set_local index ty f = Inr (f\<lparr>locals := ls,
      locals_size := (if index \<ge> locals_size f then index + 1 else locals_size f)\<rparr>)"
    "length ls = length (locals f)" "pairs_ok ls" "ls ! nat index = ty"
    "\<forall>j < length ls. j \<noteq> nat index \<longrightarrow> ls ! j = bogus_type \<or> ls ! j = locals f ! j"
    using set_local_spec [OF ok i ix t(1)] by (elim exE conjE) (rule that; assumption)
  have size: "locals_size f \<le> max_locals f" using ok by (simp add: frame_ok_def)
  have "list_all sound_type ls"
  proof (rule sound_store [of "locals f"])
    show "\<forall>j < length ls. ls ! j = bogus_type \<or> ls ! j = locals f ! j \<or> sound_type (ls ! j)"
      using ls(4,5) t(2) by metis
  qed (use ok ls(2) in \<open>simp_all add: frame_ok_def\<close>)
  have "frame_ok (f\<lparr>locals := ls, locals_size := (if index \<ge> locals_size f then index + 1 else locals_size f)\<rparr>)"
  proof (rule frame_ok_store [OF ok ls(2,3) \<open>list_all sound_type ls\<close>])
    show "\<forall>j < length ls. (if index \<ge> locals_size f then index + 1 else locals_size f) \<le> int j \<longrightarrow>
        ls ! j = bogus_type \<or> ls ! j = locals f ! j"
    proof (intro allI impI)
      fix j assume "j < length ls" "(if index \<ge> locals_size f then index + 1 else locals_size f) \<le> int j"
      moreover from this i have "j \<noteq> nat index" by (auto split: if_splits)
      ultimately show "ls ! j = bogus_type \<or> ls ! j = locals f ! j" using ls(5) by blast
    qed
  qed (use size ix i in auto)
  then show ?thesis using r ls(1) by simp
qed

lemma set_local_2_spec:
  assumes ok: "frame_ok f" and i: "0 \<le> index" "index < max_locals f - 1" and t: "half2 t1 = Some t2"
  shows "\<exists>ls. set_local_2 index t1 t2 f = Inr (f\<lparr>locals := ls,
      locals_size := (if index \<ge> locals_size f - 1 then index + 2 else locals_size f)\<rparr>) \<and>
    length ls = length (locals f) \<and> ls ! nat index = t1 \<and> ls ! Suc (nat index) = t2 \<and>
    (\<forall>j < length ls. j \<noteq> nat index \<and> j \<noteq> Suc (nat index) \<longrightarrow> ls ! j = bogus_type \<or> ls ! j = locals f ! j) \<and>
    pairs_ok ls"
proof -
  have len: "index + 1 < int (length (locals f))" and p: "pairs_ok (locals f)" using ok i by (auto simp: frame_ok_def)
  have sn: "nat (index + 1) = Suc (nat index)" "0 \<le> index + 1" using i(1) by auto
  obtain l1 where l1: "unuse_next (index + 1) (locals f) = Inr l1" "length l1 = length (locals f)"
    "\<forall>j < length (locals f). l1 ! j = (if j = Suc (Suc (nat index)) \<and> half2 (locals f ! Suc (nat index)) \<noteq> None
       then bogus_type else locals f ! j)"
    using unuse_next_spec [OF p sn(2) len] sn(1) by auto
  have at: "l1 ! nat index = locals f ! nat index" using l1(3) len i(1) by auto
  have pos: "0 < index" if "is_half2 (l1 ! nat index)"
    using pairs_second [OF p, of "nat index"] that at i(1) len by auto
  have len': "index < int (length l1)" using len l1(2) by simp
  obtain l2 where l2: "unuse_previous index l1 = Inr l2" "length l2 = length l1"
    "\<forall>j < length l1. l2 ! j = (if Suc j = nat index \<and> is_half2 (l1 ! nat index) then bogus_type else l1 ! j)"
    using unuse_previous_spec [OF pos i(1) len'] by blast
  let ?ls = "l2[nat index := t1, Suc (nat index) := t2]"
  have "pairs_ok ?ls"
  proof (rule pairs_ok_store [OF p, where ts = "[t1, t2]" and i = "nat index"])
    show "?ls ! j = (if j = nat index + length [t1, t2] \<and> half2 (locals f ! (nat index + length [t1, t2] - 1)) \<noteq> None then bogus_type
        else if Suc j = nat index \<and> is_half2 (locals f ! nat index) then bogus_type else locals f ! j)"
      if "j < length (locals f)" "j < nat index \<or> nat index + length [t1, t2] \<le> j" for j
      using that l1 l2 at by (auto simp: nth_list_update)
    show "?ls ! (nat index + k) = [t1, t2] ! k" if "k < length [t1, t2]" for k
      using that l1 l2 len i by (auto simp: less_Suc_eq nth_list_update)
  qed (use double_pairs [OF t] l1 l2 len i in auto)
  moreover have "set_local_2 index t1 t2 f = Inr (f\<lparr>locals := ?ls,
      locals_size := (if index \<ge> locals_size f - 1 then index + 2 else locals_size f)\<rparr>)"
    using l1 l2 i len sn by (simp add: set_local_2_def arr_set_def)
  moreover have "\<forall>j < length ?ls. j \<noteq> nat index \<and> j \<noteq> Suc (nat index) \<longrightarrow> ?ls ! j = bogus_type \<or> ?ls ! j = locals f ! j"
    using l1 l2 by (auto simp: nth_list_update)
  moreover have "length ?ls = length (locals f)" "?ls ! nat index = t1" "?ls ! Suc (nat index) = t2"
    using l1 l2 len i by auto
  ultimately show ?thesis by blast
qed

lemma set_local_2_ok:
  assumes ok: "frame_ok f" and i: "0 \<le> index" and t: "half2 t1 = Some t2" and r: "set_local_2 index t1 t2 f = Inr f'"
  shows "frame_ok f'"
proof -
  have ix: "index < max_locals f - 1" using r by (auto simp: set_local_2_def split: if_splits)
  obtain ls where ls: "set_local_2 index t1 t2 f = Inr (f\<lparr>locals := ls,
      locals_size := (if index \<ge> locals_size f - 1 then index + 2 else locals_size f)\<rparr>)"
    "length ls = length (locals f)" "pairs_ok ls" "ls ! nat index = t1" "ls ! Suc (nat index) = t2"
    "\<forall>j < length ls. j \<noteq> nat index \<and> j \<noteq> Suc (nat index) \<longrightarrow> ls ! j = bogus_type \<or> ls ! j = locals f ! j"
    using set_local_2_spec [OF ok i ix t] by (elim exE conjE) (rule that; assumption)
  have st: "sound_type t1" "sound_type t2" using t by (auto simp: half2_def split: if_splits)
  have size: "locals_size f \<le> max_locals f" using ok by (simp add: frame_ok_def)
  have "list_all sound_type ls"
  proof (rule sound_store [of "locals f"])
    show "\<forall>j < length ls. ls ! j = bogus_type \<or> ls ! j = locals f ! j \<or> sound_type (ls ! j)"
    proof (intro allI impI)
      fix j assume "j < length ls"
      then show "ls ! j = bogus_type \<or> ls ! j = locals f ! j \<or> sound_type (ls ! j)"
        using ls(4,5,6) st by (cases "j = nat index"; cases "j = Suc (nat index)") auto
    qed
  qed (use ok ls(2) in \<open>simp_all add: frame_ok_def\<close>)
  have "frame_ok (f\<lparr>locals := ls, locals_size := (if index \<ge> locals_size f - 1 then index + 2 else locals_size f)\<rparr>)"
  proof (rule frame_ok_store [OF ok ls(2,3) \<open>list_all sound_type ls\<close>])
    show "\<forall>j < length ls. (if index \<ge> locals_size f - 1 then index + 2 else locals_size f) \<le> int j \<longrightarrow>
        ls ! j = bogus_type \<or> ls ! j = locals f ! j"
    proof (intro allI impI)
      fix j assume "j < length ls" "(if index \<ge> locals_size f - 1 then index + 2 else locals_size f) \<le> int j"
      moreover from this i have "j \<noteq> nat index \<and> j \<noteq> Suc (nat index)" by (auto split: if_splits)
      ultimately show "ls ! j = bogus_type \<or> ls ! j = locals f ! j" using ls(6) by blast
    qed
  qed (use size ix i in auto)
  then show ?thesis using r ls(1) by simp
qed

lemma pairs_ok_map:
  assumes "pairs_ok xs" "single old" "single new"
  shows "pairs_ok (map (\<lambda>t. if t = old then new else t) xs)"
proof -
  let ?g = "\<lambda>t. if t = old then new else t"
  have same: "half2 (?g t) = half2 t" "is_half2 (?g t) = is_half2 t" for t
    using assms(2,3) by (auto simp: single_def)
  have fixed: "?g t = t" if "is_half2 t" for t using that assms(2) by (auto simp: single_def)
  show ?thesis
    unfolding pairs_ok_def length_map
  proof (intro conjI allI impI)
    fix i u assume i: "i < length xs" "half2 (map ?g xs ! i) = Some u"
    then have "half2 (xs ! i) = Some u" using same by simp
    then show "Suc i < length xs" "map ?g xs ! Suc i = u"
      using pairs_first [OF assms(1) i(1), of u] half2_facts(1) [of "xs ! i" u] fixed [of u] by (auto split: if_splits)
  next
    fix i assume i: "i < length xs" "is_half2 (map ?g xs ! i)"
    then have h: "is_half2 (xs ! i)" using same by simp
    note p = pairs_second [OF assms(1) i(1) h]
    show "0 < i" using p by simp
    have "i - 1 < length xs" using i(1) by simp
    then show "half2 (map ?g xs ! (i - 1)) = Some (map ?g xs ! i)"
      using p i(1) same(1) [of "xs ! (i - 1)"] fixed [OF h] by (simp only: nth_map)
  qed
qed

section \<open>Every operation keeps the invariant\<close>

text \<open>The operations that the verifier applies to its current frame, and what it guarantees of
  their arguments: a two-slot store stores a pair, only uninitialized types are initialized.\<close>

datatype frame_op =
    Push VerificationType | Push_2 VerificationType VerificationType
  | Pop | Pop_Type VerificationType | Pop_2 VerificationType VerificationType
  | Get_Local int VerificationType | Get_Local_2 int VerificationType VerificationType
  | Set_Local int VerificationType | Set_Local_2 int VerificationType VerificationType
  | Initialize_Object VerificationType VerificationType
  | Set_Offset int | Set_Flags u1 | Clear_Stack | Set_Mark | Restore | Reset

fun run_op :: "class_env \<Rightarrow> frame_op \<Rightarrow> StackMapFrame \<Rightarrow> fault + StackMapFrame" where
  "run_op context (Push t) f = push_stack t f"
| "run_op context (Push_2 t u) f = push_stack_2 t u f"
| "run_op context Pop f = rbind (pop_stack f) (\<lambda>(t, f). Inr f)"
| "run_op context (Pop_Type t) f = rbind (pop_stack_type context t f) (\<lambda>(t, f). Inr f)"
| "run_op context (Pop_2 t u) f = pop_stack_2 context t u f"
| "run_op context (Get_Local i t) f = rbind (get_local context i t f) (\<lambda>(t, f). Inr f)"
| "run_op context (Get_Local_2 i t u) f = rbind (get_local_2 context i t u f) (\<lambda>_. Inr f)"
| "run_op context (Set_Local i t) f = set_local i t f"
| "run_op context (Set_Local_2 i t u) f = set_local_2 i t u f"
| "run_op context (Initialize_Object t u) f = initialize_object t u f"
| "run_op context (Set_Offset i) f = Inr (set_offset i f)"
| "run_op context (Set_Flags w) f = Inr (set_flags w f)"
| "run_op context Clear_Stack f = Inr (clear_stack f)"
| "run_op context Set_Mark f = Inr (set_mark f)"
| "run_op context Restore f = Inr (restore f)"
| "run_op context Reset f = reset f"

fun run_ops :: "class_env \<Rightarrow> frame_op list \<Rightarrow> StackMapFrame \<Rightarrow> fault + StackMapFrame" where
  "run_ops context [] f = Inr f"
| "run_ops context (op # ops) f = rbind (run_op context op f) (run_ops context ops)"

fun op_ok :: "frame_op \<Rightarrow> bool" where
  "op_ok (Push t) \<longleftrightarrow> sound_type t"
| "op_ok (Push_2 t u) \<longleftrightarrow> sound_type t \<and> sound_type u"
| "op_ok (Pop_Type t) \<longleftrightarrow> asked_type t"
| "op_ok (Pop_2 t u) \<longleftrightarrow> asked_type t \<and> asked_type u"
| "op_ok (Get_Local i t) \<longleftrightarrow> 0 \<le> i \<and> asked_type t"
| "op_ok (Get_Local_2 i t u) \<longleftrightarrow> 0 \<le> i \<and> asked_type t \<and> asked_type u"
| "op_ok (Set_Local i t) \<longleftrightarrow> 0 \<le> i \<and> single t \<and> sound_type t"
| "op_ok (Set_Local_2 i t u) \<longleftrightarrow> 0 \<le> i \<and> half2 t = Some u"
| "op_ok (Initialize_Object t u) \<longleftrightarrow> is_uninitialized t \<and> single u \<and> sound_type u"
| "op_ok _ \<longleftrightarrow> True"

lemma uninit_single: "is_uninitialized t \<Longrightarrow> single t"
  by (cases t) (auto simp: single_def half2_def is_half2_def type_defs vt_consts)

lemma uninit_not_reference: "is_uninitialized t \<Longrightarrow> \<not> is_reference t"
proof (cases t)
  case (Data w)
  assume "is_uninitialized t"
  then have "w AND 2 = 2" using Data by (simp add: vt_consts)
  then have "w AND 3 \<noteq> 0" using aligned_bits [of w] bit_1_test [of w] by blast
  then show ?thesis using Data by (simp add: vt_consts)
qed simp

lemma uninit_equals: "is_uninitialized t \<Longrightarrow> vt_equals u t \<longleftrightarrow> u = t"
  using uninit_not_reference [of t] by (auto simp: vt_equals_def)

definition safe_result :: "fault + StackMapFrame \<Rightarrow> bool" where
  "safe_result r \<longleftrightarrow>
    (case r of Inr f \<Rightarrow> frame_ok f | Inl e \<Rightarrow> e \<noteq> Undefined_Behaviour)"

lemma safe_simps [simp]: "safe_result (Inr f) \<longleftrightarrow> frame_ok f"
  "safe_result (Inl (Verify_Error k b m))"
  by (simp_all add: safe_result_def)

lemma sound_update: "list_all sound_type xs \<Longrightarrow> sound_type t \<Longrightarrow> list_all sound_type (xs[i := t])"
  using set_update_subset_insert [of xs i t] by (auto simp: list_all_iff)

lemma sound_bogus [simp]: "list_all sound_type (replicate n bogus_type)"
  by (simp add: list_all_length)

lemma stack_sound: "frame_ok f \<Longrightarrow> 0 \<le> i \<Longrightarrow> i < stack_size f \<Longrightarrow> sound_type (stack f ! nat i)"
  by (auto simp: frame_ok_def list_all_length)

lemma local_sound: "frame_ok f \<Longrightarrow> 0 \<le> i \<Longrightarrow> i < max_locals f \<Longrightarrow> sound_type (locals f ! nat i)"
  by (auto simp: frame_ok_def list_all_length)

lemma frame_ok_pop: "frame_ok f \<Longrightarrow> 0 \<le> n \<Longrightarrow> n \<le> stack_size f \<Longrightarrow> frame_ok (f\<lparr>stack_size := n\<rparr>)"
  by (simp add: frame_ok_def)

lemma stack_get: "frame_ok f \<Longrightarrow> 0 \<le> i \<Longrightarrow> i < stack_size f \<Longrightarrow> arr_get (stack f) i = Inr (stack f ! nat i)"
  by (auto simp: frame_ok_def arr_get_def)

lemma safe_assign:
  "env_defined context \<Longrightarrow> asked_type t \<Longrightarrow> sound_type u \<Longrightarrow>
   (\<And>ok. is_assignable_from context t u False = Inr ok \<Longrightarrow> safe_result (k ok)) \<Longrightarrow>
   safe_result (rbind (is_assignable_from context t u False) k)"
  using assignable_asked [of "context" t u False]
  by (cases "is_assignable_from context t u False") (auto simp: safe_result_def)

lemma pop_stack_ex_safe:
  assumes e: "env_defined context" and t: "asked_type t" and ok: "frame_ok f"
  shows "case pop_stack_ex context t f of
    (Inr v, f') \<Rightarrow> frame_ok f' | (Inl e, f') \<Rightarrow> frame_ok f' \<and> e \<noteq> Undefined_Behaviour"
proof (cases "stack_size f \<le> 0")
  case True
  then show ?thesis using ok by (simp add: pop_stack_ex_def)
next
  case False
  then have g: "arr_get (stack f) (stack_size f - 1) = Inr (stack f ! nat (stack_size f - 1))"
    using ok by (intro stack_get) auto
  have ok': "frame_ok (f\<lparr>stack_size := stack_size f - 1\<rparr>)" using frame_ok_pop [OF ok] False by simp
  have "sound_type (stack f ! nat (stack_size f - 1))" using stack_sound [OF ok] False by simp
  note assignable_asked [OF e t this, of False]
  then show ?thesis using ok' False g
    by (cases "is_assignable_from context t (stack f ! nat (stack_size f - 1)) False")
      (auto simp: pop_stack_ex_def)
qed

lemma pop_slow_safe:
  assumes "env_defined context" "asked_type t" "frame_ok f"
  shows "safe_result (case pop_stack_ex context t f of (r, f') \<Rightarrow> rbind r (\<lambda>top. Inr f'))"
  using pop_stack_ex_safe [OF assms]
  by (cases "pop_stack_ex context t f") (auto simp: safe_result_def split: sum.splits)

lemma later_fault_cases: "later_fault a b = a \<or> later_fault a b = b"
  by (cases a; cases b) simp_all

lemma pop2_slow_safe:
  assumes e: "env_defined context" and t: "asked_type t" "asked_type u" and ok: "frame_ok f"
  shows "safe_result (case pop_stack_ex context t f of (r1, f1) \<Rightarrow>
     case pop_stack_ex context u f1 of (r2, f2) \<Rightarrow>
       (case (r1, r2) of (Inl e1, Inl e2) \<Rightarrow> Inl (later_fault e1 e2) | (Inl e1, Inr _) \<Rightarrow> Inl e1
        | (Inr _, Inl e2) \<Rightarrow> Inl e2 | (Inr _, Inr _) \<Rightarrow> Inr f2))"
proof -
  obtain r1 f1 where 1: "pop_stack_ex context t f = (r1, f1)" by fastforce
  then have f1: "frame_ok f1" using pop_stack_ex_safe [OF e t(1) ok] by (auto split: sum.splits)
  obtain r2 f2 where 2: "pop_stack_ex context u f1 = (r2, f2)" by fastforce
  show ?thesis
    using pop_stack_ex_safe [OF e t(1) ok] pop_stack_ex_safe [OF e t(2) f1] 1 2
    by (auto simp: safe_result_def split: sum.splits) (metis later_fault_cases)
qed

lemma push_safe: "frame_ok f \<Longrightarrow> sound_type t \<Longrightarrow> safe_result (push_stack t f)"
  by (auto simp: push_stack_def arr_set_def frame_ok_def sound_update)

lemma push_2_safe: "frame_ok f \<Longrightarrow> sound_type t \<Longrightarrow> sound_type u \<Longrightarrow> safe_result (push_stack_2 t u f)"
  by (auto simp: push_stack_2_def arr_set_def frame_ok_def sound_update)

lemma pop_safe: "frame_ok f \<Longrightarrow> safe_result (rbind (pop_stack f) (\<lambda>(t, f). Inr f))"
  by (auto simp: pop_stack_def arr_get_def frame_ok_def)

lemma pop_type_safe:
  assumes e: "env_defined context" and t: "asked_type t" and ok: "frame_ok f"
  shows "safe_result (rbind (pop_stack_type context t f) (\<lambda>(t, f). Inr f))"
proof -
  let ?slow = "case pop_stack_ex context t f of (r, f') \<Rightarrow> rbind r (\<lambda>top. Inr (top, f'))"
  have slow: "safe_result (rbind ?slow (\<lambda>(t, f). Inr f))"
    using pop_slow_safe [OF assms]
    by (cases "pop_stack_ex context t f"; cases "fst (pop_stack_ex context t f)") auto
  show ?thesis
  proof (cases "stack_size f = 0")
    case True
    then show ?thesis using slow by (simp add: pop_stack_type_def)
  next
    case False
    then have pos: "0 < stack_size f" using ok by (simp add: frame_ok_def)
    then have g: "arr_get (stack f) (stack_size f - 1) = Inr (stack f ! nat (stack_size f - 1))"
      and ok': "frame_ok (f\<lparr>stack_size := stack_size f - 1\<rparr>)"
      using ok frame_ok_pop [OF ok] by (auto intro: stack_get)
    have "sound_type (stack f ! nat (stack_size f - 1))" using stack_sound [OF ok] pos by simp
    note assignable_asked [OF e t this, of False]
    then show ?thesis using g ok' False slow
      by (cases "is_assignable_from context t (stack f ! nat (stack_size f - 1)) False")
        (auto simp: pop_stack_type_def safe_result_def Let_def)
  qed
qed

lemma pop_2_safe:
  assumes e: "env_defined context" and t: "asked_type t" "asked_type u" and ok: "frame_ok f"
  shows "safe_result (pop_stack_2 context t u f)"
proof (cases "stack_size f \<ge> 2")
  case True
  then have g: "arr_get (stack f) (stack_size f - 1) = Inr (stack f ! nat (stack_size f - 1))"
    "arr_get (stack f) (stack_size f - 2) = Inr (stack f ! nat (stack_size f - 2))"
    and ok': "frame_ok (f\<lparr>stack_size := stack_size f - 2\<rparr>)"
    using ok frame_ok_pop [OF ok] by (auto intro: stack_get)
  have "sound_type (stack f ! nat (stack_size f - 1))" "sound_type (stack f ! nat (stack_size f - 2))"
    using stack_sound [OF ok] True by simp_all
  then show ?thesis using True g ok' pop2_slow_safe [OF e t ok] t e
    by (auto simp: pop_stack_2_def Let_def intro!: safe_assign)
next
  case False
  then show ?thesis using pop2_slow_safe [OF e t ok] by (simp add: pop_stack_2_def Let_def)
qed

lemma get_local_safe:
  assumes "frame_ok f" "env_defined context" "0 \<le> i \<and> asked_type t"
  shows "safe_result (rbind (get_local context i t f) (\<lambda>(t, f). Inr f))"
proof (cases "i < max_locals f")
  case True
  then have "arr_get (locals f) i = Inr (locals f ! nat i)" using assms by (simp add: frame_ok_def arr_get_def)
  moreover have "frame_ok (if i \<ge> locals_size f then f\<lparr>locals_size := i + 1\<rparr> else f)"
    using assms True by (auto simp: frame_ok_def)
  moreover have "is_assignable_from context t (locals f ! nat i) False \<noteq> Inl Undefined_Behaviour"
    using assms local_sound [OF assms(1) _ True] by (intro assignable_asked) auto
  ultimately show ?thesis using True
    by (cases "is_assignable_from context t (locals f ! nat i) False") (auto simp: get_local_def safe_result_def)
qed (simp add: get_local_def)

lemma get_local_2_safe:
  assumes "frame_ok f" "env_defined context" "0 \<le> i \<and> asked_type t \<and> asked_type u"
  shows "safe_result (rbind (get_local_2 context i t u f) (\<lambda>_. Inr f))"
proof (cases "i < locals_size f - 1")
  case True
  then have "arr_get (locals f) i = Inr (locals f ! nat i)" "arr_get (locals f) (i + 1) = Inr (locals f ! nat (i + 1))"
    using assms by (simp_all add: frame_ok_def arr_get_def)
  moreover have "i + 1 < max_locals f" using True assms by (simp add: frame_ok_def)
  then have "sound_type (locals f ! nat i)" "sound_type (locals f ! nat (i + 1))"
    using local_sound [OF assms(1)] assms(3) by auto
  then have "is_assignable_from context t (locals f ! nat i) False \<noteq> Inl Undefined_Behaviour"
    "is_assignable_from context u (locals f ! nat (i + 1)) False \<noteq> Inl Undefined_Behaviour"
    using assms assignable_asked by auto
  ultimately show ?thesis using True assms
    by (cases "is_assignable_from context t (locals f ! nat i) False";
        cases "is_assignable_from context u (locals f ! nat (i + 1)) False")
      (auto simp: get_local_2_def safe_result_def)
qed (simp add: get_local_2_def)

lemma sound_replace:
  "list_all sound_type xs \<Longrightarrow> sound_type u \<Longrightarrow> list_all sound_type (map (\<lambda>x. if P x then u else x) xs)"
  by (auto simp: list_all_iff)

lemma initialize_object_safe:
  assumes ok: "frame_ok f" and t: "is_uninitialized t" and u: "single u" "sound_type u"
  shows "safe_result (initialize_object t u f)"
proof -
  let ?g = "\<lambda>x. if x = t then u else x"
  let ?st = "map ?g (take (nat (stack_size f)) (stack f)) @ drop (nat (stack_size f)) (stack f)"
  have sz: "nat (max_locals f) = length (locals f)" "max_locals f \<le> int (length (locals f))"
    "stack_size f \<le> int (length (stack f))" "list_all sound_type (locals f)" "list_all sound_type (stack f)"
    using ok by (auto simp: frame_ok_def)
  have l: "replace_types (max_locals f) t u (locals f) = Inr (map ?g (locals f))"
    and st: "replace_types (stack_size f) t u (stack f) = Inr ?st"
    using sz uninit_equals [OF t] by (simp_all add: replace_types_def)
  have "list_all sound_type (map ?g (locals f))" using sz(4) u(2) by (rule sound_replace)
  moreover have "list_all sound_type ?st"
    using sz(5) sound_replace [of "take (nat (stack_size f)) (stack f)" u] u(2)
    by (auto simp: list_all_iff dest: in_set_takeD in_set_dropD)
  moreover have "length ?st = length (stack f)" by simp
  moreover have "pairs_ok (map ?g (locals f))"
    using ok u(1) uninit_single [OF t] by (intro pairs_ok_map) (auto simp: frame_ok_def)
  moreover have "t \<noteq> bogus_type" using t by (auto simp: type_defs vt_consts)
  ultimately show ?thesis using ok
    unfolding initialize_object_def l st rbind_simps safe_simps frame_ok_def by simp
qed

lemma pairs_ok_bogus: "pairs_ok (replicate n bogus_type)"
  using single_bogus by (simp add: pairs_ok_def single_def)

lemma reset_safe: "frame_ok f \<Longrightarrow> safe_result (reset f)"
  using pairs_ok_bogus by (auto simp: reset_def fill_bogus_def frame_ok_def)

lemma set_local_safe:
  assumes "frame_ok f" "0 \<le> i" "single t" "sound_type t"
  shows "safe_result (set_local i t f)"
proof (cases "i < max_locals f")
  case True
  then obtain f' where "set_local i t f = Inr f'" using set_local_spec [OF assms(1,2) True assms(3)] by blast
  then show ?thesis using set_local_ok [OF assms] by simp
qed (simp add: set_local_def)

lemma set_local_2_safe:
  assumes "frame_ok f" "0 \<le> i" "half2 t = Some u"
  shows "safe_result (set_local_2 i t u f)"
proof (cases "i < max_locals f - 1")
  case True
  then obtain f' where "set_local_2 i t u f = Inr f'" using set_local_2_spec [OF assms(1,2) True assms(3)] by blast
  then show ?thesis using set_local_2_ok [OF assms] by simp
qed (simp add: set_local_2_def)

lemma simple_ops_ok:
  "frame_ok f \<Longrightarrow> frame_ok (set_offset i f)" "frame_ok f \<Longrightarrow> frame_ok (set_flags w f)"
  "frame_ok f \<Longrightarrow> frame_ok (clear_stack f)" "frame_ok f \<Longrightarrow> frame_ok (set_mark f)"
  "frame_ok f \<Longrightarrow> frame_ok (restore f)"
  by (simp_all add: set_offset_def set_flags_def clear_stack_def set_mark_def restore_def frame_ok_def)

lemmas op_safe = push_safe push_2_safe pop_safe pop_type_safe pop_2_safe get_local_safe
  get_local_2_safe set_local_safe set_local_2_safe initialize_object_safe reset_safe simple_ops_ok

lemma run_op_safe: "env_defined context \<Longrightarrow> frame_ok f \<Longrightarrow> op_ok op \<Longrightarrow> safe_result (run_op context op f)"
  by (cases op) (simp_all add: op_safe)

lemma new_frame_ok: "frame_ok (new_frame ml ms)"
  using pairs_ok_bogus by (simp add: frame_ok_def new_frame_def)

lemma run_ops_safe: "env_defined context \<Longrightarrow> frame_ok f \<Longrightarrow> list_all op_ok ops \<Longrightarrow> safe_result (run_ops context ops f)"
proof (induction ops arbitrary: f)
  case (Cons op ops)
  have safe: "safe_result (run_op context op f)" using Cons.prems by (simp add: run_op_safe)
  show ?case
  proof (cases "run_op context op f")
    case (Inl e)
    then show ?thesis using safe by (simp add: safe_result_def)
  next
    case (Inr f')
    then show ?thesis using safe Cons by simp
  qed
qed simp

text \<open>C8: Whatever sequence of operations the verifier applies to a fresh frame, no operation
  reads or writes outside the arrays of the frame, and every frame it reaches is well formed: sizes
  are within the declared maxima, slots beyond the used locals are unusable, and the slots of longs
  and doubles are paired.\<close>

theorem frame_operations_safe:
  assumes "env_defined context" "list_all op_ok ops"
  shows "run_ops context ops (new_frame ml ms) \<noteq> Inl Undefined_Behaviour \<and>
    (\<forall>f. run_ops context ops (new_frame ml ms) = Inr f \<longrightarrow> frame_ok f)"
  using run_ops_safe [OF assms(1) new_frame_ok assms(2), of ml ms] by (auto simp: safe_result_def)

section \<open>Loading two slots\<close>

lemma half2_assign:
  assumes "half2 t = Some u"
  shows "is_assignable_from context t x False = Inr (x = t) \<or> \<not> wf_type UNIV x"
    "is_assignable_from context u x False = Inr (x = u) \<or> \<not> wf_type UNIV x"
  using assms assignable_prim [of UNIV _ x "context" False]
  by (auto simp: half2_def type_defs vt_consts split: if_splits)

text \<open>C34: Loading a long or double from a well-formed frame depends on its first slot only: the
  test of the second slot never fails, and each other outcome is one of the two errors.\<close>

theorem get_local_2_exact:
  assumes ok: "frame_ok f" and t: "half2 t = Some u" and i: "0 \<le> index"
  shows "get_local_2 context index t u f =
    (if index \<ge> locals_size f - 1
     then Inl (Verify_Error BAD_LOCAL_INDEX (u2_of (smf_offset f)) ''get long/double overflows locals'')
     else if locals f ! nat index = t then Inr ()
     else Inl (Verify_Error WRONG_TYPE (u2_of (smf_offset f)) ''Bad local variable type''))"
proof (cases "index \<ge> locals_size f - 1")
  case False
  then have len: "index + 1 < int (length (locals f))" using ok by (simp add: frame_ok_def)
  then have g: "arr_get (locals f) index = Inr (locals f ! nat index)"
    "arr_get (locals f) (index + 1) = Inr (locals f ! Suc (nat index))"
    using i by (simp_all add: arr_get_def nat_add_distrib)
  have w: "wf_type UNIV (locals f ! nat index)" "wf_type UNIV (locals f ! Suc (nat index))"
    using ok len i by (auto simp: frame_ok_def list_all_length intro!: sound_wf)
  have a: "is_assignable_from context t (locals f ! nat index) False = Inr (locals f ! nat index = t)"
    "is_assignable_from context u (locals f ! Suc (nat index)) False = Inr (locals f ! Suc (nat index) = u)"
    using half2_assign [OF t] w by blast+
  have "locals f ! Suc (nat index) = u" if "locals f ! nat index = t"
  proof -
    have "nat index < length (locals f)" using len i by linarith
    then show ?thesis using pairs_first [of "locals f" "nat index" u] ok that t by (simp add: frame_ok_def)
  qed
  then show ?thesis using False g a by (auto simp: get_local_2_def assignable_refl)
qed (simp add: get_local_2_def)

section \<open>Assignability as a relation\<close>

lemma types_assignable_len:
  assumes "0 \<le> i" "i \<le> len" "len \<le> int (length from)" "len \<le> int (length to)"
  shows "types_assignable context from to len i = Inr len \<longleftrightarrow>
    (\<forall>j. nat i \<le> j \<and> int j < len \<longrightarrow> is_assignable_from context (to ! j) (from ! j) False = Inr True)"
  using assms
proof (induction "context" "from" to len i rule: types_assignable.induct)
  case (1 ctx "from" to len i)
  show ?case
  proof (cases "i < len")
    case False
    then show ?thesis using 1 by (subst types_assignable.simps) auto
  next
    case True
    have g: "arr_get to i = Inr (to ! nat i)" "arr_get from i = Inr (from ! nat i)"
      using 1 True by (auto simp: arr_get_def)
    have split: "(\<forall>j. nat i \<le> j \<and> int j < len \<longrightarrow> is_assignable_from ctx (to ! j) (from ! j) False = Inr True) \<longleftrightarrow>
      is_assignable_from ctx (to ! nat i) (from ! nat i) False = Inr True \<and>
      (\<forall>j. nat (i + 1) \<le> j \<and> int j < len \<longrightarrow> is_assignable_from ctx (to ! j) (from ! j) False = Inr True)"
      (is "?all i \<longleftrightarrow> ?hd \<and> ?all (i + 1)")
    proof -
      have "nat i \<le> j \<longleftrightarrow> j = nat i \<or> nat (i + 1) \<le> j" for j using "1.prems"(1) by auto
      then show ?thesis using True "1.prems"(1) by auto
    qed
    show ?thesis
    proof (cases "is_assignable_from ctx (to ! nat i) (from ! nat i) False")
      case (Inl e)
      then show ?thesis using g True split by (subst types_assignable.simps) simp
    next
      case (Inr b)
      show ?thesis
      proof (cases b)
        case True2: True
        have "types_assignable ctx from to len i = types_assignable ctx from to len (i + 1)"
          using g True Inr True2 by (subst types_assignable.simps) simp
        then show ?thesis using "1.IH" [OF True g(1) g(2) Inr] True2 split Inr True "1.prems" by simp
      next
        case False
        then show ?thesis using g True split Inr by (subst types_assignable.simps) simp
      qed
    qed
  qed
qed

definition table_frame_ok :: "StackMapFrame \<Rightarrow> bool" where
  "table_frame_ok f \<longleftrightarrow> 0 \<le> locals_size f \<and> locals_size f \<le> int (length (locals f)) \<and>
     0 \<le> stack_size f \<and> stack_size f \<le> int (length (stack f))"

lemma frame_ok_table: "frame_ok f \<Longrightarrow> table_frame_ok f"
  by (simp add: frame_ok_def table_frame_ok_def)

lemma frame_assignable_iff:
  assumes "table_frame_ok f" "table_frame_ok g" "locals_size g \<le> int (length (locals f))"
  shows "frame_is_assignable_to context f g = Inr None \<longleftrightarrow>
    max_locals f = max_locals g \<and> stack_size f = stack_size g \<and>
    (\<forall>j. int j < locals_size g \<longrightarrow> is_assignable_from context (locals g ! j) (locals f ! j) False = Inr True) \<and>
    (\<forall>j. int j < stack_size g \<longrightarrow> is_assignable_from context (stack g ! j) (stack f ! j) False = Inr True) \<and>
    flags f OR flags g = flags g"
proof (cases "stack_size f = stack_size g")
  case True
  let ?l = "types_assignable context (locals f) (locals g) (locals_size g) 0"
  let ?s = "types_assignable context (stack f) (stack g) (stack_size g) 0"
  have "frame_is_assignable_to context f g = Inr None \<longleftrightarrow> max_locals f = max_locals g \<and>
      ?l = Inr (locals_size g) \<and> ?s = Inr (stack_size g) \<and> flags f OR flags g = flags g"
    using True by (auto simp: frame_is_assignable_to_def rbind_Inr_iff split: if_splits)
  moreover have "?l = Inr (locals_size g) \<longleftrightarrow>
      (\<forall>j. int j < locals_size g \<longrightarrow> is_assignable_from context (locals g ! j) (locals f ! j) False = Inr True)"
    using assms types_assignable_len [of 0 "locals_size g" "locals f" "locals g" "context"]
    by (simp add: table_frame_ok_def)
  moreover have "?s = Inr (stack_size g) \<longleftrightarrow>
      (\<forall>j. int j < stack_size g \<longrightarrow> is_assignable_from context (stack g ! j) (stack f ! j) False = Inr True)"
    using assms True types_assignable_len [of 0 "stack_size g" "stack f" "stack g" "context"]
    by (simp add: table_frame_ok_def)
  ultimately show ?thesis using True by simp
qed (simp add: frame_is_assignable_to_def)

text \<open>C24: Assignability of well-formed frames is transitive, given a transitive class hierarchy in which only
  \<open>java.lang.Object\<close> is above interfaces: what may flow from one frame to a second, and
  from the second to a third, may flow from the first to the third.\<close>

theorem frame_assignable_trans:
  assumes h: "hierarchy_ok context"
    and frames: "frame_ok f" "frame_ok g" "table_frame_ok k"
    and real: "list_all sound_type (locals k @ stack k)"
    and fg: "frame_is_assignable_to context f g = Inr None"
    and gk: "frame_is_assignable_to context g k = Inr None"
    and size: "locals_size k \<le> max_locals k"
  shows "frame_is_assignable_to context f k = Inr None"
proof -
  note tf = frame_ok_table [OF frames(1)] frame_ok_table [OF frames(2)] frames(3)
  have ml: "max_locals f = max_locals g" "max_locals g = max_locals k"
    using fg gk by (auto simp: frame_is_assignable_to_def split: if_splits)
  have len: "locals_size g \<le> int (length (locals f))" "locals_size k \<le> int (length (locals g))"
    "locals_size k \<le> int (length (locals f))"
    using frames(1,2) size ml by (auto simp: frame_ok_def)
  note FG = frame_assignable_iff [OF tf(1,2) len(1), THEN iffD1, OF fg]
    and GK = frame_assignable_iff [OF tf(2,3) len(2), THEN iffD1, OF gk]
  have trans: "is_assignable_from context a c False = Inr True"
    if "is_assignable_from context a b False = Inr True" "is_assignable_from context b c False = Inr True"
      "wf_type UNIV a" "wf_type UNIV b" "wf_type UNIV c" "\<not> is_check a" for a b c
    using assignable_trans_sym [OF h] that by blast
  have loc: "is_assignable_from context (locals k ! j) (locals f ! j) False = Inr True" if j: "int j < locals_size k" for j
  proof -
    have in_range: "j < length (locals k)" "j < length (locals g)" "j < length (locals f)"
      using j len tf(3) by (auto simp: table_frame_ok_def)
    have wf: "wf_type UNIV (locals k ! j)" "wf_type UNIV (locals g ! j)" "wf_type UNIV (locals f ! j)"
      "\<not> is_check (locals k ! j)"
      using in_range frames(1,2) real sound_not_check by (auto simp: frame_ok_def list_all_iff intro!: sound_wf)
    show ?thesis
    proof (cases "int j < locals_size g")
      case True
      then show ?thesis using trans FG GK j wf by blast
    next
      case False
      then have "locals g ! j = bogus_type" using frames(2) in_range by (simp add: frame_ok_def)
      moreover have "is_assignable_from context bogus_type (locals f ! j) False = Inr True" by (rule assignable_bogus)
      ultimately show ?thesis using trans GK j wf by metis
    qed
  qed
  have stk: "is_assignable_from context (stack k ! j) (stack f ! j) False = Inr True" if j: "int j < stack_size k" for j
  proof -
    have "j < length (stack k)" "j < length (stack g)" "j < length (stack f)"
      using j FG GK tf by (auto simp: table_frame_ok_def)
    then have "wf_type UNIV (stack k ! j)" "wf_type UNIV (stack g ! j)" "wf_type UNIV (stack f ! j)"
      "\<not> is_check (stack k ! j)"
      using frames(1,2) real sound_not_check by (auto simp: frame_ok_def list_all_iff intro!: sound_wf)
    then show ?thesis using trans FG GK j by metis
  qed
  have "flags f OR flags k = flags k"
    using FG GK by (metis or.assoc or.commute)
  then show ?thesis using frame_assignable_iff [OF tf(1,3) len(3)] loc stk FG GK by simp
qed

section \<open>The initial frame\<close>

text \<open>The types of an argument and of a result, by the grammar of signatures.\<close>

fun ft_verification_types :: "field_type \<Rightarrow> VerificationType list" where
  "ft_verification_types (FT_Base b) =
     (if b = T_LONG then [long_type, long2_type] else if b = T_DOUBLE then [double_type, double2_type]
      else if b = T_FLOAT then [float_type] else [integer_type])"
| "ft_verification_types (FT_Class n) = [reference_type n]"
| "ft_verification_types (FT_Array t) = [reference_type (91 # show_type t)]"

fun ft_return_type :: "field_type \<Rightarrow> VerificationType" where
  "ft_return_type (FT_Base b) =
     (case b of T_BYTE \<Rightarrow> byte_type | T_CHAR \<Rightarrow> char_type | T_SHORT \<Rightarrow> short_type | T_BOOLEAN \<Rightarrow> boolean_type
      | T_FLOAT \<Rightarrow> float_type | T_DOUBLE \<Rightarrow> double_type | T_LONG \<Rightarrow> long_type | T_VOID \<Rightarrow> bogus_type
      | _ \<Rightarrow> integer_type)"
| "ft_return_type (FT_Class n) = reference_type n"
| "ft_return_type (FT_Array t) = reference_type (91 # show_type t)"

definition at_entry :: "symbol \<Rightarrow> SignatureStream \<Rightarrow> field_type \<Rightarrow> u_char list \<Rightarrow> bool" where
  "at_entry sig ss t rest \<longleftrightarrow> drop (ss_begin ss) sig = show_type t @ rest \<and>
     ss_end ss = ss_begin ss + length (show_type t) \<and> ss_type ss = ft_type t"

lemma as_symbol_show:
  assumes "at_entry sig ss t rest" "ft_type t = T_OBJECT \<or> ft_type t = T_ARRAY" "wf_ft t"
  shows "as_symbol sig ss = Inr (case t of FT_Class n \<Rightarrow> n | _ \<Rightarrow> show_type t)"
proof -
  have d: "drop (ss_begin ss) sig = show_type t @ rest" and e: "ss_end ss = ss_begin ss + length (show_type t)"
    using assms(1) by (auto simp: at_entry_def)
  have "show_type t \<noteq> []" using assms(3) by (elim show_type_first) auto
  then have "0 < length (show_type t)" by simp
  moreover have "length sig - ss_begin ss = length (show_type t) + length rest"
    using arg_cong [OF d, of length] by simp
  ultimately have len: "ss_end ss \<le> length sig" using e by linarith
  show ?thesis
  proof (cases t)
    case (FT_Class n)
    have "byte_at sig (ss_begin ss) = Inr 76" using d FT_Class by (simp add: byte_at_drop)
    moreover have "drop (ss_end ss - 1) sig = 59 # rest"
      using drop_app [of "ss_begin ss" sig "76 # n" "59 # rest"] d e FT_Class by simp
    then have "byte_at sig (ss_end ss - 1) = Inr 59" by (rule byte_at_drop)
    ultimately show ?thesis using d e len FT_Class drop_1 [of "ss_begin ss" sig 76 "n @ 59 # rest"]
      by (simp add: as_symbol_def)
  next
    case (FT_Array u)
    have "byte_at sig (ss_begin ss) = Inr 91" using d FT_Array by (simp add: byte_at_drop)
    then show ?thesis using d e len FT_Array by (simp add: as_symbol_def)
  next
    case (FT_Base b)
    then show ?thesis using assms(2,3) by auto
  qed
qed

lemma change_sig_show:
  assumes "at_entry sig ss t rest" "wf_ft t" "ft_type t \<noteq> T_VOID"
  shows "change_sig_to_verificationType sig ss = Inr (ft_verification_types t)"
proof (cases t)
  case (FT_Base b)
  then show ?thesis using assms
    by (cases b) (simp_all add: at_entry_def change_sig_to_verificationType_def)
next
  case (FT_Class n)
  then show ?thesis using assms as_symbol_show [OF assms(1) _ assms(2)]
    by (simp add: at_entry_def change_sig_to_verificationType_def create_temporary_symbol_def)
next
  case (FT_Array u)
  then show ?thesis using assms as_symbol_show [OF assms(1) _ assms(2)]
    by (simp add: at_entry_def change_sig_to_verificationType_def create_temporary_symbol_def)
qed

lemma return_type_show:
  assumes "at_entry sig ss t rest" "wf_ft t"
  shows "return_type_of sig ss = Inr (ft_return_type t)"
proof (cases t)
  case (FT_Base b)
  then show ?thesis using assms by (cases b) (simp_all add: at_entry_def return_type_of_def)
next
  case (FT_Class n)
  then show ?thesis using assms as_symbol_show [OF assms(1) _ assms(2)]
    by (simp add: at_entry_def return_type_of_def create_temporary_symbol_def)
next
  case (FT_Array u)
  then show ?thesis using assms as_symbol_show [OF assms(1) _ assms(2)]
    by (simp add: at_entry_def return_type_of_def create_temporary_symbol_def)
qed

lemma arr_set_all_eq:
  "i + length vs \<le> length xs \<Longrightarrow>
   arr_set_all xs (int i) vs = Inr (take i xs @ vs @ drop (i + length vs) xs)"
proof (induction vs arbitrary: xs i)
  case (Cons v vs)
  have "arr_set_all (xs[i := v]) (int (Suc i)) vs =
      Inr (take (Suc i) (xs[i := v]) @ vs @ drop (Suc i + length vs) (xs[i := v]))"
    using Cons.prems by (intro Cons.IH) simp
  moreover have "take (Suc i) (xs[i := v]) = take i xs @ [v]"
    using Cons.prems by (simp add: take_Suc_conv_app_nth)
  ultimately show ?case using Cons.prems by (simp add: arr_set_def add.commute)
qed simp

abbreviation arg_types :: "field_type list \<Rightarrow> VerificationType list" where
  "arg_types ts \<equiv> concat (map ft_verification_types ts)"

definition arg_ft :: "field_type \<Rightarrow> bool" where
  "arg_ft t \<longleftrightarrow> wf_ft t \<and> no_void_array t \<and> t \<noteq> FT_Base T_VOID"

definition at_entries :: "symbol \<Rightarrow> SignatureStream \<Rightarrow> field_type list \<Rightarrow> field_type \<Rightarrow> bool" where
  "at_entries sig ss ts r \<longleftrightarrow>
    (case ts of [] \<Rightarrow> ss_at_return_type ss \<and> at_entry sig ss r []
     | t # ts' \<Rightarrow> \<not> ss_at_return_type ss \<and> at_entry sig ss t (show_types ts' @ 41 # show_type r))"

lemma at_entries_next:
  assumes "drop (ss_end ss) sig = show_types ts @ 41 # show_type r" "\<not> ss_at_return_type ss"
    and "list_all arg_ft ts" "wf_ft r" "no_void_array r"
  shows "\<exists>ss'. ss_next sig ss = Inr ss' \<and> at_entries sig ss' ts r"
proof (cases ts)
  case Nil
  then have d: "drop (ss_end ss) sig = 41 # show_type r" using assms(1) by simp
  show ?thesis using ss_next_return [OF assms(4,5) d] drop_1 [OF d] Nil
    by (simp add: at_entries_def at_entry_def)
next
  case (Cons t ts')
  then have d: "drop (ss_end ss) sig = show_type t @ show_types ts' @ 41 # show_type r" using assms(1) by simp
  have t: "wf_ft t" "no_void_array t" using assms(3) Cons by (auto simp: arg_ft_def)
  show ?thesis using ss_next_show [OF t d] d assms(2) Cons
    by (simp add: at_entries_def at_entry_def)
qed

lemma args_loop_show:
  assumes "at_entries sig ss ts r" "list_all arg_ft ts" "wf_ft r" "no_void_array r"
    and "n + length (arg_types ts) \<le> length ls"
  shows "\<exists>ss'. args_loop sig ss (int n) ls = Some (Inr (ss', int (n + length (arg_types ts)),
      take n ls @ arg_types ts @ drop (n + length (arg_types ts)) ls)) \<and> at_entry sig ss' r []"
  using assms
proof (induction ts arbitrary: ss n ls)
  case Nil
  then show ?case by (subst args_loop.simps) (simp add: at_entries_def)
next
  case (Cons t ts)
  let ?v = "ft_verification_types t"
  have e: "at_entry sig ss t (show_types ts @ 41 # show_type r)" "\<not> ss_at_return_type ss"
    using Cons.prems(1) by (auto simp: at_entries_def)
  have t: "wf_ft t" "ft_type t \<noteq> T_VOID" using Cons.prems(2) by (cases t; auto simp: arg_ft_def)+
  have "drop (ss_end ss) sig = show_types ts @ 41 # show_type r"
    using e(1) drop_app [of "ss_begin ss" sig "show_type t"] by (simp add: at_entry_def)
  then obtain ss' where ss': "ss_next sig ss = Inr ss'" "at_entries sig ss' ts r"
    using at_entries_next [of ss sig ts r] e(2) Cons.prems(2-4) by auto
  let ?ls = "take n ls @ ?v @ drop (n + length ?v) ls"
  have "\<exists>ss''. args_loop sig ss' (int (n + length ?v)) ?ls = Some (Inr (ss'', int (n + length ?v + length (arg_types ts)),
      take (n + length ?v) ?ls @ arg_types ts @ drop (n + length ?v + length (arg_types ts)) ?ls)) \<and> at_entry sig ss'' r []"
    using Cons.prems ss'(2) by (intro Cons.IH) auto
  moreover have "arr_set_all ls (int n) ?v = Inr ?ls" using Cons.prems(5) by (intro arr_set_all_eq) simp
  ultimately show ?case using e(2) ss' change_sig_show [OF e(1) t] Cons.prems(5)
    by (subst args_loop.simps) (auto simp: add.assoc add.commute)
qed

definition receiver_types :: "symbol \<Rightarrow> bool \<Rightarrow> VerificationType \<Rightarrow> VerificationType list" where
  "receiver_types name is_static thisKlass =
    (if is_static then []
     else if name = object_initializer_name \<and> vt_name thisKlass \<noteq> java_lang_Object
     then [uninitialized_this_type] else [thisKlass])"

lemma set_locals_from_arg_eq:
  assumes ps: "list_all arg_ft ps" and r: "wf_ft r" "no_void_array r"
    and fits: "length (receiver_types name is_static this @ arg_types ps) \<le> length (locals f)"
  defines "ts \<equiv> receiver_types name is_static this @ arg_types ps"
  shows "set_locals_from_arg name is_static (show_method ps r) this f = Some (Inr (ft_return_type r,
    f\<lparr>locals := ts @ drop (length ts) (locals f), locals_size := int (length ts),
      flags := (if \<not> is_static \<and> name = object_initializer_name \<and> vt_name this \<noteq> java_lang_Object then flags f OR FLAG_THIS_UNINIT else flags f)\<rparr>))"
proof -
  let ?sig = "show_method ps r" and ?rt = "receiver_types name is_static this"
  let ?ss = "\<lparr>ss_begin = 1, ss_end = 1, ss_type = T_ILLEGAL, ss_at_return_type = False\<rparr>"
  let ?ls = "?rt @ drop (length ?rt) (locals f)"
  have "drop (ss_end ?ss) ?sig = show_types ps @ 41 # show_type r" by (simp add: show_method_def)
  then obtain ss where ss: "new_stream ?sig True = Inr ss" "at_entries ?sig ss ps r"
    using at_entries_next [of ?ss ?sig ps r] ps r by (auto simp: new_stream_def)
  have "length ?rt + length (arg_types ps) \<le> length ?ls" using fits by simp
  from args_loop_show [OF ss(2) ps r this] obtain ss' where
    loop: "args_loop ?sig ss (int (length ?rt)) ?ls = Some (Inr (ss', int (length ?rt + length (arg_types ps)),
      take (length ?rt) ?ls @ arg_types ps @ drop (length ?rt + length (arg_types ps)) ?ls))"
    and at: "at_entry ?sig ss' r []" by blast
  have "drop (length ?rt + length (arg_types ps)) ?ls = drop (length ts) (locals f)"
    using fits by (simp add: ts_def add.commute)
  then have loop': "args_loop ?sig ss (int (length ?rt)) ?ls = Some (Inr (ss', int (length ts), ts @ drop (length ts) (locals f)))"
    using loop by (simp add: ts_def)
  have upd: "(locals f)[0 := t] = t # drop (Suc 0) (locals f)" if "locals f \<noteq> []" for t
    using that by (cases "locals f") simp_all
  show ?thesis
  proof (cases is_static)
    case True
    then have "?rt = []" by (simp add: receiver_types_def)
    then show ?thesis using True ss(1) loop' return_type_show [OF at r(1)]
      by (simp add: set_locals_from_arg_def)
  next
    case False
    let ?u = "name = object_initializer_name \<and> vt_name this \<noteq> java_lang_Object"
    have rt: "?rt = [if ?u then uninitialized_this_type else this]" using False by (simp add: receiver_types_def)
    then have ne: "locals f \<noteq> []" using fits by auto
    have arr: "arr_set (locals f) 0 (if ?u then uninitialized_this_type else this) = Inr ?ls"
      unfolding rt using upd [OF ne] ne by (simp add: arr_set_def)
    have "int (length ?rt) = 1" using rt by simp
    note loop' [unfolded this]
    then show ?thesis
      unfolding set_locals_from_arg_def Let_def arr ss(1)
      using False return_type_show [OF at r(1)] by simp
  qed
qed

lemma pairs_ok_append:
  assumes "pairs_ok xs" "pairs_ok ys"
  shows "pairs_ok (xs @ ys)"
  unfolding pairs_ok_def
proof (intro conjI allI impI)
  fix i u assume i: "i < length (xs @ ys)" "half2 ((xs @ ys) ! i) = Some u"
  have "Suc i < length (xs @ ys) \<and> (xs @ ys) ! Suc i = u"
  proof (cases "i < length xs")
    case True
    then show ?thesis using pairs_first [OF assms(1), of i u] i(2) by (simp add: nth_append)
  next
    case False
    then have "i - length xs < length ys" "(xs @ ys) ! i = ys ! (i - length xs)" using i(1) by (auto simp: nth_append)
    then have "Suc (i - length xs) < length ys \<and> ys ! Suc (i - length xs) = u"
      using pairs_first [OF assms(2)] i(2) by simp
    moreover from this have "Suc i < length xs + length ys" by linarith
    ultimately show ?thesis using False by (simp add: nth_append Suc_diff_le)
  qed
  then show "Suc i < length (xs @ ys)" "(xs @ ys) ! Suc i = u" by simp_all
next
  fix i assume i: "i < length (xs @ ys)" "is_half2 ((xs @ ys) ! i)"
  have "0 < i \<and> half2 ((xs @ ys) ! (i - 1)) = Some ((xs @ ys) ! i)"
  proof (cases "i < length xs")
    case True
    then have "i - 1 < length xs" "(xs @ ys) ! i = xs ! i" by (simp_all add: nth_append)
    moreover from this have "0 < i \<and> half2 (xs ! (i - 1)) = Some (xs ! i)"
      using pairs_second [OF assms(1) True] i(2) by simp
    ultimately show ?thesis by (simp only: nth_append if_True)
  next
    case False
    then have "i - length xs < length ys" "(xs @ ys) ! i = ys ! (i - length xs)" using i(1) by (auto simp: nth_append)
    then have "0 < i - length xs \<and> half2 (ys ! (i - length xs - 1)) = Some (ys ! (i - length xs))"
      using pairs_second [OF assms(2), of "i - length xs"] i(2) by simp
    then show ?thesis using False by (auto simp: nth_append)
  qed
  then show "0 < i" "half2 ((xs @ ys) ! (i - 1)) = Some ((xs @ ys) ! i)" by simp_all
qed

lemma arg_type_pairs: "pairs_ok (ft_verification_types t)"
proof -
  have "half2 long_type = Some long2_type" "half2 double_type = Some double2_type"
    "single float_type" "single integer_type" "single (reference_type n)" for n
    by (simp_all add: half2_def single_def is_half2_def reference_type_def type_defs vt_consts)
  then show ?thesis by (cases t) (simp_all add: double_pairs single_pairs)
qed

lemma arg_pairs: "pairs_ok (arg_types ts)"
  by (induction ts) (simp_all add: arg_type_pairs pairs_ok_append, simp add: pairs_ok_def)

lemma uninitialized_this_sound: "single uninitialized_this_type" "sound_type uninitialized_this_type"
  unfolding uninitialized_this_type_def by (rule uninit_single, rule uninitialized_type_tests) simp

lemma initial_frame_ok:
  assumes "length ts \<le> unat ml" "pairs_ok (ts @ replicate (unat ml - length ts) bogus_type)"
    and "list_all sound_type (ts @ replicate (unat ml - length ts) bogus_type)"
  shows "frame_ok ((new_frame ml ms)\<lparr>locals := ts @ replicate (unat ml - length ts) bogus_type,
    locals_size := int (length ts), flags := w\<rparr>)"
proof -
  have "int (length ts) \<le> uint ml" using assms(1) unfolding uint_nat by (rule of_nat_mono)
  moreover have "\<forall>i < unat ml. int (length ts) \<le> int i \<longrightarrow> (ts @ replicate (unat ml - length ts) bogus_type) ! i = bogus_type"
    by (simp add: nth_append)
  moreover have "length ts + (unat ml - length ts) = unat ml" using assms(1) by (rule le_add_diff_inverse)
  ultimately show ?thesis using assms(2,3) uint_16_less [of ml] uint_16_less [of ms]
    by (simp add: frame_ok_def new_frame_def)
qed

lemma initial_frame_eq:
  fixes ms :: u2
  assumes "list_all arg_ft ps" "wf_ft r" "no_void_array r" "single this" "sound_type this"
    and "list_all sound_type (arg_types ps)"
    and fits: "length (receiver_types name is_static this @ arg_types ps) \<le> unat ml"
  defines "ts \<equiv> receiver_types name is_static this @ arg_types ps"
    and "uninit \<equiv> \<not> is_static \<and> name = object_initializer_name \<and> vt_name this \<noteq> java_lang_Object"
  defines "f \<equiv> (new_frame ml ms)\<lparr>locals := ts @ replicate (unat ml - length ts) bogus_type, locals_size := int (length ts),
      flags := (if uninit then FLAG_THIS_UNINIT else 0)\<rparr>"
  shows "set_locals_from_arg name is_static (show_method ps r) this (new_frame ml ms) = Some (Inr (ft_return_type r, f)) \<and> frame_ok f"
proof -
  let ?rt = "receiver_types name is_static this" and ?n = "unat ml - length ts"
  have "pairs_ok ?rt" "list_all sound_type ?rt"
    using assms(4,5) uninitialized_this_sound by (simp_all add: receiver_types_def single_pairs) (simp add: pairs_ok_def)
  then have ok: "pairs_ok (ts @ replicate ?n bogus_type)" "list_all sound_type (ts @ replicate ?n bogus_type)"
    using assms(6) arg_pairs [of ps] pairs_ok_bogus [of ?n] by (simp_all add: ts_def pairs_ok_append)
  have "frame_ok f" unfolding f_def using fits ok by (intro initial_frame_ok) (simp_all add: ts_def)
  moreover have "set_locals_from_arg name is_static (show_method ps r) this (new_frame ml ms) = Some (Inr (ft_return_type r, f))"
    using fits set_locals_from_arg_eq [OF assms(1-3), of name is_static this "new_frame ml ms"]
    by (simp add: new_frame_def f_def ts_def uninit_def)
  ultimately show ?thesis by simp
qed

text \<open>C18: For a well-formed method signature whose arguments fit the declared locals, the initial
  frame holds the receiver and the types of the arguments in order, is well formed, returns the
  declared type, and is flagged exactly in a constructor of a class other than \<open>Object\<close>.\<close>

theorem initial_frame:
  assumes "list_all arg_ft ps" "wf_ft r" "no_void_array r" "single this" "sound_type this"
    and "list_all sound_type (arg_types ps)"
    and fits: "length (receiver_types name is_static this @ arg_types ps) \<le> unat ml"
  shows "\<exists>f. set_locals_from_arg name is_static (show_method ps r) this (new_frame ml ms) =
      Some (Inr (ft_return_type r, f)) \<and> frame_ok f \<and> stack_size f = 0 \<and>
    take (nat (locals_size f)) (locals f) = receiver_types name is_static this @ arg_types ps \<and>
    (flag_this_uninit f \<longleftrightarrow> \<not> is_static \<and> name = object_initializer_name \<and> vt_name this \<noteq> java_lang_Object)"
  using initial_frame_eq [OF assms, of ms]
  by (intro exI conjI) (erule conjunct1, erule conjunct2, simp_all add: new_frame_def flag_this_uninit_def FLAG_THIS_UNINIT_def)

section \<open>Instances\<close>

lemma demo_env_defined: "env_defined demo_env"
  by (simp add: env_defined_def demo_env_def)

theorem frame_operations_safe_witness:
  "env_defined demo_env \<and> (\<exists>f. run_ops demo_env [Push_2 long_type long2_type, Set_Local_2 1 long_type long2_type,
      Set_Local 2 integer_type] (new_frame 3 2) = Inr f \<and> frame_ok f \<and>
      locals f = [bogus_type, bogus_type, integer_type])"
proof -
  let ?ops = "[Push_2 long_type long2_type, Set_Local_2 1 long_type long2_type, Set_Local 2 integer_type]"
  have "half2 long_type = Some long2_type" "single integer_type"
    by (simp_all add: half2_def single_def is_half2_def type_defs vt_consts)
  then have ok: "list_all op_ok ?ops" by simp
  have "\<exists>f. run_ops demo_env ?ops (new_frame 3 2) = Inr f \<and> locals f = [bogus_type, bogus_type, integer_type]"
    by (simp add: new_frame_def push_stack_2_def set_local_2_def set_local_def unuse_next_def unuse_previous_def
        arr_set_def arr_get_def is_type_defs type_defs vt_consts)
      (simp add: numeral_2_eq_2 numeral_3_eq_3)
  then show ?thesis using frame_operations_safe [OF demo_env_defined ok, of 3 2] demo_env_defined by blast
qed

definition demo_frame :: "VerificationType list \<Rightarrow> VerificationType list \<Rightarrow> StackMapFrame" where
  "demo_frame ls st = \<lparr>smf_offset = 0, locals_size = int (length ls), stack_size = int (length st), stack_mark = 0,
     max_locals = int (length ls), max_stack = int (length st), flags = 0, locals = ls, stack = st\<rparr>"

lemma demo_frame_ok:
  "pairs_ok ls \<Longrightarrow> list_all sound_type (ls @ st) \<Longrightarrow> length ls < 65536 \<Longrightarrow> length st < 65536 \<Longrightarrow>
   frame_ok (demo_frame ls st)"
  by (simp add: frame_ok_def demo_frame_def)

theorem get_local_2_exact_witness:
  "frame_ok (demo_frame [long_type, long2_type] []) \<and>
   get_local_2 demo_env 0 long_type long2_type (demo_frame [long_type, long2_type] []) = Inr ()"
proof -
  have h: "half2 long_type = Some long2_type" by (simp add: half2_def)
  have ok: "frame_ok (demo_frame [long_type, long2_type] [])"
    using double_pairs [OF h] by (intro demo_frame_ok) simp_all
  show ?thesis using ok get_local_2_exact [OF ok h, of 0 demo_env] by (simp add: demo_frame_def)
qed

theorem initial_frame_witness:
  "\<exists>f. set_locals_from_arg [102] False (show_method [FT_Base T_LONG] (FT_Base T_VOID)) (Sym [65]) (new_frame 4 1) =
     Some (Inr (bogus_type, f)) \<and> frame_ok f \<and> take (nat (locals_size f)) (locals f) = [Sym [65], long_type, long2_type]"
proof -
  have n: "[102] \<noteq> object_initializer_name" by (simp add: object_initializer_name_def symbol_of_def)
  have r: "receiver_types [102] False (Sym [65]) @ arg_types [FT_Base T_LONG] = [Sym [65], long_type, long2_type]"
    using n by (simp add: receiver_types_def)
  have s: "single (Sym [65])" "sound_type (Sym [65])"
    by (simp_all add: single_def half2_def is_half2_def type_defs sound_name.simps)
  show ?thesis
    using initial_frame [of "[FT_Base T_LONG]" "FT_Base T_VOID" "Sym [65]" "[102]" False 4 1] r s
    by (auto simp: arg_ft_def no_void_array_def)
qed

theorem frame_assignable_trans_witness:
  "frame_is_assignable_to demo_env (demo_frame [] [Sym [66]]) (demo_frame [] [Sym java_lang_Object]) = Inr None"
proof (rule frame_assignable_trans [OF demo_env_ok, of _ "demo_frame [] [Sym [65]]"])
  have so: "sound_type (Sym [65])" "sound_type (Sym [66])" "sound_type (Sym java_lang_Object)"
    by (simp_all add: sound_name.simps java_lang_Object_def symbol_of_def)
  have p: "pairs_ok []" by (simp add: pairs_ok_def)
  show "frame_ok (demo_frame [] [Sym [66]])" "frame_ok (demo_frame [] [Sym [65]])"
    using so p by (auto intro!: demo_frame_ok)
  show "table_frame_ok (demo_frame [] [Sym java_lang_Object])" by (simp add: table_frame_ok_def demo_frame_def)
  show "list_all sound_type (locals (demo_frame [] [Sym java_lang_Object]) @ stack (demo_frame [] [Sym java_lang_Object]))"
    using so by (simp add: demo_frame_def)
  show "frame_is_assignable_to demo_env (demo_frame [] [Sym [66]]) (demo_frame [] [Sym [65]]) = Inr None"
    by (simp add: frame_is_assignable_to_def demo_frame_def types_assignable.simps arr_get_def
        is_assignable_from.simps is_reference_assignable_from.simps demo_env_def vt_equals_def is_type_defs
        vt_consts java_lang_Object_def symbol_of_def is_object_def byte_at_is_def)
  show "frame_is_assignable_to demo_env (demo_frame [] [Sym [65]]) (demo_frame [] [Sym java_lang_Object]) = Inr None"
    by (simp add: frame_is_assignable_to_def demo_frame_def types_assignable.simps arr_get_def
        is_assignable_from.simps is_reference_assignable_from.simps demo_env_def vt_equals_def is_type_defs
        vt_consts java_lang_Object_def symbol_of_def is_object_def byte_at_is_def)
qed (simp add: demo_frame_def)

end
