(* ===== verification/Format_Checks.thy ===== *)
theory Format_Checks
  imports Utf8 Stack_Map_Frame
begin

text \<open>
  The checks of \<open>ClassFileParser\<close> on names, descriptors and modifiers (\<open>classfile/classFileParser.cpp\<close>).

  A \<open>char*\<close> into the copy of a symbol is the list of the bytes from the pointer to the end of the copy, its
  terminating zero included; a pointer difference is a difference of lengths.  The flags and
  versions that the parser keeps, and the two methods of \<open>java.lang.Character\<close> that it calls, are fields of
  \<open>ClassFileParser\<close>; a call that ends with an exception is \<open>None\<close>.  \<open>JDK_Version\<close> is a pair of arguments.
\<close>

unbundle bit_operations_syntax

record ClassFileParser =
  cfp_major_version :: int
  cfp_need_verify :: bool
  cfp_relax_verify :: bool
  cfp_enable_invokedynamic :: bool
  cfp_identifier_start :: "jint \<Rightarrow> bool option"
  cfp_identifier_part :: "jint \<Rightarrow> bool option"
  cfp_symbol_known :: "symbol \<Rightarrow> bool"

definition JAVA_1_5_VERSION :: int where "JAVA_1_5_VERSION = 49"
definition JAVA_6_VERSION :: int where "JAVA_6_VERSION = 50"
definition JAVA_7_VERSION :: int where "JAVA_7_VERSION = 51"
definition JAVA_8_VERSION :: int where "JAVA_8_VERSION = 52"

lemmas java_versions = JAVA_1_5_VERSION_def JAVA_6_VERSION_def JAVA_7_VERSION_def JAVA_8_VERSION_def

definition classfile_parse_error :: "string \<Rightarrow> fault + 'a" where
  "classfile_parse_error msg = Inl (Class_Format_Error msg)"

definition guarantee_property :: "bool \<Rightarrow> string \<Rightarrow> fault + unit" where
  "guarantee_property b msg = (if \<not> b then classfile_parse_error msg else Inr ())"

text \<open>Without verification a property is only asserted, in debug builds.\<close>

definition check_property :: "ClassFileParser \<Rightarrow> bool \<Rightarrow> string \<Rightarrow> fault + unit" where
  "check_property cfp property msg = (if cfp_need_verify cfp then guarantee_property property msg else Inr ())"

definition throwIllegalSignature :: "string \<Rightarrow> fault + 'a" where
  "throwIllegalSignature ty = Inl (Class_Format_Error (ty @ '' \"%s\" in class %s has illegal signature \"%s\"''))"

text \<open>An \<open>unsigned int\<close> difference.\<close>

definition usub :: "nat \<Rightarrow> nat \<Rightarrow> nat" where
  "usub a b = nat ((int a - int b) mod 2 ^ 32)"

definition opt_fault :: "'a option \<Rightarrow> fault + 'a" where
  "opt_fault r = (case r of None \<Rightarrow> Inl Undefined_Behaviour | Some x \<Rightarrow> Inr x)"

section \<open>Legal UTF-8\<close>

text \<open>The first loop of \<open>verify_legal_utf8\<close>: blocks of four ASCII bytes.\<close>

fun ascii_blocks :: "u_char list \<Rightarrow> int \<Rightarrow> nat \<Rightarrow> fault + int" where
  "ascii_blocks buffer i 0 = Inr i"
| "ascii_blocks buffer i (Suc k) =
    rbind (arr_get buffer i) (\<lambda>b0. rbind (arr_get buffer (i + 1)) (\<lambda>b1.
    rbind (arr_get buffer (i + 2)) (\<lambda>b2. rbind (arr_get buffer (i + 3)) (\<lambda>b3.
      let res = b0 OR (b0 - 1) OR b1 OR (b1 - 1) OR b2 OR (b2 - 1) OR b3 OR (b3 - 1)
      in if res \<ge> 128 then Inr i else ascii_blocks buffer (i + 4) k))))"

definition illegal_utf8 :: "fault + 'a" where
  "illegal_utf8 = classfile_parse_error ''Illegal UTF8 string in constant pool in class file %s''"

text \<open>A byte of 128 or more: the number of bytes of the character that starts with it.  The value
  of a supplementary character is not used.\<close>

definition long_character :: "int \<Rightarrow> u_char list \<Rightarrow> int \<Rightarrow> int \<Rightarrow> u_char \<Rightarrow> fault + int" where
  "long_character major buffer len i b =
    rbind (if i + 5 < len then opt_fault (is_supplementary_character (drop (nat i) buffer)) else Inr False) (\<lambda>supplementary.
    let tag = drop_bit 4 b in
    if supplementary then Inr 6
    else if tag = 0x8 \<or> tag = 0x9 \<or> tag = 0xA \<or> tag = 0xB \<or> tag = 0xF then illegal_utf8
    else if tag = 0xC \<or> tag = 0xD then
      if i + 1 < len then rbind (arr_get buffer (i + 1)) (\<lambda>b1.
        let c = push_bit 6 (ucast (b AND 0x1F)) + ucast (b1 AND 0x3F) :: u2
        in if b1 AND 0xC0 = 0x80 \<and> (major \<le> 47 \<or> c = 0 \<or> c \<ge> 0x80) then Inr 2 else illegal_utf8)
      else illegal_utf8
    else if tag = 0xE then
      if i + 2 < len then rbind (arr_get buffer (i + 1)) (\<lambda>b1. rbind (arr_get buffer (i + 2)) (\<lambda>b2.
        let c = push_bit 12 (ucast (b AND 0xF)) + (push_bit 6 (ucast (b1 AND 0x3F)) + ucast (b2 AND 0x3F)) :: u2
        in if b1 AND 0xC0 = 0x80 \<and> b2 AND 0xC0 = 0x80 \<and> (major \<le> 47 \<or> c \<ge> 0x800) then Inr 3 else illegal_utf8))
      else illegal_utf8
    else Inr 1)"

lemma long_character_pos: "long_character major buffer len i b = Inr n \<Longrightarrow> 0 < n"
  by (auto simp: long_character_def illegal_utf8_def classfile_parse_error_def rbind_Inr_iff Let_def split: if_splits)

text \<open>The second loop, one character at a time.\<close>

function utf8_rest :: "int \<Rightarrow> u_char list \<Rightarrow> int \<Rightarrow> int \<Rightarrow> fault + unit" where
  "utf8_rest major buffer len i =
    (if i < len then rbind (arr_get buffer i) (\<lambda>b.
       if b = 0 then illegal_utf8
       else if b < 128 then utf8_rest major buffer len (i + 1)
       else rbind (long_character major buffer len i b) (\<lambda>n. utf8_rest major buffer len (i + n)))
     else Inr ())"
  by pat_completeness auto
termination
  by (relation "measure (\<lambda>(major, buffer, len, i). nat (len - i))") (auto dest: long_character_pos)

declare utf8_rest.simps [simp del]

definition verify_legal_utf8 :: "ClassFileParser \<Rightarrow> u_char list \<Rightarrow> nat \<Rightarrow> fault + unit" where
  "verify_legal_utf8 cfp buffer len =
     rbind (ascii_blocks buffer 0 (len div 4)) (utf8_rest (cfp_major_version cfp) buffer (int len))"

section \<open>Names\<close>

datatype name_kind = LegalClass | LegalField | LegalMethod

function unqualified_loop :: "name_kind \<Rightarrow> u_char list \<Rightarrow> int \<Rightarrow> fault + bool" where
  "unqualified_loop ty p left =
    (if left = 0 then Inr True
     else case p of [] \<Rightarrow> Inl Undefined_Behaviour
       | ch # rest \<Rightarrow>
          if ch < 128 then
            if ch = 46 \<or> ch = 59 \<or> ch = 91 then Inr False
            else if ty \<noteq> LegalClass \<and> ch = 47 then Inr False
            else if ty = LegalMethod \<and> (ch = 60 \<or> ch = 62) then Inr False
            else unqualified_loop ty rest (left - 1)
          else (case utf8_next p of None \<Rightarrow> Inl Undefined_Behaviour
             | Some (_, p') \<Rightarrow> unqualified_loop ty p' (left - (int (length p) - int (length p')))))"
  by pat_completeness auto
termination
  by (relation "measure (\<lambda>(ty, p, left). length p)") (auto dest: utf8_next_shorter)

declare unqualified_loop.simps [simp del]

definition verify_unqualified_name :: "u_char list \<Rightarrow> nat \<Rightarrow> name_kind \<Rightarrow> fault + bool" where
  "verify_unqualified_name name len ty = unqualified_loop ty name (int len)"

lemma next_character_shorter: "next_character p = Some (v, p') \<Longrightarrow> length p' < length p"
  by (cases p) (auto simp: next_character_def byte_test_def is_supplementary_character_def split: option.splits bool.splits if_splits dest: utf8_next_shorter)

definition ascii_identifier :: "bool \<Rightarrow> u_char \<Rightarrow> bool" where
  "ascii_identifier not_first_ch ch \<longleftrightarrow> (97 \<le> ch \<and> ch \<le> 122) \<or> (65 \<le> ch \<and> ch \<le> 90) \<or> ch = 95 \<or> ch = 36 \<or>
     (not_first_ch \<and> 48 \<le> ch \<and> ch \<le> 57)"

text \<open>The tests of a character outside ASCII; \<open>None\<close> where a call ends with an exception.\<close>

definition unicode_identifier :: "ClassFileParser \<Rightarrow> bool \<Rightarrow> jint \<Rightarrow> bool option" where
  "unicode_identifier cfp not_first_ch ch =
    (case cfp_identifier_start cfp ch of None \<Rightarrow> None
     | Some True \<Rightarrow> Some True
     | Some False \<Rightarrow> if not_first_ch then cfp_identifier_part cfp ch else Some False)"

function skip_name_loop :: "ClassFileParser \<Rightarrow> bool \<Rightarrow> u_char list \<Rightarrow> int \<Rightarrow> bool \<Rightarrow> bool \<Rightarrow> fault + u_char list option" where
  "skip_name_loop cfp slash_ok p left last_is_slash not_first_ch =
    (let stop = Inr (if not_first_ch then Some p else None) in
     if left = 0 then stop
     else case p of [] \<Rightarrow> Inl Undefined_Behaviour
       | ch # rest \<Rightarrow>
          if ch < 128 then
            if ascii_identifier not_first_ch ch then skip_name_loop cfp slash_ok rest (left - 1) False True
            else if slash_ok \<and> ch = 47
              then if last_is_slash then Inr None else skip_name_loop cfp slash_ok rest (left - 1) True True
            else stop
          else (case next_character p of None \<Rightarrow> Inl Undefined_Behaviour
             | Some (unicode_ch, p') \<Rightarrow>
                 (case unicode_identifier cfp not_first_ch unicode_ch of
                    None \<Rightarrow> Inr None
                  | Some True \<Rightarrow> skip_name_loop cfp slash_ok p' (left - (int (length p) - int (length p'))) False True
                  | Some False \<Rightarrow> stop)))"
  by pat_completeness auto
termination
  by (relation "measure (\<lambda>(cfp, slash_ok, p, left, s, n). length p)") (auto dest: next_character_shorter)

declare skip_name_loop.simps [simp del]

definition skip_over_field_name :: "ClassFileParser \<Rightarrow> u_char list \<Rightarrow> bool \<Rightarrow> nat \<Rightarrow> fault + u_char list option" where
  "skip_over_field_name cfp name slash_ok len = skip_name_loop cfp slash_ok name (int len) False False"

lemma skip_name_shorter: "skip_name_loop cfp slash_ok p left l n = Inr (Some q) \<Longrightarrow> length q \<le> length p"
proof (induction "length p" arbitrary: p left l n rule: less_induct)
  case less
  note step = less.prems [unfolded skip_name_loop.simps [of cfp slash_ok p left l n] Let_def]
  show ?case
  proof (cases p)
    case Nil
    then show ?thesis using step by (auto split: if_splits)
  next
    case (Cons ch rest)
    have IH: "length q \<le> length p" if "length p' < length p" "skip_name_loop cfp slash_ok p' k l' n' = Inr (Some q)" for p' k l' n'
      using less.hyps [OF that] that(1) by simp
    show ?thesis using step Cons next_character_shorter [of p] IH IH [of rest "left - 1"]
      by (auto split: if_splits option.splits bool.splits)
  qed
qed

section \<open>Descriptors\<close>

text \<open>The name of a class in a descriptor, from version 49 on: up to a semicolon or the end.\<close>

fun class_name_loop :: "u_char list \<Rightarrow> nat \<Rightarrow> fault + u_char list" where
  "class_name_loop sig 0 = Inr sig"
| "class_name_loop [] (Suc len) = Inl Undefined_Behaviour"
| "class_name_loop (c # sig) (Suc len) =
    (if c = 59 then Inr (c # sig)
     else if c = 46 then classfile_parse_error ''Class name contains illegal character '.' in descriptor in class file %s''
     else class_name_loop sig len)"

definition skip_class_signature :: "ClassFileParser \<Rightarrow> u_char list \<Rightarrow> nat \<Rightarrow> fault + u_char list option" where
  "skip_class_signature cfp rest len =
    (if cfp_major_version cfp < JAVA_1_5_VERSION
     then rbind (skip_over_field_name cfp rest True len) (\<lambda>p. case p of None \<Rightarrow> Inr None
       | Some p \<Rightarrow> if int (length rest) + 1 - int (length p) > 1
                   then (case p of [] \<Rightarrow> Inl Undefined_Behaviour | c # p' \<Rightarrow> Inr (if c = 59 then Some p' else None))
                   else Inr None)
     else rbind (class_name_loop rest len) (\<lambda>p. case p of [] \<Rightarrow> Inl Undefined_Behaviour
       | c # p' \<Rightarrow> Inr (if c = 59 then Some p' else None)))"

text \<open>\<open>V Z B C S I F J D\<close>\<close>

definition base_signature :: "u_char \<Rightarrow> bool" where
  "base_signature c \<longleftrightarrow> c \<in> {86, 90, 66, 67, 83, 73, 70, 74, 68}"

fun skip_signature_loop :: "ClassFileParser \<Rightarrow> u_char list \<Rightarrow> bool \<Rightarrow> nat \<Rightarrow> nat \<Rightarrow> fault + u_char list option" where
  "skip_signature_loop cfp sig void_ok 0 array_dim = Inr None"
| "skip_signature_loop cfp sig void_ok (Suc len) array_dim =
    (case sig of [] \<Rightarrow> Inl Undefined_Behaviour
     | c # rest \<Rightarrow>
        if c = 86 \<and> \<not> void_ok then Inr None
        else if base_signature c then Inr (Some rest)
        else if c = 76 then skip_class_signature cfp rest len
        else if c = 91 then
          if array_dim + 1 > 255
          then classfile_parse_error ''Array type descriptor has more than 255 dimensions in class file %s''
          else skip_signature_loop cfp rest False len (array_dim + 1)
        else Inr None)"

definition skip_over_field_signature :: "ClassFileParser \<Rightarrow> u_char list \<Rightarrow> bool \<Rightarrow> nat \<Rightarrow> fault + u_char list option" where
  "skip_over_field_signature cfp sig void_ok len = skip_signature_loop cfp sig void_ok len 0"

text \<open>Whether a pointer is past the \<open>len\<close> bytes after \<open>bytes\<close>.\<close>

definition consumed :: "u_char list \<Rightarrow> nat \<Rightarrow> u_char list option \<Rightarrow> bool" where
  "consumed bytes len p = (case p of None \<Rightarrow> False | Some p \<Rightarrow> int (length bytes) - int (length p) = int len)"

definition as_utf8_flexible_buffer :: "symbol \<Rightarrow> u_char list" where
  "as_utf8_flexible_buffer s = s @ [0]"

definition verify_legal_field_signature :: "ClassFileParser \<Rightarrow> symbol \<Rightarrow> symbol \<Rightarrow> fault + unit" where
  "verify_legal_field_signature cfp name signature =
    (if \<not> cfp_need_verify cfp then Inr ()
     else let bytes = as_utf8_flexible_buffer signature; len = length signature
          in rbind (skip_over_field_signature cfp bytes False len) (\<lambda>p.
             if \<not> consumed bytes len p then throwIllegalSignature ''Field'' else Inr ()))"

lemma class_name_loop_shorter: "class_name_loop sig n = Inr p \<Longrightarrow> length p \<le> length sig"
  by (induction sig n rule: class_name_loop.induct) (auto simp: classfile_parse_error_def split: if_splits)

lemma after_semicolon: "(case p of [] \<Rightarrow> Inl Undefined_Behaviour | c # p' \<Rightarrow> Inr (if c = 59 then Some p' else None)) = Inr (Some q) \<longleftrightarrow> p = 59 # q"
  by (auto split: list.splits if_splits)

lemma skip_class_shorter:
  assumes "skip_class_signature cfp rest len = Inr (Some q)" shows "length q < Suc (length rest)"
proof (cases "cfp_major_version cfp < JAVA_1_5_VERSION")
  case True
  then have "skip_name_loop cfp True rest (int len) False False = Inr (Some (59 # q))"
    using assms by (auto simp: skip_class_signature_def skip_over_field_name_def rbind_Inr_iff after_semicolon split: option.splits if_splits)
  then show ?thesis using skip_name_shorter by fastforce
next
  case False
  then have "class_name_loop rest len = Inr (59 # q)"
    using assms by (simp add: skip_class_signature_def rbind_Inr_iff after_semicolon)
  then show ?thesis using class_name_loop_shorter by fastforce
qed

lemma skip_signature_shorter: "skip_signature_loop cfp sig v len d = Inr (Some q) \<Longrightarrow> length q < length sig"
proof (induction len arbitrary: sig v d)
  case (Suc len)
  then obtain c rest where sig: "sig = c # rest" by (cases sig) auto
  note step = Suc.prems [unfolded sig skip_signature_loop.simps list.case]
  show ?case
  proof (cases "c = 91")
    case True
    then have "skip_signature_loop cfp rest False len (d + 1) = Inr (Some q)"
      using step by (simp add: base_signature_def classfile_parse_error_def split: if_splits)
    then show ?thesis using Suc.IH sig by fastforce
  next
    case False
    then show ?thesis using step sig skip_class_shorter [of cfp rest len q] by (simp split: if_splits)
  qed
qed simp

text \<open>The loop over the parameters, with the words they take; where it stops, and what is left.\<close>

function parameters_loop :: "ClassFileParser \<Rightarrow> u_char list \<Rightarrow> nat \<Rightarrow> nat \<Rightarrow> fault + nat \<times> u_char list \<times> nat" where
  "parameters_loop cfp p len args_size =
    rbind (skip_over_field_signature cfp p False len) (\<lambda>nextp. case nextp of None \<Rightarrow> Inr (args_size, p, len)
      | Some q \<Rightarrow>
         if len > 0 then (case p of [] \<Rightarrow> Inl Undefined_Behaviour
           | c # _ \<Rightarrow> parameters_loop cfp q (usub len (length p - length q)) (args_size + (if c = 74 \<or> c = 68 then 2 else 1)))
         else Inr (args_size, p, len))"
  by pat_completeness auto
termination
  by (relation "measure (\<lambda>(cfp, p, len, args_size). length p)")
    (auto simp: skip_over_field_signature_def dest: skip_signature_shorter)

declare parameters_loop.simps [simp del]

text \<open>The test of the result type, after the closing parenthesis.\<close>

definition return_check :: "ClassFileParser \<Rightarrow> symbol \<Rightarrow> nat \<Rightarrow> u_char list \<Rightarrow> nat \<Rightarrow> fault + int" where
  "return_check cfp name args_size p len =
    (if name \<noteq> [] \<and> hd name = 60
     then if len = 1 then (case p of [] \<Rightarrow> Inl Undefined_Behaviour
            | c # _ \<Rightarrow> if c = 86 then Inr (int args_size) else throwIllegalSignature ''Method'')
          else throwIllegalSignature ''Method''
     else rbind (skip_over_field_signature cfp p True len) (\<lambda>nextp.
          if consumed p len nextp then Inr (int args_size) else throwIllegalSignature ''Method''))"

definition verify_legal_method_signature :: "ClassFileParser \<Rightarrow> symbol \<Rightarrow> symbol \<Rightarrow> fault + int" where
  "verify_legal_method_signature cfp name signature =
    (if \<not> cfp_need_verify cfp then Inr (-2)
     else let p = as_utf8_flexible_buffer signature; len = length signature
          in if len > 0 \<and> hd p = 40 then
               rbind (parameters_loop cfp (tl p) (len - 1) 0) (\<lambda>(args_size, p, len).
               if len > 0 then (case p of [] \<Rightarrow> Inl Undefined_Behaviour
                 | c # p \<Rightarrow> if c = 41 then return_check cfp name args_size p (len - 1) else throwIllegalSignature ''Method'')
               else throwIllegalSignature ''Method'')
             else throwIllegalSignature ''Method'')"

section \<open>Legal names\<close>

definition class_initializer_name :: symbol where "class_initializer_name = symbol_of ''<clinit>''"

definition whole_field_name :: "ClassFileParser \<Rightarrow> u_char list \<Rightarrow> bool \<Rightarrow> nat \<Rightarrow> fault + bool" where
  "whole_field_name cfp bytes slash_ok len =
     rbind (skip_over_field_name cfp bytes slash_ok len) (\<lambda>p. Inr (consumed bytes len p))"

definition verify_legal_class_name :: "ClassFileParser \<Rightarrow> symbol \<Rightarrow> fault + unit" where
  "verify_legal_class_name cfp name =
    (if \<not> cfp_need_verify cfp \<or> cfp_relax_verify cfp then Inr ()
     else let bytes = as_utf8_flexible_buffer name; len = length name
          in rbind (if len > 0 then
                      if hd bytes = 91
                      then rbind (skip_over_field_signature cfp bytes False len) (\<lambda>p. Inr (consumed bytes len p))
                      else if cfp_major_version cfp < JAVA_1_5_VERSION
                      then if hd bytes \<noteq> 60 then whole_field_name cfp bytes True len else Inr False
                      else verify_unqualified_name bytes len LegalClass
                    else Inr False) (\<lambda>legal.
             if \<not> legal then classfile_parse_error ''Illegal class name \"%s\" in class file %s'' else Inr ()))"

definition verify_legal_field_name :: "ClassFileParser \<Rightarrow> symbol \<Rightarrow> fault + unit" where
  "verify_legal_field_name cfp name =
    (if \<not> cfp_need_verify cfp \<or> cfp_relax_verify cfp then Inr ()
     else let bytes = as_utf8_flexible_buffer name; len = length name
          in rbind (if len > 0 then
                      if cfp_major_version cfp < JAVA_1_5_VERSION
                      then if hd bytes \<noteq> 60 then whole_field_name cfp bytes False len else Inr False
                      else verify_unqualified_name bytes len LegalField
                    else Inr False) (\<lambda>legal.
             if \<not> legal then classfile_parse_error ''Illegal field name \"%s\" in class %s'' else Inr ()))"

definition verify_legal_method_name :: "ClassFileParser \<Rightarrow> symbol \<Rightarrow> fault + unit" where
  "verify_legal_method_name cfp name =
    (if \<not> cfp_need_verify cfp \<or> cfp_relax_verify cfp then Inr ()
     else let bytes = as_utf8_flexible_buffer name; len = length name
          in rbind (if len > 0 then
                      if hd bytes = 60 then Inr (name = object_initializer_name \<or> name = class_initializer_name)
                      else if cfp_major_version cfp < JAVA_1_5_VERSION then whole_field_name cfp bytes False len
                      else verify_unqualified_name bytes len LegalMethod
                    else Inr False) (\<lambda>legal.
             if \<not> legal then classfile_parse_error ''Illegal method name \"%s\" in class %s'' else Inr ()))"

section \<open>Modifiers and versions\<close>

definition acc :: "jint \<Rightarrow> nat \<Rightarrow> bool" where "acc access k \<longleftrightarrow> access AND push_bit k 1 \<noteq> 0"

definition verify_legal_class_modifiers :: "ClassFileParser \<Rightarrow> jint \<Rightarrow> fault + unit" where
  "verify_legal_class_modifiers cfp access =
    (if \<not> cfp_need_verify cfp then Inr ()
     else let is_interface = acc access 9; is_abstract = acc access 10; is_final = acc access 4; is_super = acc access 5;
              is_enum = acc access 14; is_annotation = acc access 13; major_gte_15 = cfp_major_version cfp \<ge> JAVA_1_5_VERSION
          in if (is_abstract \<and> is_final) \<or> (is_interface \<and> \<not> is_abstract) \<or>
                (is_interface \<and> major_gte_15 \<and> (is_super \<or> is_enum)) \<or> (\<not> is_interface \<and> major_gte_15 \<and> is_annotation)
             then classfile_parse_error ''Illegal class modifiers in class %s: 0x%X'' else Inr ())"

definition has_illegal_visibility :: "jint \<Rightarrow> bool" where
  "has_illegal_visibility access =
    (let is_public = acc access 0; is_protected = acc access 2; is_private = acc access 1
     in (is_public \<and> is_protected) \<or> (is_public \<and> is_private) \<or> (is_protected \<and> is_private))"

definition is_supported_version :: "bool \<Rightarrow> bool \<Rightarrow> u2 \<Rightarrow> u2 \<Rightarrow> bool" where
  "is_supported_version gte_jdk17x gte_jdk16x major minor =
    (let max_version = (if gte_jdk17x then 52 else if gte_jdk16x then 50 else 49)
     in major \<ge> 45 \<and> major \<le> max_version \<and> (major \<noteq> max_version \<or> minor \<le> 0))"

definition verify_legal_field_modifiers :: "ClassFileParser \<Rightarrow> jint \<Rightarrow> bool \<Rightarrow> fault + unit" where
  "verify_legal_field_modifiers cfp access is_interface =
    (if \<not> cfp_need_verify cfp then Inr ()
     else let is_public = acc access 0; is_protected = acc access 2; is_private = acc access 1; is_static = acc access 3;
              is_final = acc access 4; is_volatile = acc access 6; is_transient = acc access 7; is_enum = acc access 14;
              major_gte_15 = cfp_major_version cfp \<ge> JAVA_1_5_VERSION;
              is_illegal =
                (if is_interface
                 then \<not> is_public \<or> \<not> is_static \<or> \<not> is_final \<or> is_private \<or> is_protected \<or> is_volatile \<or> is_transient \<or>
                      (major_gte_15 \<and> is_enum)
                 else has_illegal_visibility access \<or> (is_final \<and> is_volatile))
          in if is_illegal then classfile_parse_error ''Illegal field modifiers in class %s: 0x%X'' else Inr ())"

definition verify_legal_method_modifiers :: "ClassFileParser \<Rightarrow> jint \<Rightarrow> bool \<Rightarrow> symbol \<Rightarrow> fault + unit" where
  "verify_legal_method_modifiers cfp access is_interface name =
    (if \<not> cfp_need_verify cfp then Inr ()
     else let is_public = acc access 0; is_private = acc access 1; is_static = acc access 3; is_final = acc access 4;
              is_native = acc access 8; is_abstract = acc access 10; is_bridge = acc access 6; is_strict = acc access 11;
              is_synchronized = acc access 5; is_protected = acc access 2;
              major_gte_15 = cfp_major_version cfp \<ge> JAVA_1_5_VERSION; major_gte_8 = cfp_major_version cfp \<ge> JAVA_8_VERSION;
              is_initializer = (name = object_initializer_name);
              is_illegal =
                (if is_interface then
                   if major_gte_8
                   then is_public = is_private \<or> (is_native \<or> is_protected \<or> is_final \<or> is_synchronized) \<or>
                        (is_abstract \<and> (is_private \<or> is_static \<or> is_strict))
                   else if major_gte_15
                   then \<not> is_public \<or> is_static \<or> is_final \<or> is_synchronized \<or> is_native \<or> \<not> is_abstract \<or> is_strict
                   else \<not> is_public \<or> is_static \<or> is_final \<or> is_native \<or> \<not> is_abstract
                 else if is_initializer
                 then is_static \<or> is_final \<or> is_synchronized \<or> is_native \<or> is_abstract \<or> (major_gte_15 \<and> is_bridge)
                 else (is_abstract \<and> (is_final \<or> is_native \<or> is_private \<or> is_static \<or>
                         (major_gte_15 \<and> (is_synchronized \<or> is_strict)))) \<or> has_illegal_visibility access)
          in if is_illegal then classfile_parse_error ''Method %s in class %s has illegal modifiers: 0x%X'' else Inr ())"

end
