(* ===== verification/Stack_Map_Table.thy ===== *)
theory Stack_Map_Table
  imports Stack_Map_Frame Constant_Pool
begin

text \<open>
  The stack map table of a method: \<open>classfile/stackMapTable.{hpp,cpp}\<close>, the classes
  \<open>StackMapStream\<close>, \<open>StackMapReader\<close> and \<open>StackMapTable\<close>.

  The reader does not stop at its first error: it records it, as a pending exception or in the
  verifier, and checks for it later.  The recorded error is the field \<open>sr_fault\<close>; an operation
  that is not defined ends the model at once, as the left value of the result.  Fresh arrays are
  lists of the elements that are written to them, the null array is the empty list.
\<close>

unbundle bit_operations_syntax

section \<open>The stream\<close>

record StackMapReader =
  sr_cp :: ConstantPool
  sr_data :: "u1 list option"
  sr_index :: int
  sr_code_data :: "u1 list"
  sr_code_length :: int
  sr_fault :: "fault option"

definition record_fault :: "fault \<Rightarrow> StackMapReader \<Rightarrow> StackMapReader" where
  "record_fault e r = r\<lparr>sr_fault := Some (case sr_fault r of None \<Rightarrow> e | Some e0 \<Rightarrow> later_fault e0 e)\<rparr>"

definition java_lang_ClassFormatError :: symbol where
  "java_lang_ClassFormatError = symbol_of ''java/lang/ClassFormatError''"

definition stackmap_format_error :: "string \<Rightarrow> StackMapReader \<Rightarrow> StackMapReader" where
  "stackmap_format_error msg =
     record_fault (Pending_Exception java_lang_ClassFormatError (''StackMapTable format error: '' @ msg))"

definition sms_get_u1 :: "StackMapReader \<Rightarrow> u1 \<times> StackMapReader" where
  "sms_get_u1 r =
    (case sr_data r of
       Some d \<Rightarrow> if sr_index r \<ge> int (length d)
                then (0, stackmap_format_error ''access beyond the end of attribute'' r)
                else (d ! nat (sr_index r), r\<lparr>sr_index := sr_index r + 1\<rparr>)
     | None \<Rightarrow> (0, stackmap_format_error ''access beyond the end of attribute'' r))"

definition sms_get_u2 :: "StackMapReader \<Rightarrow> u2 \<times> StackMapReader" where
  "sms_get_u2 r =
    (case sr_data r of
       Some d \<Rightarrow> if sr_index r \<ge> int (length d) - 1
                then (0, stackmap_format_error ''access beyond the end of attribute'' r)
                else (push_bit 8 (ucast (d ! nat (sr_index r))) OR ucast (d ! nat (sr_index r + 1)),
                      r\<lparr>sr_index := sr_index r + 2\<rparr>)
     | None \<Rightarrow> (0, stackmap_format_error ''access beyond the end of attribute'' r))"

definition sms_at_end :: "StackMapReader \<Rightarrow> bool" where
  "sms_at_end r \<longleftrightarrow> (case sr_data r of None \<Rightarrow> True | Some d \<Rightarrow> sr_index r = int (length d))"

definition check_end :: "StackMapReader \<Rightarrow> StackMapReader" where
  "check_end r = (if \<not> sms_at_end r then stackmap_format_error ''wrong attribute size'' r else r)"

section \<open>The reader\<close>

definition SAME_LOCALS_1_STACK_ITEM_EXTENDED :: int where "SAME_LOCALS_1_STACK_ITEM_EXTENDED = 247"
definition SAME_EXTENDED :: int where "SAME_EXTENDED = 251"
definition FULL :: int where "FULL = 255"
definition BYTECODE_OFFSET :: u1 where "BYTECODE_OFFSET = 1"
definition NEW_OFFSET :: u1 where "NEW_OFFSET = 2"

text \<open>The constructor, and the frame count it sets.  When reading the count fails, the
  constructor returns without setting it: \<open>None\<close>.\<close>

definition new_reader ::
    "ConstantPool \<Rightarrow> u1 list option \<Rightarrow> u1 list \<Rightarrow> int \<Rightarrow> StackMapReader \<times> int option" where
  "new_reader cp data code_data code_len =
    (let r = \<lparr>sr_cp = cp, sr_data = data, sr_index = 0, sr_code_data = code_data,
              sr_code_length = code_len, sr_fault = None\<rparr>
     in if data \<noteq> None
        then (case sms_get_u2 r of (n, r) \<Rightarrow> (r, if sr_fault r \<noteq> None then None else Some (uint n)))
        else (r, Some 0))"

definition check_verification_type_array_size :: "int \<Rightarrow> int \<Rightarrow> StackMapReader \<Rightarrow> StackMapReader" where
  "check_verification_type_array_size sz max_size r =
    (if sz < 0 \<or> sz > max_size
     then record_fault (Class_Format_Error ''StackMapTable format error: bad type array size'') r else r)"

text \<open>\<open>null\<close> tells whether the array is null.  The element before the first one is read when
  the frame has no locals but an array.\<close>

fun chop_loop :: "VerificationType list \<Rightarrow> int \<Rightarrow> nat \<Rightarrow> fault + int" where
  "chop_loop ls pos 0 = Inr (pos + 1)"
| "chop_loop ls pos (Suc chops) = rbind (arr_get ls pos) (\<lambda>t.
     let pos = (if is_category2_2nd t then pos - 2 else pos - 1)
     in if pos < 0 \<and> chops > 0 then Inr (- 1) else chop_loop ls pos chops)"

definition chop :: "bool \<Rightarrow> VerificationType list \<Rightarrow> int \<Rightarrow> int \<Rightarrow> fault + int" where
  "chop null ls len chops = (if null then Inr (- 1) else chop_loop ls (len - 1) (nat chops))"

definition parse_verification_type ::
    "u1 option \<Rightarrow> StackMapReader \<Rightarrow> fault + VerificationType \<times> u1 option \<times> StackMapReader" where
  "parse_verification_type fl r =
    (case sms_get_u1 r of (tag, r) \<Rightarrow>
     if tag < ITEM_UninitializedThis then rbind (from_tag tag) (\<lambda>t. Inr (t, fl, r))
     else if tag = ITEM_Object then
       (case sms_get_u2 r of (class_index, r) \<Rightarrow>
        let i = uint class_index; bad = (bogus_type, fl, stackmap_format_error ''bad class index'' r)
        in if i \<le> 0 \<or> i \<ge> cp_length (sr_cp r) then Inr bad
           else rbind (tag_at i (sr_cp r)) (\<lambda>ct.
             if \<not> tag_is_klass ct \<and> \<not> tag_is_unresolved_klass ct then Inr bad
             else rbind (klass_name_at i (sr_cp r)) (\<lambda>name. Inr (reference_type name, fl, r))))
     else if tag = ITEM_UninitializedThis then
       Inr (uninitialized_this_type, map_option (\<lambda>w. w OR FLAG_THIS_UNINIT) fl, r)
     else if tag = ITEM_Uninitialized then
       (case sms_get_u2 r of (offset, r) \<Rightarrow>
        let bad = (bogus_type, fl, record_fault
              (Class_Format_Error ''StackMapTable format error: bad offset for Uninitialized'') r)
        in if uint offset \<ge> sr_code_length r then Inr bad
           else rbind (arr_get (sr_code_data r) (uint offset)) (\<lambda>c.
             if c \<noteq> NEW_OFFSET then Inr bad else Inr (uninitialized_type offset, fl, r)))
     else Inr (bogus_type, fl, stackmap_format_error ''bad verification type'' r))"

text \<open>The loops over the entries of an append frame and of a full frame: every type of two
  slots is followed by its second half.\<close>

fun parse_types ::
    "nat \<Rightarrow> u1 option \<Rightarrow> StackMapReader \<Rightarrow> fault + VerificationType list \<times> u1 option \<times> StackMapReader" where
  "parse_types 0 fl r = Inr ([], fl, r)"
| "parse_types (Suc n) fl r = rbind (parse_verification_type fl r) (\<lambda>(t, fl, r).
     rbind (parse_types n fl r) (\<lambda>(ts, fl, r).
       Inr ((if is_category2 t then [t, to_category2_2nd t] else [t]) @ ts, fl, r)))"

definition frame_offset :: "bool \<Rightarrow> int \<Rightarrow> StackMapFrame \<Rightarrow> int" where
  "frame_offset first delta pre_frame = (if first then delta else smf_offset pre_frame + delta + 1)"

text \<open>The locals of a frame that keeps the first \<open>n\<close> locals of its predecessor: for the first frame
  a copy, since the verifier updates the array of the initial frame, later a shared array.\<close>

definition keep_locals :: "bool \<Rightarrow> int \<Rightarrow> StackMapFrame \<Rightarrow> StackMapFrame \<Rightarrow> fault + StackMapFrame" where
  "keep_locals first n pre_frame frame =
    (if first then if n > 0 then copy_locals pre_frame (frame\<lparr>locals := replicate (nat n) bogus_type\<rparr>)
                   else Inr (frame\<lparr>locals := []\<rparr>)
     else Inr (frame\<lparr>locals := locals pre_frame\<rparr>))"

text \<open>Return \<open>NULL\<close> when an error is recorded (\<open>CHECK_VERIFY_\<close>), else go on.\<close>

definition check_verify ::
    "StackMapReader \<Rightarrow> (unit \<Rightarrow> fault + StackMapFrame option \<times> StackMapReader) \<Rightarrow>
     fault + StackMapFrame option \<times> StackMapReader" where
  "check_verify r k = (if sr_fault r \<noteq> None then Inr (None, r) else k ())"

text \<open>The array of locals of a frame is null when the frame comes from the table and has none;
  the initial frame always has an array.\<close>

definition null_locals :: "StackMapFrame \<Rightarrow> bool" where
  "null_locals f \<longleftrightarrow> locals f = [] \<and> stack_mark f = - 1"

definition same_frame ::
    "StackMapFrame \<Rightarrow> bool \<Rightarrow> u2 \<Rightarrow> u2 \<Rightarrow> int \<Rightarrow> StackMapReader \<Rightarrow> fault + StackMapFrame option \<times> StackMapReader" where
  "same_frame pre_frame first mlocals mstack delta r =
     rbind (keep_locals first (locals_size pre_frame) pre_frame
       (table_frame (frame_offset first delta pre_frame) (flags pre_frame) (locals_size pre_frame) 0
          mlocals mstack [] [])) (\<lambda>f. Inr (Some f, r))"

definition same_locals_1_stack_item_frame ::
    "StackMapFrame \<Rightarrow> bool \<Rightarrow> u2 \<Rightarrow> u2 \<Rightarrow> int \<Rightarrow> StackMapReader \<Rightarrow> fault + StackMapFrame option \<times> StackMapReader" where
  "same_locals_1_stack_item_frame pre_frame first mlocals mstack delta r =
     rbind (parse_verification_type None r) (\<lambda>(t, _, r).
     check_verify r (\<lambda>_.
       let st = (if is_category2 t then [t, to_category2_2nd t] else [t]);
           r = check_verification_type_array_size (int (length st)) (uint mstack) r
       in check_verify r (\<lambda>_.
            rbind (keep_locals first (locals_size pre_frame) pre_frame
              (table_frame (frame_offset first delta pre_frame) (flags pre_frame) (locals_size pre_frame)
                 (int (length st)) mlocals mstack [] st)) (\<lambda>f. Inr (Some f, r)))))"

definition chop_flags :: "VerificationType list \<Rightarrow> int \<Rightarrow> fault + u1" where
  "chop_flags ls new_length =
    (if new_length \<le> int (length ls)
     then Inr (if list_ex is_uninitialized_this (take (nat new_length) ls) then FLAG_THIS_UNINIT else 0)
     else Inl Undefined_Behaviour)"

definition chop_frame ::
    "StackMapFrame \<Rightarrow> bool \<Rightarrow> u2 \<Rightarrow> u2 \<Rightarrow> int \<Rightarrow> int \<Rightarrow> StackMapReader \<Rightarrow>
     fault + StackMapFrame option \<times> StackMapReader" where
  "chop_frame pre_frame first mlocals mstack delta chops r =
    (let build = (\<lambda>new_length flgs r.
           rbind (keep_locals first new_length pre_frame
             (table_frame (frame_offset first delta pre_frame) flgs new_length 0 mlocals mstack [] []))
             (\<lambda>f. Inr (Some f, r)))
     in if chops \<noteq> 0
        then rbind (chop (null_locals pre_frame) (locals pre_frame) (locals_size pre_frame) chops) (\<lambda>new_length.
             let r = check_verification_type_array_size new_length (uint mlocals) r
             in check_verify r (\<lambda>_.
                  rbind (chop_flags (locals pre_frame) new_length) (\<lambda>flgs. build new_length flgs r)))
        else build (locals_size pre_frame) (flags pre_frame) r)"

definition append_frame ::
    "StackMapFrame \<Rightarrow> bool \<Rightarrow> u2 \<Rightarrow> u2 \<Rightarrow> int \<Rightarrow> int \<Rightarrow> StackMapReader \<Rightarrow>
     fault + StackMapFrame option \<times> StackMapReader" where
  "append_frame pre_frame first mlocals mstack delta appends r =
    (if locals_size pre_frame \<le> int (length (locals pre_frame))
     then rbind (parse_types (nat appends) (Some (flags pre_frame)) r) (\<lambda>(ts, fl, r).
          let ls = take (nat (locals_size pre_frame)) (locals pre_frame) @ ts;
              r = check_verification_type_array_size (int (length ls)) (uint mlocals) r
          in check_verify r (\<lambda>_.
               Inr (Some (table_frame (frame_offset first delta pre_frame) (the fl) (int (length ls)) 0
                 mlocals mstack ls []), r)))
     else Inl Undefined_Behaviour)"

definition full_frame ::
    "StackMapFrame \<Rightarrow> bool \<Rightarrow> u2 \<Rightarrow> u2 \<Rightarrow> int \<Rightarrow> StackMapReader \<Rightarrow> fault + StackMapFrame option \<times> StackMapReader" where
  "full_frame pre_frame first mlocals mstack delta r =
    (case sms_get_u2 r of (lsize, r) \<Rightarrow>
     rbind (parse_types (unat lsize) (Some 0) r) (\<lambda>(ls, fl, r).
     let r = check_verification_type_array_size (int (length ls)) (uint mlocals) r
     in check_verify r (\<lambda>_.
       case sms_get_u2 r of (ssize, r) \<Rightarrow>
       rbind (parse_types (unat ssize) None r) (\<lambda>(st, _, r).
       let r = check_verification_type_array_size (int (length st)) (uint mstack) r
       in check_verify r (\<lambda>_.
            Inr (Some (table_frame (frame_offset first delta pre_frame) (the fl) (int (length ls))
              (int (length st)) mlocals mstack ls st), r))))))"

definition reader_next ::
    "StackMapFrame \<Rightarrow> bool \<Rightarrow> u2 \<Rightarrow> u2 \<Rightarrow> StackMapReader \<Rightarrow> fault + StackMapFrame option \<times> StackMapReader" where
  "reader_next pre_frame first mlocals mstack r =
    (case sms_get_u1 r of (b, r) \<Rightarrow>
     let frame_type = uint b in
     if frame_type < 64 then same_frame pre_frame first mlocals mstack frame_type r
     else if frame_type < 128
     then same_locals_1_stack_item_frame pre_frame first mlocals mstack (frame_type - 64) r
     else case sms_get_u2 r of (d, r) \<Rightarrow>
       let delta = uint d;
           reserved = stackmap_format_error ''reserved frame type'' r in
       if frame_type < SAME_LOCALS_1_STACK_ITEM_EXTENDED then Inr (None, reserved)
       else if frame_type = SAME_LOCALS_1_STACK_ITEM_EXTENDED
       then same_locals_1_stack_item_frame pre_frame first mlocals mstack delta r
       else if frame_type \<le> SAME_EXTENDED
       then chop_frame pre_frame first mlocals mstack delta (SAME_EXTENDED - frame_type) r
       else if frame_type < SAME_EXTENDED + 4
       then append_frame pre_frame first mlocals mstack delta (frame_type - SAME_EXTENDED) r
       else if frame_type = FULL
       then full_frame pre_frame first mlocals mstack delta r
       else Inr (None, reserved))"

section \<open>The table\<close>

record StackMapTable =
  smt_code_length :: int
  smt_frame_array :: "StackMapFrame list"

definition smt_frame_count :: "StackMapTable \<Rightarrow> int" where
  "smt_frame_count t = int (length (smt_frame_array t))"

definition get_offset :: "int \<Rightarrow> StackMapTable \<Rightarrow> fault + int" where
  "get_offset index t = rbind (arr_get (smt_frame_array t) index) (\<lambda>f. Inr (smf_offset f))"

text \<open>The loop of the constructor, from frame \<open>i\<close> on: the frames, or the error that the caller
  finds recorded.  A frame is never null without an error.\<close>

fun read_frames ::
    "nat \<Rightarrow> bool \<Rightarrow> int \<Rightarrow> StackMapFrame \<Rightarrow> u2 \<Rightarrow> u2 \<Rightarrow> u1 list \<Rightarrow> int \<Rightarrow> StackMapReader \<Rightarrow>
     fault + StackMapFrame list \<times> StackMapReader" where
  "read_frames 0 first i pre_frame mlocals mstack code_data code_len r = Inr ([], r)"
| "read_frames (Suc n) first i pre_frame mlocals mstack code_data code_len r =
     rbind (reader_next pre_frame first mlocals mstack r) (\<lambda>(f, r).
     case sr_fault r of
       Some e \<Rightarrow> Inl e
     | None \<Rightarrow>
        (case f of None \<Rightarrow> Inl Undefined_Behaviour
         | Some frame \<Rightarrow>
            let offset = smf_offset frame;
                bad = Inl (Verify_Error BAD_STACKMAP 0 ''StackMapTable error: bad offset'')
            in if offset \<ge> code_len then bad
               else rbind (arr_get code_data offset) (\<lambda>c. if c = 0 then bad
                 else rbind (read_frames n False (i + 1) frame mlocals mstack code_data code_len r)
                        (\<lambda>(fs, r). Inr (frame # fs, r)))))"

definition new_table ::
    "StackMapReader \<Rightarrow> int option \<Rightarrow> StackMapFrame \<Rightarrow> u2 \<Rightarrow> u2 \<Rightarrow> u1 list \<Rightarrow> int \<Rightarrow> fault + StackMapTable" where
  "new_table r frame_count init_frame mlocals mstack code_data code_len =
    (case frame_count of
       None \<Rightarrow> Inl Undefined_Behaviour
     | Some n \<Rightarrow>
        rbind (read_frames (nat n) True 0 init_frame mlocals mstack code_data code_len r) (\<lambda>(fs, r).
        case sr_fault (check_end r) of
          Some e \<Rightarrow> Inl e
        | None \<Rightarrow> Inr \<lparr>smt_code_length = code_len, smt_frame_array = fs\<rparr>))"

fun index_from_offset :: "StackMapFrame list \<Rightarrow> int \<Rightarrow> nat" where
  "index_from_offset [] offset = 0"
| "index_from_offset (f # fs) offset = (if smf_offset f = offset then 0 else Suc (index_from_offset fs offset))"

definition get_index_from_offset :: "int \<Rightarrow> StackMapTable \<Rightarrow> int" where
  "get_index_from_offset offset t = int (index_from_offset (smt_frame_array t) offset)"

text \<open>The result tells whether the frames match, with the error context, and the updated frame.\<close>

definition match_stackmap_at ::
    "class_env \<Rightarrow> StackMapFrame \<Rightarrow> int \<Rightarrow> int \<Rightarrow> bool \<Rightarrow> bool \<Rightarrow> StackMapTable \<Rightarrow>
     fault + (FaultType \<times> int) option \<times> StackMapFrame" where
  "match_stackmap_at context frame target frame_index match_it update_it t =
    (if frame_index < 0 \<or> frame_index \<ge> smt_frame_count t
     then Inl (Verify_Error MISSING_STACKMAP (u2_of (smf_offset frame))
                 ''Expecting a stackmap frame at branch target %d'')
     else rbind (arr_get (smt_frame_array t) frame_index) (\<lambda>stackmap_frame.
          rbind (if match_it then frame_is_assignable_to context frame stackmap_frame else Inr None) (\<lambda>result.
            if update_it
            then let lsize = locals_size stackmap_frame; ssize = stack_size stackmap_frame
                 in rbind (if locals_size frame > lsize \<or> stack_size frame > ssize then reset frame else Inr frame)
                      (\<lambda>frame.
                    rbind (copy_locals stackmap_frame (set_locals_size lsize frame)) (\<lambda>frame.
                    rbind (copy_stack stackmap_frame (set_stack_size ssize frame)) (\<lambda>frame.
                      Inr (result, set_flags (flags stackmap_frame) frame))))
            else Inr (result, frame))))"

definition match_stackmap ::
    "class_env \<Rightarrow> StackMapFrame \<Rightarrow> int \<Rightarrow> bool \<Rightarrow> bool \<Rightarrow> StackMapTable \<Rightarrow>
     fault + (FaultType \<times> int) option \<times> StackMapFrame" where
  "match_stackmap context frame target match_it update_it t =
     match_stackmap_at context frame target (get_index_from_offset target t) match_it update_it t"

definition check_jump_target :: "class_env \<Rightarrow> StackMapFrame \<Rightarrow> int \<Rightarrow> StackMapTable \<Rightarrow> fault + unit" where
  "check_jump_target context frame target t =
     rbind (match_stackmap context frame target True False t) (\<lambda>(result, _).
     case result of
       Some (k, bci) \<Rightarrow> Inl (Verify_Error k bci ''Inconsistent stackmap frames at branch target %d'')
     | None \<Rightarrow> if target < 0 \<or> target \<ge> smt_code_length t
               then Inl (Verify_Error NO_FAULT (- 1) ''Inconsistent stackmap frames at branch target %d'')
               else Inr ())"

section \<open>The reader stays in its bounds\<close>

text \<open>
  A reader over a pool whose class entries have names of types keeps that property, and each parsed
  type is a first slot or a single slot.
\<close>

section \<open>Well-formed tables\<close>

definition pool_klasses_ok :: "ConstantPool \<Rightarrow> bool" where
  "pool_klasses_ok cp \<longleftrightarrow> (\<forall>i t. tag_at i cp = Inr t \<and> (tag_is_klass t \<or> tag_is_unresolved_klass t) \<longrightarrow>
     (\<exists>n. klass_name_at i cp = Inr n \<and> sound_name n))"

definition reader_ok :: "StackMapReader \<Rightarrow> bool" where
  "reader_ok r \<longleftrightarrow> pool_klasses_ok (sr_cp r) \<and> int (length (sr_code_data r)) = sr_code_length r \<and> 0 \<le> sr_index r"

definition reader_step :: "StackMapReader \<Rightarrow> StackMapReader \<Rightarrow> bool" where
  "reader_step r r' \<longleftrightarrow> reader_ok r' \<and> (sr_fault r \<noteq> None \<longrightarrow> sr_fault r' \<noteq> None) \<and>
     (sr_fault r \<noteq> Some Undefined_Behaviour \<longrightarrow> sr_fault r' \<noteq> Some Undefined_Behaviour) \<and> sr_index r \<le> sr_index r' \<and>
     sr_cp r' = sr_cp r \<and> sr_data r' = sr_data r \<and> sr_code_data r' = sr_code_data r \<and> sr_code_length r' = sr_code_length r"

lemma reader_step_refl: "reader_ok r \<Longrightarrow> reader_step r r"
  by (simp add: reader_step_def)

lemma reader_step_trans: "reader_step a b \<Longrightarrow> reader_step b c \<Longrightarrow> reader_step a c"
  by (auto simp: reader_step_def)

lemma record_fault_step: "reader_ok r \<Longrightarrow> e \<noteq> Undefined_Behaviour \<Longrightarrow> reader_step r (record_fault e r)"
  by (cases e) (auto simp: reader_step_def record_fault_def reader_ok_def split: option.splits elim!: later_fault.elims)

lemma format_error_step: "reader_ok r \<Longrightarrow> reader_step r (stackmap_format_error m r)"
  by (simp add: stackmap_format_error_def record_fault_step)

lemma array_size_step: "reader_ok r \<Longrightarrow> reader_step r (check_verification_type_array_size n m r)"
  by (simp add: check_verification_type_array_size_def record_fault_step reader_step_refl)

lemma get_u1_step: "reader_ok r \<Longrightarrow> sms_get_u1 r = (b, r') \<Longrightarrow> reader_step r r'"
  using format_error_step [of r]
  by (auto simp: sms_get_u1_def reader_step_def reader_ok_def split: option.splits if_splits)

lemma get_u2_step: "reader_ok r \<Longrightarrow> sms_get_u2 r = (b, r') \<Longrightarrow> reader_step r r'"
  using format_error_step [of r]
  by (auto simp: sms_get_u2_def reader_step_def reader_ok_def split: option.splits if_splits)

lemma step_ok: "reader_step r r' \<Longrightarrow> reader_ok r'"
  by (simp add: reader_step_def)

lemma from_tag_ok: "tag < ITEM_UninitializedThis \<Longrightarrow> \<exists>t. from_tag tag = Inr t \<and> sound_type t"
proof -
  assume "tag < ITEM_UninitializedThis"
  then have "unat tag < 6" by (simp add: item_consts word_less_nat_alt)
  then have "unat tag \<in> {0, 1, 2, 3, 4, 5}" by auto
  then have "tag \<in> {0, 1, 2, 3, 4, 5}" by (auto simp: word_unat_eq_iff)
  then show ?thesis by (auto simp: from_tag_def item_consts)
qed

lemma category2_half2:
  assumes "sound_type t"
  shows "is_category2 t \<longleftrightarrow> half2 t \<noteq> None" "is_category2 t \<Longrightarrow> half2 t = Some (to_category2_2nd t)"
    "is_category2_2nd t \<longleftrightarrow> is_half2 t"
proof -
  have u: "half2 (uninitialized_type b) = None" "\<not> is_half2 (uninitialized_type b)" for b
    using uninit_single [of "uninitialized_type b"] by (simp_all add: single_def)
  show "is_category2 t \<longleftrightarrow> half2 t \<noteq> None" "is_category2 t \<Longrightarrow> half2 t = Some (to_category2_2nd t)"
    "is_category2_2nd t \<longleftrightarrow> is_half2 t"
    using assms u
    by (auto simp: sound_data value_types_def half2_def is_half2_def type_defs vt_consts to_category2_2nd_def is_type_defs)
qed

text \<open>One parsed type with its second half, if it has one.\<close>

definition slots_of :: "VerificationType \<Rightarrow> VerificationType list" where
  "slots_of t = (if is_category2 t then [t, to_category2_2nd t] else [t])"

definition not_second :: "VerificationType \<Rightarrow> bool" where
  "not_second t \<longleftrightarrow> sound_type t \<and> \<not> is_half2 t"

lemma slots_of_ok:
  assumes "not_second t"
  shows "pairs_ok (slots_of t)" "list_all sound_type (slots_of t)"
proof -
  have s: "sound_type t" "\<not> is_half2 t" using assms by (auto simp: not_second_def)
  note c = category2_half2 [OF s(1)]
  show "pairs_ok (slots_of t)" using c s(2) by (auto simp: slots_of_def single_def intro: double_pairs single_pairs)
  have "sound_type (to_category2_2nd t)"
    by (auto simp: to_category2_2nd_def sound_data value_types_def type_defs)
  then show "list_all sound_type (slots_of t)" using s(1) by (simp add: slots_of_def)
qed

lemma not_second_simps [simp]: "not_second bogus_type" "not_second (uninitialized_type b)" "sound_name s \<Longrightarrow> not_second (reference_type s)"
proof -
  show "not_second bogus_type" "not_second (uninitialized_type b)"
    using single_bogus uninit_single [of "uninitialized_type b"] by (simp_all add: not_second_def single_def)
  show "sound_name s \<Longrightarrow> not_second (reference_type s)"
    by (simp add: not_second_def is_half2_def reference_type_def long2_type_def double2_type_def)
qed

lemma from_tag_not_second: "tag < ITEM_UninitializedThis \<Longrightarrow> \<exists>t. from_tag tag = Inr t \<and> not_second t"
proof -
  assume a: "tag < ITEM_UninitializedThis"
  obtain t where t: "from_tag tag = Inr t" "sound_type t" using from_tag_ok [OF a] by blast
  then have "\<not> is_half2 t"
    by (auto simp: from_tag_def is_half2_def type_defs vt_consts split: if_splits)
  then show ?thesis using t by (auto simp: not_second_def)
qed

lemma parse_type_ok:
  assumes ok: "reader_ok r"
  shows "\<exists>t fl' r'. parse_verification_type fl r = Inr (t, fl', r') \<and> not_second t \<and> reader_step r r' \<and>
    (fl' = None \<longleftrightarrow> fl = None)"
proof -
  obtain tag r1 where 1: "sms_get_u1 r = (tag, r1)" by fastforce
  note s1 = get_u1_step [OF ok 1] and ok1 = step_ok [OF get_u1_step [OF ok 1]]
  obtain i r2 where 2: "sms_get_u2 r1 = (i, r2)" by fastforce
  note s2 = reader_step_trans [OF s1 get_u2_step [OF ok1 2]] and ok2 = step_ok [OF get_u2_step [OF ok1 2]]
  consider (small) "tag < ITEM_UninitializedThis" | (obj) "\<not> tag < ITEM_UninitializedThis" "tag = ITEM_Object"
    | (this) "tag = ITEM_UninitializedThis" | (uninit) "\<not> tag < ITEM_UninitializedThis" "tag = ITEM_Uninitialized"
    | (bad) "\<not> tag < ITEM_UninitializedThis" "tag \<noteq> ITEM_Object" "tag \<noteq> ITEM_UninitializedThis" "tag \<noteq> ITEM_Uninitialized"
    by blast
  then show ?thesis
  proof cases
    case small
    then show ?thesis using 1 s1 from_tag_not_second [OF small] by (auto simp: parse_verification_type_def)
  next
    case obj
    let ?bad = "stackmap_format_error ''bad class index'' r2"
    have bad: "reader_step r ?bad" by (rule reader_step_trans [OF s2 format_error_step [OF ok2]])
    show ?thesis
    proof (cases "uint i \<le> 0 \<or> uint i \<ge> cp_length (sr_cp r2)")
      case True
      then show ?thesis using obj 1 2 bad by (auto simp: parse_verification_type_def Let_def)
    next
      case False
      then obtain ct where ct: "tag_at (uint i) (sr_cp r2) = Inr ct"
        by (auto simp: tag_at_def arr_get_def cp_length_def)
      show ?thesis
      proof (cases "tag_is_klass ct \<or> tag_is_unresolved_klass ct")
        case True
        then obtain n where "klass_name_at (uint i) (sr_cp r2) = Inr n" "sound_name n"
          using ok2 ct unfolding reader_ok_def pool_klasses_ok_def by blast
        then show ?thesis using obj 1 2 False ct True s2 by (auto simp: parse_verification_type_def Let_def)
      next
        case no: False
        then show ?thesis using obj 1 2 False ct bad by (auto simp: parse_verification_type_def Let_def)
      qed
    qed
  next
    case this
    then show ?thesis using 1 s1 by (auto simp: parse_verification_type_def item_consts uninitialized_this_type_def)
  next
    case uninit
    let ?bad = "record_fault (Class_Format_Error ''StackMapTable format error: bad offset for Uninitialized'') r2"
    have bad: "reader_step r ?bad" by (rule reader_step_trans [OF s2 record_fault_step [OF ok2]]) simp
    show ?thesis
    proof (cases "uint i \<ge> sr_code_length r2")
      case True
      then show ?thesis using uninit 1 2 bad by (auto simp: parse_verification_type_def Let_def item_consts)
    next
      case False
      then obtain c where "arr_get (sr_code_data r2) (uint i) = Inr c"
        using ok2 by (auto simp: reader_ok_def arr_get_def)
      then show ?thesis using uninit 1 2 False bad s2
        by (cases "c = NEW_OFFSET") (auto simp: parse_verification_type_def Let_def item_consts)
    qed
  next
    case bad
    then show ?thesis using 1 reader_step_trans [OF s1 format_error_step [OF ok1]]
      by (auto simp: parse_verification_type_def)
  qed
qed

lemma parse_types_ok:
  "reader_ok r \<Longrightarrow> \<exists>ts fl' r'. parse_types n fl r = Inr (ts, fl', r') \<and> pairs_ok ts \<and> list_all sound_type ts \<and>
     length ts \<le> 2 * n \<and> reader_step r r' \<and> (fl' = None \<longleftrightarrow> fl = None)"
proof (induction n arbitrary: fl r)
  case 0
  then show ?case by (simp add: pairs_ok_def reader_step_refl)
next
  case (Suc n)
  obtain t fl1 r1 where 1: "parse_verification_type fl r = Inr (t, fl1, r1)" "not_second t" "reader_step r r1"
    "fl1 = None \<longleftrightarrow> fl = None" using parse_type_ok [OF Suc.prems] by blast
  obtain ts fl2 r2 where 2: "parse_types n fl1 r1 = Inr (ts, fl2, r2)" "pairs_ok ts" "list_all sound_type ts"
    "length ts \<le> 2 * n" "reader_step r1 r2" "fl2 = None \<longleftrightarrow> fl1 = None" using Suc.IH [OF step_ok [OF 1(3)]] by blast
  have "parse_types (Suc n) fl r = Inr (slots_of t @ ts, fl2, r2)" using 1 2 by (simp add: slots_of_def)
  moreover have "length (slots_of t @ ts) \<le> 2 * Suc n" using 2(4) by (simp add: slots_of_def)
  ultimately show ?case
    using slots_of_ok [OF 1(2)] 1(4) 2(2,3,6) reader_step_trans [OF 1(3) 2(5)] pairs_ok_append by fastforce
qed

section \<open>Frames read after a frame\<close>

text \<open>
  Chopping and keeping the locals of the previous frame, and each of the frame kinds of the table.
\<close>

lemma pairs_ok_take:
  assumes ok: "pairs_ok xs" and k: "k < length xs \<Longrightarrow> \<not> is_half2 (xs ! k)"
  shows "pairs_ok (take k xs)"
  unfolding pairs_ok_def
proof (intro conjI allI impI)
  fix i u assume i: "i < length (take k xs)" "half2 (take k xs ! i) = Some u"
  then have x: "Suc i < length xs" "xs ! Suc i = u" using pairs_first [OF ok, of i u] by auto
  have "is_half2 u" using half2_facts(1) [of "xs ! i" u] i by simp
  then have "Suc i \<noteq> k" using k x by auto
  then show "Suc i < length (take k xs)" "take k xs ! Suc i = u" using x i(1) by auto
next
  fix i assume i: "i < length (take k xs)" "is_half2 (take k xs ! i)"
  then have "0 < i \<and> half2 (xs ! (i - 1)) = Some (xs ! i)" using pairs_second [OF ok, of i] by auto
  then show "0 < i" "half2 (take k xs ! (i - 1)) = Some (take k xs ! i)" using i(1) by auto
qed

lemma chop_loop_ok:
  "pairs_ok (take (nat (pos + 1)) ls) \<Longrightarrow> list_all sound_type (take (nat (pos + 1)) ls) \<Longrightarrow>
   pos < int (length ls) \<Longrightarrow> - 1 \<le> pos \<Longrightarrow> 0 \<le> pos \<or> chops = 0 \<Longrightarrow>
   \<exists>n. chop_loop ls pos chops = Inr n \<and> n \<le> pos + 1 \<and> - 1 \<le> n \<and> (0 \<le> n \<longrightarrow> pairs_ok (take (nat n) ls))"
proof (induction chops arbitrary: pos)
  case (Suc chops)
  let ?k = "nat pos" and ?xs = "take (nat (pos + 1)) ls"
  have p: "0 \<le> pos" using Suc.prems(5) by simp
  then have k: "nat (pos + 1) = Suc ?k" "?k < length ls" "?k < length ?xs" using Suc.prems(3) by auto
  have t: "?xs ! ?k = ls ! ?k" using k by simp
  have sound: "sound_type (ls ! ?k)" using Suc.prems(2) k(3) t by (metis list_all_length)
  define pos' where "pos' = (if is_category2_2nd (ls ! ?k) then pos - 2 else pos - 1)"
  have step: "- 1 \<le> pos' \<and> pos' < pos \<and> pairs_ok (take (nat (pos' + 1)) ls)"
  proof (cases "is_half2 (ls ! ?k)")
    case True
    then have h: "0 < ?k" "half2 (?xs ! (?k - 1)) = Some (?xs ! ?k)"
      using pairs_second [OF Suc.prems(1) k(3)] t by auto
    then have "\<not> is_half2 (?xs ! (?k - 1))" using half2_facts(1) by blast
    then have "pairs_ok (take (?k - 1) ?xs)" by (intro pairs_ok_take [OF Suc.prems(1)]) simp
    moreover have "take (?k - 1) ?xs = take (?k - 1) ls" using k(1) by simp
    moreover have "pos' = pos - 2" using True category2_half2(3) [OF sound] by (simp add: pos'_def)
    moreover from this h have "nat (pos' + 1) = ?k - 1" by auto
    ultimately show ?thesis using h(1) by auto
  next
    case False
    then have "pairs_ok (take ?k ?xs)" using t by (intro pairs_ok_take [OF Suc.prems(1)]) simp
    moreover have "take ?k ?xs = take ?k ls" using k(1) by simp
    moreover have "pos' = pos - 1" using False category2_half2(3) [OF sound] by (simp add: pos'_def)
    ultimately show ?thesis using p by auto
  qed
  have get: "arr_get ls pos = Inr (ls ! ?k)" using p Suc.prems(3) by (simp add: arr_get_def)
  have eq: "chop_loop ls pos (Suc chops) = (if pos' < 0 \<and> chops > 0 then Inr (- 1) else chop_loop ls pos' chops)"
    using get by (simp add: pos'_def Let_def)
  show ?case
  proof (cases "pos' < 0 \<and> chops > 0")
    case True
    then show ?thesis using eq p by simp
  next
    case False
    have "list_all sound_type (take (nat (pos' + 1)) ls)"
      using Suc.prems(2) step k(1) by (auto simp: list_all_length)
    then obtain n where "chop_loop ls pos' chops = Inr n" "n \<le> pos' + 1" "- 1 \<le> n" "0 \<le> n \<longrightarrow> pairs_ok (take (nat n) ls)"
      using Suc.IH [of pos'] step False Suc.prems(3) by force
    then show ?thesis using eq False step by force
  qed
qed auto

text \<open>What a frame needs so that the next frame can be read after it.\<close>

definition locals_ok :: "StackMapFrame \<Rightarrow> bool" where
  "locals_ok f \<longleftrightarrow> 0 \<le> smf_offset f \<and> 0 \<le> locals_size f \<and> locals_size f < 65536 \<and>
     locals_size f \<le> int (length (locals f)) \<and>
     pairs_ok (take (nat (locals_size f)) (locals f)) \<and> list_all sound_type (take (nat (locals_size f)) (locals f))"

lemma chop_ok:
  assumes f: "locals_ok f" and some: "null \<or> 0 < locals_size f" and c: "0 < chops"
  shows "\<exists>n. chop null (locals f) (locals_size f) chops = Inr n \<and> n \<le> locals_size f \<and>
    (0 \<le> n \<longrightarrow> pairs_ok (take (nat n) (locals f)))"
proof (cases null)
  case False
  then have "0 < locals_size f" using some by simp
  then show ?thesis
    using chop_loop_ok [of "locals_size f - 1" "locals f" "nat chops"] f False
    by (auto simp: chop_def locals_ok_def)
qed (use f in \<open>auto simp: chop_def locals_ok_def\<close>)

definition table_entry_ok :: "u2 \<Rightarrow> u2 \<Rightarrow> StackMapFrame \<Rightarrow> bool" where
  "table_entry_ok ml ms f \<longleftrightarrow> locals_ok f \<and> max_locals f = uint ml \<and> max_stack f = uint ms \<and>
     locals_size f \<le> uint ml \<and> 0 \<le> stack_size f \<and> stack_size f \<le> uint ms \<and>
     stack_size f = int (length (stack f)) \<and> pairs_ok (stack f) \<and> list_all sound_type (stack f)"

lemma u2_of_small: "0 \<le> n \<Longrightarrow> n < 65536 \<Longrightarrow> u2_of n = n"
  by (simp add: u2_of_def)

lemma keep_locals_ok:
  assumes pre: "locals_ok pre" and n: "0 \<le> n" "n \<le> locals_size pre" "pairs_ok (take (nat n) (locals pre))"
  shows "\<exists>ls. keep_locals first n pre (table_frame off fl n ss ml ms [] st) =
      Inr (table_frame off fl n ss ml ms ls st) \<and> n \<le> int (length ls) \<and>
    pairs_ok (take (nat n) ls) \<and> list_all sound_type (take (nat n) ls)"
proof -
  have b: "n < 65536" "n \<le> int (length (locals pre))" using pre n by (auto simp: locals_ok_def)
  have s: "list_all sound_type (take (nat n) (locals pre))"
    using pre n by (auto simp: locals_ok_def list_all_length)
  show ?thesis
  proof (cases "first \<and> n > 0")
    case True
    let ?ls = "take (nat n) (locals pre)"
    have "copy_types n (locals pre) (replicate (nat n) bogus_type) = Inr ?ls"
      using b(2) n(1) by (simp add: copy_types_def)
    moreover have "\<not> locals_size pre < n" using n(2) by simp
    ultimately have "keep_locals first n pre (table_frame off fl n ss ml ms [] st) = Inr (table_frame off fl n ss ml ms ?ls st)"
      using True b(1) u2_of_small [of n] by (simp add: keep_locals_def copy_locals_def table_frame_def Let_def)
    then show ?thesis using n s b(2) by (intro exI [of _ ?ls]) simp
  next
    case False
    then have "keep_locals first n pre (table_frame off fl n ss ml ms [] st) =
        Inr (table_frame off fl n ss ml ms (if first then [] else locals pre) st)"
      by (simp add: keep_locals_def table_frame_def)
    moreover have "n = 0" if first using that False n(1) by simp
    ultimately show ?thesis using n b s by (auto simp: pairs_ok_def intro!: exI [of _ "if first then [] else locals pre"])
  qed
qed

definition next_result ::
    "bool \<Rightarrow> u2 \<Rightarrow> u2 \<Rightarrow> StackMapFrame \<Rightarrow> bool \<Rightarrow> StackMapReader \<Rightarrow> fault + StackMapFrame option \<times> StackMapReader \<Rightarrow> bool" where
  "next_result chopped ml ms pre first r res \<longleftrightarrow>
    (case res of
       Inl e \<Rightarrow> chopped \<and> e = Undefined_Behaviour \<and> locals_size pre = 0 \<and> \<not> null_locals pre
     | Inr (None, r') \<Rightarrow> reader_step r r' \<and> sr_fault r' \<noteq> None
     | Inr (Some f, r') \<Rightarrow> reader_step r r' \<and> table_entry_ok ml ms f \<and> (first \<or> smf_offset pre < smf_offset f))"

lemma next_result_simps [simp]:
  "next_result chopped ml ms pre first r (Inr (None, r')) \<longleftrightarrow> reader_step r r' \<and> sr_fault r' \<noteq> None"
  "next_result chopped ml ms pre first r (Inr (Some f, r')) \<longleftrightarrow>
     reader_step r r' \<and> table_entry_ok ml ms f \<and> (first \<or> smf_offset pre < smf_offset f)"
  by (simp_all add: next_result_def)

lemma next_result_step:
  "reader_step r0 r \<Longrightarrow> next_result chopped ml ms pre first r res \<Longrightarrow> next_result chopped ml ms pre first r0 res"
  by (auto simp: next_result_def intro: reader_step_trans split: sum.splits prod.splits option.splits)

lemma check_verify_result:
  assumes "reader_step r0 r" "sr_fault r = None \<Longrightarrow> next_result chopped ml ms pre first r0 (k ())"
  shows "next_result chopped ml ms pre first r0 (check_verify r k)"
  using assms by (auto simp: check_verify_def)

definition pre_ok :: "u2 \<Rightarrow> StackMapFrame \<Rightarrow> bool" where
  "pre_ok ml pre \<longleftrightarrow> locals_ok pre \<and> locals_size pre \<le> uint ml"

lemma array_size_passed:
  "sr_fault (check_verification_type_array_size n m r) = None \<Longrightarrow> 0 \<le> n \<and> n \<le> m"
  by (auto simp: check_verification_type_array_size_def record_fault_def split: if_splits)

lemma table_frame_entry:
  assumes pre: "pre_ok ml pre" and d: "0 \<le> delta"
    and n: "0 \<le> n" "n \<le> uint ml" "n \<le> int (length ls)" "pairs_ok (take (nat n) ls)" "list_all sound_type (take (nat n) ls)"
    and st: "int (length st) \<le> uint ms" "pairs_ok st" "list_all sound_type st"
  shows "table_entry_ok ml ms (table_frame (frame_offset first delta pre) fl n (int (length st)) ml ms ls st) \<and>
    (first \<or> smf_offset pre < smf_offset (table_frame (frame_offset first delta pre) fl n (int (length st)) ml ms ls st))"
proof -
  have "n < 65536" "int (length st) < 65536" using n(2) st(1) uint_16_less [of ml] uint_16_less [of ms] by linarith+
  then have "u2_of n = n" "u2_of (int (length st)) = int (length st)" using n(1) by (simp_all add: u2_of_small)
  then show ?thesis
    using pre d n st \<open>n < 65536\<close>
    by (auto simp: table_frame_def table_entry_ok_def locals_ok_def pre_ok_def frame_offset_def)
qed

lemma full_locals_result:
  assumes "pre_ok ml pre" "0 \<le> delta" "reader_step r0 r"
    and "int (length ls) \<le> uint ml" "pairs_ok ls" "list_all sound_type ls"
    and "int (length st) \<le> uint ms" "pairs_ok st" "list_all sound_type st"
  shows "next_result chopped ml ms pre first r0
    (Inr (Some (table_frame (frame_offset first delta pre) fl (int (length ls)) (int (length st)) ml ms ls st), r))"
  using table_frame_entry [OF assms(1,2), of "int (length ls)" ls st ms first fl] assms by simp

lemma keep_locals_result:
  assumes pre: "pre_ok ml pre" and d: "0 \<le> delta" and r: "reader_step r0 r"
    and n: "0 \<le> n" "n \<le> locals_size pre" "pairs_ok (take (nat n) (locals pre))"
    and st: "int (length st) \<le> uint ms" "pairs_ok st" "list_all sound_type st"
  shows "next_result chopped ml ms pre first r0 (rbind (keep_locals first n pre
     (table_frame (frame_offset first delta pre) fl n (int (length st)) ml ms [] st)) (\<lambda>f. Inr (Some f, r)))"
proof -
  have l: "locals_ok pre" "n \<le> uint ml" using pre n(2) by (auto simp: pre_ok_def)
  obtain ls where ls: "keep_locals first n pre (table_frame (frame_offset first delta pre) fl n (int (length st)) ml ms [] st) =
      Inr (table_frame (frame_offset first delta pre) fl n (int (length st)) ml ms ls st)"
    "n \<le> int (length ls)" "pairs_ok (take (nat n) ls)" "list_all sound_type (take (nat n) ls)"
    using keep_locals_ok [OF l(1) n] by blast
  show ?thesis using table_frame_entry [OF pre d n(1) l(2) ls(2-4) st] r ls(1) by simp
qed

lemma pre_locals: "pre_ok ml pre \<Longrightarrow> 0 \<le> locals_size pre" "pre_ok ml pre \<Longrightarrow> pairs_ok (take (nat (locals_size pre)) (locals pre))"
  by (auto simp: pre_ok_def locals_ok_def)

lemma pairs_Nil [simp]: "pairs_ok []"
  by (simp add: pairs_ok_def)

lemma same_frame_ok:
  assumes "pre_ok ml pre" "0 \<le> delta" "reader_ok r"
  shows "next_result chopped ml ms pre first r (same_frame pre first ml ms delta r)"
  using keep_locals_result [OF assms(1,2) reader_step_refl [OF assms(3)] pre_locals(1) [OF assms(1)] order_refl
      pre_locals(2) [OF assms(1)], where st = "[]" and fl = "flags pre"]
  by (simp add: same_frame_def)

lemma same_locals_1_ok:
  assumes pre: "pre_ok ml pre" and d: "0 \<le> delta" and ok: "reader_ok r"
  shows "next_result chopped ml ms pre first r (same_locals_1_stack_item_frame pre first ml ms delta r)"
proof -
  obtain t fl r1 where 1: "parse_verification_type None r = Inr (t, fl, r1)" "not_second t" "reader_step r r1"
    using parse_type_ok [OF ok] by blast
  let ?r = "check_verification_type_array_size (int (length (slots_of t))) (uint ms) r1"
  have s: "reader_step r ?r" using array_size_step [OF step_ok [OF 1(3)]] reader_step_trans [OF 1(3)] by blast
  have inner: "next_result chopped ml ms pre first r (check_verify ?r (\<lambda>_. rbind (keep_locals first (locals_size pre) pre
      (table_frame (frame_offset first delta pre) (flags pre) (locals_size pre) (int (length (slots_of t))) ml ms [] (slots_of t)))
      (\<lambda>f. Inr (Some f, ?r))))"
    by (intro check_verify_result s keep_locals_result [OF pre d s] pre_locals [OF pre] order_refl slots_of_ok [OF 1(2)])
      (use array_size_passed in blast)
  have "next_result chopped ml ms pre first r (check_verify r1 (\<lambda>_. check_verify ?r (\<lambda>_. rbind (keep_locals first (locals_size pre) pre
      (table_frame (frame_offset first delta pre) (flags pre) (locals_size pre) (int (length (slots_of t))) ml ms [] (slots_of t)))
      (\<lambda>f. Inr (Some f, ?r)))))"
    by (rule check_verify_result [OF 1(3)]) (rule inner)
  then show ?thesis using 1(1) by (simp add: same_locals_1_stack_item_frame_def Let_def slots_of_def cong: if_cong)
qed

lemma chop_frame_ok:
  assumes pre: "pre_ok ml pre" and d: "0 \<le> delta" and ok: "reader_ok r" and c: "0 \<le> chops" "chops \<noteq> 0 \<Longrightarrow> chopped"
  shows "next_result chopped ml ms pre first r (chop_frame pre first ml ms delta chops r)"
proof -
  let ?build = "\<lambda>n fl r. rbind (keep_locals first n pre
      (table_frame (frame_offset first delta pre) fl n 0 ml ms [] [])) (\<lambda>f. Inr (Some f, r))"
  have build: "next_result chopped ml ms pre first r (?build n fl r')"
    if "reader_step r r'" "0 \<le> n" "n \<le> locals_size pre" "pairs_ok (take (nat n) (locals pre))" for n fl r'
    using keep_locals_result [OF pre d that, where st = "[]"] by simp
  consider (none) "chops = 0" | (ub) "chops \<noteq> 0" "\<not> null_locals pre" "locals_size pre = 0"
    | (chop) "chops \<noteq> 0" "null_locals pre \<or> 0 < locals_size pre" using pre_locals(1) [OF pre] by linarith
  then show ?thesis
  proof cases
    case none
    then show ?thesis using build [OF reader_step_refl [OF ok] pre_locals(1) [OF pre] order_refl pre_locals(2) [OF pre]]
      by (simp add: chop_frame_def)
  next
    case ub
    then obtain k where "nat chops = Suc k" using c by (cases "nat chops") auto
    then show ?thesis using ub c(2) by (simp add: chop_frame_def chop_def arr_get_def next_result_def)
  next
    case chop
    obtain n where n: "chop (null_locals pre) (locals pre) (locals_size pre) chops = Inr n" "n \<le> locals_size pre"
      "0 \<le> n \<longrightarrow> pairs_ok (take (nat n) (locals pre))"
      using chop_ok [of pre "null_locals pre" chops] pre chop c by (auto simp: pre_ok_def)
    let ?r = "check_verification_type_array_size n (uint ml) r"
    have "n \<le> int (length (locals pre))" using pre n(2) by (auto simp: pre_ok_def locals_ok_def)
    then have "next_result chopped ml ms pre first r (check_verify ?r (\<lambda>_. rbind (chop_flags (locals pre) n) (\<lambda>fl. ?build n fl ?r)))"
      using n array_size_passed [of n "uint ml" r]
      by (intro check_verify_result array_size_step [OF ok]) (simp add: chop_flags_def build array_size_step [OF ok])
    then show ?thesis using chop(1) n(1) by (simp add: chop_frame_def Let_def)
  qed
qed

lemma append_frame_ok:
  assumes pre: "pre_ok ml pre" and d: "0 \<le> delta" and ok: "reader_ok r"
  shows "next_result chopped ml ms pre first r (append_frame pre first ml ms delta appends r)"
proof -
  obtain ts fl r1 where 1: "parse_types (nat appends) (Some (flags pre)) r = Inr (ts, fl, r1)" "pairs_ok ts"
    "list_all sound_type ts" "reader_step r r1" using parse_types_ok [OF ok] by blast
  let ?ls = "take (nat (locals_size pre)) (locals pre) @ ts"
  let ?r = "check_verification_type_array_size (int (length ?ls)) (uint ml) r1"
  have s: "reader_step r ?r" using array_size_step [OF step_ok [OF 1(4)]] reader_step_trans [OF 1(4)] by blast
  have ls: "pairs_ok ?ls" "list_all sound_type ?ls"
    using pairs_ok_append [OF pre_locals(2) [OF pre] 1(2)] 1(3) pre by (auto simp: pre_ok_def locals_ok_def)
  have "next_result chopped ml ms pre first r (check_verify ?r (\<lambda>_. Inr (Some (table_frame (frame_offset first delta pre) (the fl)
      (int (length ?ls)) 0 ml ms ?ls []), ?r)))"
  proof (rule check_verify_result [OF s])
    assume "sr_fault ?r = None"
    then have "int (length ?ls) \<le> uint ml" using array_size_passed by blast
    show "next_result chopped ml ms pre first r (Inr (Some (table_frame (frame_offset first delta pre) (the fl)
      (int (length ?ls)) 0 ml ms ?ls []), ?r))"
      using full_locals_result [OF pre d s \<open>int (length ?ls) \<le> uint ml\<close> ls, where st = "[]" and fl = "the fl"]
      unfolding list.size(3) of_nat_0 by simp
  qed
  moreover have "locals_size pre \<le> int (length (locals pre))" using pre by (simp add: pre_ok_def locals_ok_def)
  ultimately show ?thesis using 1(1) by (simp add: append_frame_def Let_def)
qed

lemma full_frame_ok:
  assumes pre: "pre_ok ml pre" and d: "0 \<le> delta" and ok: "reader_ok r"
  shows "next_result chopped ml ms pre first r (full_frame pre first ml ms delta r)"
proof -
  obtain ln r1 where 1: "sms_get_u2 r = (ln, r1)" by fastforce
  note s1 = get_u2_step [OF ok 1]
  obtain ls fl r2 where 2: "parse_types (unat ln) (Some 0) r1 = Inr (ls, fl, r2)" "pairs_ok ls" "list_all sound_type ls"
    "reader_step r1 r2" using parse_types_ok [OF step_ok [OF s1]] by blast
  let ?r2 = "check_verification_type_array_size (int (length ls)) (uint ml) r2"
  have s2: "reader_step r ?r2"
    using array_size_step [OF step_ok [OF 2(4)]] reader_step_trans [OF reader_step_trans [OF s1 2(4)]] by blast
  obtain sn r3 where 3: "sms_get_u2 ?r2 = (sn, r3)" by fastforce
  note s3 = get_u2_step [OF step_ok [OF s2] 3]
  obtain st fl' r4 where 4: "parse_types (unat sn) None r3 = Inr (st, fl', r4)" "pairs_ok st" "list_all sound_type st"
    "reader_step r3 r4" using parse_types_ok [OF step_ok [OF s3]] by blast
  let ?r4 = "check_verification_type_array_size (int (length st)) (uint ms) r4"
  have s4: "reader_step r ?r4"
    using array_size_step [OF step_ok [OF 4(4)]] reader_step_trans [OF reader_step_trans [OF reader_step_trans [OF s2 s3] 4(4)]] by blast
  let ?f = "table_frame (frame_offset first delta pre) (the fl) (int (length ls)) (int (length st)) ml ms ls st"
  have inner: "next_result chopped ml ms pre first r (check_verify ?r4 (\<lambda>_. Inr (Some ?f, ?r4)))" if "int (length ls) \<le> uint ml"
  proof (rule check_verify_result [OF s4])
    assume "sr_fault ?r4 = None"
    then have "int (length st) \<le> uint ms" using array_size_passed by blast
    then show "next_result chopped ml ms pre first r (Inr (Some ?f, ?r4))"
      by (intro full_locals_result pre d s4 that 2(2,3) 4(2,3))
  qed
  have "next_result chopped ml ms pre first r (check_verify ?r2 (\<lambda>_. check_verify ?r4 (\<lambda>_. Inr (Some ?f, ?r4))))"
    by (rule check_verify_result [OF s2]) (use inner array_size_passed in blast)
  then show ?thesis using 1 2(1) 3 4(1) by (simp add: full_frame_def Let_def)
qed

text \<open>Whether the next frame is a chop frame.\<close>

definition at_chop :: "StackMapReader \<Rightarrow> bool" where
  "at_chop r \<longleftrightarrow> (case sms_get_u1 r of (b, _) \<Rightarrow> 248 \<le> uint b \<and> uint b \<le> 250)"

lemma reader_next_ok:
  assumes pre: "pre_ok ml pre" and ok: "reader_ok r"
  shows "next_result (at_chop r) ml ms pre first r (reader_next pre first ml ms r)"
proof -
  obtain b r1 where 1: "sms_get_u1 r = (b, r1)" by fastforce
  note s1 = get_u1_step [OF ok 1] and ok1 = step_ok [OF get_u1_step [OF ok 1]]
  obtain d r2 where 2: "sms_get_u2 r1 = (d, r2)" by fastforce
  note s2 = reader_step_trans [OF s1 get_u2_step [OF ok1 2]] and ok2 = step_ok [OF get_u2_step [OF ok1 2]]
  have bad: "reader_step r (stackmap_format_error m r2) \<and> sr_fault (stackmap_format_error m r2) \<noteq> None" for m
    using reader_step_trans [OF s2 format_error_step [OF ok2]] by (simp add: stackmap_format_error_def record_fault_def)
  have res: "next_result c ml ms pre first r (same_frame pre first ml ms (uint b) r1)"
    "64 \<le> uint b \<Longrightarrow> next_result c ml ms pre first r (same_locals_1_stack_item_frame pre first ml ms (uint b - 64) r1)"
    "next_result c ml ms pre first r (same_locals_1_stack_item_frame pre first ml ms (uint d) r2)"
    "next_result c ml ms pre first r (append_frame pre first ml ms (uint d) k r2)"
    "next_result c ml ms pre first r (full_frame pre first ml ms (uint d) r2)" for k c
    by (intro next_result_step [OF s1] next_result_step [OF s2] same_frame_ok same_locals_1_ok
        append_frame_ok full_frame_ok pre ok1 ok2; simp)+
  have chop: "next_result (at_chop r) ml ms pre first r (chop_frame pre first ml ms (uint d) (251 - uint b) r2)"
    if "247 < uint b" "uint b \<le> 251"
    by (rule next_result_step [OF s2], rule chop_frame_ok [OF pre _ ok2]) (use 1 that in \<open>auto simp: at_chop_def\<close>)
  show ?thesis using 1 2 res bad chop
    by (simp add: reader_next_def Let_def SAME_LOCALS_1_STACK_ITEM_EXTENDED_def SAME_EXTENDED_def FULL_def)
qed

section \<open>The table\<close>

lemma frame_ok_pre:
  assumes ok: "frame_ok f" and m: "max_locals f = uint ml" and off: "0 \<le> smf_offset f"
  shows "pre_ok ml f"
proof -
  let ?n = "nat (locals_size f)"
  have b: "0 \<le> locals_size f" "locals_size f \<le> int (length (locals f))" "locals_size f < 65536"
    using ok by (auto simp: frame_ok_def)
  have "\<not> is_half2 (locals f ! ?n)" if "?n < length (locals f)"
  proof -
    have "locals f ! ?n = bogus_type" using ok that b(1) by (simp add: frame_ok_def)
    then show ?thesis using single_bogus by (simp add: single_def)
  qed
  then have "pairs_ok (take ?n (locals f))" using ok by (intro pairs_ok_take) (auto simp: frame_ok_def)
  moreover have "list_all sound_type (take ?n (locals f))" using ok by (auto simp: frame_ok_def list_all_length)
  ultimately show ?thesis using b off ok m by (auto simp: pre_ok_def locals_ok_def frame_ok_def)
qed

lemma entry_pre: "table_entry_ok ml ms f \<Longrightarrow> pre_ok ml f"
  by (simp add: table_entry_ok_def pre_ok_def)

definition at_instruction :: "u1 list \<Rightarrow> int \<Rightarrow> StackMapFrame \<Rightarrow> bool" where
  "at_instruction code_data code_len f \<longleftrightarrow> 0 \<le> smf_offset f \<and> smf_offset f < code_len \<and> code_data ! nat (smf_offset f) \<noteq> 0"

lemma read_frames_ok:
  "pre_ok ml pre \<Longrightarrow> reader_ok r \<Longrightarrow> int (length code_data) = code_len \<Longrightarrow>
   read_frames n first i pre ml ms code_data code_len r = Inr (fs, r') \<Longrightarrow>
   length fs = n \<and> list_all (table_entry_ok ml ms) fs \<and> list_all (at_instruction code_data code_len) fs \<and>
   sorted_wrt (<) (map smf_offset fs) \<and> (first \<or> list_all (\<lambda>f. smf_offset pre < smf_offset f) fs)"
proof (induction n arbitrary: first i pre r fs r')
  case (Suc n)
  obtain f1 r1 where 1: "reader_next pre first ml ms r = Inr (f1, r1)" "sr_fault r1 = None"
    using Suc.prems(4) by (auto simp: rbind_Inr_iff split: option.splits)
  then obtain f where f: "f1 = Some f" using Suc.prems(4) by (cases f1) auto
  have next_ok: "reader_step r r1" "table_entry_ok ml ms f" "first \<or> smf_offset pre < smf_offset f"
    using reader_next_ok [OF Suc.prems(1,2), of ms first] 1(1) f by auto
  have off: "0 \<le> smf_offset f" using next_ok(2) by (simp add: table_entry_ok_def locals_ok_def)
  have in_code: "smf_offset f < code_len" using Suc.prems(4) 1 f by (auto simp: Let_def split: if_splits)
  then have c: "arr_get code_data (smf_offset f) = Inr (code_data ! nat (smf_offset f))"
    using off Suc.prems(3) by (simp add: arr_get_def)
  obtain gs where gs: "code_data ! nat (smf_offset f) \<noteq> 0" "fs = f # gs"
    "read_frames n False (i + 1) f ml ms code_data code_len r1 = Inr (gs, r')"
    using Suc.prems(4) 1 f in_code c by (auto simp: Let_def rbind_Inr_iff split: if_splits)
  note IH = Suc.IH [OF entry_pre [OF next_ok(2)] step_ok [OF next_ok(1)] Suc.prems(3) gs(3)]
  show ?case using IH gs next_ok off in_code
    by (auto simp: at_instruction_def list_all_iff intro: less_trans)
qed simp

text \<open>C7: a table that the reader accepts has the number of frames that the attribute announces; each frame
  stays within the limits of the method, holds only types of the verifier with every two-slot type followed by its second
  half, and lies at the start of an instruction; the offsets increase strictly.\<close>

theorem table_well_formed:
  assumes "frame_ok init" "max_locals init = uint ml" "0 \<le> smf_offset init" "reader_ok r"
    and "int (length code_data) = code_len" "new_table r (Some n) init ml ms code_data code_len = Inr t"
  shows "smt_frame_count t = max 0 n \<and> list_all (table_entry_ok ml ms) (smt_frame_array t) \<and>
    list_all (at_instruction code_data code_len) (smt_frame_array t) \<and>
    sorted_wrt (<) (map smf_offset (smt_frame_array t)) \<and> smt_code_length t = code_len"
proof -
  obtain fs r' where fs: "read_frames (nat n) True 0 init ml ms code_data code_len r = Inr (fs, r')"
    and t: "t = \<lparr>smt_code_length = code_len, smt_frame_array = fs\<rparr>"
    using assms(6) by (auto simp: new_table_def rbind_Inr_iff split: option.splits)
  show ?thesis using read_frames_ok [OF frame_ok_pre [OF assms(1-3)] assms(4,5) fs] t
    by (auto simp: smt_frame_count_def)
qed

text \<open>The frame that an update leaves: the types of the table frame, nothing above them.\<close>

lemma reset_eq: "frame_ok f \<Longrightarrow> reset f =
    Inr (f\<lparr>locals := replicate (length (locals f)) bogus_type, stack := replicate (length (stack f)) bogus_type\<rparr>)"
  by (auto simp: reset_def fill_bogus_def frame_ok_def)

lemma update_base:
  assumes ok: "frame_ok f" and e: "table_entry_ok ml ms g" and m: "max_locals f = uint ml" "max_stack f = uint ms"
  shows "\<exists>ls st. (if locals_size f > locals_size g \<or> stack_size f > stack_size g then reset f else Inr f) =
      Inr (f\<lparr>locals := ls, stack := st\<rparr>) \<and> int (length ls) = uint ml \<and> int (length st) = uint ms \<and>
    (\<forall>i < length ls. locals_size g \<le> int i \<longrightarrow> ls ! i = bogus_type) \<and> list_all sound_type st"
proof (cases "locals_size f > locals_size g \<or> stack_size f > stack_size g")
  case True
  then show ?thesis using reset_eq [OF ok] ok m
    by (intro exI [of _ "replicate (length (locals f)) bogus_type"] exI [of _ "replicate (length (stack f)) bogus_type"])
      (auto simp: frame_ok_def)
next
  case False
  have "\<forall>i < length (locals f). locals_size g \<le> int i \<longrightarrow> locals f ! i = bogus_type"
    using ok False by (auto simp: frame_ok_def)
  then show ?thesis using False ok m by (intro exI [of _ "locals f"] exI [of _ "stack f"]) (auto simp: frame_ok_def)
qed

lemma updated_frame_ok:
  assumes ok: "frame_ok f" and e: "table_entry_ok ml ms g" and m: "max_locals f = uint ml" "max_stack f = uint ms"
    and ls: "int (length ls) = uint ml" "\<forall>i < length ls. locals_size g \<le> int i \<longrightarrow> ls ! i = bogus_type"
    and st: "int (length st) = uint ms" "list_all sound_type st"
  shows "frame_ok (f\<lparr>locals := take (nat (locals_size g)) (locals g) @ drop (nat (locals_size g)) ls,
    stack := stack g @ drop (nat (stack_size g)) st, locals_size := locals_size g, stack_size := stack_size g,
    stack_mark := stack_size g, flags := w\<rparr>)"
proof -
  let ?n = "nat (locals_size g)" and ?tl = "take (nat (locals_size g)) (locals g)"
  have g: "0 \<le> locals_size g" "locals_size g \<le> uint ml" "locals_size g \<le> int (length (locals g))" "pairs_ok ?tl"
    "list_all sound_type ?tl" "stack_size g = int (length (stack g))" "stack_size g \<le> uint ms" "list_all sound_type (stack g)"
    using e by (auto simp: table_entry_ok_def locals_ok_def)
  have d: "drop ?n ls = replicate (length ls - ?n) bogus_type"
    using ls(2) g(1) by (intro nth_equalityI) auto
  have "pairs_ok (?tl @ drop ?n ls)" unfolding d by (rule pairs_ok_append [OF g(4) pairs_ok_bogus])
  moreover have "list_all sound_type (?tl @ drop ?n ls)" unfolding d using g(5) by simp
  moreover have "list_all sound_type (stack g @ drop (nat (stack_size g)) st)"
    using g(8) st(2) by (auto simp: list_all_iff dest: in_set_dropD)
  moreover have "int (length (?tl @ drop ?n ls)) = uint ml" using g(1-3) ls(1) by auto
  moreover have "int (length (stack g @ drop (nat (stack_size g)) st)) = uint ms" using g(6,7) st(1) by auto
  moreover have "\<forall>i < length (?tl @ drop ?n ls). locals_size g \<le> int i \<longrightarrow> (?tl @ drop ?n ls) ! i = bogus_type"
    unfolding d using g(1,3) by (auto simp: nth_append)
  ultimately show ?thesis using m g(1,2,6,7) uint_16_less [of ml] uint_16_less [of ms] by (simp add: frame_ok_def)
qed

lemma update_from_entry:
  assumes ok: "frame_ok f" and m: "max_locals f = uint ml" "max_stack f = uint ms" and e: "table_entry_ok ml ms g"
  shows "\<exists>f'. rbind (if locals_size f > locals_size g \<or> stack_size f > stack_size g then reset f else Inr f) (\<lambda>frame.
      rbind (copy_locals g (set_locals_size (locals_size g) frame)) (\<lambda>frame.
      rbind (copy_stack g (set_stack_size (stack_size g) frame)) (\<lambda>frame. Inr (res, set_flags (flags g) frame)))) = Inr (res, f') \<and>
    frame_ok f' \<and> max_locals f' = max_locals f \<and> max_stack f' = max_stack f \<and>
    take (nat (locals_size f')) (locals f') = take (nat (locals_size g)) (locals g) \<and> locals_size f' = locals_size g \<and>
    take (nat (stack_size f')) (stack f') = stack g \<and> stack_size f' = stack_size g \<and> flags f' = flags g"
proof -
  obtain ls st where base: "(if locals_size f > locals_size g \<or> stack_size f > stack_size g then reset f else Inr f) =
      Inr (f\<lparr>locals := ls, stack := st\<rparr>)" and ls: "int (length ls) = uint ml" "\<forall>i < length ls. locals_size g \<le> int i \<longrightarrow> ls ! i = bogus_type"
    and st: "int (length st) = uint ms" "list_all sound_type st"
    using update_base [OF ok e m] by blast
  have sz: "0 \<le> locals_size g" "locals_size g \<le> uint ml" "locals_size g \<le> int (length (locals g))" "locals_size g < 65536"
    "stack_size g = int (length (stack g))" "stack_size g \<le> uint ms"
    using e by (auto simp: table_entry_ok_def locals_ok_def)
  have stk: "stack_size g < 65536" using sz(6) uint_16_less [of ms] by linarith
  have u: "u2_of (locals_size g) = locals_size g" "u2_of (stack_size g) = stack_size g"
    using sz stk by (simp_all add: u2_of_small)
  let ?f' = "f\<lparr>locals := take (nat (locals_size g)) (locals g) @ drop (nat (locals_size g)) ls,
    stack := stack g @ drop (nat (stack_size g)) st, locals_size := locals_size g, stack_size := stack_size g,
    stack_mark := stack_size g, flags := flags g\<rparr>"
  have copies: "copy_types (locals_size g) (locals g) ls = Inr (take (nat (locals_size g)) (locals g) @ drop (nat (locals_size g)) ls)"
    "copy_types (stack_size g) (stack g) st = Inr (stack g @ drop (nat (stack_size g)) st)"
    using sz ls(1) st(1) by (simp_all add: copy_types_def)
  have "rbind (if locals_size f > locals_size g \<or> stack_size f > stack_size g then reset f else Inr f) (\<lambda>frame.
      rbind (copy_locals g (set_locals_size (locals_size g) frame)) (\<lambda>frame.
      rbind (copy_stack g (set_stack_size (stack_size g) frame)) (\<lambda>frame. Inr (res, set_flags (flags g) frame)))) = Inr (res, ?f')"
    using base copies u by (simp add: set_locals_size_def set_stack_size_def copy_locals_def copy_stack_def set_flags_def)
  moreover have "frame_ok ?f'" by (rule updated_frame_ok [OF ok e m ls st])
  moreover have "take (nat (locals_size ?f')) (locals ?f') = take (nat (locals_size g)) (locals g)"
    "take (nat (stack_size ?f')) (stack ?f') = stack g" using sz by simp_all
  ultimately show ?thesis by (intro exI [of _ ?f']) simp
qed

text \<open>C17: updating the current frame from entry \<open>i\<close> of the table, without a check for assignability, always
  succeeds; it leaves a well-formed frame with exactly the locals, the stack and the flags of the entry.\<close>

theorem match_updates_frame:
  assumes ok: "frame_ok f" and m: "max_locals f = uint ml" "max_stack f = uint ms"
    and t: "list_all (table_entry_ok ml ms) (smt_frame_array t)" and i: "0 \<le> i" "i < smt_frame_count t"
  defines "g \<equiv> smt_frame_array t ! nat i"
  shows "\<exists>f'. match_stackmap_at context f target i False True t = Inr (None, f') \<and> frame_ok f' \<and>
    take (nat (locals_size f')) (locals f') = take (nat (locals_size g)) (locals g) \<and> locals_size f' = locals_size g \<and>
    take (nat (stack_size f')) (stack f') = stack g \<and> stack_size f' = stack_size g \<and> flags f' = flags g"
proof -
  have n: "nat i < length (smt_frame_array t)" using i by (auto simp: smt_frame_count_def)
  then have e: "table_entry_ok ml ms g" using t by (simp add: list_all_length g_def)
  have get: "arr_get (smt_frame_array t) i = Inr g" using i n by (simp add: arr_get_def g_def smt_frame_count_def)
  show ?thesis using update_from_entry [OF ok m e, of None] i get by (auto simp: match_stackmap_at_def Let_def)
qed

section \<open>When reading the table is undefined\<close>

text \<open>The next frame is a chop frame, and the frame before it has an array of locals but no locals.\<close>

definition empty_chop :: "StackMapFrame \<Rightarrow> StackMapReader \<Rightarrow> bool" where
  "empty_chop pre r \<longleftrightarrow> at_chop r \<and> locals_size pre = 0 \<and> \<not> null_locals pre"

lemma chop_undefined:
  assumes "empty_chop pre r" shows "reader_next pre first ml ms r = Inl Undefined_Behaviour"
proof -
  obtain b r1 where 1: "sms_get_u1 r = (b, r1)" by fastforce
  obtain d r2 where 2: "sms_get_u2 r1 = (d, r2)" by fastforce
  have b: "248 \<le> uint b" "uint b \<le> 250" "locals_size pre = 0" "\<not> null_locals pre" using assms 1 by (auto simp: empty_chop_def at_chop_def)
  have "nat (251 - uint b) = Suc (nat (250 - uint b))" using b(2) by simp
  then have "chop (null_locals pre) (locals pre) (locals_size pre) (251 - uint b) = Inl Undefined_Behaviour"
    using b(3,4) by (simp add: chop_def arr_get_def)
  then show ?thesis using 1 2 b(1,2)
    by (simp add: reader_next_def Let_def SAME_LOCALS_1_STACK_ITEM_EXTENDED_def SAME_EXTENDED_def chop_frame_def)
qed

lemma next_undefined_iff:
  assumes "pre_ok ml pre" "reader_ok r"
  shows "reader_next pre first ml ms r = Inl Undefined_Behaviour \<longleftrightarrow> empty_chop pre r"
  using reader_next_ok [OF assms, of ms first] chop_undefined [of pre r first ml ms] by (auto simp: next_result_def empty_chop_def)





text \<open>C28: Reading a frame is undefined exactly when it is a chop frame, of one to three locals, and the frame before it has an array of
  locals but no locals: the element before the first one is then read.  Every other frame is read or rejected.\<close>

theorem reader_next_undefined_iff:
  assumes "frame_ok init" "max_locals init = uint ml" "0 \<le> smf_offset init" "reader_ok r"
  shows "reader_next init first ml ms r = Inl Undefined_Behaviour \<longleftrightarrow>
    (case sms_get_u1 r of (b, _) \<Rightarrow> 248 \<le> uint b \<and> uint b \<le> 250) \<and> locals_size init = 0 \<and> \<not> null_locals init"
  using next_undefined_iff [OF frame_ok_pre [OF assms(1-3)] assms(4), of first ms] by (simp add: empty_chop_def at_chop_def)


lemma empty_pool_klasses: "pool_klasses_ok (empty_pool 1)"
  by (auto simp: pool_klasses_ok_def empty_pool_def tag_at_def arr_get_def tag_defs tag_values split: if_splits)

text \<open>The attribute of a static method without arguments: one frame, which drops two locals.\<close>

definition chop_data :: "u1 list" where "chop_data = [0, 1, 249, 0, 0]"

lemma chop_reader_new: "\<exists>r. new_reader (empty_pool 1) (Some chop_data) [1] 1 = (r, Some 1) \<and> reader_ok r \<and> sms_get_u1 r = (249, r\<lparr>sr_index := 3\<rparr>)"
  using empty_pool_klasses by (simp add: new_reader_def sms_get_u2_def sms_get_u1_def chop_data_def reader_ok_def)

lemma empty_initial: "frame_ok (new_frame 0 1)" "max_locals (new_frame 0 1) = uint (0 :: u2)" "0 \<le> smf_offset (new_frame 0 1)"
  "locals_size (new_frame 0 1) = 0" "\<not> null_locals (new_frame 0 1)"
  using new_frame_ok [of 0 1] by (simp_all add: new_frame_def null_locals_def)

theorem reader_next_undefined_iff_witness:
  "\<exists>r. new_reader (empty_pool 1) (Some chop_data) [1] 1 = (r, Some 1) \<and> reader_next (new_frame 0 1) True 0 1 r = Inl Undefined_Behaviour"
proof -
  obtain r where r: "new_reader (empty_pool 1) (Some chop_data) [1] 1 = (r, Some 1)" "reader_ok r" "sms_get_u1 r = (249, r\<lparr>sr_index := 3\<rparr>)"
    using chop_reader_new by blast
  then show ?thesis using reader_next_undefined_iff [OF empty_initial(1-3) r(2), of True 1] empty_initial(4,5) by auto
qed


text \<open>A table of two frames that keep the locals, at the offsets 0 and 2.\<close>

definition demo_reader :: StackMapReader where
  "demo_reader = \<lparr>sr_cp = empty_pool 1, sr_data = Some [0, 2, 0, 1], sr_index = 2, sr_code_data = [1, 0, 1],
     sr_code_length = 3, sr_fault = None\<rparr>"

lemma demo_reader_new: "new_reader (empty_pool 1) (Some [0, 2, 0, 1]) [1, 0, 1] 3 = (demo_reader, Some 2)"
  by (simp add: new_reader_def sms_get_u2_def demo_reader_def)

lemma demo_reader_ok: "reader_ok demo_reader"
  by (auto simp: reader_ok_def demo_reader_def pool_klasses_ok_def empty_pool_def tag_at_def arr_get_def tag_defs tag_values
      split: if_splits)

lemma demo_table:
  "\<exists>t. new_table demo_reader (Some 2) (new_frame 1 1) 1 1 [1, 0, 1] 3 = Inr t \<and> map smf_offset (smt_frame_array t) = [0, 2]"
  by (simp add: new_table_def demo_reader_def numeral_2_eq_2 reader_next_def sms_get_u1_def same_frame_def keep_locals_def
      frame_offset_def table_frame_def new_frame_def arr_get_def check_end_def sms_at_end_def Let_def)

theorem table_well_formed_witness:
  "\<exists>t. new_table demo_reader (Some 2) (new_frame 1 1) 1 1 [1, 0, 1] 3 = Inr t \<and> smt_frame_count t = 2 \<and>
     list_all (table_entry_ok 1 1) (smt_frame_array t) \<and> map smf_offset (smt_frame_array t) = [0, 2]"
proof -
  obtain t where t: "new_table demo_reader (Some 2) (new_frame 1 1) 1 1 [1, 0, 1] 3 = Inr t"
    "map smf_offset (smt_frame_array t) = [0, 2]" using demo_table by (elim exE conjE) (rule that; assumption)
  have "max_locals (new_frame 1 1) = uint (1 :: u2)" "0 \<le> smf_offset (new_frame 1 1)" by (simp_all add: new_frame_def)
  note m = this
  have "int (length [1, 0, 1 :: u1]) = 3" by simp
  note W = table_well_formed [OF new_frame_ok m demo_reader_ok this t(1)]
  have "smt_frame_count t = 2" using W by simp
  then show ?thesis using t W by (intro exI [of _ t]) (simp only: simp_thms)
qed

theorem match_updates_frame_witness:
  "\<exists>t f'. new_table demo_reader (Some 2) (new_frame 1 1) 1 1 [1, 0, 1] 3 = Inr t \<and>
     match_stackmap_at demo_env (new_frame 1 1) 2 1 False True t = Inr (None, f') \<and> frame_ok f' \<and> stack_size f' = stack_size (smt_frame_array t ! 1)"
proof -
  obtain t where t: "new_table demo_reader (Some 2) (new_frame 1 1) 1 1 [1, 0, 1] 3 = Inr t"
    "map smf_offset (smt_frame_array t) = [0, 2]" using demo_table by (elim exE conjE) (rule that; assumption)
  have m: "max_locals (new_frame 1 1) = uint (1 :: u2)" "max_stack (new_frame 1 1) = uint (1 :: u2)" "0 \<le> smf_offset (new_frame 1 1)"
    by (simp_all add: new_frame_def)
  have n: "length (smt_frame_array t) = 2" using arg_cong [OF t(2), of length] by simp
  obtain fs r' where fs: "read_frames 2 True 0 (new_frame 1 1) 1 1 [1, 0, 1] 3 demo_reader = Inr (fs, r')" "smt_frame_array t = fs"
    using t(1) by (auto simp: new_table_def rbind_Inr_iff split: option.splits)
  have e: "list_all (table_entry_ok 1 1) (smt_frame_array t)"
    using read_frames_ok [OF frame_ok_pre [OF new_frame_ok m(1,3)] demo_reader_ok _ fs(1)] fs(2) by simp
  have "(1 :: int) < smt_frame_count t" using n by (simp add: smt_frame_count_def)
  from match_updates_frame [OF new_frame_ok m(1,2) e _ this, of demo_env 2] obtain f' where
    "match_stackmap_at demo_env (new_frame 1 1) 2 1 False True t = Inr (None, f')" "frame_ok f'"
    "stack_size f' = stack_size (smt_frame_array t ! nat 1)" by (metis zero_le_one)
  then show ?thesis using t(1) by (intro exI [of _ t] exI [of _ f']) (simp only: nat_one_as_int simp_thms nat_1)
qed

end
