(* ===== verification/Bytecodes.thy ===== *)
theory Bytecodes
  imports Signature
begin

text \<open>
  The bytecodes: \<open>interpreter/bytecodes.{hpp,cpp}\<close> and the stream over unrewritten code,
  \<open>RawBytecodeStream\<close> of \<open>interpreter/bytecodeStream.{hpp,cpp}\<close>.

  The VM casts any byte to \<open>Bytecodes::Code\<close>, so a code is an \<open>int\<close> and the enumerators are
  constants (\<open>bc_nop\<close> for \<open>_nop\<close>).  The tables of \<open>Bytecodes\<close> are lists with one element per
  code; an access outside them is not defined, as an access outside the array is not.  The
  platform is x86, which adds no codes.  Assertions are not compiled in.
\<close>

unbundle bit_operations_syntax

section \<open>The codes\<close>

type_synonym Code = int

definition bc_illegal :: Code where "bc_illegal = - 1"
definition bc_nop :: Code where "bc_nop = 0"
definition bc_aconst_null :: Code where "bc_aconst_null = 1"
definition bc_iconst_m1 :: Code where "bc_iconst_m1 = 2"
definition bc_iconst_0 :: Code where "bc_iconst_0 = 3"
definition bc_iconst_1 :: Code where "bc_iconst_1 = 4"
definition bc_iconst_2 :: Code where "bc_iconst_2 = 5"
definition bc_iconst_3 :: Code where "bc_iconst_3 = 6"
definition bc_iconst_4 :: Code where "bc_iconst_4 = 7"
definition bc_iconst_5 :: Code where "bc_iconst_5 = 8"
definition bc_lconst_0 :: Code where "bc_lconst_0 = 9"
definition bc_lconst_1 :: Code where "bc_lconst_1 = 10"
definition bc_fconst_0 :: Code where "bc_fconst_0 = 11"
definition bc_fconst_1 :: Code where "bc_fconst_1 = 12"
definition bc_fconst_2 :: Code where "bc_fconst_2 = 13"
definition bc_dconst_0 :: Code where "bc_dconst_0 = 14"
definition bc_dconst_1 :: Code where "bc_dconst_1 = 15"
definition bc_bipush :: Code where "bc_bipush = 16"
definition bc_sipush :: Code where "bc_sipush = 17"
definition bc_ldc :: Code where "bc_ldc = 18"
definition bc_ldc_w :: Code where "bc_ldc_w = 19"
definition bc_ldc2_w :: Code where "bc_ldc2_w = 20"
definition bc_iload :: Code where "bc_iload = 21"
definition bc_lload :: Code where "bc_lload = 22"
definition bc_fload :: Code where "bc_fload = 23"
definition bc_dload :: Code where "bc_dload = 24"
definition bc_aload :: Code where "bc_aload = 25"
definition bc_iload_0 :: Code where "bc_iload_0 = 26"
definition bc_iload_1 :: Code where "bc_iload_1 = 27"
definition bc_iload_2 :: Code where "bc_iload_2 = 28"
definition bc_iload_3 :: Code where "bc_iload_3 = 29"
definition bc_lload_0 :: Code where "bc_lload_0 = 30"
definition bc_lload_1 :: Code where "bc_lload_1 = 31"
definition bc_lload_2 :: Code where "bc_lload_2 = 32"
definition bc_lload_3 :: Code where "bc_lload_3 = 33"
definition bc_fload_0 :: Code where "bc_fload_0 = 34"
definition bc_fload_1 :: Code where "bc_fload_1 = 35"
definition bc_fload_2 :: Code where "bc_fload_2 = 36"
definition bc_fload_3 :: Code where "bc_fload_3 = 37"
definition bc_dload_0 :: Code where "bc_dload_0 = 38"
definition bc_dload_1 :: Code where "bc_dload_1 = 39"
definition bc_dload_2 :: Code where "bc_dload_2 = 40"
definition bc_dload_3 :: Code where "bc_dload_3 = 41"
definition bc_aload_0 :: Code where "bc_aload_0 = 42"
definition bc_aload_1 :: Code where "bc_aload_1 = 43"
definition bc_aload_2 :: Code where "bc_aload_2 = 44"
definition bc_aload_3 :: Code where "bc_aload_3 = 45"
definition bc_iaload :: Code where "bc_iaload = 46"
definition bc_laload :: Code where "bc_laload = 47"
definition bc_faload :: Code where "bc_faload = 48"
definition bc_daload :: Code where "bc_daload = 49"
definition bc_aaload :: Code where "bc_aaload = 50"
definition bc_baload :: Code where "bc_baload = 51"
definition bc_caload :: Code where "bc_caload = 52"
definition bc_saload :: Code where "bc_saload = 53"
definition bc_istore :: Code where "bc_istore = 54"
definition bc_lstore :: Code where "bc_lstore = 55"
definition bc_fstore :: Code where "bc_fstore = 56"
definition bc_dstore :: Code where "bc_dstore = 57"
definition bc_astore :: Code where "bc_astore = 58"
definition bc_istore_0 :: Code where "bc_istore_0 = 59"
definition bc_istore_1 :: Code where "bc_istore_1 = 60"
definition bc_istore_2 :: Code where "bc_istore_2 = 61"
definition bc_istore_3 :: Code where "bc_istore_3 = 62"
definition bc_lstore_0 :: Code where "bc_lstore_0 = 63"
definition bc_lstore_1 :: Code where "bc_lstore_1 = 64"
definition bc_lstore_2 :: Code where "bc_lstore_2 = 65"
definition bc_lstore_3 :: Code where "bc_lstore_3 = 66"
definition bc_fstore_0 :: Code where "bc_fstore_0 = 67"
definition bc_fstore_1 :: Code where "bc_fstore_1 = 68"
definition bc_fstore_2 :: Code where "bc_fstore_2 = 69"
definition bc_fstore_3 :: Code where "bc_fstore_3 = 70"
definition bc_dstore_0 :: Code where "bc_dstore_0 = 71"
definition bc_dstore_1 :: Code where "bc_dstore_1 = 72"
definition bc_dstore_2 :: Code where "bc_dstore_2 = 73"
definition bc_dstore_3 :: Code where "bc_dstore_3 = 74"
definition bc_astore_0 :: Code where "bc_astore_0 = 75"
definition bc_astore_1 :: Code where "bc_astore_1 = 76"
definition bc_astore_2 :: Code where "bc_astore_2 = 77"
definition bc_astore_3 :: Code where "bc_astore_3 = 78"
definition bc_iastore :: Code where "bc_iastore = 79"
definition bc_lastore :: Code where "bc_lastore = 80"
definition bc_fastore :: Code where "bc_fastore = 81"
definition bc_dastore :: Code where "bc_dastore = 82"
definition bc_aastore :: Code where "bc_aastore = 83"
definition bc_bastore :: Code where "bc_bastore = 84"
definition bc_castore :: Code where "bc_castore = 85"
definition bc_sastore :: Code where "bc_sastore = 86"
definition bc_pop :: Code where "bc_pop = 87"
definition bc_pop2 :: Code where "bc_pop2 = 88"
definition bc_dup :: Code where "bc_dup = 89"
definition bc_dup_x1 :: Code where "bc_dup_x1 = 90"
definition bc_dup_x2 :: Code where "bc_dup_x2 = 91"
definition bc_dup2 :: Code where "bc_dup2 = 92"
definition bc_dup2_x1 :: Code where "bc_dup2_x1 = 93"
definition bc_dup2_x2 :: Code where "bc_dup2_x2 = 94"
definition bc_swap :: Code where "bc_swap = 95"
definition bc_iadd :: Code where "bc_iadd = 96"
definition bc_ladd :: Code where "bc_ladd = 97"
definition bc_fadd :: Code where "bc_fadd = 98"
definition bc_dadd :: Code where "bc_dadd = 99"
definition bc_isub :: Code where "bc_isub = 100"
definition bc_lsub :: Code where "bc_lsub = 101"
definition bc_fsub :: Code where "bc_fsub = 102"
definition bc_dsub :: Code where "bc_dsub = 103"
definition bc_imul :: Code where "bc_imul = 104"
definition bc_lmul :: Code where "bc_lmul = 105"
definition bc_fmul :: Code where "bc_fmul = 106"
definition bc_dmul :: Code where "bc_dmul = 107"
definition bc_idiv :: Code where "bc_idiv = 108"
definition bc_ldiv :: Code where "bc_ldiv = 109"
definition bc_fdiv :: Code where "bc_fdiv = 110"
definition bc_ddiv :: Code where "bc_ddiv = 111"
definition bc_irem :: Code where "bc_irem = 112"
definition bc_lrem :: Code where "bc_lrem = 113"
definition bc_frem :: Code where "bc_frem = 114"
definition bc_drem :: Code where "bc_drem = 115"
definition bc_ineg :: Code where "bc_ineg = 116"
definition bc_lneg :: Code where "bc_lneg = 117"
definition bc_fneg :: Code where "bc_fneg = 118"
definition bc_dneg :: Code where "bc_dneg = 119"
definition bc_ishl :: Code where "bc_ishl = 120"
definition bc_lshl :: Code where "bc_lshl = 121"
definition bc_ishr :: Code where "bc_ishr = 122"
definition bc_lshr :: Code where "bc_lshr = 123"
definition bc_iushr :: Code where "bc_iushr = 124"
definition bc_lushr :: Code where "bc_lushr = 125"
definition bc_iand :: Code where "bc_iand = 126"
definition bc_land :: Code where "bc_land = 127"
definition bc_ior :: Code where "bc_ior = 128"
definition bc_lor :: Code where "bc_lor = 129"
definition bc_ixor :: Code where "bc_ixor = 130"
definition bc_lxor :: Code where "bc_lxor = 131"
definition bc_iinc :: Code where "bc_iinc = 132"
definition bc_i2l :: Code where "bc_i2l = 133"
definition bc_i2f :: Code where "bc_i2f = 134"
definition bc_i2d :: Code where "bc_i2d = 135"
definition bc_l2i :: Code where "bc_l2i = 136"
definition bc_l2f :: Code where "bc_l2f = 137"
definition bc_l2d :: Code where "bc_l2d = 138"
definition bc_f2i :: Code where "bc_f2i = 139"
definition bc_f2l :: Code where "bc_f2l = 140"
definition bc_f2d :: Code where "bc_f2d = 141"
definition bc_d2i :: Code where "bc_d2i = 142"
definition bc_d2l :: Code where "bc_d2l = 143"
definition bc_d2f :: Code where "bc_d2f = 144"
definition bc_i2b :: Code where "bc_i2b = 145"
definition bc_i2c :: Code where "bc_i2c = 146"
definition bc_i2s :: Code where "bc_i2s = 147"
definition bc_lcmp :: Code where "bc_lcmp = 148"
definition bc_fcmpl :: Code where "bc_fcmpl = 149"
definition bc_fcmpg :: Code where "bc_fcmpg = 150"
definition bc_dcmpl :: Code where "bc_dcmpl = 151"
definition bc_dcmpg :: Code where "bc_dcmpg = 152"
definition bc_ifeq :: Code where "bc_ifeq = 153"
definition bc_ifne :: Code where "bc_ifne = 154"
definition bc_iflt :: Code where "bc_iflt = 155"
definition bc_ifge :: Code where "bc_ifge = 156"
definition bc_ifgt :: Code where "bc_ifgt = 157"
definition bc_ifle :: Code where "bc_ifle = 158"
definition bc_if_icmpeq :: Code where "bc_if_icmpeq = 159"
definition bc_if_icmpne :: Code where "bc_if_icmpne = 160"
definition bc_if_icmplt :: Code where "bc_if_icmplt = 161"
definition bc_if_icmpge :: Code where "bc_if_icmpge = 162"
definition bc_if_icmpgt :: Code where "bc_if_icmpgt = 163"
definition bc_if_icmple :: Code where "bc_if_icmple = 164"
definition bc_if_acmpeq :: Code where "bc_if_acmpeq = 165"
definition bc_if_acmpne :: Code where "bc_if_acmpne = 166"
definition bc_goto :: Code where "bc_goto = 167"
definition bc_jsr :: Code where "bc_jsr = 168"
definition bc_ret :: Code where "bc_ret = 169"
definition bc_tableswitch :: Code where "bc_tableswitch = 170"
definition bc_lookupswitch :: Code where "bc_lookupswitch = 171"
definition bc_ireturn :: Code where "bc_ireturn = 172"
definition bc_lreturn :: Code where "bc_lreturn = 173"
definition bc_freturn :: Code where "bc_freturn = 174"
definition bc_dreturn :: Code where "bc_dreturn = 175"
definition bc_areturn :: Code where "bc_areturn = 176"
definition bc_return :: Code where "bc_return = 177"
definition bc_getstatic :: Code where "bc_getstatic = 178"
definition bc_putstatic :: Code where "bc_putstatic = 179"
definition bc_getfield :: Code where "bc_getfield = 180"
definition bc_putfield :: Code where "bc_putfield = 181"
definition bc_invokevirtual :: Code where "bc_invokevirtual = 182"
definition bc_invokespecial :: Code where "bc_invokespecial = 183"
definition bc_invokestatic :: Code where "bc_invokestatic = 184"
definition bc_invokeinterface :: Code where "bc_invokeinterface = 185"
definition bc_invokedynamic :: Code where "bc_invokedynamic = 186"
definition bc_new :: Code where "bc_new = 187"
definition bc_newarray :: Code where "bc_newarray = 188"
definition bc_anewarray :: Code where "bc_anewarray = 189"
definition bc_arraylength :: Code where "bc_arraylength = 190"
definition bc_athrow :: Code where "bc_athrow = 191"
definition bc_checkcast :: Code where "bc_checkcast = 192"
definition bc_instanceof :: Code where "bc_instanceof = 193"
definition bc_monitorenter :: Code where "bc_monitorenter = 194"
definition bc_monitorexit :: Code where "bc_monitorexit = 195"
definition bc_wide :: Code where "bc_wide = 196"
definition bc_multianewarray :: Code where "bc_multianewarray = 197"
definition bc_ifnull :: Code where "bc_ifnull = 198"
definition bc_ifnonnull :: Code where "bc_ifnonnull = 199"
definition bc_goto_w :: Code where "bc_goto_w = 200"
definition bc_jsr_w :: Code where "bc_jsr_w = 201"
definition bc_breakpoint :: Code where "bc_breakpoint = 202"
definition number_of_java_codes :: Code where "number_of_java_codes = 203"
definition bc_fast_agetfield :: Code where "bc_fast_agetfield = 203"
definition bc_fast_bgetfield :: Code where "bc_fast_bgetfield = 204"
definition bc_fast_cgetfield :: Code where "bc_fast_cgetfield = 205"
definition bc_fast_dgetfield :: Code where "bc_fast_dgetfield = 206"
definition bc_fast_fgetfield :: Code where "bc_fast_fgetfield = 207"
definition bc_fast_igetfield :: Code where "bc_fast_igetfield = 208"
definition bc_fast_lgetfield :: Code where "bc_fast_lgetfield = 209"
definition bc_fast_sgetfield :: Code where "bc_fast_sgetfield = 210"
definition bc_fast_aputfield :: Code where "bc_fast_aputfield = 211"
definition bc_fast_bputfield :: Code where "bc_fast_bputfield = 212"
definition bc_fast_zputfield :: Code where "bc_fast_zputfield = 213"
definition bc_fast_cputfield :: Code where "bc_fast_cputfield = 214"
definition bc_fast_dputfield :: Code where "bc_fast_dputfield = 215"
definition bc_fast_fputfield :: Code where "bc_fast_fputfield = 216"
definition bc_fast_iputfield :: Code where "bc_fast_iputfield = 217"
definition bc_fast_lputfield :: Code where "bc_fast_lputfield = 218"
definition bc_fast_sputfield :: Code where "bc_fast_sputfield = 219"
definition bc_fast_aload_0 :: Code where "bc_fast_aload_0 = 220"
definition bc_fast_iaccess_0 :: Code where "bc_fast_iaccess_0 = 221"
definition bc_fast_aaccess_0 :: Code where "bc_fast_aaccess_0 = 222"
definition bc_fast_faccess_0 :: Code where "bc_fast_faccess_0 = 223"
definition bc_fast_iload :: Code where "bc_fast_iload = 224"
definition bc_fast_iload2 :: Code where "bc_fast_iload2 = 225"
definition bc_fast_icaload :: Code where "bc_fast_icaload = 226"
definition bc_fast_invokevfinal :: Code where "bc_fast_invokevfinal = 227"
definition bc_fast_linearswitch :: Code where "bc_fast_linearswitch = 228"
definition bc_fast_binaryswitch :: Code where "bc_fast_binaryswitch = 229"
definition bc_fast_aldc :: Code where "bc_fast_aldc = 230"
definition bc_fast_aldc_w :: Code where "bc_fast_aldc_w = 231"
definition bc_return_register_finalizer :: Code where "bc_return_register_finalizer = 232"
definition bc_invokehandle :: Code where "bc_invokehandle = 233"
definition bc_shouldnotreachhere :: Code where "bc_shouldnotreachhere = 234"
definition number_of_codes :: Code where "number_of_codes = 235"

lemmas bc_defs = bc_illegal_def bc_nop_def bc_aconst_null_def bc_iconst_m1_def bc_iconst_0_def bc_iconst_1_def
  bc_iconst_2_def bc_iconst_3_def bc_iconst_4_def bc_iconst_5_def bc_lconst_0_def bc_lconst_1_def
  bc_fconst_0_def bc_fconst_1_def bc_fconst_2_def bc_dconst_0_def bc_dconst_1_def bc_bipush_def
  bc_sipush_def bc_ldc_def bc_ldc_w_def bc_ldc2_w_def bc_iload_def bc_lload_def bc_fload_def
  bc_dload_def bc_aload_def bc_iload_0_def bc_iload_1_def bc_iload_2_def bc_iload_3_def
  bc_lload_0_def bc_lload_1_def bc_lload_2_def bc_lload_3_def bc_fload_0_def bc_fload_1_def
  bc_fload_2_def bc_fload_3_def bc_dload_0_def bc_dload_1_def bc_dload_2_def bc_dload_3_def
  bc_aload_0_def bc_aload_1_def bc_aload_2_def bc_aload_3_def bc_iaload_def bc_laload_def
  bc_faload_def bc_daload_def bc_aaload_def bc_baload_def bc_caload_def bc_saload_def
  bc_istore_def bc_lstore_def bc_fstore_def bc_dstore_def bc_astore_def bc_istore_0_def
  bc_istore_1_def bc_istore_2_def bc_istore_3_def bc_lstore_0_def bc_lstore_1_def bc_lstore_2_def
  bc_lstore_3_def bc_fstore_0_def bc_fstore_1_def bc_fstore_2_def bc_fstore_3_def bc_dstore_0_def
  bc_dstore_1_def bc_dstore_2_def bc_dstore_3_def bc_astore_0_def bc_astore_1_def bc_astore_2_def
  bc_astore_3_def bc_iastore_def bc_lastore_def bc_fastore_def bc_dastore_def bc_aastore_def
  bc_bastore_def bc_castore_def bc_sastore_def bc_pop_def bc_pop2_def bc_dup_def bc_dup_x1_def
  bc_dup_x2_def bc_dup2_def bc_dup2_x1_def bc_dup2_x2_def bc_swap_def bc_iadd_def bc_ladd_def
  bc_fadd_def bc_dadd_def bc_isub_def bc_lsub_def bc_fsub_def bc_dsub_def bc_imul_def bc_lmul_def
  bc_fmul_def bc_dmul_def bc_idiv_def bc_ldiv_def bc_fdiv_def bc_ddiv_def bc_irem_def bc_lrem_def
  bc_frem_def bc_drem_def bc_ineg_def bc_lneg_def bc_fneg_def bc_dneg_def bc_ishl_def bc_lshl_def
  bc_ishr_def bc_lshr_def bc_iushr_def bc_lushr_def bc_iand_def bc_land_def bc_ior_def bc_lor_def
  bc_ixor_def bc_lxor_def bc_iinc_def bc_i2l_def bc_i2f_def bc_i2d_def bc_l2i_def bc_l2f_def
  bc_l2d_def bc_f2i_def bc_f2l_def bc_f2d_def bc_d2i_def bc_d2l_def bc_d2f_def bc_i2b_def
  bc_i2c_def bc_i2s_def bc_lcmp_def bc_fcmpl_def bc_fcmpg_def bc_dcmpl_def bc_dcmpg_def
  bc_ifeq_def bc_ifne_def bc_iflt_def bc_ifge_def bc_ifgt_def bc_ifle_def bc_if_icmpeq_def
  bc_if_icmpne_def bc_if_icmplt_def bc_if_icmpge_def bc_if_icmpgt_def bc_if_icmple_def
  bc_if_acmpeq_def bc_if_acmpne_def bc_goto_def bc_jsr_def bc_ret_def bc_tableswitch_def
  bc_lookupswitch_def bc_ireturn_def bc_lreturn_def bc_freturn_def bc_dreturn_def bc_areturn_def
  bc_return_def bc_getstatic_def bc_putstatic_def bc_getfield_def bc_putfield_def
  bc_invokevirtual_def bc_invokespecial_def bc_invokestatic_def bc_invokeinterface_def
  bc_invokedynamic_def bc_new_def bc_newarray_def bc_anewarray_def bc_arraylength_def
  bc_athrow_def bc_checkcast_def bc_instanceof_def bc_monitorenter_def bc_monitorexit_def
  bc_wide_def bc_multianewarray_def bc_ifnull_def bc_ifnonnull_def bc_goto_w_def bc_jsr_w_def
  bc_breakpoint_def number_of_java_codes_def bc_fast_agetfield_def bc_fast_bgetfield_def
  bc_fast_cgetfield_def bc_fast_dgetfield_def bc_fast_fgetfield_def bc_fast_igetfield_def
  bc_fast_lgetfield_def bc_fast_sgetfield_def bc_fast_aputfield_def bc_fast_bputfield_def
  bc_fast_zputfield_def bc_fast_cputfield_def bc_fast_dputfield_def bc_fast_fputfield_def
  bc_fast_iputfield_def bc_fast_lputfield_def bc_fast_sputfield_def bc_fast_aload_0_def
  bc_fast_iaccess_0_def bc_fast_aaccess_0_def bc_fast_faccess_0_def bc_fast_iload_def
  bc_fast_iload2_def bc_fast_icaload_def bc_fast_invokevfinal_def bc_fast_linearswitch_def
  bc_fast_binaryswitch_def bc_fast_aldc_def bc_fast_aldc_w_def bc_return_register_finalizer_def
  bc_invokehandle_def bc_shouldnotreachhere_def number_of_codes_def

section \<open>The tables\<close>

definition bc_can_trap :: int where "bc_can_trap = push_bit 0 1"
definition bc_can_rewrite :: int where "bc_can_rewrite = push_bit 1 1"
definition fmt_has_c :: int where "fmt_has_c = push_bit 2 1"
definition fmt_has_j :: int where "fmt_has_j = push_bit 3 1"
definition fmt_has_k :: int where "fmt_has_k = push_bit 4 1"
definition fmt_has_i :: int where "fmt_has_i = push_bit 5 1"
definition fmt_has_o :: int where "fmt_has_o = push_bit 6 1"
definition fmt_has_nbo :: int where "fmt_has_nbo = push_bit 7 1"
definition fmt_has_u2 :: int where "fmt_has_u2 = push_bit 8 1"
definition fmt_has_u4 :: int where "fmt_has_u4 = push_bit 9 1"
definition fmt_not_variable :: int where "fmt_not_variable = push_bit 10 1"
definition fmt_not_simple :: int where "fmt_not_simple = push_bit 11 1"
definition all_fmt_bits :: int where "all_fmt_bits = fmt_not_simple * 2 - fmt_has_c"

lemmas flag_defs = bc_can_trap_def bc_can_rewrite_def fmt_has_c_def fmt_has_j_def fmt_has_k_def fmt_has_i_def
  fmt_has_o_def fmt_has_nbo_def fmt_has_u2_def fmt_has_u4_def fmt_not_variable_def fmt_not_simple_def
  all_fmt_bits_def

text \<open>The arguments of one call of \<open>Bytecodes::def\<close>, and its two overloads.\<close>

record bytecode_def =
  bd_code :: Code
  bd_name :: string
  bd_format :: "string option"
  bd_wide_format :: "string option"
  bd_result_type :: BasicType
  bd_depth :: int
  bd_can_trap :: bool
  bd_java_code :: Code

definition def8 ::
    "Code \<Rightarrow> string \<Rightarrow> string option \<Rightarrow> string option \<Rightarrow> BasicType \<Rightarrow> int \<Rightarrow> bool \<Rightarrow> Code \<Rightarrow> bytecode_def" where
  "def8 code name format wide_format result_type depth can_trap java_code =
    \<lparr>bd_code = code, bd_name = name, bd_format = format, bd_wide_format = wide_format,
     bd_result_type = result_type, bd_depth = depth, bd_can_trap = can_trap, bd_java_code = java_code\<rparr>"

definition def7 ::
    "Code \<Rightarrow> string \<Rightarrow> string option \<Rightarrow> string option \<Rightarrow> BasicType \<Rightarrow> int \<Rightarrow> bool \<Rightarrow> bytecode_def" where
  "def7 code name format wide_format result_type depth can_trap =
     def8 code name format wide_format result_type depth can_trap code"

text \<open>The characters of a format: the flag of the field, and whether it is in native byte order.\<close>

definition field_flag :: "char \<Rightarrow> (int \<times> bool) option" where
  "field_flag fc =
    (if fc = CHR ''j'' then Some (fmt_has_j, False)
     else if fc = CHR ''k'' then Some (fmt_has_k, False)
     else if fc = CHR ''i'' then Some (fmt_has_i, False)
     else if fc = CHR ''c'' then Some (fmt_has_c, False)
     else if fc = CHR ''o'' then Some (fmt_has_o, False)
     else if fc = CHR ''J'' then Some (fmt_has_j, True)
     else if fc = CHR ''K'' then Some (fmt_has_k, True)
     else if fc = CHR ''I'' then Some (fmt_has_i, True)
     else if fc = CHR ''C'' then Some (fmt_has_c, True)
     else if fc = CHR ''O'' then Some (fmt_has_o, True)
     else None)"

function format_loop :: "string \<Rightarrow> int \<Rightarrow> bool \<Rightarrow> bool \<Rightarrow> nat \<Rightarrow> fault + int" where
  "format_loop [] fl nbo jbo has_size = Inr fl"
| "format_loop (fc # fp) fl nbo jbo has_size =
    (if fc = CHR ''_'' then format_loop fp fl nbo jbo has_size
     else case field_flag fc of
       None \<Rightarrow> Inl Should_Not_Reach_Here
     | Some (this_flag, native) \<Rightarrow>
        let nbo = nbo \<or> native; jbo = jbo \<or> \<not> native;
            repeats = length (takeWhile (\<lambda>c. c = fc) fp); rest = drop repeats fp; this_size = repeats + 1;
            fl = fl OR this_flag; fl = (if nbo then fl OR fmt_has_nbo else fl);
            fl = (if this_size = 2 then fl OR fmt_has_u2 else if this_size = 4 then fl OR fmt_has_u4 else fl) in
        if nbo \<and> jbo then Inl Should_Not_Reach_Here
        else if this_size \<notin> {1, 2, 4} then Inl Should_Not_Reach_Here
        else if has_size = 0 \<or> this_size = has_size \<or> this_size < has_size \<and> rest = []
          then format_loop rest fl nbo jbo this_size
        else Inl Should_Not_Reach_Here)"
  by pat_completeness auto
termination
  by (relation "measure (\<lambda>(fp, _). length fp)") auto

definition compute_flags :: "string option \<Rightarrow> int \<Rightarrow> fault + int" where
  "compute_flags format more_flags =
    (case format of
       None \<Rightarrow> Inr 0
     | Some [] \<Rightarrow> Inr (more_flags OR fmt_not_simple)
     | Some (c # fp) \<Rightarrow>
        if c = CHR ''b'' then format_loop fp (more_flags OR fmt_not_variable) False False 0
        else if c = CHR ''w'' then
          (case fp of
             c' # fp' \<Rightarrow>
               if c' = CHR ''b''
               then format_loop fp' (more_flags OR fmt_not_variable OR fmt_not_simple) False False 0
               else Inl Should_Not_Reach_Here
           | [] \<Rightarrow> Inl Should_Not_Reach_Here)
        else format_loop (c # fp) more_flags False False 0)"

record bytecode_tables =
  bt_is_initialized :: bool
  bt_name :: "string option list"
  bt_result_type :: "BasicType option list"
  bt_depth :: "int list"
  bt_lengths :: "u_char list"
  bt_java_code :: "Code list"
  bt_flags :: "u2 list"

text \<open>Static storage is zero before initialization.\<close>

definition static_tables :: bytecode_tables where
  "static_tables = \<lparr>bt_is_initialized = False,
     bt_name = replicate (nat number_of_codes) None, bt_result_type = replicate (nat number_of_codes) None,
     bt_depth = replicate (nat number_of_codes) 0, bt_lengths = replicate (nat number_of_codes) 0,
     bt_java_code = replicate (nat number_of_codes) 0, bt_flags = replicate 512 0\<rparr>"

definition format_length :: "string option \<Rightarrow> int" where
  "format_length format = (case format of None \<Rightarrow> 0 | Some s \<Rightarrow> int (length s))"

definition define_code :: "bytecode_def \<Rightarrow> bytecode_tables \<Rightarrow> fault + bytecode_tables" where
  "define_code d t =
    (let code = bd_code d; len = format_length (bd_format d); wlen = format_length (bd_wide_format d);
         bc_flags = (if bd_can_trap d then bc_can_trap else 0) OR (if bd_java_code d \<noteq> code then bc_can_rewrite else 0) in
     rbind (arr_set (bt_name t) code (Some (bd_name d))) (\<lambda>names.
     rbind (arr_set (bt_result_type t) code (Some (bd_result_type d))) (\<lambda>results.
     rbind (arr_set (bt_depth t) code (signed_take_bit 7 (bd_depth d))) (\<lambda>depths.
     rbind (arr_set (bt_lengths t) code (word_of_int (push_bit 4 wlen OR len AND 0xF))) (\<lambda>lengths.
     rbind (arr_set (bt_java_code t) code (bd_java_code d)) (\<lambda>javas.
     rbind (compute_flags (bd_format d) bc_flags) (\<lambda>fl.
     rbind (arr_set (bt_flags t) (code mod 256) (word_of_int fl)) (\<lambda>flgs.
     rbind (compute_flags (bd_wide_format d) bc_flags) (\<lambda>wfl.
     rbind (arr_set flgs (code mod 256 + 256) (word_of_int wfl)) (\<lambda>flgs.
       Inr (t\<lparr>bt_name := names, bt_result_type := results, bt_depth := depths, bt_lengths := lengths,
              bt_java_code := javas, bt_flags := flgs\<rparr>)))))))))))"

fun define_codes :: "bytecode_def list \<Rightarrow> bytecode_tables \<Rightarrow> fault + bytecode_tables" where
  "define_codes [] t = Inr t"
| "define_codes (d # ds) t = rbind (define_code d t) (define_codes ds)"

definition java_codes_1 :: "bytecode_def list" where
  "java_codes_1 = [
    def7 bc_nop ''nop'' (Some ''b'') None T_VOID 0 False,
    def7 bc_aconst_null ''aconst_null'' (Some ''b'') None T_OBJECT 1 False,
    def7 bc_iconst_m1 ''iconst_m1'' (Some ''b'') None T_INT 1 False,
    def7 bc_iconst_0 ''iconst_0'' (Some ''b'') None T_INT 1 False,
    def7 bc_iconst_1 ''iconst_1'' (Some ''b'') None T_INT 1 False,
    def7 bc_iconst_2 ''iconst_2'' (Some ''b'') None T_INT 1 False,
    def7 bc_iconst_3 ''iconst_3'' (Some ''b'') None T_INT 1 False,
    def7 bc_iconst_4 ''iconst_4'' (Some ''b'') None T_INT 1 False,
    def7 bc_iconst_5 ''iconst_5'' (Some ''b'') None T_INT 1 False,
    def7 bc_lconst_0 ''lconst_0'' (Some ''b'') None T_LONG 2 False,
    def7 bc_lconst_1 ''lconst_1'' (Some ''b'') None T_LONG 2 False,
    def7 bc_fconst_0 ''fconst_0'' (Some ''b'') None T_FLOAT 1 False,
    def7 bc_fconst_1 ''fconst_1'' (Some ''b'') None T_FLOAT 1 False,
    def7 bc_fconst_2 ''fconst_2'' (Some ''b'') None T_FLOAT 1 False,
    def7 bc_dconst_0 ''dconst_0'' (Some ''b'') None T_DOUBLE 2 False,
    def7 bc_dconst_1 ''dconst_1'' (Some ''b'') None T_DOUBLE 2 False,
    def7 bc_bipush ''bipush'' (Some ''bc'') None T_INT 1 False,
    def7 bc_sipush ''sipush'' (Some ''bcc'') None T_INT 1 False,
    def7 bc_ldc ''ldc'' (Some ''bk'') None T_ILLEGAL 1 True,
    def7 bc_ldc_w ''ldc_w'' (Some ''bkk'') None T_ILLEGAL 1 True,
    def7 bc_ldc2_w ''ldc2_w'' (Some ''bkk'') None T_ILLEGAL 2 True,
    def7 bc_iload ''iload'' (Some ''bi'') (Some ''wbii'') T_INT 1 False,
    def7 bc_lload ''lload'' (Some ''bi'') (Some ''wbii'') T_LONG 2 False,
    def7 bc_fload ''fload'' (Some ''bi'') (Some ''wbii'') T_FLOAT 1 False,
    def7 bc_dload ''dload'' (Some ''bi'') (Some ''wbii'') T_DOUBLE 2 False,
    def7 bc_aload ''aload'' (Some ''bi'') (Some ''wbii'') T_OBJECT 1 False,
    def7 bc_iload_0 ''iload_0'' (Some ''b'') None T_INT 1 False,
    def7 bc_iload_1 ''iload_1'' (Some ''b'') None T_INT 1 False,
    def7 bc_iload_2 ''iload_2'' (Some ''b'') None T_INT 1 False,
    def7 bc_iload_3 ''iload_3'' (Some ''b'') None T_INT 1 False,
    def7 bc_lload_0 ''lload_0'' (Some ''b'') None T_LONG 2 False,
    def7 bc_lload_1 ''lload_1'' (Some ''b'') None T_LONG 2 False,
    def7 bc_lload_2 ''lload_2'' (Some ''b'') None T_LONG 2 False,
    def7 bc_lload_3 ''lload_3'' (Some ''b'') None T_LONG 2 False,
    def7 bc_fload_0 ''fload_0'' (Some ''b'') None T_FLOAT 1 False,
    def7 bc_fload_1 ''fload_1'' (Some ''b'') None T_FLOAT 1 False,
    def7 bc_fload_2 ''fload_2'' (Some ''b'') None T_FLOAT 1 False,
    def7 bc_fload_3 ''fload_3'' (Some ''b'') None T_FLOAT 1 False,
    def7 bc_dload_0 ''dload_0'' (Some ''b'') None T_DOUBLE 2 False,
    def7 bc_dload_1 ''dload_1'' (Some ''b'') None T_DOUBLE 2 False,
    def7 bc_dload_2 ''dload_2'' (Some ''b'') None T_DOUBLE 2 False,
    def7 bc_dload_3 ''dload_3'' (Some ''b'') None T_DOUBLE 2 False,
    def7 bc_aload_0 ''aload_0'' (Some ''b'') None T_OBJECT 1 True,
    def7 bc_aload_1 ''aload_1'' (Some ''b'') None T_OBJECT 1 False,
    def7 bc_aload_2 ''aload_2'' (Some ''b'') None T_OBJECT 1 False,
    def7 bc_aload_3 ''aload_3'' (Some ''b'') None T_OBJECT 1 False,
    def7 bc_iaload ''iaload'' (Some ''b'') None T_INT (- 1) True,
    def7 bc_laload ''laload'' (Some ''b'') None T_LONG 0 True,
    def7 bc_faload ''faload'' (Some ''b'') None T_FLOAT (- 1) True,
    def7 bc_daload ''daload'' (Some ''b'') None T_DOUBLE 0 True,
    def7 bc_aaload ''aaload'' (Some ''b'') None T_OBJECT (- 1) True,
    def7 bc_baload ''baload'' (Some ''b'') None T_INT (- 1) True,
    def7 bc_caload ''caload'' (Some ''b'') None T_INT (- 1) True,
    def7 bc_saload ''saload'' (Some ''b'') None T_INT (- 1) True,
    def7 bc_istore ''istore'' (Some ''bi'') (Some ''wbii'') T_VOID (- 1) False,
    def7 bc_lstore ''lstore'' (Some ''bi'') (Some ''wbii'') T_VOID (- 2) False,
    def7 bc_fstore ''fstore'' (Some ''bi'') (Some ''wbii'') T_VOID (- 1) False,
    def7 bc_dstore ''dstore'' (Some ''bi'') (Some ''wbii'') T_VOID (- 2) False,
    def7 bc_astore ''astore'' (Some ''bi'') (Some ''wbii'') T_VOID (- 1) False,
    def7 bc_istore_0 ''istore_0'' (Some ''b'') None T_VOID (- 1) False,
    def7 bc_istore_1 ''istore_1'' (Some ''b'') None T_VOID (- 1) False,
    def7 bc_istore_2 ''istore_2'' (Some ''b'') None T_VOID (- 1) False,
    def7 bc_istore_3 ''istore_3'' (Some ''b'') None T_VOID (- 1) False,
    def7 bc_lstore_0 ''lstore_0'' (Some ''b'') None T_VOID (- 2) False,
    def7 bc_lstore_1 ''lstore_1'' (Some ''b'') None T_VOID (- 2) False,
    def7 bc_lstore_2 ''lstore_2'' (Some ''b'') None T_VOID (- 2) False,
    def7 bc_lstore_3 ''lstore_3'' (Some ''b'') None T_VOID (- 2) False,
    def7 bc_fstore_0 ''fstore_0'' (Some ''b'') None T_VOID (- 1) False,
    def7 bc_fstore_1 ''fstore_1'' (Some ''b'') None T_VOID (- 1) False,
    def7 bc_fstore_2 ''fstore_2'' (Some ''b'') None T_VOID (- 1) False,
    def7 bc_fstore_3 ''fstore_3'' (Some ''b'') None T_VOID (- 1) False,
    def7 bc_dstore_0 ''dstore_0'' (Some ''b'') None T_VOID (- 2) False,
    def7 bc_dstore_1 ''dstore_1'' (Some ''b'') None T_VOID (- 2) False,
    def7 bc_dstore_2 ''dstore_2'' (Some ''b'') None T_VOID (- 2) False,
    def7 bc_dstore_3 ''dstore_3'' (Some ''b'') None T_VOID (- 2) False,
    def7 bc_astore_0 ''astore_0'' (Some ''b'') None T_VOID (- 1) False,
    def7 bc_astore_1 ''astore_1'' (Some ''b'') None T_VOID (- 1) False,
    def7 bc_astore_2 ''astore_2'' (Some ''b'') None T_VOID (- 1) False,
    def7 bc_astore_3 ''astore_3'' (Some ''b'') None T_VOID (- 1) False,
    def7 bc_iastore ''iastore'' (Some ''b'') None T_VOID (- 3) True,
    def7 bc_lastore ''lastore'' (Some ''b'') None T_VOID (- 4) True,
    def7 bc_fastore ''fastore'' (Some ''b'') None T_VOID (- 3) True,
    def7 bc_dastore ''dastore'' (Some ''b'') None T_VOID (- 4) True,
    def7 bc_aastore ''aastore'' (Some ''b'') None T_VOID (- 3) True,
    def7 bc_bastore ''bastore'' (Some ''b'') None T_VOID (- 3) True,
    def7 bc_castore ''castore'' (Some ''b'') None T_VOID (- 3) True,
    def7 bc_sastore ''sastore'' (Some ''b'') None T_VOID (- 3) True,
    def7 bc_pop ''pop'' (Some ''b'') None T_VOID (- 1) False,
    def7 bc_pop2 ''pop2'' (Some ''b'') None T_VOID (- 2) False,
    def7 bc_dup ''dup'' (Some ''b'') None T_VOID 1 False,
    def7 bc_dup_x1 ''dup_x1'' (Some ''b'') None T_VOID 1 False,
    def7 bc_dup_x2 ''dup_x2'' (Some ''b'') None T_VOID 1 False,
    def7 bc_dup2 ''dup2'' (Some ''b'') None T_VOID 2 False,
    def7 bc_dup2_x1 ''dup2_x1'' (Some ''b'') None T_VOID 2 False,
    def7 bc_dup2_x2 ''dup2_x2'' (Some ''b'') None T_VOID 2 False,
    def7 bc_swap ''swap'' (Some ''b'') None T_VOID 0 False,
    def7 bc_iadd ''iadd'' (Some ''b'') None T_INT (- 1) False,
    def7 bc_ladd ''ladd'' (Some ''b'') None T_LONG (- 2) False,
    def7 bc_fadd ''fadd'' (Some ''b'') None T_FLOAT (- 1) False,
    def7 bc_dadd ''dadd'' (Some ''b'') None T_DOUBLE (- 2) False,
    def7 bc_isub ''isub'' (Some ''b'') None T_INT (- 1) False,
    def7 bc_lsub ''lsub'' (Some ''b'') None T_LONG (- 2) False,
    def7 bc_fsub ''fsub'' (Some ''b'') None T_FLOAT (- 1) False,
    def7 bc_dsub ''dsub'' (Some ''b'') None T_DOUBLE (- 2) False,
    def7 bc_imul ''imul'' (Some ''b'') None T_INT (- 1) False,
    def7 bc_lmul ''lmul'' (Some ''b'') None T_LONG (- 2) False,
    def7 bc_fmul ''fmul'' (Some ''b'') None T_FLOAT (- 1) False,
    def7 bc_dmul ''dmul'' (Some ''b'') None T_DOUBLE (- 2) False,
    def7 bc_idiv ''idiv'' (Some ''b'') None T_INT (- 1) True,
    def7 bc_ldiv ''ldiv'' (Some ''b'') None T_LONG (- 2) True,
    def7 bc_fdiv ''fdiv'' (Some ''b'') None T_FLOAT (- 1) False,
    def7 bc_ddiv ''ddiv'' (Some ''b'') None T_DOUBLE (- 2) False,
    def7 bc_irem ''irem'' (Some ''b'') None T_INT (- 1) True,
    def7 bc_lrem ''lrem'' (Some ''b'') None T_LONG (- 2) True,
    def7 bc_frem ''frem'' (Some ''b'') None T_FLOAT (- 1) False,
    def7 bc_drem ''drem'' (Some ''b'') None T_DOUBLE (- 2) False,
    def7 bc_ineg ''ineg'' (Some ''b'') None T_INT 0 False,
    def7 bc_lneg ''lneg'' (Some ''b'') None T_LONG 0 False,
    def7 bc_fneg ''fneg'' (Some ''b'') None T_FLOAT 0 False,
    def7 bc_dneg ''dneg'' (Some ''b'') None T_DOUBLE 0 False,
    def7 bc_ishl ''ishl'' (Some ''b'') None T_INT (- 1) False,
    def7 bc_lshl ''lshl'' (Some ''b'') None T_LONG (- 1) False,
    def7 bc_ishr ''ishr'' (Some ''b'') None T_INT (- 1) False,
    def7 bc_lshr ''lshr'' (Some ''b'') None T_LONG (- 1) False,
    def7 bc_iushr ''iushr'' (Some ''b'') None T_INT (- 1) False,
    def7 bc_lushr ''lushr'' (Some ''b'') None T_LONG (- 1) False,
    def7 bc_iand ''iand'' (Some ''b'') None T_INT (- 1) False,
    def7 bc_land ''land'' (Some ''b'') None T_LONG (- 2) False,
    def7 bc_ior ''ior'' (Some ''b'') None T_INT (- 1) False,
    def7 bc_lor ''lor'' (Some ''b'') None T_LONG (- 2) False,
    def7 bc_ixor ''ixor'' (Some ''b'') None T_INT (- 1) False,
    def7 bc_lxor ''lxor'' (Some ''b'') None T_LONG (- 2) False,
    def7 bc_iinc ''iinc'' (Some ''bic'') (Some ''wbiicc'') T_VOID 0 False,
    def7 bc_i2l ''i2l'' (Some ''b'') None T_LONG 1 False,
    def7 bc_i2f ''i2f'' (Some ''b'') None T_FLOAT 0 False,
    def7 bc_i2d ''i2d'' (Some ''b'') None T_DOUBLE 1 False,
    def7 bc_l2i ''l2i'' (Some ''b'') None T_INT (- 1) False,
    def7 bc_l2f ''l2f'' (Some ''b'') None T_FLOAT (- 1) False,
    def7 bc_l2d ''l2d'' (Some ''b'') None T_DOUBLE 0 False,
    def7 bc_f2i ''f2i'' (Some ''b'') None T_INT 0 False,
    def7 bc_f2l ''f2l'' (Some ''b'') None T_LONG 1 False,
    def7 bc_f2d ''f2d'' (Some ''b'') None T_DOUBLE 1 False,
    def7 bc_d2i ''d2i'' (Some ''b'') None T_INT (- 1) False,
    def7 bc_d2l ''d2l'' (Some ''b'') None T_LONG 0 False,
    def7 bc_d2f ''d2f'' (Some ''b'') None T_FLOAT (- 1) False,
    def7 bc_i2b ''i2b'' (Some ''b'') None T_BYTE 0 False,
    def7 bc_i2c ''i2c'' (Some ''b'') None T_CHAR 0 False,
    def7 bc_i2s ''i2s'' (Some ''b'') None T_SHORT 0 False,
    def7 bc_lcmp ''lcmp'' (Some ''b'') None T_VOID (- 3) False,
    def7 bc_fcmpl ''fcmpl'' (Some ''b'') None T_VOID (- 1) False]"

definition java_codes_2 :: "bytecode_def list" where
  "java_codes_2 = [
    def7 bc_fcmpg ''fcmpg'' (Some ''b'') None T_VOID (- 1) False,
    def7 bc_dcmpl ''dcmpl'' (Some ''b'') None T_VOID (- 3) False,
    def7 bc_dcmpg ''dcmpg'' (Some ''b'') None T_VOID (- 3) False,
    def7 bc_ifeq ''ifeq'' (Some ''boo'') None T_VOID (- 1) False,
    def7 bc_ifne ''ifne'' (Some ''boo'') None T_VOID (- 1) False,
    def7 bc_iflt ''iflt'' (Some ''boo'') None T_VOID (- 1) False,
    def7 bc_ifge ''ifge'' (Some ''boo'') None T_VOID (- 1) False,
    def7 bc_ifgt ''ifgt'' (Some ''boo'') None T_VOID (- 1) False,
    def7 bc_ifle ''ifle'' (Some ''boo'') None T_VOID (- 1) False,
    def7 bc_if_icmpeq ''if_icmpeq'' (Some ''boo'') None T_VOID (- 2) False,
    def7 bc_if_icmpne ''if_icmpne'' (Some ''boo'') None T_VOID (- 2) False,
    def7 bc_if_icmplt ''if_icmplt'' (Some ''boo'') None T_VOID (- 2) False,
    def7 bc_if_icmpge ''if_icmpge'' (Some ''boo'') None T_VOID (- 2) False,
    def7 bc_if_icmpgt ''if_icmpgt'' (Some ''boo'') None T_VOID (- 2) False,
    def7 bc_if_icmple ''if_icmple'' (Some ''boo'') None T_VOID (- 2) False,
    def7 bc_if_acmpeq ''if_acmpeq'' (Some ''boo'') None T_VOID (- 2) False,
    def7 bc_if_acmpne ''if_acmpne'' (Some ''boo'') None T_VOID (- 2) False,
    def7 bc_goto ''goto'' (Some ''boo'') None T_VOID 0 False,
    def7 bc_jsr ''jsr'' (Some ''boo'') None T_INT 0 False,
    def7 bc_ret ''ret'' (Some ''bi'') (Some ''wbii'') T_VOID 0 False,
    def7 bc_tableswitch ''tableswitch'' (Some '''') None T_VOID (- 1) False,
    def7 bc_lookupswitch ''lookupswitch'' (Some '''') None T_VOID (- 1) False,
    def7 bc_ireturn ''ireturn'' (Some ''b'') None T_INT (- 1) True,
    def7 bc_lreturn ''lreturn'' (Some ''b'') None T_LONG (- 2) True,
    def7 bc_freturn ''freturn'' (Some ''b'') None T_FLOAT (- 1) True,
    def7 bc_dreturn ''dreturn'' (Some ''b'') None T_DOUBLE (- 2) True,
    def7 bc_areturn ''areturn'' (Some ''b'') None T_OBJECT (- 1) True,
    def7 bc_return ''return'' (Some ''b'') None T_VOID 0 True,
    def7 bc_getstatic ''getstatic'' (Some ''bJJ'') None T_ILLEGAL 1 True,
    def7 bc_putstatic ''putstatic'' (Some ''bJJ'') None T_ILLEGAL (- 1) True,
    def7 bc_getfield ''getfield'' (Some ''bJJ'') None T_ILLEGAL 0 True,
    def7 bc_putfield ''putfield'' (Some ''bJJ'') None T_ILLEGAL (- 2) True,
    def7 bc_invokevirtual ''invokevirtual'' (Some ''bJJ'') None T_ILLEGAL (- 1) True,
    def7 bc_invokespecial ''invokespecial'' (Some ''bJJ'') None T_ILLEGAL (- 1) True,
    def7 bc_invokestatic ''invokestatic'' (Some ''bJJ'') None T_ILLEGAL 0 True,
    def7 bc_invokeinterface ''invokeinterface'' (Some ''bJJ__'') None T_ILLEGAL (- 1) True,
    def7 bc_invokedynamic ''invokedynamic'' (Some ''bJJJJ'') None T_ILLEGAL 0 True,
    def7 bc_new ''new'' (Some ''bkk'') None T_OBJECT 1 True,
    def7 bc_newarray ''newarray'' (Some ''bc'') None T_OBJECT 0 True,
    def7 bc_anewarray ''anewarray'' (Some ''bkk'') None T_OBJECT 0 True,
    def7 bc_arraylength ''arraylength'' (Some ''b'') None T_VOID 0 True,
    def7 bc_athrow ''athrow'' (Some ''b'') None T_VOID (- 1) True,
    def7 bc_checkcast ''checkcast'' (Some ''bkk'') None T_OBJECT 0 True,
    def7 bc_instanceof ''instanceof'' (Some ''bkk'') None T_INT 0 True,
    def7 bc_monitorenter ''monitorenter'' (Some ''b'') None T_VOID (- 1) True,
    def7 bc_monitorexit ''monitorexit'' (Some ''b'') None T_VOID (- 1) True,
    def7 bc_wide ''wide'' (Some '''') None T_VOID 0 False,
    def7 bc_multianewarray ''multianewarray'' (Some ''bkkc'') None T_OBJECT 1 True,
    def7 bc_ifnull ''ifnull'' (Some ''boo'') None T_VOID (- 1) False,
    def7 bc_ifnonnull ''ifnonnull'' (Some ''boo'') None T_VOID (- 1) False,
    def7 bc_goto_w ''goto_w'' (Some ''boooo'') None T_VOID 0 False,
    def7 bc_jsr_w ''jsr_w'' (Some ''boooo'') None T_INT 0 False,
    def7 bc_breakpoint ''breakpoint'' (Some '''') None T_VOID 0 True]"

definition jvm_codes :: "bytecode_def list" where
  "jvm_codes = [
    def8 bc_fast_agetfield ''fast_agetfield'' (Some ''bJJ'') None T_OBJECT 0 True bc_getfield,
    def8 bc_fast_bgetfield ''fast_bgetfield'' (Some ''bJJ'') None T_INT 0 True bc_getfield,
    def8 bc_fast_cgetfield ''fast_cgetfield'' (Some ''bJJ'') None T_CHAR 0 True bc_getfield,
    def8 bc_fast_dgetfield ''fast_dgetfield'' (Some ''bJJ'') None T_DOUBLE 0 True bc_getfield,
    def8 bc_fast_fgetfield ''fast_fgetfield'' (Some ''bJJ'') None T_FLOAT 0 True bc_getfield,
    def8 bc_fast_igetfield ''fast_igetfield'' (Some ''bJJ'') None T_INT 0 True bc_getfield,
    def8 bc_fast_lgetfield ''fast_lgetfield'' (Some ''bJJ'') None T_LONG 0 True bc_getfield,
    def8 bc_fast_sgetfield ''fast_sgetfield'' (Some ''bJJ'') None T_SHORT 0 True bc_getfield,
    def8 bc_fast_aputfield ''fast_aputfield'' (Some ''bJJ'') None T_OBJECT 0 True bc_putfield,
    def8 bc_fast_bputfield ''fast_bputfield'' (Some ''bJJ'') None T_INT 0 True bc_putfield,
    def8 bc_fast_zputfield ''fast_zputfield'' (Some ''bJJ'') None T_INT 0 True bc_putfield,
    def8 bc_fast_cputfield ''fast_cputfield'' (Some ''bJJ'') None T_CHAR 0 True bc_putfield,
    def8 bc_fast_dputfield ''fast_dputfield'' (Some ''bJJ'') None T_DOUBLE 0 True bc_putfield,
    def8 bc_fast_fputfield ''fast_fputfield'' (Some ''bJJ'') None T_FLOAT 0 True bc_putfield,
    def8 bc_fast_iputfield ''fast_iputfield'' (Some ''bJJ'') None T_INT 0 True bc_putfield,
    def8 bc_fast_lputfield ''fast_lputfield'' (Some ''bJJ'') None T_LONG 0 True bc_putfield,
    def8 bc_fast_sputfield ''fast_sputfield'' (Some ''bJJ'') None T_SHORT 0 True bc_putfield,
    def8 bc_fast_aload_0 ''fast_aload_0'' (Some ''b'') None T_OBJECT 1 True bc_aload_0,
    def8 bc_fast_iaccess_0 ''fast_iaccess_0'' (Some ''b_JJ'') None T_INT 1 True bc_aload_0,
    def8 bc_fast_aaccess_0 ''fast_aaccess_0'' (Some ''b_JJ'') None T_OBJECT 1 True bc_aload_0,
    def8 bc_fast_faccess_0 ''fast_faccess_0'' (Some ''b_JJ'') None T_OBJECT 1 True bc_aload_0,
    def8 bc_fast_iload ''fast_iload'' (Some ''bi'') None T_INT 1 False bc_iload,
    def8 bc_fast_iload2 ''fast_iload2'' (Some ''bi_i'') None T_INT 2 False bc_iload,
    def8 bc_fast_icaload ''fast_icaload'' (Some ''bi_'') None T_INT 0 False bc_iload,
    def8 bc_fast_invokevfinal ''fast_invokevfinal'' (Some ''bJJ'') None T_ILLEGAL (- 1) True bc_invokevirtual,
    def8 bc_fast_linearswitch ''fast_linearswitch'' (Some '''') None T_VOID (- 1) False bc_lookupswitch,
    def8 bc_fast_binaryswitch ''fast_binaryswitch'' (Some '''') None T_VOID (- 1) False bc_lookupswitch,
    def8 bc_return_register_finalizer ''return_register_finalizer'' (Some ''b'') None T_VOID 0 True bc_return,
    def8 bc_invokehandle ''invokehandle'' (Some ''bJJ'') None T_ILLEGAL (- 1) True bc_invokevirtual,
    def8 bc_fast_aldc ''fast_aldc'' (Some ''bj'') None T_OBJECT 1 True bc_ldc,
    def8 bc_fast_aldc_w ''fast_aldc_w'' (Some ''bJJ'') None T_OBJECT 1 True bc_ldc_w,
    def7 bc_shouldnotreachhere ''_shouldnotreachhere'' (Some ''b'') None T_VOID 0 False]"

definition Bytecodes_initialize :: "bytecode_tables \<Rightarrow> fault + bytecode_tables" where
  "Bytecodes_initialize t =
    (if bt_is_initialized t then Inr t
     else rbind (define_codes (java_codes_1 @ java_codes_2 @ jvm_codes) t) (\<lambda>t.
            Inr (t\<lparr>bt_is_initialized := True\<rparr>)))"

text \<open>The tables that the VM reads: the static ones after initialization.\<close>

definition bytecodes :: bytecode_tables where
  "bytecodes = (case Bytecodes_initialize static_tables of Inr t \<Rightarrow> t | Inl _ \<Rightarrow> static_tables)"

section \<open>Attributes of a code\<close>

definition bc_flags :: "int \<Rightarrow> bool \<Rightarrow> fault + int" where
  "bc_flags code wide = rbind (arr_get (bt_flags bytecodes) (code + (if wide then 256 else 0))) (\<lambda>w. Inr (uint w))"
definition has_all_flags :: "Code \<Rightarrow> int \<Rightarrow> bool \<Rightarrow> fault + bool" where
  "has_all_flags code test_flags wide = rbind (bc_flags code wide) (\<lambda>w. Inr (w AND test_flags = test_flags))"
definition format_bits :: "Code \<Rightarrow> bool \<Rightarrow> fault + int" where
  "format_bits code wide = rbind (bc_flags code wide) (\<lambda>w. Inr (w AND all_fmt_bits))"
definition is_defined :: "int \<Rightarrow> fault + bool" where
  "is_defined code =
    (if 0 \<le> code \<and> code < number_of_codes then rbind (bc_flags code False) (\<lambda>w. Inr (w \<noteq> 0)) else Inr False)"
definition wide_is_defined :: "int \<Rightarrow> fault + bool" where
  "wide_is_defined code = rbind (is_defined code) (\<lambda>b.
     if b then rbind (bc_flags code True) (\<lambda>w. Inr (w \<noteq> 0)) else Inr False)"
definition bc_name :: "Code \<Rightarrow> fault + string option" where
  "bc_name code = arr_get (bt_name bytecodes) code"
definition bc_result_type :: "Code \<Rightarrow> fault + BasicType option" where
  "bc_result_type code = arr_get (bt_result_type bytecodes) code"
definition bc_depth :: "Code \<Rightarrow> fault + int" where
  "bc_depth code = arr_get (bt_depth bytecodes) code"
definition length_for :: "Code \<Rightarrow> fault + int" where
  "length_for code = rbind (arr_get (bt_lengths bytecodes) code) (\<lambda>w. Inr (uint w AND 0xF))"
definition wide_length_for :: "Code \<Rightarrow> fault + int" where
  "wide_length_for code = rbind (arr_get (bt_lengths bytecodes) code) (\<lambda>w. Inr (drop_bit 4 (uint w)))"
definition can_trap :: "Code \<Rightarrow> fault + bool" where
  "can_trap code = has_all_flags code bc_can_trap False"
definition java_code :: "Code \<Rightarrow> fault + Code" where
  "java_code code = arr_get (bt_java_code bytecodes) code"
definition can_rewrite :: "Code \<Rightarrow> fault + bool" where
  "can_rewrite code = has_all_flags code bc_can_rewrite False"
definition check_must_rewrite :: "Code \<Rightarrow> bool" where
  "check_must_rewrite code = (\<not> (code = bc_aload_0 \<or> code = bc_lookupswitch \<or> code = bc_new))"
definition must_rewrite :: "Code \<Rightarrow> fault + bool" where
  "must_rewrite code = rbind (can_rewrite code) (\<lambda>b. Inr (b \<and> check_must_rewrite code))"
definition native_byte_order :: "Code \<Rightarrow> fault + bool" where
  "native_byte_order code = has_all_flags code fmt_has_nbo False"
definition uses_cp_cache :: "Code \<Rightarrow> fault + bool" where
  "uses_cp_cache code = has_all_flags code fmt_has_j False"
definition is_java_code :: "Code \<Rightarrow> bool" where
  "is_java_code code \<longleftrightarrow> 0 \<le> code \<and> code < number_of_java_codes"
definition is_aload :: "Code \<Rightarrow> bool" where
  "is_aload code \<longleftrightarrow> code = bc_aload \<or> code = bc_aload_0 \<or> code = bc_aload_1 \<or> code = bc_aload_2 \<or> code = bc_aload_3"
definition is_astore :: "Code \<Rightarrow> bool" where
  "is_astore code \<longleftrightarrow> code = bc_astore \<or> code = bc_astore_0 \<or> code = bc_astore_1 \<or> code = bc_astore_2 \<or> code = bc_astore_3"
definition is_store_into_local :: "Code \<Rightarrow> bool" where
  "is_store_into_local code \<longleftrightarrow> bc_istore \<le> code \<and> code \<le> bc_astore_3"
definition is_const :: "Code \<Rightarrow> bool" where
  "is_const code \<longleftrightarrow> bc_aconst_null \<le> code \<and> code \<le> bc_ldc2_w"
definition is_zero_const :: "Code \<Rightarrow> bool" where
  "is_zero_const code \<longleftrightarrow> code = bc_aconst_null \<or> code = bc_iconst_0 \<or> code = bc_fconst_0 \<or> code = bc_dconst_0"
definition is_return :: "Code \<Rightarrow> bool" where
  "is_return code \<longleftrightarrow> bc_ireturn \<le> code \<and> code \<le> bc_return"
definition is_invoke :: "Code \<Rightarrow> bool" where
  "is_invoke code \<longleftrightarrow> bc_invokevirtual \<le> code \<and> code \<le> bc_invokedynamic"
definition has_receiver :: "Code \<Rightarrow> bool" where
  "has_receiver code \<longleftrightarrow> code = bc_invokevirtual \<or> code = bc_invokespecial \<or> code = bc_invokeinterface"
definition has_optional_appendix :: "Code \<Rightarrow> bool" where
  "has_optional_appendix code \<longleftrightarrow> code = bc_invokedynamic \<or> code = bc_invokehandle"

text \<open>The consistency check that debug builds run after initialization.\<close>

definition traps_consistent :: "Code \<Rightarrow> fault + bool" where
  "traps_consistent i = rbind (is_defined i) (\<lambda>d.
     if d then rbind (java_code i) (\<lambda>java. rbind (can_trap i) (\<lambda>t. rbind (can_trap java) (\<lambda>tj. Inr (\<not> (t \<and> \<not> tj)))))
     else Inr True)"

section \<open>Code in memory\<close>

text \<open>A code array: its address and its bytes.  Positions are offsets from the address.\<close>

record code_array =
  ca_base :: int
  ca_bytes :: "u1 list"

definition code_size :: "code_array \<Rightarrow> int" where
  "code_size m = int (length (ca_bytes m))"

definition byte_get :: "code_array \<Rightarrow> int \<Rightarrow> fault + int" where
  "byte_get m p = rbind (arr_get (ca_bytes m) p) (\<lambda>b. Inr (uint b))"

definition get_Java_u2 :: "code_array \<Rightarrow> int \<Rightarrow> fault + u2" where
  "get_Java_u2 m p = rbind (byte_get m p) (\<lambda>a. rbind (byte_get m (p + 1)) (\<lambda>b. Inr (word_of_int (a * 256 + b))))"

definition get_Java_u4 :: "code_array \<Rightarrow> int \<Rightarrow> fault + juint" where
  "get_Java_u4 m p =
     rbind (byte_get m p) (\<lambda>a. rbind (byte_get m (p + 1)) (\<lambda>b.
     rbind (byte_get m (p + 2)) (\<lambda>c. rbind (byte_get m (p + 3)) (\<lambda>d.
       Inr (word_of_int (((a * 256 + b) * 256 + c) * 256 + d))))))"

definition round_to :: "int \<Rightarrow> int \<Rightarrow> int" where
  "round_to x s = (x + (s - 1)) AND NOT (s - 1)"

text \<open>\<open>round_to((intptr_t)bcp + 1, jintSize)\<close>, as an offset again.\<close>

definition aligned_bcp :: "code_array \<Rightarrow> int \<Rightarrow> int" where
  "aligned_bcp m bcp = round_to (ca_base m + bcp + 1) 4 - ca_base m"

definition positive_int :: "int \<Rightarrow> int" where
  "positive_int len = (if len > 0 \<and> len \<le> 2147483647 then len else - 1)"

definition special_length_at :: "code_array \<Rightarrow> Code \<Rightarrow> int \<Rightarrow> int option \<Rightarrow> fault + int" where
  "special_length_at m code bcp bound =
    (let past = (\<lambda>p. case bound of None \<Rightarrow> False | Some e \<Rightarrow> p \<ge> e); aligned = aligned_bcp m bcp in
     if code = bc_wide then
       (if past (bcp + 1) then Inr (- 1) else rbind (byte_get m (bcp + 1)) wide_length_for)
     else if code = bc_tableswitch then
       (if past (aligned + 3 * 4) then Inr (- 1)
        else rbind (get_Java_u4 m (aligned + 4)) (\<lambda>lo. rbind (get_Java_u4 m (aligned + 2 * 4)) (\<lambda>hi.
               Inr (positive_int (aligned - bcp + (3 + sint hi - sint lo + 1) * 4)))))
     else if code = bc_lookupswitch \<or> code = bc_fast_binaryswitch \<or> code = bc_fast_linearswitch then
       (if past (aligned + 2 * 4) then Inr (- 1)
        else rbind (get_Java_u4 m (aligned + 4)) (\<lambda>npairs.
               Inr (positive_int (aligned - bcp + (2 + 2 * sint npairs) * 4))))
     else Inr 0)"

definition raw_special_length_at :: "code_array \<Rightarrow> int \<Rightarrow> int option \<Rightarrow> fault + int" where
  "raw_special_length_at m bcp bound = rbind (byte_get m bcp) (\<lambda>code.
     if code = bc_breakpoint then Inr 1 else special_length_at m code bcp bound)"

section \<open>The stream\<close>

text \<open>\<open>_is_wide\<close> is not set before the first legal code has been read.\<close>

record RawBytecodeStream =
  bcs_bci :: int
  bcs_next_bci :: int
  bcs_end_bci :: int
  bcs_raw_code :: Code
  bcs_is_wide :: "bool option"

definition set_interval :: "int \<Rightarrow> int \<Rightarrow> RawBytecodeStream \<Rightarrow> RawBytecodeStream" where
  "set_interval beg_bci end_bci s = s\<lparr>bcs_bci := beg_bci, bcs_next_bci := beg_bci, bcs_end_bci := end_bci\<rparr>"

definition set_start :: "code_array \<Rightarrow> int \<Rightarrow> RawBytecodeStream \<Rightarrow> RawBytecodeStream" where
  "set_start m beg_bci s = set_interval beg_bci (code_size m) s"

definition new_raw_stream :: "code_array \<Rightarrow> RawBytecodeStream" where
  "new_raw_stream m = set_interval 0 (code_size m)
     \<lparr>bcs_bci = 0, bcs_next_bci = 0, bcs_end_bci = 0, bcs_raw_code = bc_illegal, bcs_is_wide = None\<rparr>"

definition is_last_bytecode :: "RawBytecodeStream \<Rightarrow> bool" where
  "is_last_bytecode s \<longleftrightarrow> bcs_next_bci s \<ge> bcs_end_bci s"

definition raw_next_special :: "code_array \<Rightarrow> Code \<Rightarrow> RawBytecodeStream \<Rightarrow> fault + Code \<times> RawBytecodeStream" where
  "raw_next_special m code s =
     rbind (raw_special_length_at m (bcs_bci s) (Some (bcs_end_bci s))) (\<lambda>len.
     if len \<le> 0 \<or> bcs_bci s > bcs_end_bci s - len \<or> bcs_bci s - len \<ge> bcs_next_bci s
     then Inr (bc_illegal, s\<lparr>bcs_raw_code := bc_illegal\<rparr>)
     else let s = s\<lparr>bcs_next_bci := bcs_next_bci s + len, bcs_is_wide := Some False\<rparr> in
       if code = bc_wide then
         (if bcs_bci s + 1 \<ge> bcs_end_bci s
          then Inr (bc_illegal, s\<lparr>bcs_raw_code := bc_illegal\<rparr>)
          else rbind (byte_get m (bcs_bci s + 1)) (\<lambda>code.
                 Inr (code, s\<lparr>bcs_is_wide := Some True, bcs_raw_code := code\<rparr>)))
       else Inr (code, s\<lparr>bcs_raw_code := code\<rparr>))"

definition raw_next :: "code_array \<Rightarrow> RawBytecodeStream \<Rightarrow> fault + Code \<times> RawBytecodeStream" where
  "raw_next m s =
    (let s = s\<lparr>bcs_bci := bcs_next_bci s\<rparr> in
     rbind (byte_get m (bcs_bci s)) (\<lambda>code.
     rbind (length_for code) (\<lambda>len.
     if len > 0 \<and> bcs_bci s \<le> bcs_end_bci s - len
     then let s = s\<lparr>bcs_is_wide := Some False, bcs_next_bci := bcs_next_bci s + len\<rparr>;
              code = (if bcs_next_bci s \<le> bcs_bci s then bc_illegal else code)
          in Inr (code, s\<lparr>bcs_raw_code := code\<rparr>)
     else raw_next_special m code s)))"

definition is_wide :: "RawBytecodeStream \<Rightarrow> fault + bool" where
  "is_wide s = (case bcs_is_wide s of None \<Rightarrow> Inl Undefined_Behaviour | Some b \<Rightarrow> Inr b)"

definition dest :: "code_array \<Rightarrow> RawBytecodeStream \<Rightarrow> fault + int" where
  "dest m s = rbind (get_Java_u2 m (bcs_bci s + 1)) (\<lambda>w. Inr (bcs_bci s + sint w))"
definition dest_w :: "code_array \<Rightarrow> RawBytecodeStream \<Rightarrow> fault + int" where
  "dest_w m s = rbind (get_Java_u4 m (bcs_bci s + 1)) (\<lambda>w. Inr (signed_take_bit 31 (bcs_bci s + sint w)))"
definition get_index_u1 :: "code_array \<Rightarrow> RawBytecodeStream \<Rightarrow> fault + int" where
  "get_index_u1 m s = byte_get m (bcs_bci s + 1)"
definition get_index_u2 :: "code_array \<Rightarrow> RawBytecodeStream \<Rightarrow> fault + int" where
  "get_index_u2 m s = rbind (get_Java_u2 m (bcs_bci s + 1)) (\<lambda>w. Inr (uint w))"
definition get_index :: "code_array \<Rightarrow> RawBytecodeStream \<Rightarrow> fault + int" where
  "get_index m s = rbind (is_wide s) (\<lambda>w.
     if w then rbind (get_Java_u2 m (bcs_bci s + 2)) (\<lambda>w. Inr (uint w)) else get_index_u1 m s)"

section \<open>What initialization stores\<close>

text \<open>
  The rows of the table have distinct codes that cover the enumeration, and formats that pass the checks of
  \<open>compute_flags\<close>, so that each row is found again in the tables.
\<close>

definition code_rows :: "bytecode_def list" where
  "code_rows = java_codes_1 @ java_codes_2 @ jvm_codes"

definition more_flags :: "bytecode_def \<Rightarrow> int" where
  "more_flags d = (if bd_can_trap d then bc_can_trap else 0) OR (if bd_java_code d \<noteq> bd_code d then bc_can_rewrite else 0)"

lemma java_codes_order: "map bd_code (java_codes_1 @ java_codes_2) = [0..202]"
  by (simp add: java_codes_1_def java_codes_2_def def7_def def8_def bc_defs upto_rec1)

lemma jvm_codes_order: "distinct (map bd_code jvm_codes)" "list_all (\<lambda>d. 203 \<le> bd_code d \<and> bd_code d < 235) jvm_codes"
  by (simp_all add: jvm_codes_def def7_def def8_def bc_defs)

lemma format_loop_more: "format_loop fp fl nbo jbo n = rbind (format_loop fp 0 nbo jbo n) (\<lambda>k. Inr (fl OR k))"
proof (induction "length fp" arbitrary: fp fl nbo jbo n rule: less_induct)
  case less
  show ?case
  proof (cases fp)
    case (Cons fc fp')
    show ?thesis
    proof (cases "fc = CHR ''_''")
      case True
      then show ?thesis using less [of fp' fl] Cons by simp
    next
      case False
      show ?thesis
      proof (cases "field_flag fc")
        case (Some p)
        obtain this_flag native where p: "p = (this_flag, native)" by fastforce
        have IH: "format_loop (drop r fp') (fl OR g) b c k = rbind (format_loop (drop r fp') g b c k) (\<lambda>j. Inr (fl OR j))" for r g b c k
        proof -
          have l: "length (drop r fp') < length fp" using Cons by simp
          show ?thesis
            by (simp only: less [OF l, of "fl OR g"] less [OF l, of g]) (cases "format_loop (drop r fp') 0 b c k"; simp add: or.assoc)
        qed
        note IH0 = IH [of 0, unfolded drop_0]
        let ?n = "length (takeWhile (\<lambda>c. c = fc) fp')" and ?nb = "nbo \<or> native" and ?jb = "jbo \<or> \<not> native"
        let ?bad = "?nb \<and> ?jb \<or> ?n + 1 \<notin> {1, 2, 4} \<or> \<not> (n = 0 \<or> ?n + 1 = n \<or> ?n + 1 < n \<and> drop ?n fp' = [])"
          and ?g = "this_flag OR (if ?nb then fmt_has_nbo else 0) OR
            (if ?n + 1 = 2 then fmt_has_u2 else if ?n + 1 = 4 then fmt_has_u4 else 0)"
        have step: "format_loop fp F nbo jbo n =
            (if ?bad then Inl Should_Not_Reach_Here else format_loop (drop ?n fp') (F OR ?g) ?nb ?jb (?n + 1))" for F
          using Cons False Some p by (simp only: format_loop.simps option.case prod.case Let_def if_False) (cases native; cases nbo; cases jbo; auto simp: or.assoc)
        show ?thesis
        proof (cases ?bad)
          case bad: True
          show ?thesis by (simp only: step if_P [OF bad] rbind_simps)
        next
          case ok: False
          show ?thesis by (simp only: step if_not_P [OF ok] IH or.left_neutral)
        qed
      qed (use Cons False in simp)
    qed
  qed simp
qed

lemma compute_flags_more:
  "compute_flags (Some f) m = rbind (compute_flags (Some f) 0) (\<lambda>k. Inr (m OR k))"
  by (cases f)
    (auto simp: compute_flags_def format_loop_more [of _ m] format_loop_more [of _ "m OR _"]
      format_loop_more [of _ fmt_not_variable] format_loop_more [of _ "fmt_not_variable OR fmt_not_simple"] rbind_def or.assoc
      split: list.splits sum.splits)

definition flags_ok :: "string option \<Rightarrow> bool" where
  "flags_ok f \<longleftrightarrow> (case f of None \<Rightarrow> True | Some _ \<Rightarrow>
     (case compute_flags f 0 of Inr k \<Rightarrow> 0 < k \<and> k < 4096 \<and> k mod 4 = 0 | Inl _ \<Rightarrow> False))"

lemma formats_ok: "list_all flags_ok [None, Some ''b'', Some ''bc'', Some ''bcc'', Some ''bk'', Some ''bkk'',
     Some ''bi'', Some ''bic'', Some ''boo'', Some ''boooo'', Some ''bJJ'', Some ''bJJ__'', Some ''bJJJJ'', Some '''',
     Some ''bkkc'', Some ''bi_i'', Some ''bi_'', Some ''b_JJ'', Some ''bj'', Some ''wbii'', Some ''wbiicc'']"
  by (simp add: flags_ok_def compute_flags_def field_flag_def flag_defs)

lemma rows_formats: "list_all (\<lambda>d. flags_ok (bd_format d) \<and> flags_ok (bd_wide_format d) \<and> bd_format d \<noteq> None) code_rows"
  using formats_ok
  by (simp add: code_rows_def java_codes_1_def java_codes_2_def jvm_codes_def def7_def def8_def)

lemma row_flags: assumes "d \<in> set code_rows" shows "flags_ok (bd_format d)" "flags_ok (bd_wide_format d)" "bd_format d \<noteq> None"
  using assms rows_formats unfolding list_all_iff by blast+

lemma row_code: assumes "d \<in> set code_rows" shows "0 \<le> bd_code d \<and> bd_code d < 235"
proof (cases "d \<in> set jvm_codes")
  case True
  then show ?thesis using jvm_codes_order(2) unfolding list_all_iff by (meson order_trans zero_le_numeral)
next
  case False
  then have "d \<in> set (java_codes_1 @ java_codes_2)" using assms by (simp only: code_rows_def set_append Un_iff) simp
  then have "bd_code d \<in> set (map bd_code (java_codes_1 @ java_codes_2))" by (simp only: set_map imageI)
  then have "bd_code d \<in> {0..202}" by (simp only: java_codes_order set_upto)
  then show ?thesis by simp
qed

lemma rows_distinct: "distinct (map bd_code code_rows)"
proof -
  have e: "map bd_code code_rows = [0..202] @ map bd_code jvm_codes"
    using java_codes_order by (simp add: code_rows_def)
  show ?thesis unfolding e using jvm_codes_order by (auto simp: list_all_iff)
qed

lemma rows_complete: "set (map bd_code code_rows) = {0..234}"
proof (rule card_subset_eq)
  show "set (map bd_code code_rows) \<subseteq> {0..234}" 
  proof
    fix c assume "c \<in> set (map bd_code code_rows)"
    then obtain d where d: "d \<in> set code_rows" "c = bd_code d" by (simp only: set_map image_iff) blast
    then show "c \<in> {0..234}" using row_code [OF d(1)] by simp
  qed
  have "length code_rows = 235" by (simp add: code_rows_def java_codes_1_def java_codes_2_def jvm_codes_def)
  then show "card (set (map bd_code code_rows)) = card {0..234 :: int}" using distinct_card [OF rows_distinct] by simp
qed simp

lemma flags_ok_value:
  assumes "flags_ok f"
  shows "\<exists>fl. compute_flags f m = Inr fl"
proof (cases f)
  case (Some s)
  then show ?thesis using assms compute_flags_more [of s m] by (auto simp: flags_ok_def split: sum.splits)
qed (simp add: compute_flags_def)

definition tables_shape :: "bytecode_tables \<Rightarrow> bool" where
  "tables_shape t \<longleftrightarrow> length (bt_name t) = 235 \<and> length (bt_result_type t) = 235 \<and> length (bt_depth t) = 235 \<and>
     length (bt_lengths t) = 235 \<and> length (bt_java_code t) = 235 \<and> length (bt_flags t) = 512"

definition stored :: "bytecode_def \<Rightarrow> bytecode_tables \<Rightarrow> bool" where
  "stored d t \<longleftrightarrow> bt_name t ! nat (bd_code d) = Some (bd_name d) \<and> bt_result_type t ! nat (bd_code d) = Some (bd_result_type d) \<and>
     bt_depth t ! nat (bd_code d) = signed_take_bit 7 (bd_depth d) \<and>
     bt_lengths t ! nat (bd_code d) = word_of_int (push_bit 4 (format_length (bd_wide_format d)) OR format_length (bd_format d) AND 0xF) \<and>
     bt_java_code t ! nat (bd_code d) = bd_java_code d \<and>
     (\<exists>fl. compute_flags (bd_format d) (more_flags d) = Inr fl \<and> bt_flags t ! nat (bd_code d) = word_of_int fl) \<and>
     (\<exists>fl. compute_flags (bd_wide_format d) (more_flags d) = Inr fl \<and> bt_flags t ! (nat (bd_code d) + 256) = word_of_int fl)"

lemma define_code_ok:
  assumes d: "0 \<le> bd_code d" "bd_code d < 235" "flags_ok (bd_format d)" "flags_ok (bd_wide_format d)" and t: "tables_shape t"
  shows "\<exists>t'. define_code d t = Inr t' \<and> tables_shape t' \<and> stored d t' \<and> bt_is_initialized t' = bt_is_initialized t \<and>
    (\<forall>e. 0 \<le> bd_code e \<longrightarrow> bd_code e < 235 \<longrightarrow> bd_code e \<noteq> bd_code d \<longrightarrow> stored e t \<longrightarrow> stored e t')"
proof -
  obtain fl wfl where fl: "compute_flags (bd_format d) (more_flags d) = Inr fl" "compute_flags (bd_wide_format d) (more_flags d) = Inr wfl"
    using flags_ok_value d by metis
  let ?c = "nat (bd_code d)"
  let ?t = "t\<lparr>bt_name := (bt_name t)[?c := Some (bd_name d)], bt_result_type := (bt_result_type t)[?c := Some (bd_result_type d)],
    bt_depth := (bt_depth t)[?c := signed_take_bit 7 (bd_depth d)],
    bt_lengths := (bt_lengths t)[?c := word_of_int (push_bit 4 (format_length (bd_wide_format d)) OR format_length (bd_format d) AND 0xF)],
    bt_java_code := (bt_java_code t)[?c := bd_java_code d], bt_flags := (bt_flags t)[?c := word_of_int fl, ?c + 256 := word_of_int wfl]\<rparr>"
  have m: "bd_code d mod 256 = bd_code d" using d(1,2) by simp
  have n: "nat (bd_code d + 256) = ?c + 256" using d(1) by simp
  have c: "?c < 235" using d(1,2) by simp
  have "define_code d t = Inr ?t"
    using d(1,2) t fl c by (simp add: define_code_def Let_def arr_set_def tables_shape_def m n more_flags_def [symmetric])
  moreover have "tables_shape ?t" using t by (simp add: tables_shape_def)
  moreover have "stored d ?t" using t c fl by (simp add: stored_def tables_shape_def)
  moreover have "stored e ?t" if e: "0 \<le> bd_code e" "bd_code e < 235" "bd_code e \<noteq> bd_code d" "stored e t" for e
  proof -
    have "nat (bd_code e) \<noteq> ?c" "nat (bd_code e) < 235" "?c \<noteq> nat (bd_code e) + 256" using e d(1) c by auto
    then show ?thesis using e(4) by (simp add: stored_def)
  qed
  ultimately show ?thesis by (intro exI [of _ ?t]) simp
qed

lemma define_codes_ok:
  "list_all (\<lambda>d. 0 \<le> bd_code d \<and> bd_code d < 235 \<and> flags_ok (bd_format d) \<and> flags_ok (bd_wide_format d)) ds \<Longrightarrow>
   distinct (map bd_code ds) \<Longrightarrow> tables_shape t \<Longrightarrow>
   \<exists>t'. define_codes ds t = Inr t' \<and> tables_shape t' \<and> list_all (\<lambda>d. stored d t') ds \<and> bt_is_initialized t' = bt_is_initialized t \<and>
    (\<forall>e. 0 \<le> bd_code e \<longrightarrow> bd_code e < 235 \<longrightarrow> bd_code e \<notin> set (map bd_code ds) \<longrightarrow> stored e t \<longrightarrow> stored e t')"
proof (induction ds arbitrary: t)
  case (Cons d ds)
  obtain t1 where 1: "define_code d t = Inr t1" "tables_shape t1" "stored d t1" "bt_is_initialized t1 = bt_is_initialized t"
    "\<forall>e. 0 \<le> bd_code e \<longrightarrow> bd_code e < 235 \<longrightarrow> bd_code e \<noteq> bd_code d \<longrightarrow> stored e t \<longrightarrow> stored e t1"
    using define_code_ok [of d t] Cons.prems by auto
  obtain t2 where 2: "define_codes ds t1 = Inr t2" "tables_shape t2" "list_all (\<lambda>d. stored d t2) ds" "bt_is_initialized t2 = bt_is_initialized t1"
    "\<forall>e. 0 \<le> bd_code e \<longrightarrow> bd_code e < 235 \<longrightarrow> bd_code e \<notin> set (map bd_code ds) \<longrightarrow> stored e t1 \<longrightarrow> stored e t2"
    using Cons.IH [OF _ _ 1(2)] Cons.prems(1,2) by (simp only: list.pred_inject list.map distinct.simps) blast
  have "stored d t2" using 2(5) 1(3) Cons.prems(1,2) by simp
  then show ?case using 1 2 by (intro exI [of _ t2]) simp
qed simp

lemma rows_ok: "list_all (\<lambda>d. 0 \<le> bd_code d \<and> bd_code d < 235 \<and> flags_ok (bd_format d) \<and> flags_ok (bd_wide_format d)) code_rows"
  unfolding list_all_iff using row_code row_flags by blast

lemma bytecodes_ok:
  "Bytecodes_initialize static_tables = Inr bytecodes \<and> tables_shape bytecodes \<and> list_all (\<lambda>d. stored d bytecodes) code_rows"
proof -
  have s: "tables_shape static_tables" by (simp add: tables_shape_def static_tables_def number_of_codes_def)
  obtain t where t: "define_codes code_rows static_tables = Inr t" "tables_shape t" "list_all (\<lambda>d. stored d t) code_rows"
    using define_codes_ok [OF rows_ok rows_distinct s] by blast
  have i: "\<not> bt_is_initialized static_tables" by (simp add: static_tables_def)
  have e: "Bytecodes_initialize static_tables = Inr (t\<lparr>bt_is_initialized := True\<rparr>)"
    unfolding Bytecodes_initialize_def code_rows_def [symmetric] using i t(1) by simp
  then have b: "bytecodes = t\<lparr>bt_is_initialized := True\<rparr>" by (simp add: bytecodes_def)
  have "tables_shape bytecodes" using t(2) by (simp add: b tables_shape_def)
  moreover have "stored d (t\<lparr>bt_is_initialized := True\<rparr>) = stored d t" for d by (simp add: stored_def)
  ultimately show ?thesis using e t(3) by (simp add: b)
qed

lemma row_stored: "d \<in> set code_rows \<Longrightarrow> stored d bytecodes"
  using bytecodes_ok by (simp add: list_all_iff)

lemma rows_bounds:
  "list_all (\<lambda>d. format_length (bd_format d) < 16 \<and> format_length (bd_wide_format d) < 16 \<and> - 8 < bd_depth d \<and> bd_depth d < 8) code_rows"
  by (simp add: code_rows_def java_codes_1_def java_codes_2_def jvm_codes_def def7_def def8_def format_length_def)

lemma format_length_nonneg [simp]: "0 \<le> format_length f"
  by (simp add: format_length_def split: option.split)

lemma packed_lengths:
  assumes "0 \<le> l" "l < 16" "0 \<le> w" "w < 16"
  shows "uint (word_of_int (push_bit 4 w OR l AND 15) :: u_char) AND 15 = l"
    "drop_bit 4 (uint (word_of_int (push_bit 4 w OR l AND 15) :: u_char)) = w"
proof -
  have s: "bit l n \<Longrightarrow> n < 4" "bit w n \<Longrightarrow> n < 4" for n
  proof -
    have "take_bit 4 l = l" "take_bit 4 w = w" using assms by (simp_all add: take_bit_int_eq_self)
    then show "bit l n \<Longrightarrow> n < 4" "bit w n \<Longrightarrow> n < 4" by (metis bit_take_bit_iff)+
  qed
  have m: "(15 :: int) = mask 4" by (simp add: mask_eq_exp_minus_1)
  have u: "uint (word_of_int (push_bit 4 w OR l AND 15) :: u_char) = take_bit 8 (push_bit 4 w OR l AND 15)"
    by (simp add: uint_word_of_int_eq)
  show "uint (word_of_int (push_bit 4 w OR l AND 15) :: u_char) AND 15 = l"
    unfolding u unfolding m by (rule bit_eqI) (auto simp: bit_simps dest: s)
  show "drop_bit 4 (uint (word_of_int (push_bit 4 w OR l AND 15) :: u_char)) = w"
    unfolding u unfolding m
  proof (rule bit_eqI)
    fix n
    have "\<not> bit l (4 + n)" using s(1) [of "4 + n"] by auto
    then show "bit (drop_bit 4 (take_bit 8 (push_bit 4 w OR l AND mask 4))) n = bit w n"
      using s(2) [of n] by (auto simp: bit_simps)
  qed
qed

lemma table_get: "c \<in> {0..234} \<Longrightarrow> length xs = 235 \<Longrightarrow> arr_get xs c = Inr (xs ! nat c)"
  by (auto simp: arr_get_def)

lemma row_lengths:
  assumes d: "d \<in> set code_rows"
  shows "length_for (bd_code d) = Inr (format_length (bd_format d))"
    "wide_length_for (bd_code d) = Inr (format_length (bd_wide_format d))" "bc_depth (bd_code d) = Inr (bd_depth d)"
    "java_code (bd_code d) = Inr (bd_java_code d)" "bc_name (bd_code d) = Inr (Some (bd_name d))"
    "bc_result_type (bd_code d) = Inr (Some (bd_result_type d))"
proof -
  have c: "bd_code d \<in> {0..234}" using row_code [OF d] by simp
  have b: "format_length (bd_format d) < 16" "format_length (bd_wide_format d) < 16" "- 8 < bd_depth d" "bd_depth d < 8"
    using rows_bounds d by (auto simp: list_all_iff)
  have sh: "tables_shape bytecodes" using bytecodes_ok by simp
  note st = row_stored [OF d, unfolded stored_def]
  show "length_for (bd_code d) = Inr (format_length (bd_format d))"
    "wide_length_for (bd_code d) = Inr (format_length (bd_wide_format d))"
    using st sh packed_lengths [of "format_length (bd_format d)" "format_length (bd_wide_format d)"] b
    by (simp_all add: length_for_def wide_length_for_def table_get [OF c] tables_shape_def)
  have "signed_take_bit 7 (bd_depth d) = bd_depth d" using b by (intro signed_take_bit_int_eq_self) simp_all
  then show "bc_depth (bd_code d) = Inr (bd_depth d)" using st sh by (simp add: bc_depth_def table_get [OF c] tables_shape_def)
  show "java_code (bd_code d) = Inr (bd_java_code d)" "bc_name (bd_code d) = Inr (Some (bd_name d))"
    "bc_result_type (bd_code d) = Inr (Some (bd_result_type d))"
    using st sh by (simp_all add: java_code_def bc_name_def bc_result_type_def table_get [OF c] tables_shape_def)
qed

lemma rows_lengths: "list_all (\<lambda>d. length_for (bd_code d) = Inr (format_length (bd_format d)) \<and>
    wide_length_for (bd_code d) = Inr (format_length (bd_wide_format d))) code_rows"
  unfolding list_all_iff using row_lengths(1,2) by blast

lemma rows_depths: "list_all (\<lambda>d. bc_depth (bd_code d) = Inr (bd_depth d)) code_rows"
  unfolding list_all_iff using row_lengths(3) by blast

lemmas bc_lengths [simp] = rows_lengths [unfolded code_rows_def java_codes_1_def java_codes_2_def jvm_codes_def def7_def def8_def append_Cons append_Nil
  list.pred_inject bytecode_def.simps format_length_def option.case list.size, simplified]
lemmas bc_depths = rows_depths [unfolded code_rows_def java_codes_1_def java_codes_2_def jvm_codes_def def7_def def8_def append_Cons append_Nil
  list.pred_inject bytecode_def.simps, simplified]

lemma length_for_code: "0 \<le> c \<Longrightarrow> c < 235 \<Longrightarrow> \<exists>d \<in> set code_rows. bd_code d = c"
proof -
  assume "0 \<le> c" "c < 235"
  then have "c \<in> set (map bd_code code_rows)" unfolding rows_complete by simp
  then show ?thesis by (simp only: set_map image_iff) blast
qed

lemma length_for_undefined: "c < 0 \<or> 235 \<le> c \<Longrightarrow> length_for c = Inl Undefined_Behaviour"
  "c < 0 \<or> 235 \<le> c \<Longrightarrow> wide_length_for c = Inl Undefined_Behaviour"
  using bytecodes_ok by (auto simp: length_for_def wide_length_for_def arr_get_def tables_shape_def)

text \<open>The lengths for the evaluation of terms: the codes whose lengths are not 1 and, after \<open>wide\<close>, 0.\<close>

definition length_rows :: "(Code \<times> int \<times> int) list" where
  "length_rows =
    [(16, 2, 0), (17, 3, 0), (18, 2, 0), (19, 3, 0), (20, 3, 0), (21, 2, 4), (22, 2, 4), (23, 2, 4), (24, 2, 4), (25, 2, 4),
    (54, 2, 4), (55, 2, 4), (56, 2, 4), (57, 2, 4), (58, 2, 4), (132, 3, 6), (153, 3, 0), (154, 3, 0), (155, 3, 0),
    (156, 3, 0), (157, 3, 0), (158, 3, 0), (159, 3, 0), (160, 3, 0), (161, 3, 0), (162, 3, 0), (163, 3, 0), (164, 3, 0),
    (165, 3, 0), (166, 3, 0), (167, 3, 0), (168, 3, 0), (169, 2, 4), (170, 0, 0), (171, 0, 0), (178, 3, 0), (179, 3, 0),
    (180, 3, 0), (181, 3, 0), (182, 3, 0), (183, 3, 0), (184, 3, 0), (185, 5, 0), (186, 5, 0), (187, 3, 0), (188, 2, 0),
    (189, 3, 0), (192, 3, 0), (193, 3, 0), (196, 0, 0), (197, 4, 0), (198, 3, 0), (199, 3, 0), (200, 5, 0), (201, 5, 0),
    (202, 0, 0), (203, 3, 0), (204, 3, 0), (205, 3, 0), (206, 3, 0), (207, 3, 0), (208, 3, 0), (209, 3, 0), (210, 3, 0),
    (211, 3, 0), (212, 3, 0), (213, 3, 0), (214, 3, 0), (215, 3, 0), (216, 3, 0), (217, 3, 0), (218, 3, 0), (219, 3, 0),
    (221, 4, 0), (222, 4, 0), (223, 4, 0), (224, 2, 0), (225, 4, 0), (226, 3, 0), (227, 3, 0), (228, 0, 0), (229, 0, 0),
    (233, 3, 0), (230, 2, 0), (231, 3, 0)]"

lemma rows_length_rows:
  "list_all (\<lambda>d. case map_of length_rows (bd_code d) of None \<Rightarrow> format_length (bd_format d) = 1 \<and> format_length (bd_wide_format d) = 0
     | Some (l, w) \<Rightarrow> format_length (bd_format d) = l \<and> format_length (bd_wide_format d) = w) code_rows"
  by code_simp

lemma length_rows_lookup:
  assumes "0 \<le> c" "c < 235"
  shows "length_for c = Inr (case map_of length_rows c of None \<Rightarrow> 1 | Some (l, w) \<Rightarrow> l)"
    "wide_length_for c = Inr (case map_of length_rows c of None \<Rightarrow> 0 | Some (l, w) \<Rightarrow> w)"
proof -
  obtain d where d: "d \<in> set code_rows" "bd_code d = c" using length_for_code [OF assms] by blast
  show "length_for c = Inr (case map_of length_rows c of None \<Rightarrow> 1 | Some (l, w) \<Rightarrow> l)"
    "wide_length_for c = Inr (case map_of length_rows c of None \<Rightarrow> 0 | Some (l, w) \<Rightarrow> w)"
    using row_lengths(1,2) [OF d(1)] rows_length_rows d by (auto simp: list_all_iff split: option.splits)
qed

lemma length_for_lookup [code]:
  "length_for c = (if 0 \<le> c \<and> c < 235 then Inr (case map_of length_rows c of None \<Rightarrow> 1 | Some (l, w) \<Rightarrow> l) else Inl Undefined_Behaviour)"
  "wide_length_for c = (if 0 \<le> c \<and> c < 235 then Inr (case map_of length_rows c of None \<Rightarrow> 0 | Some (l, w) \<Rightarrow> w) else Inl Undefined_Behaviour)"
  using length_rows_lookup length_for_undefined [of c] by auto


lemma flags_value:
  assumes "flags_ok (Some f)" "0 \<le> m" "m < 4"
  shows "\<exists>fl. compute_flags (Some f) m = Inr fl \<and> 0 < fl \<and> fl < 4096 \<and> bit fl 0 = bit m 0 \<and> bit fl 1 = bit m 1"
proof -
  obtain k where k: "compute_flags (Some f) 0 = Inr k" "0 < k" "k < 4096" "k mod 4 = 0"
    using assms(1) by (auto simp: flags_ok_def split: sum.splits)
  have z: "take_bit 2 k = 0" using k(4) by (simp add: take_bit_eq_mod)
  have nb: "\<not> bit k 0" "\<not> bit k 1" using arg_cong [OF z, of "\<lambda>x. bit x 0"] arg_cong [OF z, of "\<lambda>x. bit x 1"] by (simp_all add: bit_take_bit_iff)
  have "take_bit 12 k = k" "take_bit 12 m = m" using k assms by (simp_all add: take_bit_int_eq_self)
  then have "take_bit 12 (m OR k) = m OR k" by simp
  then have "m OR k < 4096" using take_bit_int_less_exp [of 12 "m OR k"] by simp
  moreover have "0 < m OR k"
  proof (rule ccontr)
    assume "\<not> 0 < m OR k"
    then have "m OR k = 0" using assms(2) k(2) by (simp add: or_nonnegative_int_iff not_less order.antisym)
    then show False using k(2) by (simp add: or_eq_0_iff)
  qed
  ultimately show ?thesis using compute_flags_more [of f m] k(1) nb by (auto simp: bit_or_iff)
qed

lemma more_flags_facts: "0 \<le> more_flags d" "more_flags d < 4" "bit (more_flags d) 0 \<longleftrightarrow> bd_can_trap d" "bit (more_flags d) 1 \<longleftrightarrow> bd_java_code d \<noteq> bd_code d"
  by (simp_all add: more_flags_def bc_can_trap_def bc_can_rewrite_def bit_simps)

lemma and_flag: "(x :: int) AND push_bit n 1 = push_bit n 1 \<longleftrightarrow> bit x n"
proof
  assume "x AND push_bit n 1 = push_bit n 1"
  from arg_cong [OF this, of "\<lambda>y. bit y n"] show "bit x n" by (simp add: bit_simps)
next
  assume "bit x n"
  then show "x AND push_bit n 1 = push_bit n 1" by (intro bit_eqI) (auto simp: bit_simps)
qed

lemma flags_get: "c \<in> {0..234} \<Longrightarrow> bc_flags c False = Inr (uint (bt_flags bytecodes ! nat c))"
  "c \<in> {0..234} \<Longrightarrow> bc_flags c True = Inr (uint (bt_flags bytecodes ! (nat c + 256)))"
  using bytecodes_ok by (auto simp: bc_flags_def arr_get_def tables_shape_def nat_add_distrib)

lemma row_flag_facts:
  assumes d: "d \<in> set code_rows"
  shows "is_defined (bd_code d) = Inr True" "wide_is_defined (bd_code d) = Inr (bd_wide_format d \<noteq> None)"
    "can_trap (bd_code d) = Inr (bd_can_trap d)" "can_rewrite (bd_code d) = Inr (bd_java_code d \<noteq> bd_code d)"
proof -
  have c: "bd_code d \<in> {0..234}" using row_code [OF d] by simp
  note m = more_flags_facts [of d]
  obtain f where f: "bd_format d = Some f" using row_flags(3) [OF d] by auto
  obtain fl where fl: "compute_flags (bd_format d) (more_flags d) = Inr fl" "0 < fl" "fl < 4096"
    "bit fl 0 = bd_can_trap d" "bit fl 1 = (bd_java_code d \<noteq> bd_code d)"
    using flags_value [of f "more_flags d"] row_flags(1) [OF d] m f by auto
  have u: "uint (bt_flags bytecodes ! nat (bd_code d)) = fl"
    using row_stored [OF d] fl by (simp add: stored_def uint_word_of_int_eq take_bit_int_eq_self)
  show def: "is_defined (bd_code d) = Inr True"
    using c fl(2) by (simp add: is_defined_def flags_get(1) [OF c] u number_of_codes_def)
  show "can_trap (bd_code d) = Inr (bd_can_trap d)" "can_rewrite (bd_code d) = Inr (bd_java_code d \<noteq> bd_code d)"
    using fl by (simp_all add: can_trap_def can_rewrite_def has_all_flags_def flags_get(1) [OF c] u bc_can_trap_def
        bc_can_rewrite_def and_flag [of fl 0, simplified] and_flag [of fl 1, simplified])
  show "wide_is_defined (bd_code d) = Inr (bd_wide_format d \<noteq> None)"
  proof (cases "bd_wide_format d")
    case None
    have "uint (bt_flags bytecodes ! (nat (bd_code d) + 256)) = 0"
      using row_stored [OF d] None by (simp add: stored_def compute_flags_def)
    then show ?thesis using None def by (simp add: wide_is_defined_def flags_get(2) [OF c])
  next
    case (Some w)
    obtain wfl where w: "compute_flags (bd_wide_format d) (more_flags d) = Inr wfl" "0 < wfl" "wfl < 4096"
      using flags_value [of w "more_flags d"] row_flags(2) [OF d] m Some by auto
    have "uint (bt_flags bytecodes ! (nat (bd_code d) + 256)) = wfl"
      using row_stored [OF d] w by (simp add: stored_def uint_word_of_int_eq take_bit_int_eq_self)
    then show ?thesis using Some def w(2) by (simp add: wide_is_defined_def flags_get(2) [OF c])
  qed
qed

lemma rows_can_trap: "list_all (\<lambda>d. can_trap (bd_code d) = Inr (bd_can_trap d)) code_rows"
  unfolding list_all_iff using row_flag_facts(3) by blast

lemmas bc_traps = rows_can_trap [unfolded code_rows_def java_codes_1_def java_codes_2_def jvm_codes_def def7_def def8_def append_Cons append_Nil
  list.pred_inject bytecode_def.simps, simplified]

lemma jvm_traps: "list_all (\<lambda>d. \<exists>b. can_trap (bd_java_code d) = Inr b \<and> (bd_can_trap d \<longrightarrow> b)) jvm_codes"
  by (simp add: jvm_codes_def def7_def def8_def bc_traps ex_bool_eq)

lemma java_rows: "list_all (\<lambda>d. bd_java_code d = bd_code d) (java_codes_1 @ java_codes_2)"
  by (simp add: java_codes_1_def java_codes_2_def def7_def def8_def)

lemma row_traps_consistent:
  assumes d: "d \<in> set code_rows" shows "traps_consistent (bd_code d) = Inr True"
proof -
  have "\<exists>b. can_trap (bd_java_code d) = Inr b \<and> (bd_can_trap d \<longrightarrow> b)"
  proof (cases "d \<in> set jvm_codes")
    case True
    then show ?thesis using jvm_traps unfolding list_all_iff by blast
  next
    case False
    then have "d \<in> set (java_codes_1 @ java_codes_2)" using d by (simp only: code_rows_def set_append Un_iff) simp
    then have "bd_java_code d = bd_code d" using java_rows unfolding list_all_iff by blast
    then show ?thesis using row_flag_facts(3) [OF d] by simp
  qed
  then show ?thesis using row_flag_facts(1,3) [OF d] row_lengths(4) [OF d] by (auto simp: traps_consistent_def)
qed

text \<open>C25: initialization succeeds, no format is refused, and the rows cover each code below \<open>number_of_codes\<close>; what the
  accessors then read for a code is what its row says, and a code that can trap has a Java code that can trap.\<close>

theorem bytecode_tables_consistent:
  "Bytecodes_initialize static_tables = Inr bytecodes \<and> set (map bd_code (java_codes_1 @ java_codes_2 @ jvm_codes)) = {0..<number_of_codes} \<and>
   list_all (\<lambda>d. length_for (bd_code d) = Inr (format_length (bd_format d)) \<and>
     wide_length_for (bd_code d) = Inr (format_length (bd_wide_format d)) \<and>
     is_defined (bd_code d) = Inr True \<and> wide_is_defined (bd_code d) = Inr (bd_wide_format d \<noteq> None) \<and>
     can_trap (bd_code d) = Inr (bd_can_trap d) \<and> can_rewrite (bd_code d) = Inr (bd_java_code d \<noteq> bd_code d) \<and>
     traps_consistent (bd_code d) = Inr True) (java_codes_1 @ java_codes_2 @ jvm_codes)"
proof -
  have "{0..<number_of_codes} = {0..234 :: int}" by (auto simp: number_of_codes_def)
  then show ?thesis
    unfolding code_rows_def [symmetric] rows_complete list_all_iff
    using bytecodes_ok row_lengths(1,2) row_flag_facts row_traps_consistent by blast
qed

section \<open>What the stream reads\<close>

lemma round_to_4: "round_to x 4 = 4 * ((x + 3) div 4)"
proof -
  have "(x + 3) AND NOT (mask 2) = push_bit 2 (drop_bit 2 (x + 3))"
    by (rule bit_eqI) (auto simp: bit_simps not_less dest!: le_Suc_ex)
  then show ?thesis by (simp add: round_to_def mask_eq_exp_minus_1 push_bit_eq_mult drop_bit_eq_div)
qed

lemma aligned_bounds: "bcp < aligned_bcp m bcp" "aligned_bcp m bcp \<le> bcp + 4"
  unfolding aligned_bcp_def round_to_4 by presburger+

lemma byte_get_in: "0 \<le> p \<Longrightarrow> p < code_size m \<Longrightarrow> byte_get m p = Inr (uint (ca_bytes m ! nat p))"
  by (simp add: byte_get_def arr_get_def code_size_def)

lemma byte_get_Inr: "byte_get m p = Inr b \<Longrightarrow> 0 \<le> p \<and> p < code_size m \<and> 0 \<le> b \<and> b < 256"
  by (auto simp: byte_get_def rbind_Inr_iff arr_get_Inr code_size_def)

lemma u2_in: "0 \<le> p \<Longrightarrow> p + 1 < code_size m \<Longrightarrow> \<exists>w. get_Java_u2 m p = Inr w"
  by (simp add: get_Java_u2_def byte_get_in)

lemma u4_in: "0 \<le> p \<Longrightarrow> p + 3 < code_size m \<Longrightarrow> \<exists>w. get_Java_u4 m p = Inr w"
  by (simp add: get_Java_u4_def byte_get_in)

lemma raw_next_special_progress:
  assumes "raw_next_special m code s = Inr (c, s')" "c \<noteq> bc_illegal"
  shows "bcs_next_bci s < bcs_next_bci s' \<and> bcs_end_bci s' = bcs_end_bci s \<and> bcs_bci s' = bcs_bci s"
  using assms by (auto simp: raw_next_special_def rbind_Inr_iff Let_def split: if_splits)

lemma raw_next_progress:
  assumes "raw_next m s = Inr (c, s')" "c \<noteq> bc_illegal"
  shows "bcs_next_bci s < bcs_next_bci s' \<and> bcs_end_bci s' = bcs_end_bci s \<and> bcs_bci s' = bcs_next_bci s"
proof -
  let ?s = "s\<lparr>bcs_bci := bcs_next_bci s\<rparr>"
  obtain code len where 1: "byte_get m (bcs_next_bci s) = Inr code" "length_for code = Inr len"
    using assms(1) by (auto simp: raw_next_def rbind_Inr_iff Let_def)
  show ?thesis
  proof (cases "len > 0 \<and> bcs_bci ?s \<le> bcs_end_bci ?s - len")
    case True
    then show ?thesis using assms 1 by (auto simp: raw_next_def Let_def split: if_splits)
  next
    case False
    then have "raw_next_special m code ?s = Inr (c, s')" using assms(1) 1 by (simp add: raw_next_def Let_def split: if_splits)
    from raw_next_special_progress [OF this assms(2)] show ?thesis by simp
  qed
qed

text \<open>The bytes that the stream looks up in the tables are codes.\<close>

definition code_at_ok :: "code_array \<Rightarrow> int \<Rightarrow> bool" where
  "code_at_ok m p \<longleftrightarrow> uint (ca_bytes m ! nat p) < number_of_codes \<and>
     (uint (ca_bytes m ! nat p) = bc_wide \<and> p + 1 < code_size m \<longrightarrow> uint (ca_bytes m ! nat (p + 1)) < number_of_codes)"

definition switch_at :: "code_array \<Rightarrow> Code \<Rightarrow> RawBytecodeStream \<Rightarrow> bool" where
  "switch_at m c s \<longleftrightarrow> (let a = aligned_bcp m (bcs_bci s) in
     (c = bc_tableswitch \<longrightarrow> a + 12 < code_size m \<and> (\<exists>lo hi. get_Java_u4 m (a + 4) = Inr lo \<and> get_Java_u4 m (a + 8) = Inr hi \<and>
        bcs_next_bci s = a + (3 + sint hi - sint lo + 1) * 4)) \<and>
     (c = bc_lookupswitch \<longrightarrow> a + 8 < code_size m \<and> (\<exists>n. get_Java_u4 m (a + 4) = Inr n \<and>
        bcs_next_bci s = a + (2 + 2 * sint n) * 4)))"

definition instruction_at :: "code_array \<Rightarrow> Code \<Rightarrow> RawBytecodeStream \<Rightarrow> bool" where
  "instruction_at m c s \<longleftrightarrow> 0 \<le> bcs_bci s \<and> bcs_bci s < bcs_next_bci s \<and> bcs_next_bci s \<le> code_size m \<and>
     0 \<le> c \<and> c < number_of_codes \<and>
     (bcs_is_wide s = Some False \<and> uint (ca_bytes m ! nat (bcs_bci s)) = c \<and>
        (\<forall>l. length_for c = Inr l \<and> 0 < l \<longrightarrow> bcs_next_bci s = bcs_bci s + l) \<and> switch_at m c s \<or>
      bcs_is_wide s = Some True \<and> uint (ca_bytes m ! nat (bcs_bci s)) = bc_wide \<and>
        (\<exists>l. wide_length_for c = Inr l \<and> 0 < l \<and> bcs_next_bci s = bcs_bci s + l))"

definition stream_ok :: "code_array \<Rightarrow> RawBytecodeStream \<Rightarrow> bool" where
  "stream_ok m s \<longleftrightarrow> 0 \<le> bcs_next_bci s \<and> bcs_next_bci s \<le> bcs_end_bci s \<and> bcs_end_bci s = code_size m"

lemma length_for_in: "0 \<le> c \<Longrightarrow> c < number_of_codes \<Longrightarrow> \<exists>l w. length_for c = Inr l \<and> 0 \<le> l \<and> wide_length_for c = Inr w \<and> 0 \<le> w"
proof -
  assume "0 \<le> c" "c < number_of_codes"
  then obtain d where "d \<in> set code_rows" "bd_code d = c" using length_for_code [of c] by (auto simp: number_of_codes_def)
  then show ?thesis using row_lengths(1,2) [of d] by simp
qed

lemma special_length_in:
  assumes "0 \<le> p" "p < code_size m" "code_at_ok m p" "byte_get m p = Inr code"
  shows "\<exists>len. special_length_at m code p (Some (code_size m)) = Inr len"
proof -
  have c: "0 \<le> code" "code = uint (ca_bytes m ! nat p)" using assms(1,2,4) byte_get_in [OF assms(1,2)] by auto
  note al = aligned_bounds [where bcp = p and m = m]
  have w: "\<exists>len. rbind (byte_get m (p + 1)) wide_length_for = Inr len" if "code = bc_wide" "p + 1 < code_size m"
  proof -
    have "uint (ca_bytes m ! nat (p + 1)) < number_of_codes" using that assms(3) c(2) by (simp add: code_at_ok_def)
    then show ?thesis using that assms(1) byte_get_in [of "p + 1" m] length_for_in [of "uint (ca_bytes m ! nat (p + 1))"] by auto
  qed
  have t: "\<exists>w. get_Java_u4 m (aligned_bcp m p + 4) = Inr w" if "aligned_bcp m p + 8 < code_size m"
    using al that assms(1) by (intro u4_in) auto
  have t2: "\<exists>w. get_Java_u4 m (aligned_bcp m p + 8) = Inr w" if "aligned_bcp m p + 12 < code_size m"
    using al that assms(1) by (intro u4_in) auto
  show ?thesis using w t t2 by (auto simp: special_length_at_def Let_def not_le)
qed

lemma raw_special_positive:
  assumes "byte_get m p = Inr code" "raw_special_length_at m p b = Inr len" "0 < len"
  shows "length_for code = Inr 0"
  using assms by (auto simp: raw_special_length_at_def special_length_at_def Let_def split: if_splits)

lemma positive_int_pos: "0 < positive_int n \<Longrightarrow> positive_int n = n"
  by (simp add: positive_int_def split: if_splits)

lemma switch_at_special:
  assumes "byte_get m p = Inr code" "raw_special_length_at m p (Some (code_size m)) = Inr len" "0 < len" "bcs_bci s = p" "bcs_next_bci s = p + len"
  shows "switch_at m code s"
proof -
  have d: "bc_tableswitch \<noteq> bc_breakpoint" "bc_lookupswitch \<noteq> bc_breakpoint" "bc_tableswitch \<noteq> bc_wide" "bc_lookupswitch \<noteq> bc_wide"
    "bc_lookupswitch \<noteq> bc_tableswitch" by (simp_all add: bc_defs)
  let ?a = "aligned_bcp m p"
  have "?a + 12 < code_size m \<and> (\<exists>lo hi. get_Java_u4 m (?a + 4) = Inr lo \<and> get_Java_u4 m (?a + 8) = Inr hi \<and>
      p + len = ?a + (3 + sint hi - sint lo + 1) * 4)" if c: "code = bc_tableswitch"
  proof -
    obtain lo hi where w: "get_Java_u4 m (?a + 4) = Inr lo" "get_Java_u4 m (?a + 8) = Inr hi" and a: "?a + 12 < code_size m"
      and l: "len = positive_int (?a - p + (3 + sint hi - sint lo + 1) * 4)"
      using assms(1-3) c d by (auto simp: raw_special_length_at_def special_length_at_def Let_def rbind_Inr_iff split: if_splits)
    show ?thesis using w a positive_int_pos [OF assms(3) [unfolded l]] l by auto
  qed
  moreover have "?a + 8 < code_size m \<and> (\<exists>n. get_Java_u4 m (?a + 4) = Inr n \<and> p + len = ?a + (2 + 2 * sint n) * 4)"
    if c: "code = bc_lookupswitch"
  proof -
    obtain n where w: "get_Java_u4 m (?a + 4) = Inr n" and a: "?a + 8 < code_size m"
      and l: "len = positive_int (?a - p + (2 + 2 * sint n) * 4)"
      using assms(1-3) c d by (auto simp: raw_special_length_at_def special_length_at_def Let_def rbind_Inr_iff split: if_splits)
    show ?thesis using w a positive_int_pos [OF assms(3) [unfolded l]] l by auto
  qed
  ultimately show ?thesis using assms(4,5) by (simp add: switch_at_def Let_def)
qed

lemma raw_next_special_spec:
  assumes p: "0 \<le> bcs_bci s" "bcs_bci s < code_size m" "bcs_end_bci s = code_size m" "bcs_next_bci s = bcs_bci s"
    and ok: "code_at_ok m (bcs_bci s)" and b: "byte_get m (bcs_bci s) = Inr code"
  shows "\<exists>c s'. raw_next_special m code s = Inr (c, s') \<and> bcs_raw_code s' = c \<and> bcs_end_bci s' = bcs_end_bci s \<and>
    bcs_bci s' = bcs_bci s \<and> (c = bc_illegal \<or> instruction_at m c s')"
proof -
  let ?p = "bcs_bci s"
  have code: "code = uint (ca_bytes m ! nat ?p)" "code < number_of_codes" "0 \<le> code"
    using b ok byte_get_in [OF p(1,2)] by (auto simp: code_at_ok_def)
  obtain len where len: "raw_special_length_at m ?p (Some (code_size m)) = Inr len"
    using special_length_in [OF p(1,2) ok b] b by (cases "code = bc_breakpoint") (auto simp: raw_special_length_at_def)
  show ?thesis
  proof (cases "len \<le> 0 \<or> ?p > bcs_end_bci s - len \<or> ?p - len \<ge> bcs_next_bci s")
    case True
    then show ?thesis using len p(3) by (simp add: raw_next_special_def)
  next
    case False
    then have l: "0 < len" "?p + len \<le> code_size m" using p(3) by auto
    have z: "length_for code = Inr 0" by (rule raw_special_positive [OF b len l(1)])
    show ?thesis
    proof (cases "code = bc_wide")
      case True
      have w: "?p + 1 < code_size m"
      proof (rule ccontr)
        assume "\<not> ?p + 1 < code_size m"
        then have "raw_special_length_at m ?p (Some (code_size m)) = Inr (- 1)"
          using True b by (simp add: raw_special_length_at_def special_length_at_def bc_defs)
        then show False using len l(1) by simp
      qed
      let ?c = "uint (ca_bytes m ! nat (?p + 1))"
      have c: "byte_get m (?p + 1) = Inr ?c" using byte_get_in [of "?p + 1" m] w p(1) by simp
      have wl: "wide_length_for ?c = Inr len"
        using len b True c w by (simp add: raw_special_length_at_def special_length_at_def bc_defs)
      have cb: "?c < number_of_codes" using ok w True code(1) by (simp add: code_at_ok_def)
      show ?thesis using False len l True c wl cb w p code(1)
        by (auto simp: raw_next_special_def Let_def instruction_at_def)
    next
      case no: False
      let ?s = "s\<lparr>bcs_next_bci := bcs_next_bci s + len, bcs_is_wide := Some False, bcs_raw_code := code\<rparr>"
      have sw: "switch_at m code ?s" using switch_at_special [OF b len l(1), of ?s] p(4) by simp
      have "raw_next_special m code s = Inr (code, ?s)" using False len no p(3) by (simp add: raw_next_special_def Let_def)
      moreover have "instruction_at m code ?s" using l p code sw z by (simp add: instruction_at_def)
      ultimately show ?thesis by simp
    qed
  qed
qed

lemma raw_next_spec:
  assumes s: "stream_ok m s" "\<not> is_last_bytecode s" and ok: "code_at_ok m (bcs_next_bci s)"
  shows "\<exists>c s'. raw_next m s = Inr (c, s') \<and> bcs_raw_code s' = c \<and> bcs_end_bci s' = bcs_end_bci s \<and>
    bcs_bci s' = bcs_next_bci s \<and> (c = bc_illegal \<or> instruction_at m c s')"
proof -
  let ?p = "bcs_next_bci s" and ?s = "s\<lparr>bcs_bci := bcs_next_bci s\<rparr>"
  let ?c = "uint (ca_bytes m ! nat ?p)"
  have p: "0 \<le> ?p" "?p < code_size m" "bcs_end_bci s = code_size m" using s by (auto simp: stream_ok_def is_last_bytecode_def)
  have b: "byte_get m ?p = Inr ?c" by (rule byte_get_in [OF p(1,2)])
  have c: "0 \<le> ?c" "?c < number_of_codes" using ok by (auto simp: code_at_ok_def)
  obtain len where len: "length_for ?c = Inr len" using length_for_in [OF c] by blast
  show ?thesis
  proof (cases "len > 0 \<and> ?p \<le> code_size m - len")
    case True
    let ?s' = "s\<lparr>bcs_bci := ?p, bcs_is_wide := Some False, bcs_next_bci := ?p + len, bcs_raw_code := ?c\<rparr>"
    have sp: "?c \<noteq> bc_tableswitch" "?c \<noteq> bc_lookupswitch" using len True bc_lengths by auto
    then have "instruction_at m ?c ?s'" using True p c len by (simp add: instruction_at_def switch_at_def Let_def)
    moreover have "raw_next m s = Inr (?c, ?s')" using b len True p(3) by (simp add: raw_next_def Let_def)
    ultimately show ?thesis by simp
  next
    case False
    then have "raw_next m s = raw_next_special m ?c ?s" using b len p(3) by (auto simp: raw_next_def Let_def)
    then show ?thesis using raw_next_special_spec [of ?s m ?c] p ok b by simp
  qed
qed

lemma wide_byte_undefined:
  assumes "0 \<le> p" "p + 1 < code_size m" "uint (ca_bytes m ! nat p) = bc_wide" "\<not> uint (ca_bytes m ! nat (p + 1)) < number_of_codes"
  shows "raw_special_length_at m p (Some (code_size m)) = Inl Undefined_Behaviour"
  using assms byte_get_in [of p m] byte_get_in [of "p + 1" m] length_for_undefined(2)
  by (simp add: raw_special_length_at_def special_length_at_def bc_defs number_of_codes_def)

lemma raw_next_undefined:
  assumes "stream_ok m s" "\<not> is_last_bytecode s" and bad: "\<not> code_at_ok m (bcs_next_bci s)"
  shows "raw_next m s = Inl Undefined_Behaviour"
proof -
  let ?p = "bcs_next_bci s"
  have p: "0 \<le> ?p" "?p < code_size m" "bcs_end_bci s = code_size m" using assms by (auto simp: stream_ok_def is_last_bytecode_def)
  have b: "byte_get m ?p = Inr (uint (ca_bytes m ! nat ?p))" by (rule byte_get_in [OF p(1,2)])
  show ?thesis
  proof (cases "uint (ca_bytes m ! nat ?p) < number_of_codes")
    case False
    then show ?thesis using b length_for_undefined(1) by (simp add: raw_next_def Let_def number_of_codes_def)
  next
    case True
    then have w: "uint (ca_bytes m ! nat ?p) = bc_wide" "?p + 1 < code_size m" "\<not> uint (ca_bytes m ! nat (?p + 1)) < number_of_codes"
      using bad by (auto simp: code_at_ok_def)
    show ?thesis using b w(1) p wide_byte_undefined [OF p(1) w(2,1,3)] by (simp add: raw_next_def raw_next_special_def Let_def)
  qed
qed

text \<open>C19: reading the next code is defined exactly when the byte, and after a wide prefix the byte that follows, is below
  \<open>number_of_codes\<close>; it then yields \<open>_illegal\<close>, or a code with an instruction that lies inside the code array.\<close>

theorem raw_next_cases:
  assumes "stream_ok m s" "\<not> is_last_bytecode s"
  shows "if code_at_ok m (bcs_next_bci s)
    then \<exists>c s'. raw_next m s = Inr (c, s') \<and> bcs_bci s' = bcs_next_bci s \<and> (c = bc_illegal \<or> instruction_at m c s' \<and> stream_ok m s')
    else raw_next m s = Inl Undefined_Behaviour"
proof -
  have e: "bcs_end_bci s = code_size m" using assms(1) by (simp add: stream_ok_def)
  have "\<exists>c s'. raw_next m s = Inr (c, s') \<and> bcs_bci s' = bcs_next_bci s \<and> (c = bc_illegal \<or> instruction_at m c s' \<and> stream_ok m s')"
    if ok: "code_at_ok m (bcs_next_bci s)"
    using raw_next_spec [OF assms ok] e by (auto simp: instruction_at_def stream_ok_def)
  then show ?thesis using raw_next_undefined [OF assms] by simp
qed

theorem raw_next_cases_witness:
  "raw_next \<lparr>ca_base = 0, ca_bytes = [0xFF]\<rparr> (new_raw_stream \<lparr>ca_base = 0, ca_bytes = [0xFF]\<rparr>) = Inl Undefined_Behaviour"
proof -
  let ?m = "\<lparr>ca_base = 0, ca_bytes = [0xFF :: u1]\<rparr>"
  have s: "stream_ok ?m (new_raw_stream ?m)" "\<not> is_last_bytecode (new_raw_stream ?m)" "\<not> code_at_ok ?m (bcs_next_bci (new_raw_stream ?m))"
    by (simp_all add: stream_ok_def new_raw_stream_def set_interval_def is_last_bytecode_def code_size_def code_at_ok_def number_of_codes_def)
  show ?thesis using raw_next_cases [OF s(1,2)] s(3) by (simp only: if_False)
qed

end
