(* ===== verification/Verifier_Checks.thy ===== *)
theory Verifier_Checks
  imports Stack_Map_Table Bytecodes
begin

text \<open>
  The checks of \<open>classfile/verifier.cpp\<close> that \<open>ClassVerifier::verify_method\<close> is built from: the
  map of instruction starts, the exception and local variable tables, the stack map at an
  instruction, the exception handlers, constant pool indices, and the checks of the loads,
  stores, switches, array creations and returns.

  An error that the verifier records ends a check (each call is followed by \<open>CHECK_VERIFY\<close>), so it
  is the left value of the result.  The error context keeps the kind and the bytecode index; where
  its construction reads the frame, in \<open>stack_top_ctx\<close>, the read is part of the model.  Sums of a
  bytecode index and a 32-bit offset, and the shift of \<open>verify_cp_type\<close>, are computed as on the
  target: modulo \<open>2 ^ 32\<close>, and by the lower five bits of the count.
\<close>

unbundle bit_operations_syntax

section \<open>Errors\<close>

type_synonym ErrorContext = "FaultType \<times> int"

definition bad_code :: "int \<Rightarrow> ErrorContext" where "bad_code bci = (INVALID_BYTECODE, u2_of bci)"
definition bad_type :: "int \<Rightarrow> ErrorContext" where "bad_type bci = (WRONG_TYPE, u2_of bci)"
definition bad_cp_index :: "int \<Rightarrow> ErrorContext" where "bad_cp_index bci = (BAD_CP_INDEX, u2_of bci)"
definition missing_stackmap :: "int \<Rightarrow> ErrorContext" where "missing_stackmap bci = (MISSING_STACKMAP, u2_of bci)"

definition verify_error :: "ErrorContext \<Rightarrow> string \<Rightarrow> fault + 'a" where
  "verify_error ctx msg = Inl (Verify_Error (fst ctx) (snd ctx) msg)"

definition class_format_error :: "string \<Rightarrow> fault + 'a" where
  "class_format_error msg = Inl (Class_Format_Error msg)"

text \<open>\<open>TypeOrigin::stack(_stack_size, this)\<close> copies the frame and reads the slot above the top.\<close>

definition stack_top_ctx :: "StackMapFrame \<Rightarrow> fault + VerificationType" where
  "stack_top_ctx f = rbind (copy_frame f) (\<lambda>_. stack_at (u2_of (stack_size f)) f)"

definition stack_top_error :: "ErrorContext \<Rightarrow> string \<Rightarrow> StackMapFrame \<Rightarrow> fault + 'a" where
  "stack_top_error ctx msg f = rbind (stack_top_ctx f) (\<lambda>_. verify_error ctx msg)"

section \<open>Methods and classes\<close>

record ExceptionTableElement =
  ex_start_pc :: u2
  ex_end_pc :: u2
  ex_handler_pc :: u2
  ex_catch_type_index :: u2

text \<open>What the verifier reads of a method.  A table of local variables has pairs of \<open>start_bci\<close>
  and \<open>length\<close>.\<close>

record Method =
  m_name :: symbol
  m_signature :: symbol
  m_is_static :: bool
  m_is_native :: bool
  m_is_abstract :: bool
  m_is_overpass :: bool
  m_max_stack :: u2
  m_max_locals :: u2
  m_constants :: ConstantPool
  m_code :: code_array
  m_exception_table :: "ExceptionTableElement list"
  m_localvariable_table :: "(u2 \<times> u2) list option"
  m_stackmap_data :: "u1 list option"

text \<open>What the verifier reads of the loaded classes: the chain of superclasses of a class, its
  host class if it is anonymous, the interfaces it names, the members it finds (their holder and
  whether they are protected), and whether a class has been rewritten when the instruction at
  some index is reached.\<close>

record ClassVerifier =
  cv_context :: class_env
  cv_klass :: klass
  cv_name_of :: "klass \<Rightarrow> symbol"
  cv_supers :: "klass \<Rightarrow> klass list"
  cv_is_anonymous :: "klass \<Rightarrow> bool"
  cv_host_klass :: "klass \<Rightarrow> klass"
  cv_local_interfaces :: "klass \<Rightarrow> klass list"
  cv_major_version :: "klass \<Rightarrow> int"
  cv_find_local_field :: "klass \<Rightarrow> symbol \<Rightarrow> symbol \<Rightarrow> bool"
  cv_find_field :: "klass \<Rightarrow> symbol \<Rightarrow> symbol \<Rightarrow> (klass \<times> bool) option"
  cv_lookup_method :: "klass \<Rightarrow> symbol \<Rightarrow> symbol \<Rightarrow> (klass \<times> bool) option"
  cv_same_class_package :: "klass \<Rightarrow> klass \<Rightarrow> bool"
  cv_enable_invokedynamic :: bool
  cv_rewritten_at :: "int \<Rightarrow> bool"

definition current_type :: "ClassVerifier \<Rightarrow> VerificationType" where
  "current_type v = reference_type (cv_name_of v (cv_klass v))"

definition object_type :: VerificationType where "object_type = reference_type java_lang_Object"

definition java_lang_Throwable :: symbol where "java_lang_Throwable = symbol_of ''java/lang/Throwable''"
definition java_lang_String :: symbol where "java_lang_String = symbol_of ''java/lang/String''"
definition java_lang_Class :: symbol where "java_lang_Class = symbol_of ''java/lang/Class''"
definition java_lang_invoke_MethodHandle :: symbol where
  "java_lang_invoke_MethodHandle = symbol_of ''java/lang/invoke/MethodHandle''"
definition java_lang_invoke_MethodType :: symbol where
  "java_lang_invoke_MethodType = symbol_of ''java/lang/invoke/MethodType''"
definition java_lang_InternalError :: symbol where "java_lang_InternalError = symbol_of ''java/lang/InternalError''"

definition cp_index_to_type :: "int \<Rightarrow> ConstantPool \<Rightarrow> fault + VerificationType" where
  "cp_index_to_type index cp = rbind (klass_name_at index cp) (\<lambda>n. Inr (reference_type n))"

definition cp_ref_index_to_type :: "int \<Rightarrow> ConstantPool \<Rightarrow> fault + VerificationType" where
  "cp_ref_index_to_type index cp = rbind (klass_ref_index_at index cp) (\<lambda>i. cp_index_to_type i cp)"

section \<open>The tables of a method\<close>

function code_data_loop :: "code_array \<Rightarrow> RawBytecodeStream \<Rightarrow> u1 list \<Rightarrow> fault + u1 list" where
  "code_data_loop m bcs code_data =
    (if is_last_bytecode bcs then Inr code_data
     else rbind (raw_next m bcs) (\<lambda>x. case x of (code, bcs') \<Rightarrow>
       if code \<noteq> bc_illegal
       then rbind (arr_set code_data (bcs_bci bcs')
              (if bcs_raw_code bcs' = bc_new then NEW_OFFSET else BYTECODE_OFFSET)) (\<lambda>data.
            code_data_loop m bcs' data)
       else verify_error (bad_code (bcs_bci bcs')) ''Bad instruction''))"
  by pat_completeness auto
termination
  by (relation "measure (\<lambda>(m, bcs, _). nat (bcs_end_bci bcs - bcs_next_bci bcs))")
    (auto simp: is_last_bytecode_def dest!: raw_next_progress)

declare code_data_loop.simps [simp del]

definition generate_code_data :: "code_array \<Rightarrow> int \<Rightarrow> fault + u1 list" where
  "generate_code_data m code_length = code_data_loop m (new_raw_stream m) (replicate (nat code_length) 0)"

text \<open>\<open>code_data[pc] == 0\<close>, where the test of the bound comes first.\<close>

definition not_an_instruction :: "int \<Rightarrow> u1 list \<Rightarrow> int \<Rightarrow> fault + bool" where
  "not_an_instruction code_length code_data pc =
    (if pc \<ge> code_length then Inr True else rbind (arr_get code_data pc) (\<lambda>c. Inr (c = 0)))"

definition verify_catch_type :: "ClassVerifier \<Rightarrow> ConstantPool \<Rightarrow> ExceptionTableElement \<Rightarrow> fault + unit" where
  "verify_catch_type v cp e =
    (if ex_catch_type_index e = 0 then Inr ()
     else rbind (cp_index_to_type (uint (ex_catch_type_index e)) cp) (\<lambda>catch_type.
          rbind (is_assignable_from (cv_context v) (reference_type java_lang_Throwable) catch_type False) (\<lambda>is_subclass.
            if \<not> is_subclass
            then verify_error (bad_type (uint (ex_handler_pc e)))
              ''Catch type is not a subclass of Throwable in exception handler %d''
            else Inr ())))"

fun verify_exception_handler_table ::
    "ClassVerifier \<Rightarrow> ConstantPool \<Rightarrow> int \<Rightarrow> u1 list \<Rightarrow> ExceptionTableElement list \<Rightarrow> int \<Rightarrow> int \<Rightarrow> fault + int \<times> int" where
  "verify_exception_handler_table v cp code_length code_data [] mn mx = Inr (mn, mx)"
| "verify_exception_handler_table v cp code_length code_data (e # es) mn mx =
    (let start_pc = uint (ex_start_pc e); end_pc = uint (ex_end_pc e); handler_pc = uint (ex_handler_pc e) in
     rbind (not_an_instruction code_length code_data start_pc) (\<lambda>bad.
     if bad then class_format_error ''Illegal exception table start_pc %d''
     else rbind (if end_pc = code_length then Inr False
                 else if end_pc > code_length then Inr True
                 else rbind (arr_get code_data end_pc) (\<lambda>c. Inr (c = 0))) (\<lambda>bad.
     if bad then class_format_error ''Illegal exception table end_pc %d''
     else rbind (not_an_instruction code_length code_data handler_pc) (\<lambda>bad.
     if bad then class_format_error ''Illegal exception table handler_pc %d''
     else rbind (verify_catch_type v cp e) (\<lambda>_.
       verify_exception_handler_table v cp code_length code_data es
         (if start_pc < mn then start_pc else mn) (if end_pc > mx then end_pc else mx))))))"

fun verify_local_variable_table :: "int \<Rightarrow> u1 list \<Rightarrow> (u2 \<times> u2) list \<Rightarrow> fault + unit" where
  "verify_local_variable_table code_length code_data [] = Inr ()"
| "verify_local_variable_table code_length code_data ((start_bci, len) # es) =
     rbind (not_an_instruction code_length code_data (uint start_bci)) (\<lambda>bad.
     if bad then class_format_error ''Illegal local variable table start_pc %d''
     else let end_bci = uint start_bci + uint len in
       rbind (if end_bci = code_length then Inr False else not_an_instruction code_length code_data end_bci) (\<lambda>bad.
       if bad then class_format_error ''Illegal local variable table length %d''
       else verify_local_variable_table code_length code_data es))"

section \<open>The stack map at an instruction\<close>

definition verify_stackmap_table ::
    "ClassVerifier \<Rightarrow> int \<Rightarrow> int \<Rightarrow> StackMapFrame \<Rightarrow> StackMapTable \<Rightarrow> bool \<Rightarrow> fault + int \<times> StackMapFrame" where
  "verify_stackmap_table v stackmap_index bci current_frame stackmap_table no_control_flow =
    (if stackmap_index < smt_frame_count stackmap_table
     then rbind (get_offset stackmap_index stackmap_table) (\<lambda>offset.
       let this_offset = u2_of offset in
       if no_control_flow \<and> this_offset > bci
       then verify_error (missing_stackmap bci) ''Expecting a stack map frame''
       else if this_offset = bci
       then rbind (match_stackmap_at (cv_context v) current_frame this_offset stackmap_index
                     (\<not> no_control_flow) True stackmap_table) (\<lambda>(mismatch, frame).
            case mismatch of
              Some ctx \<Rightarrow> verify_error ctx ''Instruction type does not match stack map''
            | None \<Rightarrow> Inr (u2_of (stackmap_index + 1), frame))
       else if this_offset < bci then class_format_error ''Bad stack map offset %d''
       else Inr (stackmap_index, current_frame))
     else if no_control_flow then verify_error (bad_code bci) ''Expecting a stack map frame''
     else Inr (stackmap_index, current_frame))"

fun verify_exception_handler_targets ::
    "ClassVerifier \<Rightarrow> ConstantPool \<Rightarrow> int \<Rightarrow> bool \<Rightarrow> StackMapFrame \<Rightarrow> StackMapTable \<Rightarrow> ExceptionTableElement list \<Rightarrow>
     fault + unit" where
  "verify_exception_handler_targets v cp bci this_uninit current_frame stackmap_table [] = Inr ()"
| "verify_exception_handler_targets v cp bci this_uninit current_frame stackmap_table (e # es) =
     rbind (if bci \<ge> uint (ex_start_pc e) \<and> bci < uint (ex_end_pc e)
       then let new_frame = frame_in_exception_handler
                  (if this_uninit then flags current_frame OR FLAG_THIS_UNINIT else flags current_frame) current_frame
            in rbind (if ex_catch_type_index e \<noteq> 0
                      then rbind (cp_index_to_type (uint (ex_catch_type_index e)) cp) (\<lambda>catch_type. push_stack catch_type new_frame)
                      else push_stack (reference_type java_lang_Throwable) new_frame) (\<lambda>new_frame.
               rbind (match_stackmap (cv_context v) new_frame (uint (ex_handler_pc e)) True False stackmap_table) (\<lambda>(mismatch, _).
               case mismatch of
                 Some ctx \<Rightarrow> verify_error ctx ''Stack map does not match the one at exception handler %d''
               | None \<Rightarrow> Inr ()))
       else Inr ()) (\<lambda>_. verify_exception_handler_targets v cp bci this_uninit current_frame stackmap_table es)"

section \<open>Constant pool indices\<close>

definition verify_cp_index :: "int \<Rightarrow> ConstantPool \<Rightarrow> int \<Rightarrow> fault + unit" where
  "verify_cp_index bci cp index =
    (if index \<le> 0 \<or> index \<ge> cp_length cp
     then verify_error (bad_cp_index bci) ''Illegal constant pool index %d in class %s'' else Inr ())"

text \<open>\<open>1 << tag\<close>\<close>

definition tag_bit :: "int \<Rightarrow> int" where "tag_bit tag = push_bit (nat (tag mod 32)) 1"

definition verify_cp_type :: "int \<Rightarrow> int \<Rightarrow> ConstantPool \<Rightarrow> int \<Rightarrow> fault + unit" where
  "verify_cp_type bci index cp types =
    (if cp_cache cp \<noteq> None then Inl Should_Not_Reach_Here
     else rbind (verify_cp_index bci cp index) (\<lambda>_.
          rbind (tag_at index cp) (\<lambda>tag.
            if types AND tag_bit tag = 0
            then verify_error (bad_cp_index bci) ''Illegal type at constant pool entry %d in class %s'' else Inr ())))"

definition verify_cp_class_type :: "int \<Rightarrow> int \<Rightarrow> ConstantPool \<Rightarrow> fault + unit" where
  "verify_cp_class_type bci index cp =
     rbind (verify_cp_index bci cp index) (\<lambda>_.
     rbind (tag_at index cp) (\<lambda>tag.
       if \<not> tag_is_klass tag \<and> \<not> tag_is_unresolved_klass tag
       then verify_error (bad_cp_index bci) ''Illegal type at constant pool entry %d in class %s'' else Inr ()))"

definition ldc_types :: int where
  "ldc_types = tag_bit JVM_CONSTANT_Integer OR tag_bit JVM_CONSTANT_Float OR tag_bit JVM_CONSTANT_String OR
     tag_bit JVM_CONSTANT_Class OR tag_bit JVM_CONSTANT_MethodHandle OR tag_bit JVM_CONSTANT_MethodType"

definition verify_ldc :: "Code \<Rightarrow> int \<Rightarrow> ConstantPool \<Rightarrow> int \<Rightarrow> StackMapFrame \<Rightarrow> fault + StackMapFrame" where
  "verify_ldc opcode index cp bci f =
     rbind (verify_cp_index bci cp index) (\<lambda>_.
     rbind (tag_at index cp) (\<lambda>tag.
     rbind (if opcode = bc_ldc \<or> opcode = bc_ldc_w
            then if \<not> tag_is_unresolved_klass tag then verify_cp_type bci index cp ldc_types else Inr ()
            else verify_cp_type bci index cp (tag_bit JVM_CONSTANT_Double OR tag_bit JVM_CONSTANT_Long)) (\<lambda>_.
     rbind (if tag_is_string tag then is_pseudo_string_at index cp else Inr False) (\<lambda>pseudo.
     if tag_is_string tag \<and> pseudo then push_stack object_type f
     else if tag_is_string tag then push_stack (reference_type java_lang_String) f
     else if tag_is_klass tag \<or> tag_is_unresolved_klass tag then push_stack (reference_type java_lang_Class) f
     else if tag_is_int tag then push_stack integer_type f
     else if tag_is_float tag then push_stack float_type f
     else if tag_is_double tag then push_stack_2 double_type double2_type f
     else if tag_is_long tag then push_stack_2 long_type long2_type f
     else if tag_is_method_handle tag then push_stack (reference_type java_lang_invoke_MethodHandle) f
     else if tag_is_method_type tag then push_stack (reference_type java_lang_invoke_MethodType) f
     else verify_error (bad_cp_index bci) ''Invalid index in ldc''))))"

section \<open>Switches\<close>

definition NONZERO_PADDING_BYTES_IN_SWITCH_MAJOR_VERSION :: int where
  "NONZERO_PADDING_BYTES_IN_SWITCH_MAJOR_VERSION = 51"
definition STATIC_METHOD_IN_INTERFACE_MAJOR_VERSION :: int where
  "STATIC_METHOD_IN_INTERFACE_MAJOR_VERSION = 52"
definition INVOKEDYNAMIC_MAJOR_VERSION :: int where "INVOKEDYNAMIC_MAJOR_VERSION = 51"

function padding_loop :: "code_array \<Rightarrow> int \<Rightarrow> int \<Rightarrow> int \<Rightarrow> fault + unit" where
  "padding_loop m bci p aligned =
    (if p < aligned
     then rbind (byte_get m p) (\<lambda>b.
       if b \<noteq> 0 then verify_error (bad_code bci) ''Nonzero padding byte in lookswitch or tableswitch''
       else padding_loop m bci (p + 1) aligned)
     else Inr ())"
  by pat_completeness auto
termination by (relation "measure (\<lambda>(m, bci, p, aligned). nat (aligned - p))") auto

declare padding_loop.simps [simp del]

function sorted_keys_loop :: "code_array \<Rightarrow> int \<Rightarrow> int \<Rightarrow> int \<Rightarrow> int \<Rightarrow> fault + unit" where
  "sorted_keys_loop m bci aligned keys i =
    (if i < keys - 1
     then rbind (get_Java_u4 m (aligned + (2 + 2 * i) * 4)) (\<lambda>this_key.
          rbind (get_Java_u4 m (aligned + (2 + 2 * i + 2) * 4)) (\<lambda>next_key.
            if sint this_key \<ge> sint next_key then verify_error (bad_code bci) ''Bad lookupswitch instruction''
            else sorted_keys_loop m bci aligned keys (i + 1)))
     else Inr ())"
  by pat_completeness auto
termination by (relation "measure (\<lambda>(m, bci, aligned, keys, i). nat (keys - i))") auto

declare sorted_keys_loop.simps [simp del]

function switch_targets_loop ::
    "ClassVerifier \<Rightarrow> code_array \<Rightarrow> int \<Rightarrow> int \<Rightarrow> StackMapFrame \<Rightarrow> StackMapTable \<Rightarrow> int \<Rightarrow> int \<Rightarrow> fault + unit" where
  "switch_targets_loop v m bci delta f t keys i =
    (if i < keys
     then rbind (get_Java_u4 m (aligned_bcp m bci + (3 + i * delta) * 4)) (\<lambda>w.
          rbind (check_jump_target (cv_context v) f (signed_take_bit 31 (bci + sint w)) t) (\<lambda>_.
            switch_targets_loop v m bci delta f t keys (i + 1)))
     else Inr ())"
  by pat_completeness auto
termination by (relation "measure (\<lambda>(v, m, bci, delta, f, t, keys, i). nat (keys - i))") auto

declare switch_targets_loop.simps [simp del]

definition verify_switch ::
    "ClassVerifier \<Rightarrow> code_array \<Rightarrow> RawBytecodeStream \<Rightarrow> StackMapTable \<Rightarrow> StackMapFrame \<Rightarrow> fault + StackMapFrame" where
  "verify_switch v m bcs t f =
    (let bci = bcs_bci bcs; aligned = aligned_bcp m bci in
     rbind (if cv_major_version v (cv_klass v) < NONZERO_PADDING_BYTES_IN_SWITCH_MAJOR_VERSION
            then padding_loop m bci (bci + 1) aligned else Inr ()) (\<lambda>_.
     rbind (get_Java_u4 m aligned) (\<lambda>default_offset.
     rbind (pop_stack_type (cv_context v) integer_type f) (\<lambda>(_, f).
     rbind (if bcs_raw_code bcs = bc_tableswitch
            then rbind (get_Java_u4 m (aligned + 4)) (\<lambda>low.
                 rbind (get_Java_u4 m (aligned + 2 * 4)) (\<lambda>high.
                   if sint low > sint high
                   then verify_error (bad_code bci) ''low must be less than or equal to high in tableswitch''
                   else let keys = signed_take_bit 31 (sint high - sint low + 1) in
                     if keys < 0 then verify_error (bad_code bci) ''too many keys in tableswitch''
                     else Inr (keys, 1)))
            else rbind (get_Java_u4 m (aligned + 4)) (\<lambda>n.
                   if sint n < 0 then verify_error (bad_code bci) ''number of keys in lookupswitch less than 0''
                   else rbind (sorted_keys_loop m bci aligned (sint n) 0) (\<lambda>_. Inr (sint n, 2)))) (\<lambda>(keys, delta).
     rbind (check_jump_target (cv_context v) f (signed_take_bit 31 (bci + sint default_offset)) t) (\<lambda>_.
     rbind (switch_targets_loop v m bci delta f t keys 0) (\<lambda>_. Inr f)))))))"

section \<open>Arrays, local variables, returns\<close>

text \<open>\<open>ClassVerifier::create_temporary_symbol(const char*, int)\<close>: a symbol is too long from
  \<open>2 ^ 16\<close> bytes on.\<close>

definition create_symbol :: "u_char list \<Rightarrow> fault + symbol" where
  "create_symbol s =
    (if length s > 65535 then Inl (Pending_Exception java_lang_InternalError ''name is too long to represent'') else Inr s)"

definition newarray_signatures :: "string option list" where
  "newarray_signatures = [None, None, None, None, Some ''[Z'', Some ''[C'', Some ''[F'', Some ''[D'', Some ''[B'', Some ''[S'',
     Some ''[I'', Some ''[J'']"

definition get_newarray_type :: "int \<Rightarrow> int \<Rightarrow> fault + VerificationType" where
  "get_newarray_type index bci =
    (if index < int (basic_type_code T_BOOLEAN) \<or> index > int (basic_type_code T_LONG)
     then verify_error (bad_code bci) ''Illegal newarray instruction''
     else rbind (arr_get newarray_signatures index) (\<lambda>sig.
          case sig of
            None \<Rightarrow> Inl Undefined_Behaviour
          | Some s \<Rightarrow> rbind (create_symbol (symbol_of s)) (\<lambda>n. Inr (reference_type n))))"

text \<open>The name of the array class; \<open>strlen\<close> stops at the first zero byte.\<close>

definition array_signature :: "VerificationType \<Rightarrow> u_char list" where
  "array_signature component_type =
    (let name = takeWhile (\<lambda>b. b \<noteq> 0) (vt_name component_type)
     in if is_array component_type then 91 # name else [91, 76] @ name @ [59])"

definition verify_anewarray :: "ClassVerifier \<Rightarrow> int \<Rightarrow> int \<Rightarrow> ConstantPool \<Rightarrow> StackMapFrame \<Rightarrow> fault + StackMapFrame" where
  "verify_anewarray v bci index cp f =
     rbind (verify_cp_class_type bci index cp) (\<lambda>_.
     rbind (pop_stack_type (cv_context v) integer_type f) (\<lambda>(_, f).
     rbind (cp_index_to_type index cp) (\<lambda>component_type.
     rbind (create_symbol (array_signature component_type)) (\<lambda>arr_sig.
       push_stack (reference_type arr_sig) f))))"

definition verify_iload :: "ClassVerifier \<Rightarrow> int \<Rightarrow> StackMapFrame \<Rightarrow> fault + StackMapFrame" where
  "verify_iload v index f = rbind (get_local (cv_context v) index integer_type f) (\<lambda>(_, f). push_stack integer_type f)"
definition verify_lload :: "ClassVerifier \<Rightarrow> int \<Rightarrow> StackMapFrame \<Rightarrow> fault + StackMapFrame" where
  "verify_lload v index f =
     rbind (get_local_2 (cv_context v) index long_type long2_type f) (\<lambda>_. push_stack_2 long_type long2_type f)"
definition verify_fload :: "ClassVerifier \<Rightarrow> int \<Rightarrow> StackMapFrame \<Rightarrow> fault + StackMapFrame" where
  "verify_fload v index f = rbind (get_local (cv_context v) index float_type f) (\<lambda>(_, f). push_stack float_type f)"
definition verify_dload :: "ClassVerifier \<Rightarrow> int \<Rightarrow> StackMapFrame \<Rightarrow> fault + StackMapFrame" where
  "verify_dload v index f =
     rbind (get_local_2 (cv_context v) index double_type double2_type f) (\<lambda>_. push_stack_2 double_type double2_type f)"
definition verify_aload :: "ClassVerifier \<Rightarrow> int \<Rightarrow> StackMapFrame \<Rightarrow> fault + StackMapFrame" where
  "verify_aload v index f = rbind (get_local (cv_context v) index reference_check f) (\<lambda>(type, f). push_stack type f)"
definition verify_istore :: "ClassVerifier \<Rightarrow> int \<Rightarrow> StackMapFrame \<Rightarrow> fault + StackMapFrame" where
  "verify_istore v index f = rbind (pop_stack_type (cv_context v) integer_type f) (\<lambda>(_, f). set_local index integer_type f)"
definition verify_lstore :: "ClassVerifier \<Rightarrow> int \<Rightarrow> StackMapFrame \<Rightarrow> fault + StackMapFrame" where
  "verify_lstore v index f =
     rbind (pop_stack_2 (cv_context v) long2_type long_type f) (set_local_2 index long_type long2_type)"
definition verify_fstore :: "ClassVerifier \<Rightarrow> int \<Rightarrow> StackMapFrame \<Rightarrow> fault + StackMapFrame" where
  "verify_fstore v index f = rbind (pop_stack_type (cv_context v) float_type f) (\<lambda>(_, f). set_local index float_type f)"
definition verify_dstore :: "ClassVerifier \<Rightarrow> int \<Rightarrow> StackMapFrame \<Rightarrow> fault + StackMapFrame" where
  "verify_dstore v index f =
     rbind (pop_stack_2 (cv_context v) double2_type double_type f) (set_local_2 index double_type double2_type)"
definition verify_astore :: "ClassVerifier \<Rightarrow> int \<Rightarrow> StackMapFrame \<Rightarrow> fault + StackMapFrame" where
  "verify_astore v index f = rbind (pop_stack_type (cv_context v) reference_check f) (\<lambda>(type, f). set_local index type f)"
definition verify_iinc :: "ClassVerifier \<Rightarrow> int \<Rightarrow> StackMapFrame \<Rightarrow> fault + StackMapFrame" where
  "verify_iinc v index f = rbind (get_local (cv_context v) index integer_type f) (\<lambda>(type, f). set_local index type f)"

definition verify_return_value ::
    "ClassVerifier \<Rightarrow> VerificationType \<Rightarrow> VerificationType \<Rightarrow> int \<Rightarrow> StackMapFrame \<Rightarrow> fault + unit" where
  "verify_return_value v return_type type bci f =
    (if return_type = bogus_type then stack_top_error (bad_type bci) ''Method expects a return value'' f
     else rbind (is_assignable_from (cv_context v) return_type type False) (\<lambda>match.
       if \<not> match then stack_top_error (bad_type bci) ''Bad return type'' f else Inr ()))"

end
