(* ===== verification/Method_Verifier.thy ===== *)
theory Method_Verifier
  imports Verifier_Checks
begin

text \<open>
  The type checker itself, the rest of \<open>classfile/verifier.cpp\<close>: field accesses, invocations, the
  switch over the instructions, the loops over the code of a method and over the methods of a
  class.

  The scan of \<open>ends_in_athrow\<close> need not end; a check that does not return is \<open>None\<close>.  The functions
  that call it have results of type \<open>(fault + 'a) option\<close>.
\<close>

unbundle bit_operations_syntax

definition pbind :: "(fault + 'a) option \<Rightarrow> ('a \<Rightarrow> (fault + 'b) option) \<Rightarrow> (fault + 'b) option" where
  "pbind m k = (case m of None \<Rightarrow> None | Some (Inl e) \<Rightarrow> Some (Inl e) | Some (Inr x) \<Rightarrow> k x)"

section \<open>Fields\<close>

fun name_in_supers :: "ClassVerifier \<Rightarrow> symbol \<Rightarrow> klass list \<Rightarrow> bool" where
  "name_in_supers v ref_name [] = False"
| "name_in_supers v ref_name (super # supers) = (cv_name_of v super = ref_name \<or> name_in_supers v ref_name supers)"

definition load_class :: "ClassVerifier \<Rightarrow> symbol \<Rightarrow> fault + klass" where
  "load_class v name = resolve_or_fail (cv_context v) name"

definition is_protected_access ::
    "ClassVerifier \<Rightarrow> klass \<Rightarrow> klass \<Rightarrow> symbol \<Rightarrow> symbol \<Rightarrow> bool \<Rightarrow> bool" where
  "is_protected_access v this_class target_class field_name field_sig is_method =
    (if \<not> klass_is_subclass_of (cv_context v) this_class target_class then False
     else case (if is_method then cv_lookup_method v target_class field_name field_sig
                else cv_find_field v target_class field_name field_sig) of
            None \<Rightarrow> False
          | Some (holder, is_protected) \<Rightarrow> is_protected \<and> \<not> cv_same_class_package v this_class holder)"

text \<open>\<open>for (int i = 0; i < n; i++) push_stack(types[i])\<close> and the loop that pops them.\<close>

fun push_types :: "VerificationType list \<Rightarrow> StackMapFrame \<Rightarrow> fault + StackMapFrame" where
  "push_types [] f = Inr f"
| "push_types (t # ts) f = rbind (push_stack t f) (push_types ts)"

fun pop_types :: "ClassVerifier \<Rightarrow> VerificationType list \<Rightarrow> StackMapFrame \<Rightarrow> fault + StackMapFrame" where
  "pop_types v [] f = Inr f"
| "pop_types v (t # ts) f = rbind (pop_stack_type (cv_context v) t f) (\<lambda>(_, f). pop_types v ts f)"

definition check_protected ::
    "ClassVerifier \<Rightarrow> ConstantPool \<Rightarrow> int \<Rightarrow> int \<Rightarrow> symbol \<Rightarrow> symbol \<Rightarrow> VerificationType \<Rightarrow> StackMapFrame \<Rightarrow>
     fault + StackMapFrame" where
  "check_protected v cp bci index field_name field_sig stack_object_type f =
    (if current_type v = stack_object_type then Inr f
     else rbind (klass_ref_index_at index cp) (\<lambda>i. rbind (klass_name_at i cp) (\<lambda>ref_class_name.
       if \<not> name_in_supers v ref_class_name (cv_supers v (cv_klass v)) then Inr f
       else rbind (load_class v ref_class_name) (\<lambda>ref_class.
         if is_protected_access v (cv_klass v) ref_class field_name field_sig False
         then rbind (is_assignable_from (cv_context v) (current_type v) stack_object_type True) (\<lambda>is_assignable.
           if \<not> is_assignable
           then stack_top_error (bad_type bci) ''Bad access to protected data in getfield'' f else Inr f)
         else Inr f))))"

definition verify_field_instructions ::
    "ClassVerifier \<Rightarrow> code_array \<Rightarrow> RawBytecodeStream \<Rightarrow> ConstantPool \<Rightarrow> StackMapFrame \<Rightarrow> fault + StackMapFrame" where
  "verify_field_instructions v m bcs cp f =
    (let bci = u2_of (bcs_bci bcs); code = bcs_raw_code bcs in
     rbind (get_index_u2 m bcs) (\<lambda>index.
     rbind (verify_cp_type bci index cp (tag_bit JVM_CONSTANT_Fieldref)) (\<lambda>_.
     rbind (name_ref_at index cp) (\<lambda>field_name.
     rbind (signature_ref_at index cp) (\<lambda>field_sig.
     if \<not> is_valid_type_signature field_sig
     then class_format_error ''Invalid signature for field in class %s referenced from constant pool index %d''
     else rbind (cp_ref_index_to_type index cp) (\<lambda>ref_class_type.
     if \<not> is_object ref_class_type
     then verify_error (bad_type bci) ''Expecting reference to class in class %s at constant pool index %d''
     else rbind (new_stream field_sig False) (\<lambda>sig_stream.
          rbind (change_sig_to_verificationType field_sig sig_stream) (\<lambda>field_type.
     if code = bc_getstatic then push_types field_type f
     else if code = bc_putstatic then pop_types v (rev field_type) f
     else if code = bc_getfield then
       rbind (pop_stack_type (cv_context v) ref_class_type f) (\<lambda>(stack_object_type, f).
       rbind (push_types field_type f) (\<lambda>f.
         check_protected v cp bci index field_name field_sig stack_object_type f))
     else if code = bc_putfield then
       rbind (pop_types v (rev field_type) f) (\<lambda>f.
       rbind (pop_stack f) (\<lambda>(top, f).
       let stack_object_type =
             (if top = uninitialized_this_type \<and> vt_equals ref_class_type (current_type v) \<and>
                 cv_find_local_field v (cv_klass v) field_name field_sig
              then current_type v else top) in
       rbind (is_assignable_from (cv_context v) ref_class_type stack_object_type False) (\<lambda>is_assignable.
       if \<not> is_assignable then stack_top_error (bad_type bci) ''Bad type on operand stack in putfield'' f
       else check_protected v cp bci index field_name field_sig stack_object_type f)))
     else Inl Should_Not_Reach_Here))))))))"

section \<open>Does every path throw?\<close>

text \<open>The state of the scan.  Stacks are lists with the top first; an offset is a \<open>u4\<close>.\<close>

record athrow_scan =
  as_bcs :: RawBytecodeStream
  as_bci_stack :: "int list"
  as_handler_stack :: "int list"
  as_handler_list :: "int list"
  as_visited :: "int list"

definition u4_of :: "int \<Rightarrow> int" where "u4_of i = i mod 4294967296"

fun push_handlers :: "ExceptionTableElement list \<Rightarrow> int \<Rightarrow> athrow_scan \<Rightarrow> athrow_scan" where
  "push_handlers [] bci s = s"
| "push_handlers (e # es) bci s =
    (let pc = uint (ex_handler_pc e) in
     push_handlers es bci
       (if bci \<ge> uint (ex_start_pc e) \<and> bci < uint (ex_end_pc e) \<and> pc \<notin> set (as_handler_list s)
        then s\<lparr>as_handler_stack := (if pc \<in> set (as_handler_stack s) then as_handler_stack s else pc # as_handler_stack s),
               as_handler_list := pc # as_handler_list s\<rparr>
        else s))"

text \<open>The result of one round: the value returned, or the state of the next round.\<close>

definition pop_start :: "code_array \<Rightarrow> athrow_scan \<Rightarrow> fault + bool + athrow_scan" where
  "pop_start m s =
    (case as_bci_stack s of
       b # bs \<Rightarrow> Inr (Inr (s\<lparr>as_bcs := set_start m b (as_bcs s), as_bci_stack := bs\<rparr>))
     | [] \<Rightarrow> (case as_handler_stack s of
                 [] \<Rightarrow> Inr (Inl True)
               | h # hs \<Rightarrow> Inr (Inr (s\<lparr>as_bcs := set_start m h (as_bcs s), as_handler_stack := hs\<rparr>))))"

definition start_at :: "code_array \<Rightarrow> int \<Rightarrow> athrow_scan \<Rightarrow> athrow_scan" where
  "start_at m bci s = s\<lparr>as_bcs := set_start m bci (as_bcs s)\<rparr>"

definition conditional_branch_codes :: "Code list" where
  "conditional_branch_codes = [bc_if_icmpeq, bc_if_icmpne, bc_if_icmplt, bc_if_icmpge, bc_if_icmpgt, bc_if_icmple, bc_ifeq, bc_ifne,
     bc_iflt, bc_ifge, bc_ifgt, bc_ifle, bc_if_acmpeq, bc_if_acmpne, bc_ifnull, bc_ifnonnull]"

definition athrow_branch :: "code_array \<Rightarrow> int \<Rightarrow> athrow_scan \<Rightarrow> fault + bool + athrow_scan" where
  "athrow_branch m bci s =
    (let code_length = code_size m in
     rbind (dest m (as_bcs s)) (\<lambda>d. let target = u4_of d in
     if bci \<in> set (as_visited s) then pop_start m s
     else if target > bci
     then if target \<ge> code_length then Inr (Inl False)
          else Inr (Inr (start_at m (bcs_next_bci (as_bcs s))
                 (s\<lparr>as_bci_stack := target # as_bci_stack s, as_visited := bci # as_visited s\<rparr>)))
     else Inr (Inr (start_at m target
                 (s\<lparr>as_bci_stack := bcs_next_bci (as_bcs s) # as_bci_stack s, as_visited := bci # as_visited s\<rparr>)))))"

definition athrow_goto :: "code_array \<Rightarrow> Code \<Rightarrow> int \<Rightarrow> athrow_scan \<Rightarrow> fault + bool + athrow_scan" where
  "athrow_goto m opcode bci s =
     rbind (if opcode = bc_goto then dest m (as_bcs s) else dest_w m (as_bcs s)) (\<lambda>d. let target = u4_of d in
     if bci \<in> set (as_visited s) then pop_start m s
     else if target \<ge> code_size m then Inr (Inl False)
     else Inr (Inr (start_at m target (s\<lparr>as_visited := bci # as_visited s\<rparr>))))"

text \<open>The loop that pushes the alternatives of a switch; \<open>None\<close> when one is outside the code.\<close>

function push_alternatives ::
    "code_array \<Rightarrow> int \<Rightarrow> int \<Rightarrow> int \<Rightarrow> int \<Rightarrow> int list \<Rightarrow> fault + int list option" where
  "push_alternatives m bci delta keys i stck =
    (if i < keys
     then rbind (get_Java_u4 m (aligned_bcp m bci + (3 + i * delta) * 4)) (\<lambda>w.
       let target = u4_of (bci + sint w) in
       if target > code_size m then Inr None else push_alternatives m bci delta keys (i + 1) (target # stck))
     else Inr (Some stck))"
  by pat_completeness auto
termination by (relation "measure (\<lambda>(m, bci, delta, keys, i, stck). nat (keys - i))") auto

declare push_alternatives.simps [simp del]

definition athrow_switch :: "code_array \<Rightarrow> Code \<Rightarrow> int \<Rightarrow> athrow_scan \<Rightarrow> fault + bool + athrow_scan" where
  "athrow_switch m opcode bci s =
    (let aligned = aligned_bcp m bci in
     rbind (get_Java_u4 m aligned) (\<lambda>d. let default_offset = u4_of (uint d + bci) in
     rbind (if opcode = bc_tableswitch
            then rbind (get_Java_u4 m (aligned + 4)) (\<lambda>low. rbind (get_Java_u4 m (aligned + 2 * 4)) (\<lambda>high.
                   Inr (if sint low > sint high then None else Some (signed_take_bit 31 (sint high - sint low + 1), 1))))
            else rbind (get_Java_u4 m (aligned + 4)) (\<lambda>n. Inr (Some (sint n, 2)))) (\<lambda>r.
     case r of
       None \<Rightarrow> Inr (Inl True)
     | Some (keys, delta) \<Rightarrow>
        if keys < 0 then Inr (Inl True)
        else rbind (push_alternatives m bci delta keys 0 (bcs_next_bci (as_bcs s) # as_bci_stack s)) (\<lambda>stck.
          case stck of
            None \<Rightarrow> Inr (Inl False)
          | Some stck \<Rightarrow>
              if default_offset > code_size m then Inr (Inl False)
              else Inr (Inr (start_at m default_offset (s\<lparr>as_bci_stack := stck\<rparr>)))))))"

definition athrow_round :: "Method \<Rightarrow> athrow_scan \<Rightarrow> fault + bool + athrow_scan" where
  "athrow_round mt s =
    (let m = m_code mt;
         scan = (\<lambda>s. rbind (raw_next m (as_bcs s)) (\<lambda>(opcode, bcs).
           let bci = bcs_bci bcs; s = push_handlers (m_exception_table mt) bci (s\<lparr>as_bcs := bcs\<rparr>) in
           if opcode \<in> set conditional_branch_codes then athrow_branch m bci s
           else if opcode = bc_goto \<or> opcode = bc_goto_w then athrow_goto m opcode bci s
           else if opcode = bc_lookupswitch \<or> opcode = bc_tableswitch then athrow_switch m opcode bci s
           else if opcode = bc_return then Inr (Inl False)
           else if opcode = bc_athrow then pop_start m s
           else Inr (Inr s)))
     in if is_last_bytecode (as_bcs s)
        then case as_bci_stack s of
               [] \<Rightarrow> Inr (Inl False)
             | b # bs \<Rightarrow> if bcs_end_bci (as_bcs s) = code_size m then Inr (Inl False)
                         else scan (s\<lparr>as_bcs := set_start m b (as_bcs s), as_bci_stack := bs\<rparr>)
        else scan s)"

partial_function (option) athrow_loop :: "Method \<Rightarrow> athrow_scan \<Rightarrow> (fault + bool) option" where
  "athrow_loop mt s =
    (case athrow_round mt s of
       Inl e \<Rightarrow> Some (Inl e)
     | Inr (Inl b) \<Rightarrow> Some (Inr b)
     | Inr (Inr s') \<Rightarrow> athrow_loop mt s')"

declare athrow_loop.simps [code]

definition ends_in_athrow :: "Method \<Rightarrow> int \<Rightarrow> (fault + bool) option" where
  "ends_in_athrow mt start_bc_offset =
     athrow_loop mt \<lparr>as_bcs = set_start (m_code mt) start_bc_offset (new_raw_stream (m_code mt)),
       as_bci_stack = [], as_handler_stack = [], as_handler_list = [], as_visited = []\<rparr>"

section \<open>Invocations\<close>

fun handlers_end_in_athrow :: "Method \<Rightarrow> int \<Rightarrow> ExceptionTableElement list \<Rightarrow> (fault + unit) option" where
  "handlers_end_in_athrow mt bci [] = Some (Inr ())"
| "handlers_end_in_athrow mt bci (e # es) =
    (if bci \<ge> uint (ex_start_pc e) \<and> bci < uint (ex_end_pc e)
     then pbind (ends_in_athrow mt (uint (ex_handler_pc e))) (\<lambda>b.
       if \<not> b then Some (verify_error (bad_code bci) ''Bad <init> method call from after the start of a try block'')
       else handlers_end_in_athrow mt bci es)
     else handlers_end_in_athrow mt bci es)"

definition init_this ::
    "ClassVerifier \<Rightarrow> Method \<Rightarrow> int \<Rightarrow> VerificationType \<Rightarrow> bool \<Rightarrow> StackMapTable \<Rightarrow> VerificationType \<Rightarrow> StackMapFrame \<Rightarrow>
     (fault + StackMapFrame \<times> bool) option" where
  "init_this v mt bci ref_class_type in_try_block t type f =
    (let initialized = rbind (initialize_object type (current_type v) f) (\<lambda>f. Inr (f, True)) in
     pbind (if vt_name ref_class_type \<noteq> cv_name_of v (cv_klass v)
            then case cv_supers v (cv_klass v) of
                   [] \<Rightarrow> Some (Inl Undefined_Behaviour)
                 | superk # _ \<Rightarrow> Some (if vt_name ref_class_type \<noteq> cv_name_of v superk
                     then verify_error (bad_type bci) ''Bad <init> method call'' else Inr ())
            else Some (Inr ())) (\<lambda>_.
     if in_try_block
     then pbind (handlers_end_in_athrow mt bci (m_exception_table mt)) (\<lambda>_.
       Some (rbind (verify_exception_handler_targets v (m_constants mt) bci True f t (m_exception_table mt)) (\<lambda>_. initialized)))
     else Some initialized))"

definition init_new ::
    "ClassVerifier \<Rightarrow> Method \<Rightarrow> RawBytecodeStream \<Rightarrow> int \<Rightarrow> VerificationType \<Rightarrow> int \<Rightarrow> bool \<Rightarrow> bool \<Rightarrow> StackMapTable \<Rightarrow>
     VerificationType \<Rightarrow> StackMapFrame \<Rightarrow> fault + StackMapFrame \<times> bool" where
  "init_new v mt bcs bci ref_class_type code_length in_try_block this_uninit t type f =
    (let new_offset = uint (vt_bci type); new_bcp = bcs_bci bcs - bci + new_offset; m = m_code mt; cp = m_constants mt in
     rbind (if new_offset > u4_of (code_length - 3) then Inr True
            else rbind (byte_get m new_bcp) (\<lambda>b. Inr (b \<noteq> bc_new))) (\<lambda>bad.
     if bad then verify_error (bad_code new_offset) ''Expecting new instruction''
     else rbind (get_Java_u2 m (new_bcp + 1)) (\<lambda>new_class_index.
     rbind (verify_cp_class_type bci (uint new_class_index) cp) (\<lambda>_.
     rbind (cp_index_to_type (uint new_class_index) cp) (\<lambda>new_class_type.
     if \<not> vt_equals new_class_type ref_class_type then verify_error (bad_type bci) ''Call to wrong <init> method''
     else rbind (if name_in_supers v (vt_name ref_class_type) (cv_supers v (cv_klass v))
       then rbind (load_class v (vt_name ref_class_type)) (\<lambda>ref_klass.
            rbind (get_index_u2 m bcs) (\<lambda>index.
            rbind (signature_ref_at index cp) (\<lambda>sig.
            case cv_lookup_method v ref_klass object_initializer_name sig of
              None \<Rightarrow> Inr ()
            | Some (holder, is_protected) \<Rightarrow>
                if is_protected \<and> \<not> cv_same_class_package v holder (cv_klass v)
                then rbind (is_assignable_from (cv_context v) (current_type v) new_class_type True) (\<lambda>assignable.
                  if \<not> assignable then verify_error (bad_type bci) ''Bad access to protected <init> method'' else Inr ())
                else Inr ())))
       else Inr ()) (\<lambda>_.
     rbind (if in_try_block then verify_exception_handler_targets v cp bci this_uninit f t (m_exception_table mt) else Inr ()) (\<lambda>_.
     rbind (initialize_object type new_class_type f) (\<lambda>f. Inr (f, this_uninit)))))))))"

definition verify_invoke_init ::
    "ClassVerifier \<Rightarrow> Method \<Rightarrow> RawBytecodeStream \<Rightarrow> VerificationType \<Rightarrow> int \<Rightarrow> bool \<Rightarrow> bool \<Rightarrow> StackMapTable \<Rightarrow> StackMapFrame \<Rightarrow>
     (fault + StackMapFrame \<times> bool) option" where
  "verify_invoke_init v mt bcs ref_class_type code_length in_try_block this_uninit t f =
    (let bci = u2_of (bcs_bci bcs) in
     pbind (Some (pop_stack_type (cv_context v) reference_check f)) (\<lambda>(type, f).
     if type = uninitialized_this_type then init_this v mt bci ref_class_type in_try_block t type f
     else if is_uninitialized type
     then Some (init_new v mt bcs bci ref_class_type code_length in_try_block this_uninit t type f)
     else Some (stack_top_error (bad_type bci) ''Bad operand type when invoking <init>'' f)))"

definition is_same_or_direct_interface :: "ClassVerifier \<Rightarrow> klass \<Rightarrow> VerificationType \<Rightarrow> VerificationType \<Rightarrow> bool" where
  "is_same_or_direct_interface v k klass_type ref_class_type \<longleftrightarrow>
     vt_equals ref_class_type klass_type \<or>
     list_ex (\<lambda>i. vt_equals ref_class_type (reference_type (cv_name_of v i))) (cv_local_interfaces v k)"

definition invoke_types :: "ClassVerifier \<Rightarrow> Code \<Rightarrow> int" where
  "invoke_types v opcode =
    (if opcode = bc_invokeinterface then tag_bit JVM_CONSTANT_InterfaceMethodref
     else if opcode = bc_invokedynamic then tag_bit JVM_CONSTANT_InvokeDynamic
     else if opcode = bc_invokespecial \<or> opcode = bc_invokestatic
     then if cv_major_version v (cv_klass v) < STATIC_METHOD_IN_INTERFACE_MAJOR_VERSION then tag_bit JVM_CONSTANT_Methodref
          else tag_bit JVM_CONSTANT_InterfaceMethodref OR tag_bit JVM_CONSTANT_Methodref
     else tag_bit JVM_CONSTANT_Methodref)"

text \<open>The types of the arguments, in an array of 128 or of as many elements as they need.\<close>

definition argument_types :: "symbol \<Rightarrow> (fault + SignatureStream \<times> VerificationType list) option" where
  "argument_types sig =
    (let sz = (int (length sig) - 3) * 2 in
     pbind (Some (if sz > 128 then ArgumentSizeComputer_size sig else Inr 128)) (\<lambda>sz.
     pbind (Some (new_stream sig True)) (\<lambda>ss.
     pbind (args_loop sig ss 0 (replicate (nat sz) bogus_type)) (\<lambda>(ss, nargs, sig_types).
       Some (Inr (ss, take (nat nargs) sig_types))))))"

definition check_invoke_operands :: "code_array \<Rightarrow> int \<Rightarrow> Code \<Rightarrow> int \<Rightarrow> fault + unit" where
  "check_invoke_operands m bcp opcode nargs =
    (let bci = u2_of bcp in
     rbind (if opcode = bc_invokeinterface
       then rbind (byte_get m (bcp + 3)) (\<lambda>b.
              if b \<noteq> nargs + 1 then verify_error (bad_code bci) ''Inconsistent args count operand in invokeinterface''
              else rbind (byte_get m (bcp + 4)) (\<lambda>b.
                if b \<noteq> 0 then verify_error (bad_code bci) ''Fourth operand byte of invokeinterface must be zero'' else Inr ()))
       else Inr ()) (\<lambda>_.
     if opcode = bc_invokedynamic
     then rbind (byte_get m (bcp + 3)) (\<lambda>b. rbind (if b \<noteq> 0 then Inr b else byte_get m (bcp + 4)) (\<lambda>b.
            if b \<noteq> 0 then verify_error (bad_code bci) ''Third and fourth operand bytes of invokedynamic must be zero''
            else Inr ()))
     else Inr ()))"

definition check_invokespecial ::
    "ClassVerifier \<Rightarrow> ConstantPool \<Rightarrow> int \<Rightarrow> int \<Rightarrow> VerificationType \<Rightarrow> fault + unit" where
  "check_invokespecial v cp bci index ref_class_type =
    (let k = cv_klass v in
     if is_same_or_direct_interface v k (current_type v) ref_class_type then Inr ()
     else case cv_supers v k of
       [] \<Rightarrow> Inl Undefined_Behaviour
     | super # _ \<Rightarrow>
        if vt_equals ref_class_type (reference_type (cv_name_of v super)) then Inr ()
        else rbind (tag_at index cp) (\<lambda>tag.
          let have_imr_indirect = tag = JVM_CONSTANT_InterfaceMethodref in
          rbind (if \<not> cv_is_anonymous v k
            then rbind (is_assignable_from (cv_context v) ref_class_type (current_type v) False) (\<lambda>subtype.
                   Inr (subtype, have_imr_indirect))
            else let host_klass_type = reference_type (cv_name_of v (cv_host_klass v k)) in
              rbind (is_assignable_from (cv_context v) ref_class_type host_klass_type False) (\<lambda>subtype.
                Inr (subtype, have_imr_indirect \<and>
                  \<not> is_same_or_direct_interface v (cv_host_klass v k) host_klass_type ref_class_type))) (\<lambda>(subtype, have_imr_indirect).
          if \<not> subtype
          then verify_error (bad_code bci) ''Bad invokespecial instruction: current class isn't assignable to reference class.''
          else if have_imr_indirect
          then verify_error (bad_code bci) ''Bad invokespecial instruction: interface method reference is in an indirect superinterface.''
          else Inr ())))"

definition clone_name :: symbol where "clone_name = symbol_of ''clone''"

definition check_virtual_receiver ::
    "ClassVerifier \<Rightarrow> ConstantPool \<Rightarrow> int \<Rightarrow> int \<Rightarrow> symbol \<Rightarrow> symbol \<Rightarrow> VerificationType \<Rightarrow> StackMapFrame \<Rightarrow> fault + StackMapFrame" where
  "check_virtual_receiver v cp bci index method_name method_sig ref_class_type f =
     rbind (pop_stack_type (cv_context v) ref_class_type f) (\<lambda>(stack_object_type, f).
     if current_type v = stack_object_type then Inr f
     else rbind (klass_ref_index_at index cp) (\<lambda>i. rbind (klass_name_at i cp) (\<lambda>ref_class_name.
       if \<not> name_in_supers v ref_class_name (cv_supers v (cv_klass v)) then Inr f
       else rbind (load_class v ref_class_name) (\<lambda>ref_class.
         if is_protected_access v (cv_klass v) ref_class method_name method_sig True
         then rbind (is_assignable_from (cv_context v) (current_type v) stack_object_type True) (\<lambda>is_assignable.
           if \<not> is_assignable \<and> \<not> (vt_name ref_class_type = java_lang_Object \<and> is_array stack_object_type \<and> method_name = clone_name)
           then stack_top_error (bad_type bci) ''Bad access to protected data in invokevirtual'' f else Inr f)
         else Inr f))))"

definition check_special_receiver :: "ClassVerifier \<Rightarrow> StackMapFrame \<Rightarrow> fault + StackMapFrame" where
  "check_special_receiver v f =
    (if \<not> cv_is_anonymous v (cv_klass v)
     then rbind (pop_stack_type (cv_context v) (current_type v) f) (\<lambda>(_, f). Inr f)
     else rbind (pop_stack f) (\<lambda>(top, f).
       let hosttype = reference_type (cv_name_of v (cv_host_klass v (cv_klass v))) in
       rbind (is_assignable_from (cv_context v) hosttype top False) (\<lambda>subtype.
         if \<not> subtype then stack_top_error (bad_type (smf_offset f)) ''Bad type on operand stack'' f else Inr f)))"

definition push_result :: "int \<Rightarrow> symbol \<Rightarrow> symbol \<Rightarrow> SignatureStream \<Rightarrow> StackMapFrame \<Rightarrow> fault + StackMapFrame" where
  "push_result bci method_name method_sig sig_stream f =
    (if ss_type sig_stream = T_VOID then Inr f
     else if method_name = object_initializer_name
     then verify_error (bad_code bci) ''Return type must be void in <init> method''
     else rbind (change_sig_to_verificationType method_sig sig_stream) (\<lambda>return_type. push_types return_type f))"

definition verify_invoke_instructions ::
    "ClassVerifier \<Rightarrow> Method \<Rightarrow> RawBytecodeStream \<Rightarrow> int \<Rightarrow> bool \<Rightarrow> bool \<Rightarrow> StackMapTable \<Rightarrow> StackMapFrame \<Rightarrow>
     (fault + StackMapFrame \<times> bool) option" where
  "verify_invoke_instructions v mt bcs code_length in_try_block this_uninit t f =
    (let m = m_code mt; cp = m_constants mt; opcode = bcs_raw_code bcs; bci = u2_of (bcs_bci bcs) in
     pbind (Some (
       rbind (get_index_u2 m bcs) (\<lambda>index.
       rbind (verify_cp_type bci index cp (invoke_types v opcode)) (\<lambda>_.
       rbind (name_ref_at index cp) (\<lambda>method_name.
       rbind (signature_ref_at index cp) (\<lambda>method_sig.
       if \<not> is_valid_method_signature method_sig
       then class_format_error ''Invalid method signature in class %s referenced from constant pool index %d''
       else rbind (if opcode = bc_invokedynamic
              then if \<not> cv_enable_invokedynamic v then class_format_error ''invokedynamic instructions not enabled in this JVM''
                   else if cv_major_version v (cv_klass v) < INVOKEDYNAMIC_MAJOR_VERSION
                   then class_format_error ''invokedynamic instructions not supported by this class file version (%d), class %s''
                   else Inr bogus_type
              else cp_ref_index_to_type index cp) (\<lambda>ref_class_type.
            Inr (index, method_name, method_sig, ref_class_type)))))))) (\<lambda>(index, method_name, method_sig, ref_class_type).
     pbind (argument_types method_sig) (\<lambda>(sig_stream, sig_types).
     pbind (Some (
       rbind (check_invoke_operands m (bcs_bci bcs) opcode (int (length sig_types))) (\<lambda>_.
       rbind (case method_name of
                [] \<Rightarrow> Inl Undefined_Behaviour
              | c # _ \<Rightarrow>
                 if c = 60
                 then if opcode \<noteq> bc_invokespecial \<or> method_name \<noteq> object_initializer_name
                      then verify_error (bad_code bci) ''Illegal call to internal method'' else Inr ()
                 else if opcode = bc_invokespecial then check_invokespecial v cp bci index ref_class_type
                 else Inr ()) (\<lambda>_.
       pop_types v (rev sig_types) f)))) (\<lambda>f.
     pbind (if opcode \<noteq> bc_invokestatic \<and> opcode \<noteq> bc_invokedynamic
            then if method_name = object_initializer_name
                 then verify_invoke_init v mt bcs ref_class_type code_length in_try_block this_uninit t f
                 else Some (rbind (
                   if opcode = bc_invokespecial then check_special_receiver v f
                   else if opcode = bc_invokevirtual then check_virtual_receiver v cp bci index method_name method_sig ref_class_type f
                   else rbind (pop_stack_type (cv_context v) ref_class_type f) (\<lambda>(_, f). Inr f)) (\<lambda>f. Inr (f, this_uninit)))
            else Some (Inr (f, this_uninit))) (\<lambda>(f, this_uninit).
     Some (rbind (push_result bci method_name method_sig sig_stream f) (\<lambda>f. Inr (f, this_uninit))))))))"

section \<open>The switch over the instructions\<close>

text \<open>
  One group of cases after the other; a group passes the codes it does not have to \<open>otherwise\<close>.  The
  result has the frame, whether \<open>this\<close> has been initialized, and whether control does not reach
  the next instruction.
\<close>

type_synonym step_result = "(fault + StackMapFrame \<times> bool \<times> bool) option"

definition fall :: "fault + StackMapFrame \<Rightarrow> step_result" where
  "fall r = Some (rbind r (\<lambda>f. Inr (f, False, False)))"
definition leave :: "fault + StackMapFrame \<Rightarrow> step_result" where
  "leave r = Some (rbind r (\<lambda>f. Inr (f, False, True)))"

definition pop_as :: "ClassVerifier \<Rightarrow> VerificationType \<Rightarrow> StackMapFrame \<Rightarrow> fault + StackMapFrame" where
  "pop_as v t f = rbind (pop_stack_type (cv_context v) t f) (\<lambda>(_, f). Inr f)"
definition pop_long :: "ClassVerifier \<Rightarrow> StackMapFrame \<Rightarrow> fault + StackMapFrame" where
  "pop_long v f = pop_stack_2 (cv_context v) long2_type long_type f"
definition pop_double :: "ClassVerifier \<Rightarrow> StackMapFrame \<Rightarrow> fault + StackMapFrame" where
  "pop_double v f = pop_stack_2 (cv_context v) double2_type double_type f"
definition push_long :: "StackMapFrame \<Rightarrow> fault + StackMapFrame" where "push_long f = push_stack_2 long_type long2_type f"
definition push_double :: "StackMapFrame \<Rightarrow> fault + StackMapFrame" where "push_double f = push_stack_2 double_type double2_type f"

definition const_instr ::
    "Method \<Rightarrow> Code \<Rightarrow> RawBytecodeStream \<Rightarrow> int \<Rightarrow> StackMapFrame \<Rightarrow> step_result \<Rightarrow> step_result" where
  "const_instr mt opcode bcs bci f otherwise =
    (let m = m_code mt; cp = m_constants mt in
     if opcode = bc_nop then fall (Inr f)
     else if opcode = bc_aconst_null then fall (push_stack null_type f)
     else if opcode \<in> set [bc_iconst_m1, bc_iconst_0, bc_iconst_1, bc_iconst_2, bc_iconst_3, bc_iconst_4, bc_iconst_5]
     then fall (push_stack integer_type f)
     else if opcode = bc_lconst_0 \<or> opcode = bc_lconst_1 then fall (push_long f)
     else if opcode = bc_fconst_0 \<or> opcode = bc_fconst_1 \<or> opcode = bc_fconst_2 then fall (push_stack float_type f)
     else if opcode = bc_dconst_0 \<or> opcode = bc_dconst_1 then fall (push_double f)
     else if opcode = bc_sipush \<or> opcode = bc_bipush then fall (push_stack integer_type f)
     else if opcode = bc_ldc then fall (rbind (get_index_u1 m bcs) (\<lambda>index. verify_ldc opcode index cp bci f))
     else if opcode = bc_ldc_w \<or> opcode = bc_ldc2_w
     then fall (rbind (get_index_u2 m bcs) (\<lambda>index. verify_ldc opcode index cp bci f))
     else otherwise)"

text \<open>An instruction with an index operand, and its four short forms from \<open>code_0\<close> on.\<close>

definition local_instr ::
    "(int \<Rightarrow> StackMapFrame \<Rightarrow> fault + StackMapFrame) \<Rightarrow> Code \<Rightarrow> Code \<Rightarrow> code_array \<Rightarrow> Code \<Rightarrow> RawBytecodeStream \<Rightarrow>
     StackMapFrame \<Rightarrow> step_result \<Rightarrow> step_result" where
  "local_instr verify code code_0 m opcode bcs f otherwise =
    (if opcode = code then fall (rbind (get_index m bcs) (\<lambda>index. verify index f))
     else if opcode \<in> set [code_0, code_0 + 1, code_0 + 2, code_0 + 3] then fall (verify (opcode - code_0) f)
     else otherwise)"

definition load_instr ::
    "ClassVerifier \<Rightarrow> code_array \<Rightarrow> Code \<Rightarrow> RawBytecodeStream \<Rightarrow> StackMapFrame \<Rightarrow> step_result \<Rightarrow> step_result" where
  "load_instr v m opcode bcs f otherwise =
     local_instr (verify_iload v) bc_iload bc_iload_0 m opcode bcs f
    (local_instr (verify_lload v) bc_lload bc_lload_0 m opcode bcs f
    (local_instr (verify_fload v) bc_fload bc_fload_0 m opcode bcs f
    (local_instr (verify_dload v) bc_dload bc_dload_0 m opcode bcs f
    (local_instr (verify_aload v) bc_aload bc_aload_0 m opcode bcs f otherwise))))"

definition store_instr ::
    "ClassVerifier \<Rightarrow> code_array \<Rightarrow> Code \<Rightarrow> RawBytecodeStream \<Rightarrow> StackMapFrame \<Rightarrow> step_result \<Rightarrow> step_result" where
  "store_instr v m opcode bcs f otherwise =
     local_instr (verify_istore v) bc_istore bc_istore_0 m opcode bcs f
    (local_instr (verify_lstore v) bc_lstore bc_lstore_0 m opcode bcs f
    (local_instr (verify_fstore v) bc_fstore bc_fstore_0 m opcode bcs f
    (local_instr (verify_dstore v) bc_dstore bc_dstore_0 m opcode bcs f
    (local_instr (verify_astore v) bc_astore bc_astore_0 m opcode bcs f otherwise))))"

definition pop_array ::
    "ClassVerifier \<Rightarrow> int \<Rightarrow> (VerificationType \<Rightarrow> bool) \<Rightarrow> string \<Rightarrow> StackMapFrame \<Rightarrow> fault + VerificationType \<times> StackMapFrame" where
  "pop_array v bci ok name f =
     rbind (pop_as v integer_type f) (\<lambda>f.
     rbind (pop_stack_type (cv_context v) reference_check f) (\<lambda>(atype, f).
     if \<not> ok atype then stack_top_error (bad_type bci) (''Bad type on operand stack in '' @ name) f
     else Inr (atype, f)))"

definition array_load_instr :: "ClassVerifier \<Rightarrow> Code \<Rightarrow> int \<Rightarrow> StackMapFrame \<Rightarrow> step_result \<Rightarrow> step_result" where
  "array_load_instr v opcode bci f otherwise =
    (let load = (\<lambda>ok name push. fall (rbind (pop_array v bci ok name f) (\<lambda>(_, f). push f))) in
     if opcode = bc_iaload then load is_int_array ''iaload'' (push_stack integer_type)
     else if opcode = bc_baload then load (\<lambda>t. is_bool_array t \<or> is_byte_array t) ''baload'' (push_stack integer_type)
     else if opcode = bc_caload then load is_char_array ''caload'' (push_stack integer_type)
     else if opcode = bc_saload then load is_short_array ''saload'' (push_stack integer_type)
     else if opcode = bc_laload then load is_long_array ''laload'' push_long
     else if opcode = bc_faload then load is_float_array ''faload'' (push_stack float_type)
     else if opcode = bc_daload then load is_double_array ''daload'' push_double
     else if opcode = bc_aaload
     then fall (rbind (pop_array v bci is_reference_array ''aaload'' f) (\<lambda>(atype, f).
            if is_null atype then push_stack null_type f
            else rbind (get_component atype) (\<lambda>component. push_stack component f)))
     else otherwise)"

definition array_store_instr :: "ClassVerifier \<Rightarrow> Code \<Rightarrow> int \<Rightarrow> StackMapFrame \<Rightarrow> step_result \<Rightarrow> step_result" where
  "array_store_instr v opcode bci f otherwise =
    (let store = (\<lambda>pop ok name. fall (rbind (pop f) (\<lambda>f. rbind (pop_array v bci ok name f) (\<lambda>(_, f). Inr f)))) in
     if opcode = bc_iastore then store (pop_as v integer_type) is_int_array ''iastore''
     else if opcode = bc_bastore then store (pop_as v integer_type) (\<lambda>t. is_bool_array t \<or> is_byte_array t) ''bastore''
     else if opcode = bc_castore then store (pop_as v integer_type) is_char_array ''castore''
     else if opcode = bc_sastore then store (pop_as v integer_type) is_short_array ''sastore''
     else if opcode = bc_lastore then store (pop_long v) is_long_array ''lastore''
     else if opcode = bc_fastore then store (pop_as v float_type) is_float_array ''fastore''
     else if opcode = bc_dastore then store (pop_double v) is_double_array ''dastore''
     else if opcode = bc_aastore then store (pop_as v object_type) is_reference_array ''aastore''
     else otherwise)"

text \<open>Two slots from the stack: two values, or the two halves of one.\<close>

definition pop_second ::
    "ClassVerifier \<Rightarrow> int \<Rightarrow> string \<Rightarrow> VerificationType \<Rightarrow> StackMapFrame \<Rightarrow> fault + VerificationType \<times> StackMapFrame" where
  "pop_second v bci name type f =
    (if is_category1 type then pop_stack_type (cv_context v) category1_check f
     else if is_category2_2nd type then pop_stack_type (cv_context v) category2_check f
     else stack_top_error (bad_type bci) (''Bad type on operand stack in '' @ name) f)"

definition pop_two ::
    "ClassVerifier \<Rightarrow> int \<Rightarrow> string \<Rightarrow> StackMapFrame \<Rightarrow> fault + VerificationType \<times> VerificationType \<times> StackMapFrame" where
  "pop_two v bci name f =
     rbind (pop_stack f) (\<lambda>(type, f). rbind (pop_second v bci name type f) (\<lambda>(type2, f). Inr (type, type2, f)))"

definition stack_instr :: "ClassVerifier \<Rightarrow> Code \<Rightarrow> int \<Rightarrow> StackMapFrame \<Rightarrow> step_result \<Rightarrow> step_result" where
  "stack_instr v opcode bci f otherwise =
    (let pop1 = pop_stack_type (cv_context v) category1_check in
     if opcode = bc_pop then fall (rbind (pop1 f) (\<lambda>(_, f). Inr f))
     else if opcode = bc_pop2 then fall (rbind (pop_two v bci ''pop2'' f) (\<lambda>(_, _, f). Inr f))
     else if opcode = bc_dup then fall (rbind (pop1 f) (\<lambda>(type, f). push_types [type, type] f))
     else if opcode = bc_dup_x1
     then fall (rbind (pop1 f) (\<lambda>(type, f). rbind (pop1 f) (\<lambda>(type2, f). push_types [type, type2, type] f)))
     else if opcode = bc_dup_x2
     then fall (rbind (pop1 f) (\<lambda>(type, f). rbind (pop_two v bci ''dup_x2'' f) (\<lambda>(type2, type3, f).
            push_types [type, type3, type2, type] f)))
     else if opcode = bc_dup2
     then fall (rbind (pop_two v bci ''dup2'' f) (\<lambda>(type, type2, f). push_types [type2, type, type2, type] f))
     else if opcode = bc_dup2_x1
     then fall (rbind (pop_two v bci ''dup2_x1'' f) (\<lambda>(type, type2, f). rbind (pop1 f) (\<lambda>(type3, f).
            push_types [type2, type, type3, type2, type] f)))
     else if opcode = bc_dup2_x2
     then fall (rbind (pop_two v bci ''dup2_x2'' f) (\<lambda>(type, type2, f). rbind (pop_two v bci ''dup2_x2'' f) (\<lambda>(type3, type4, f).
            push_types [type2, type, type4, type3, type2, type] f)))
     else if opcode = bc_swap
     then fall (rbind (pop1 f) (\<lambda>(type, f). rbind (pop1 f) (\<lambda>(type2, f). push_types [type, type2] f)))
     else otherwise)"

definition arith_instr ::
    "ClassVerifier \<Rightarrow> code_array \<Rightarrow> Code \<Rightarrow> RawBytecodeStream \<Rightarrow> StackMapFrame \<Rightarrow> step_result \<Rightarrow> step_result" where
  "arith_instr v m opcode bcs f otherwise =
    (let unary_int = (\<lambda>f. rbind (pop_as v integer_type f) (push_stack integer_type));
         unary_long = (\<lambda>f. rbind (pop_long v f) push_long);
         unary_float = (\<lambda>f. rbind (pop_as v float_type f) (push_stack float_type));
         unary_double = (\<lambda>f. rbind (pop_double v f) push_double) in
     if opcode \<in> set [bc_iadd, bc_isub, bc_imul, bc_idiv, bc_irem, bc_ishl, bc_ishr, bc_iushr, bc_ior, bc_ixor, bc_iand]
     then fall (rbind (pop_as v integer_type f) unary_int)
     else if opcode = bc_ineg then fall (unary_int f)
     else if opcode \<in> set [bc_ladd, bc_lsub, bc_lmul, bc_ldiv, bc_lrem, bc_land, bc_lor, bc_lxor]
     then fall (rbind (pop_long v f) unary_long)
     else if opcode = bc_lneg then fall (unary_long f)
     else if opcode \<in> set [bc_lshl, bc_lshr, bc_lushr] then fall (rbind (pop_as v integer_type f) unary_long)
     else if opcode \<in> set [bc_fadd, bc_fsub, bc_fmul, bc_fdiv, bc_frem] then fall (rbind (pop_as v float_type f) unary_float)
     else if opcode = bc_fneg then fall (unary_float f)
     else if opcode \<in> set [bc_dadd, bc_dsub, bc_dmul, bc_ddiv, bc_drem] then fall (rbind (pop_double v f) unary_double)
     else if opcode = bc_dneg then fall (unary_double f)
     else if opcode = bc_iinc then fall (rbind (get_index m bcs) (\<lambda>index. verify_iinc v index f))
     else otherwise)"

definition convert_instr :: "ClassVerifier \<Rightarrow> Code \<Rightarrow> StackMapFrame \<Rightarrow> step_result \<Rightarrow> step_result" where
  "convert_instr v opcode f otherwise =
    (let pop_int = pop_as v integer_type; pop_float = pop_as v float_type;
         push_int = push_stack integer_type; push_float = push_stack float_type in
     if opcode = bc_i2l then fall (rbind (pop_int f) push_long)
     else if opcode = bc_l2i then fall (rbind (pop_long v f) push_int)
     else if opcode = bc_i2f then fall (rbind (pop_int f) push_float)
     else if opcode = bc_i2d then fall (rbind (pop_int f) push_double)
     else if opcode = bc_l2f then fall (rbind (pop_long v f) push_float)
     else if opcode = bc_l2d then fall (rbind (pop_long v f) push_double)
     else if opcode = bc_f2i then fall (rbind (pop_float f) push_int)
     else if opcode = bc_f2l then fall (rbind (pop_float f) push_long)
     else if opcode = bc_f2d then fall (rbind (pop_float f) push_double)
     else if opcode = bc_d2i then fall (rbind (pop_double v f) push_int)
     else if opcode = bc_d2l then fall (rbind (pop_double v f) push_long)
     else if opcode = bc_d2f then fall (rbind (pop_double v f) push_float)
     else if opcode = bc_i2b \<or> opcode = bc_i2c \<or> opcode = bc_i2s then fall (rbind (pop_int f) push_int)
     else if opcode = bc_lcmp then fall (rbind (pop_long v f) (\<lambda>f. rbind (pop_long v f) push_int))
     else if opcode = bc_fcmpl \<or> opcode = bc_fcmpg then fall (rbind (pop_float f) (\<lambda>f. rbind (pop_float f) push_int))
     else if opcode = bc_dcmpl \<or> opcode = bc_dcmpg then fall (rbind (pop_double v f) (\<lambda>f. rbind (pop_double v f) push_int))
     else otherwise)"

definition jump :: "ClassVerifier \<Rightarrow> StackMapTable \<Rightarrow> fault + int \<Rightarrow> StackMapFrame \<Rightarrow> fault + StackMapFrame" where
  "jump v t d f = rbind d (\<lambda>target. rbind (check_jump_target (cv_context v) f target t) (\<lambda>_. Inr f))"

definition branch_instr ::
    "ClassVerifier \<Rightarrow> code_array \<Rightarrow> Code \<Rightarrow> RawBytecodeStream \<Rightarrow> StackMapTable \<Rightarrow> StackMapFrame \<Rightarrow> step_result \<Rightarrow> step_result" where
  "branch_instr v m opcode bcs t f otherwise =
    (let jump_if = (\<lambda>ty f. rbind (pop_as v ty f) (jump v t (dest m bcs))) in
     if opcode \<in> set [bc_if_icmpeq, bc_if_icmpne, bc_if_icmplt, bc_if_icmpge, bc_if_icmpgt, bc_if_icmple]
     then fall (rbind (pop_as v integer_type f) (jump_if integer_type))
     else if opcode \<in> set [bc_ifeq, bc_ifne, bc_iflt, bc_ifge, bc_ifgt, bc_ifle] then fall (jump_if integer_type f)
     else if opcode = bc_if_acmpeq \<or> opcode = bc_if_acmpne
     then fall (rbind (pop_as v reference_check f) (jump_if reference_check))
     else if opcode = bc_ifnull \<or> opcode = bc_ifnonnull then fall (jump_if reference_check f)
     else if opcode = bc_goto then leave (jump v t (dest m bcs) f)
     else if opcode = bc_goto_w then leave (jump v t (dest_w m bcs) f)
     else if opcode = bc_tableswitch \<or> opcode = bc_lookupswitch then leave (verify_switch v m bcs t f)
     else otherwise)"

definition return_instr ::
    "ClassVerifier \<Rightarrow> Method \<Rightarrow> VerificationType \<Rightarrow> Code \<Rightarrow> int \<Rightarrow> StackMapFrame \<Rightarrow> step_result \<Rightarrow> step_result" where
  "return_instr v mt return_type opcode bci f otherwise =
    (let give = (\<lambda>ty f. rbind (pop_stack_type (cv_context v) ty f) (\<lambda>(type, f).
           rbind (verify_return_value v return_type type bci f) (\<lambda>_. Inr f))) in
     if opcode = bc_ireturn then leave (give integer_type f)
     else if opcode = bc_lreturn then leave (rbind (pop_as v long2_type f) (give long_type))
     else if opcode = bc_freturn then leave (give float_type f)
     else if opcode = bc_dreturn then leave (rbind (pop_as v double2_type f) (give double_type))
     else if opcode = bc_areturn then leave (give reference_check f)
     else if opcode = bc_return
     then leave (if return_type \<noteq> bogus_type then verify_error (bad_code bci) ''Method expects a return value''
       else if m_name mt = object_initializer_name \<and> flag_this_uninit f
       then verify_error (bad_code bci) ''Constructor must call super() or this() before return''
       else Inr f)
     else otherwise)"

definition verify_new :: "ConstantPool \<Rightarrow> int \<Rightarrow> int \<Rightarrow> StackMapFrame \<Rightarrow> fault + StackMapFrame" where
  "verify_new cp bci index f =
     rbind (verify_cp_class_type bci index cp) (\<lambda>_.
     rbind (cp_index_to_type index cp) (\<lambda>new_class_type.
     if \<not> is_object new_class_type then verify_error (bad_type bci) ''Illegal new instruction''
     else push_stack (uninitialized_type (word_of_int bci)) f))"

text \<open>The error of \<open>arraylength\<close> is recorded without a \<open>return\<close>; the push that follows may record another one.\<close>

definition verify_arraylength :: "ClassVerifier \<Rightarrow> int \<Rightarrow> StackMapFrame \<Rightarrow> fault + StackMapFrame" where
  "verify_arraylength v bci f =
     rbind (pop_stack_type (cv_context v) reference_check f) (\<lambda>(type, f).
     if \<not> (is_null type \<or> is_array type)
     then rbind (stack_top_ctx f) (\<lambda>_.
       let err = Verify_Error (fst (bad_type bci)) (snd (bad_type bci)) ''Bad type on operand stack in arraylength'' in
       case push_stack integer_type f of Inl e \<Rightarrow> Inl (later_fault err e) | Inr _ \<Rightarrow> Inl err)
     else push_stack integer_type f)"

definition verify_checkcast :: "ClassVerifier \<Rightarrow> ConstantPool \<Rightarrow> int \<Rightarrow> int \<Rightarrow> StackMapFrame \<Rightarrow> fault + StackMapFrame" where
  "verify_checkcast v cp bci index f =
     rbind (verify_cp_class_type bci index cp) (\<lambda>_.
     rbind (pop_as v object_type f) (\<lambda>f.
     rbind (cp_index_to_type index cp) (\<lambda>klass_type. push_stack klass_type f)))"

definition verify_instanceof :: "ClassVerifier \<Rightarrow> ConstantPool \<Rightarrow> int \<Rightarrow> int \<Rightarrow> StackMapFrame \<Rightarrow> fault + StackMapFrame" where
  "verify_instanceof v cp bci index f =
     rbind (verify_cp_class_type bci index cp) (\<lambda>_. rbind (pop_as v object_type f) (push_stack integer_type))"

definition verify_multianewarray ::
    "ClassVerifier \<Rightarrow> ConstantPool \<Rightarrow> int \<Rightarrow> int \<Rightarrow> int \<Rightarrow> StackMapFrame \<Rightarrow> fault + StackMapFrame" where
  "verify_multianewarray v cp bci index dim f =
     rbind (verify_cp_class_type bci index cp) (\<lambda>_.
     rbind (cp_index_to_type index cp) (\<lambda>new_array_type.
     if \<not> is_array new_array_type
     then verify_error (bad_type bci) ''Illegal constant pool index in multianewarray instruction''
     else rbind (if dim < 1 then Inr True else rbind (dimensions new_array_type) (\<lambda>n. Inr (n < dim))) (\<lambda>illegal.
     if illegal then verify_error (bad_code bci) ''Illegal dimension in multianewarray instruction: %d''
     else rbind (pop_types v (replicate (nat dim) integer_type) f) (push_stack new_array_type))))"

definition object_instr ::
    "ClassVerifier \<Rightarrow> Method \<Rightarrow> Code \<Rightarrow> RawBytecodeStream \<Rightarrow> int \<Rightarrow> StackMapFrame \<Rightarrow> step_result \<Rightarrow> step_result" where
  "object_instr v mt opcode bcs bci f otherwise =
    (let m = m_code mt; cp = m_constants mt; indexed = (\<lambda>verify. fall (rbind (get_index_u2 m bcs) (\<lambda>index. verify index))) in
     if opcode = bc_new then indexed (\<lambda>index. verify_new cp bci index f)
     else if opcode = bc_newarray
     then fall (rbind (get_index m bcs) (\<lambda>index. rbind (get_newarray_type index bci) (\<lambda>type.
            rbind (pop_as v integer_type f) (push_stack type))))
     else if opcode = bc_anewarray then indexed (\<lambda>index. verify_anewarray v bci index cp f)
     else if opcode = bc_arraylength then fall (verify_arraylength v bci f)
     else if opcode = bc_checkcast then indexed (\<lambda>index. verify_checkcast v cp bci index f)
     else if opcode = bc_instanceof then indexed (\<lambda>index. verify_instanceof v cp bci index f)
     else if opcode = bc_monitorenter \<or> opcode = bc_monitorexit then fall (pop_as v reference_check f)
     else if opcode = bc_multianewarray
     then indexed (\<lambda>index. rbind (byte_get m (bcs_bci bcs + 3)) (\<lambda>dim. verify_multianewarray v cp bci index dim f))
     else if opcode = bc_athrow then leave (pop_as v (reference_type java_lang_Throwable) f)
     else otherwise)"

definition member_instr ::
    "ClassVerifier \<Rightarrow> Method \<Rightarrow> Code \<Rightarrow> RawBytecodeStream \<Rightarrow> bool \<Rightarrow> StackMapTable \<Rightarrow> StackMapFrame \<Rightarrow> step_result \<Rightarrow> step_result" where
  "member_instr v mt opcode bcs in_try_block t f otherwise =
    (let m = m_code mt in
     if opcode \<in> set [bc_getstatic, bc_putstatic, bc_getfield, bc_putfield]
     then fall (verify_field_instructions v m bcs (m_constants mt) f)
     else if opcode \<in> set [bc_invokevirtual, bc_invokespecial, bc_invokestatic, bc_invokeinterface, bc_invokedynamic]
     then pbind (verify_invoke_instructions v mt bcs (code_size m) in_try_block False t f)
            (\<lambda>(f, this_uninit). Some (Inr (f, this_uninit, False)))
     else otherwise)"

definition verify_instruction ::
    "ClassVerifier \<Rightarrow> Method \<Rightarrow> VerificationType \<Rightarrow> Code \<Rightarrow> RawBytecodeStream \<Rightarrow> bool \<Rightarrow> StackMapTable \<Rightarrow> StackMapFrame \<Rightarrow>
     step_result" where
  "verify_instruction v mt return_type opcode bcs in_try_block t f =
    (let m = m_code mt; bci = u2_of (bcs_bci bcs) in
     const_instr mt opcode bcs bci f
    (load_instr v m opcode bcs f
    (array_load_instr v opcode bci f
    (store_instr v m opcode bcs f
    (array_store_instr v opcode bci f
    (stack_instr v opcode bci f
    (arith_instr v m opcode bcs f
    (convert_instr v opcode f
    (branch_instr v m opcode bcs t f
    (return_instr v mt return_type opcode bci f
    (member_instr v mt opcode bcs in_try_block t f
    (object_instr v mt opcode bcs bci f
    (Some (verify_error (bad_code bci) ''Bad instruction: %02x''))))))))))))))"

section \<open>Methods and classes\<close>

definition wide_codes :: "Code list" where
  "wide_codes = [bc_iinc, bc_iload, bc_aload, bc_lload, bc_istore, bc_astore, bc_lstore, bc_fload, bc_dload, bc_fstore, bc_dstore]"

text \<open>One round of the loop over the code: the frame, the index into the stack map table, and whether
  control does not reach the next instruction.\<close>

definition verify_step ::
    "ClassVerifier \<Rightarrow> Method \<Rightarrow> VerificationType \<Rightarrow> int \<Rightarrow> int \<Rightarrow> StackMapTable \<Rightarrow> Code \<Rightarrow> RawBytecodeStream \<Rightarrow>
     StackMapFrame \<Rightarrow> int \<Rightarrow> bool \<Rightarrow> (fault + StackMapFrame \<times> int \<times> bool) option" where
  "verify_step v mt return_type ex_min ex_max t opcode bcs f stackmap_index no_control_flow =
    (let bci = u2_of (bcs_bci bcs); in_try = bci \<ge> ex_min \<and> bci < ex_max;
         verified_exc_handlers = is_store_into_local opcode \<and> in_try;
         targets = (\<lambda>this_uninit f.
           verify_exception_handler_targets v (m_constants mt) bci this_uninit f t (m_exception_table mt)) in
     pbind (Some (
       rbind (verify_stackmap_table v stackmap_index bci (set_mark (set_offset bci f)) t no_control_flow) (\<lambda>(stackmap_index, f).
       rbind (is_wide bcs) (\<lambda>wide.
       if wide \<and> opcode \<notin> set wide_codes then verify_error (bad_code bci) ''Bad wide instruction''
       else rbind (if verified_exc_handlers then targets False f else Inr ()) (\<lambda>_. Inr (stackmap_index, f)))))) (\<lambda>(stackmap_index, f).
     pbind (verify_instruction v mt return_type opcode bcs in_try t f) (\<lambda>(f, this_uninit, no_control_flow).
     Some (rbind (if \<not> verified_exc_handlers \<and> in_try then targets this_uninit f else Inr ()) (\<lambda>_.
       Inr (f, stackmap_index, no_control_flow))))))"

lemma pbind_simps [simp]: "pbind None k = None" "pbind (Some (Inl e)) k = Some (Inl e)" "pbind (Some (Inr x)) k = k x"
  by (simp_all add: pbind_def)

lemma pbind_Some_Inr: "pbind m k = Some (Inr y) \<longleftrightarrow> (\<exists>x. m = Some (Inr x) \<and> k x = Some (Inr y))"
  by (auto simp: pbind_def split: option.splits sum.splits)

lemma pbind_cong [fundef_cong]:
  "m = m' \<Longrightarrow> (\<And>x. m' = Some (Inr x) \<Longrightarrow> k x = k' x) \<Longrightarrow> pbind m k = pbind m' k'"
  by (auto simp: pbind_def split: option.splits sum.splits)

lemmas instr_defs = const_instr_def load_instr_def store_instr_def local_instr_def array_load_instr_def array_store_instr_def
  stack_instr_def arith_instr_def convert_instr_def branch_instr_def return_instr_def object_instr_def member_instr_def

lemma verify_instruction_illegal:
  "verify_instruction v mt return_type bc_illegal bcs in_try t f =
   Some (verify_error (bad_code (u2_of (bcs_bci bcs))) ''Bad instruction: %02x'')"
  by (simp add: verify_instruction_def instr_defs bc_defs)

lemma verify_step_legal: "verify_step v mt return_type ex_min ex_max t opcode bcs f i n = Some (Inr x) \<Longrightarrow> opcode \<noteq> bc_illegal"
  by (auto simp: verify_step_def Let_def pbind_Some_Inr verify_instruction_illegal verify_error_def)

text \<open>The loop: whether control does not reach the end of the code, or nothing if the class has
  been verified in the meantime.\<close>

function code_loop ::
    "ClassVerifier \<Rightarrow> Method \<Rightarrow> VerificationType \<Rightarrow> int \<Rightarrow> int \<Rightarrow> StackMapTable \<Rightarrow> RawBytecodeStream \<Rightarrow> StackMapFrame \<Rightarrow>
     int \<Rightarrow> bool \<Rightarrow> (fault + bool option) option" where
  "code_loop v mt return_type ex_min ex_max t bcs f stackmap_index no_control_flow =
    (if is_last_bytecode bcs then Some (Inr (Some no_control_flow))
     else if cv_rewritten_at v (bcs_next_bci bcs) then Some (Inr None)
     else pbind (Some (raw_next (m_code mt) bcs)) (\<lambda>x. case x of (opcode, bcs') \<Rightarrow>
       pbind (verify_step v mt return_type ex_min ex_max t opcode bcs' f stackmap_index no_control_flow) (\<lambda>y. case y of (f', i', n') \<Rightarrow>
         code_loop v mt return_type ex_min ex_max t bcs' f' i' n')))"
  by pat_completeness auto
termination
  by (relation "measure (\<lambda>(v, mt, r, mn, mx, t, bcs, f, i, n). nat (bcs_end_bci bcs - bcs_next_bci bcs))")
    (auto simp: is_last_bytecode_def dest!: raw_next_progress dest: verify_step_legal)

declare code_loop.simps [simp del]

text \<open>What is done before the loop: the tables of the method.\<close>

definition method_tables ::
    "ClassVerifier \<Rightarrow> Method \<Rightarrow> StackMapFrame \<Rightarrow> fault + int \<times> int \<times> StackMapTable" where
  "method_tables v mt f =
    (let code_length = code_size (m_code mt); cp = m_constants mt in
     rbind (generate_code_data (m_code mt) code_length) (\<lambda>code_data.
     rbind (verify_exception_handler_table v cp code_length code_data (m_exception_table mt) code_length (- 1)) (\<lambda>(ex_min, ex_max).
     rbind (case m_localvariable_table mt of None \<Rightarrow> Inr ()
            | Some es \<Rightarrow> verify_local_variable_table code_length code_data es) (\<lambda>_.
     case new_reader cp (m_stackmap_data mt) code_data code_length of (reader, frame_count) \<Rightarrow>
       rbind (new_table reader frame_count f (m_max_locals mt) (m_max_stack mt) code_data code_length) (\<lambda>t.
         Inr (ex_min, ex_max, t))))))"

definition verify_method :: "ClassVerifier \<Rightarrow> Method \<Rightarrow> (fault + unit) option" where
  "verify_method v mt =
    (if \<not> is_valid_method_signature (m_signature mt) then Some (class_format_error ''Invalid method signature'')
     else pbind (set_locals_from_arg (m_name mt) (m_is_static mt) (m_signature mt) (current_type v)
                   (new_frame (m_max_locals mt) (m_max_stack mt))) (\<lambda>(return_type, f).
          pbind (Some (method_tables v mt f)) (\<lambda>(ex_min, ex_max, t).
          pbind (code_loop v mt return_type ex_min ex_max t (new_raw_stream (m_code mt)) f 0 False) (\<lambda>r.
          Some (if r = Some False
            then verify_error (bad_code (code_size (m_code mt))) ''Control flow falls through code end'' else Inr ())))))"

text \<open>The methods of a class.  Each comes with what is observed of a verification of the same class
  by a class that is loaded meanwhile: before the method, and at each of its instructions.\<close>

fun verify_class :: "ClassVerifier \<Rightarrow> (bool \<times> (int \<Rightarrow> bool) \<times> Method) list \<Rightarrow> (fault + unit) option" where
  "verify_class v [] = Some (Inr ())"
| "verify_class v ((rewritten, rewritten_at, mt) # ms) =
    (if rewritten then Some (Inr ())
     else if m_is_native mt \<or> m_is_abstract mt \<or> m_is_overpass mt then verify_class v ms
     else pbind (verify_method (v\<lparr>cv_rewritten_at := rewritten_at\<rparr>) mt) (\<lambda>_. verify_class v ms))"

end
