(* ===== verification/Class_File_Parser.thy ===== *)
theory Class_File_Parser
  imports Class_File_Stream Format_Checks Method_Verifier
begin

text \<open>
  The constant pool of a class file (\<open>classfile/classFileParser.cpp\<close>): reading its entries, the two passes that
  check them, and the checks of an exception table.

  The symbols of a pool are stored in batches of eight.  The symbol table maps bytes to symbols, so storing
  a name that is already known at once or in a later batch gives the same symbol; whether a name is known is a
  field of \<open>ClassFileParser\<close>.  A pool is parsed without patches (\<open>_cp_patches\<close> is null).  The largest
  index of a bootstrap specifier is collected in \<open>ps_max_bootstrap\<close>; it serves to check an attribute that is not modelled.
\<close>

section \<open>Reading the entries\<close>

definition allocate :: "nat \<Rightarrow> ConstantPool" where
  "allocate len = \<lparr>cp_tags = replicate len JVM_CONSTANT_Invalid, cp_slots = replicate len Slot_Null,
     cp_cache = None, cp_operands = []\<rparr>"

definition symbol_alloc_batch_size :: nat where "symbol_alloc_batch_size = 8"

definition new_symbols :: "(int \<times> symbol) list \<Rightarrow> ConstantPool \<Rightarrow> fault + ConstantPool" where
  "new_symbols names cp = store_all symbol_at_put names cp"

record parse_state =
  ps_stream :: ClassFileStream
  ps_cp :: ConstantPool
  ps_names :: "(int \<times> symbol) list"
  ps_max_bootstrap :: int

definition put_entry :: "(ConstantPool \<Rightarrow> fault + ConstantPool) \<Rightarrow> parse_state \<Rightarrow> ClassFileStream \<Rightarrow> fault + parse_state" where
  "put_entry store ps cfs = rbind (store (ps_cp ps)) (\<lambda>cp. Inr (ps\<lparr>ps_stream := cfs, ps_cp := cp\<rparr>))"

text \<open>An entry of one index, of two indices, of four bytes, and of eight.\<close>

definition parse_index :: "(int \<Rightarrow> ConstantPool \<Rightarrow> fault + ConstantPool) \<Rightarrow> ClassFileStream \<Rightarrow> parse_state \<Rightarrow> fault + parse_state" where
  "parse_index store cfs ps =
     rbind (guarantee_more 3 cfs) (\<lambda>_. rbind (get_u2_fast cfs) (\<lambda>(i, cfs). put_entry (store i) ps cfs))"

definition parse_indices :: "(int \<Rightarrow> int \<Rightarrow> ConstantPool \<Rightarrow> fault + ConstantPool) \<Rightarrow> ClassFileStream \<Rightarrow> parse_state \<Rightarrow> fault + parse_state" where
  "parse_indices store cfs ps =
     rbind (guarantee_more 5 cfs) (\<lambda>_. rbind (get_u2_fast cfs) (\<lambda>(i, cfs).
     rbind (get_u2_fast cfs) (\<lambda>(j, cfs). put_entry (store i j) ps cfs)))"

definition parse_word :: "(jint \<Rightarrow> ConstantPool \<Rightarrow> fault + ConstantPool) \<Rightarrow> ClassFileStream \<Rightarrow> parse_state \<Rightarrow> fault + parse_state" where
  "parse_word store cfs ps =
     rbind (guarantee_more 5 cfs) (\<lambda>_. rbind (get_u4_fast cfs) (\<lambda>(w, cfs). put_entry (store (word_of_int w)) ps cfs))"

definition parse_long :: "(64 word \<Rightarrow> ConstantPool \<Rightarrow> fault + ConstantPool) \<Rightarrow> bool \<Rightarrow> ClassFileStream \<Rightarrow> parse_state \<Rightarrow> fault + parse_state" where
  "parse_long store in_range cfs ps =
     rbind (guarantee_property in_range ''Invalid constant pool entry %u in class file %s'') (\<lambda>_.
     rbind (guarantee_more 9 cfs) (\<lambda>_. rbind (get_u8_fast cfs) (\<lambda>(w, cfs). put_entry (store (word_of_int w)) ps cfs)))"

definition check_dynamic_tag :: "ClassFileParser \<Rightarrow> fault + unit" where
  "check_dynamic_tag cfp =
    (if cfp_major_version cfp < INVOKEDYNAMIC_MAJOR_VERSION
     then classfile_parse_error ''Class file version does not support constant tag %u in class file %s''
     else if \<not> cfp_enable_invokedynamic cfp
     then classfile_parse_error ''This JVM does not support constant tag %u in class file %s''
     else Inr ())"

definition parse_method_handle :: "int \<Rightarrow> ClassFileStream \<Rightarrow> parse_state \<Rightarrow> fault + parse_state" where
  "parse_method_handle index cfs ps =
     rbind (guarantee_more 4 cfs) (\<lambda>_. rbind (get_u1_fast cfs) (\<lambda>(ref_kind, cfs). rbind (get_u2_fast cfs) (\<lambda>(method_index, cfs).
     put_entry (method_handle_index_at_put index ref_kind method_index) ps cfs)))"

definition parse_invoke_dynamic :: "int \<Rightarrow> ClassFileStream \<Rightarrow> parse_state \<Rightarrow> fault + parse_state" where
  "parse_invoke_dynamic index cfs ps =
     rbind (guarantee_more 5 cfs) (\<lambda>_. rbind (get_u2_fast cfs) (\<lambda>(bsm, cfs). rbind (get_u2_fast cfs) (\<lambda>(nt, cfs).
     put_entry (invoke_dynamic_at_put index bsm nt) (ps\<lparr>ps_max_bootstrap := max (ps_max_bootstrap ps) bsm\<rparr>) cfs)))"

definition add_name :: "ClassFileParser \<Rightarrow> int \<Rightarrow> symbol \<Rightarrow> ClassFileStream \<Rightarrow> parse_state \<Rightarrow> fault + parse_state" where
  "add_name cfp index name cfs ps =
    (if cfp_symbol_known cfp name then put_entry (symbol_at_put index name) ps cfs
     else let names = ps_names ps @ [(index, name)] in
          if length names = symbol_alloc_batch_size
          then put_entry (new_symbols names) (ps\<lparr>ps_names := []\<rparr>) cfs
          else Inr (ps\<lparr>ps_stream := cfs, ps_names := names\<rparr>))"

definition parse_utf8 :: "ClassFileParser \<Rightarrow> int \<Rightarrow> ClassFileStream \<Rightarrow> parse_state \<Rightarrow> fault + parse_state" where
  "parse_utf8 cfp index cfs ps =
     rbind (guarantee_more 2 cfs) (\<lambda>_. rbind (get_u2_fast cfs) (\<lambda>(utf8_length, cfs).
     let utf8_buffer = drop (nat (cfs_current cfs)) (cfs_buffer cfs) in
     rbind (guarantee_more (utf8_length + 1) cfs) (\<lambda>_.
     let cfs = skip_u1_fast utf8_length cfs in
     rbind (if cfp_need_verify cfp then verify_legal_utf8 cfp utf8_buffer (nat utf8_length) else Inr ()) (\<lambda>_.
     add_name cfp index (take (nat utf8_length) utf8_buffer) cfs ps))))"

text \<open>One round of the loop of \<open>parse_constant_pool_entries\<close>, with whether the entry takes two indices.\<close>

definition parse_entry :: "ClassFileParser \<Rightarrow> int \<Rightarrow> int \<Rightarrow> parse_state \<Rightarrow> fault + bool \<times> parse_state" where
  "parse_entry cfp len index ps =
     rbind (get_u1_fast (ps_stream ps)) (\<lambda>(tag, cfs).
     let one = (\<lambda>r. rbind r (\<lambda>ps. Inr (False, ps))); two = (\<lambda>r. rbind r (\<lambda>ps. Inr (True, ps))) in
     if tag = JVM_CONSTANT_Class then one (parse_index (klass_index_at_put index) cfs ps)
     else if tag = JVM_CONSTANT_Fieldref then one (parse_indices (field_at_put index) cfs ps)
     else if tag = JVM_CONSTANT_Methodref then one (parse_indices (method_at_put index) cfs ps)
     else if tag = JVM_CONSTANT_InterfaceMethodref then one (parse_indices (interface_method_at_put index) cfs ps)
     else if tag = JVM_CONSTANT_String then one (parse_index (string_index_at_put index) cfs ps)
     else if tag = JVM_CONSTANT_MethodHandle then one (rbind (check_dynamic_tag cfp) (\<lambda>_. parse_method_handle index cfs ps))
     else if tag = JVM_CONSTANT_MethodType
       then one (rbind (check_dynamic_tag cfp) (\<lambda>_. parse_index (method_type_index_at_put index) cfs ps))
     else if tag = JVM_CONSTANT_InvokeDynamic then one (rbind (check_dynamic_tag cfp) (\<lambda>_. parse_invoke_dynamic index cfs ps))
     else if tag = JVM_CONSTANT_Integer then one (parse_word (int_at_put index) cfs ps)
     else if tag = JVM_CONSTANT_Float then one (parse_word (float_at_put index) cfs ps)
     else if tag = JVM_CONSTANT_Long then two (parse_long (long_at_put index) (index + 1 < len) cfs ps)
     else if tag = JVM_CONSTANT_Double then two (parse_long (double_at_put index) (index + 1 < len) cfs ps)
     else if tag = JVM_CONSTANT_NameAndType then one (parse_indices (name_and_type_at_put index) cfs ps)
     else if tag = JVM_CONSTANT_Utf8 then one (parse_utf8 cfp index cfs ps)
     else classfile_parse_error ''Unknown constant tag %u in class file %s'')"

function parse_entries_loop :: "ClassFileParser \<Rightarrow> int \<Rightarrow> int \<Rightarrow> parse_state \<Rightarrow> fault + parse_state" where
  "parse_entries_loop cfp len index ps =
    (if index < len
     then rbind (parse_entry cfp len index ps) (\<lambda>(two, ps). parse_entries_loop cfp len (index + (if two then 2 else 1)) ps)
     else Inr ps)"
  by pat_completeness auto
termination by (relation "measure (\<lambda>(cfp, len, index, ps). nat (len - index))") auto

declare parse_entries_loop.simps [simp del]

definition parse_constant_pool_entries :: "ClassFileParser \<Rightarrow> int \<Rightarrow> parse_state \<Rightarrow> fault + parse_state" where
  "parse_constant_pool_entries cfp len ps =
     rbind (parse_entries_loop cfp len 1 ps) (\<lambda>ps.
     if length (ps_names ps) > 0 then put_entry (new_symbols (ps_names ps)) (ps\<lparr>ps_names := []\<rparr>) (ps_stream ps) else Inr ps)"

section \<open>The first pass\<close>

definition valid_cp_range :: "int \<Rightarrow> int \<Rightarrow> bool" where
  "valid_cp_range index len \<longleftrightarrow> index > 0 \<and> index < len"

text \<open>The tests of an entry; the tag is read only within bounds.\<close>

definition tag_test :: "bool \<Rightarrow> (constantTag \<Rightarrow> bool) \<Rightarrow> int \<Rightarrow> ConstantPool \<Rightarrow> fault + bool" where
  "tag_test in_range test index cp = (if in_range then rbind (tag_at index cp) (\<lambda>t. Inr (test t)) else Inr False)"

definition valid_klass_reference_at :: "ClassFileParser \<Rightarrow> int \<Rightarrow> ConstantPool \<Rightarrow> fault + bool" where
  "valid_klass_reference_at cfp index cp = tag_test (is_within_bounds index cp)
     (if cfp_enable_invokedynamic cfp then tag_is_klass_or_reference else tag_is_klass_reference) index cp"

definition valid_symbol_at :: "int \<Rightarrow> ConstantPool \<Rightarrow> fault + bool" where
  "valid_symbol_at cpool_index cp = tag_test (is_within_bounds cpool_index cp) tag_is_utf8 cpool_index cp"

definition valid_name_and_type_at :: "int \<Rightarrow> int \<Rightarrow> ConstantPool \<Rightarrow> fault + bool" where
  "valid_name_and_type_at index len cp = tag_test (valid_cp_range index len) tag_is_name_and_type index cp"

definition klass_index_at :: "int \<Rightarrow> ConstantPool \<Rightarrow> fault + int" where
  "klass_index_at which cp = rbind (int_at_addr which cp) (\<lambda>w. Inr (sint w))"
definition string_index_at :: "int \<Rightarrow> ConstantPool \<Rightarrow> fault + int" where
  "string_index_at which cp = rbind (int_at_addr which cp) (\<lambda>w. Inr (sint w))"

definition unresolved_klass_at :: "int \<Rightarrow> ConstantPool \<Rightarrow> fault + symbol" where
  "unresolved_klass_at which cp = rbind (slot_at which cp) (\<lambda>s.
     case s of Slot_Unresolved s \<Rightarrow> Inr s | _ \<Rightarrow> Inl Undefined_Behaviour)"

definition check_index :: "ClassFileParser \<Rightarrow> fault + bool \<Rightarrow> fault + unit" where
  "check_index cfp test = rbind test (\<lambda>b. check_property cfp b ''Invalid constant pool index %u in class file %s'')"

definition pass1_member :: "ClassFileParser \<Rightarrow> int \<Rightarrow> int \<Rightarrow> ConstantPool \<Rightarrow> fault + unit" where
  "pass1_member cfp len index cp =
    (if \<not> cfp_need_verify cfp then Inr ()
     else rbind (klass_ref_index_at index cp) (\<lambda>klass_ref_index.
          rbind (name_and_type_ref_index_at index cp) (\<lambda>name_and_type_ref_index.
          rbind (check_index cfp (valid_klass_reference_at cfp klass_ref_index cp)) (\<lambda>_.
          check_index cfp (valid_name_and_type_at name_and_type_ref_index len cp)))))"

definition pass1_name_and_type :: "ClassFileParser \<Rightarrow> int \<Rightarrow> ConstantPool \<Rightarrow> fault + unit" where
  "pass1_name_and_type cfp index cp =
    (if \<not> cfp_need_verify cfp then Inr ()
     else rbind (name_ref_index_at index cp) (\<lambda>name_ref_index.
          rbind (signature_ref_index_at index cp) (\<lambda>signature_ref_index.
          rbind (check_index cfp (valid_symbol_at name_ref_index cp)) (\<lambda>_.
          check_index cfp (valid_symbol_at signature_ref_index cp)))))"

text \<open>The kinds of method handles, \<open>JVM_REF_getField = 1\<close> to \<open>JVM_REF_invokeInterface = 9\<close>.\<close>

definition pass1_ref_kind :: "ClassFileParser \<Rightarrow> int \<Rightarrow> constantTag \<Rightarrow> fault + unit" where
  "pass1_ref_kind cfp ref_kind tag =
    (if ref_kind \<in> {1, 2, 3, 4}
     then check_property cfp (tag_is_field tag) ''Invalid constant pool index %u in class file %s (not a field)''
     else if ref_kind \<in> {5, 8}
     then check_property cfp (tag_is_method tag) ''Invalid constant pool index %u in class file %s (not a method)''
     else if ref_kind \<in> {6, 7}
     then check_property cfp (tag_is_method tag \<or> (cfp_major_version cfp \<ge> JAVA_8_VERSION \<and> tag_is_interface_method tag))
            ''Invalid constant pool index %u in class file %s (not a method)''
     else if ref_kind = 9
     then check_property cfp (tag_is_interface_method tag)
            ''Invalid constant pool index %u in class file %s (not an interface method)''
     else classfile_parse_error ''Bad method handle kind at constant pool index %u in class file %s'')"

definition pass1_method_handle :: "ClassFileParser \<Rightarrow> int \<Rightarrow> int \<Rightarrow> ConstantPool \<Rightarrow> fault + unit" where
  "pass1_method_handle cfp len index cp =
     rbind (method_handle_index_at index cp) (\<lambda>ref_index.
     rbind (check_index cfp (Inr (valid_cp_range ref_index len \<and> cfp_enable_invokedynamic cfp))) (\<lambda>_.
     rbind (tag_at ref_index cp) (\<lambda>tag.
     rbind (method_handle_ref_kind_at index cp) (\<lambda>ref_kind. pass1_ref_kind cfp ref_kind tag))))"

definition pass1_class :: "ClassFileParser \<Rightarrow> int \<Rightarrow> ConstantPool \<Rightarrow> fault + ConstantPool" where
  "pass1_class cfp index cp =
     rbind (klass_index_at index cp) (\<lambda>class_index.
     rbind (check_index cfp (valid_symbol_at class_index cp)) (\<lambda>_.
     rbind (symbol_at class_index cp) (\<lambda>s. unresolved_klass_at_put index s cp)))"

definition pass1_string :: "ClassFileParser \<Rightarrow> int \<Rightarrow> ConstantPool \<Rightarrow> fault + ConstantPool" where
  "pass1_string cfp index cp =
     rbind (string_index_at index cp) (\<lambda>string_index.
     rbind (check_index cfp (valid_symbol_at string_index cp)) (\<lambda>_.
     rbind (symbol_at string_index cp) (\<lambda>sym. unresolved_string_at_put index (Some sym) cp)))"

definition pass1_method_type :: "ClassFileParser \<Rightarrow> int \<Rightarrow> ConstantPool \<Rightarrow> fault + unit" where
  "pass1_method_type cfp index cp =
     rbind (method_type_index_at index cp) (\<lambda>ref_index.
     check_index cfp (rbind (valid_symbol_at ref_index cp) (\<lambda>b. Inr (b \<and> cfp_enable_invokedynamic cfp))))"

definition pass1_invoke_dynamic :: "ClassFileParser \<Rightarrow> int \<Rightarrow> int \<Rightarrow> ConstantPool \<Rightarrow> fault + unit" where
  "pass1_invoke_dynamic cfp len index cp =
     rbind (invoke_dynamic_name_and_type_ref_index_at index cp) (\<lambda>name_and_type_ref_index.
     check_index cfp (valid_name_and_type_at name_and_type_ref_index len cp))"

definition pass1_long :: "ClassFileParser \<Rightarrow> int \<Rightarrow> int \<Rightarrow> ConstantPool \<Rightarrow> fault + unit" where
  "pass1_long cfp len index cp = rbind (tag_test (index < len) tag_is_invalid index cp) (\<lambda>b.
     check_property cfp b ''Improper constant pool long/double index %u in class file %s'')"

definition pass1_entry :: "ClassFileParser \<Rightarrow> int \<Rightarrow> int \<Rightarrow> ConstantPool \<Rightarrow> fault + bool \<times> ConstantPool" where
  "pass1_entry cfp len index cp = rbind (tag_at index cp) (\<lambda>tag.
     let keep = (\<lambda>r. rbind r (\<lambda>_. Inr (False, cp))); put = (\<lambda>r. rbind r (\<lambda>cp. Inr (False, cp))) in
     if tag = JVM_CONSTANT_Class then Inl Should_Not_Reach_Here
     else if tag \<in> {JVM_CONSTANT_Fieldref, JVM_CONSTANT_Methodref, JVM_CONSTANT_InterfaceMethodref}
     then keep (pass1_member cfp len index cp)
     else if tag = JVM_CONSTANT_String then Inl Should_Not_Reach_Here
     else if tag \<in> {JVM_CONSTANT_Integer, JVM_CONSTANT_Float} then Inr (False, cp)
     else if tag \<in> {JVM_CONSTANT_Long, JVM_CONSTANT_Double}
     then rbind (pass1_long cfp len (index + 1) cp) (\<lambda>_. Inr (True, cp))
     else if tag = JVM_CONSTANT_NameAndType then keep (pass1_name_and_type cfp index cp)
     else if tag = JVM_CONSTANT_Utf8 then Inr (False, cp)
     else if tag \<in> {JVM_CONSTANT_UnresolvedClass, JVM_CONSTANT_UnresolvedClassInError} then Inl Should_Not_Reach_Here
     else if tag = JVM_CONSTANT_ClassIndex then put (pass1_class cfp index cp)
     else if tag = JVM_CONSTANT_StringIndex then put (pass1_string cfp index cp)
     else if tag = JVM_CONSTANT_MethodHandle then keep (pass1_method_handle cfp len index cp)
     else if tag = JVM_CONSTANT_MethodType then keep (pass1_method_type cfp index cp)
     else if tag = JVM_CONSTANT_InvokeDynamic then keep (pass1_invoke_dynamic cfp len index cp)
     else Inl Should_Not_Reach_Here)"

function pass1_loop :: "ClassFileParser \<Rightarrow> int \<Rightarrow> int \<Rightarrow> ConstantPool \<Rightarrow> fault + ConstantPool" where
  "pass1_loop cfp len index cp =
    (if index < len
     then rbind (pass1_entry cfp len index cp) (\<lambda>(two, cp). pass1_loop cfp len (index + (if two then 2 else 1)) cp)
     else Inr cp)"
  by pat_completeness auto
termination by (relation "measure (\<lambda>(cfp, len, index, cp). nat (len - index))") auto

declare pass1_loop.simps [simp del]

section \<open>The second pass\<close>

definition pass2_name_and_type :: "ClassFileParser \<Rightarrow> int \<Rightarrow> ConstantPool \<Rightarrow> fault + unit" where
  "pass2_name_and_type cfp index cp =
    (if cfp_need_verify cfp \<and> cfp_major_version cfp \<ge> JAVA_7_VERSION
     then rbind (signature_ref_index_at index cp) (\<lambda>sig_index.
          rbind (name_ref_index_at index cp) (\<lambda>name_index.
          rbind (symbol_at name_index cp) (\<lambda>name.
          rbind (symbol_at sig_index cp) (\<lambda>sig.
          rbind (guarantee_property (sig \<noteq> []) ''Illegal zero length constant pool entry at %d in class %s'') (\<lambda>_.
          if hd sig = 40 then rbind (verify_legal_method_signature cfp name sig) (\<lambda>_. Inr ())
          else verify_legal_field_signature cfp name sig)))))
     else Inr ())"

definition pass2_field :: "ClassFileParser \<Rightarrow> symbol \<Rightarrow> symbol \<Rightarrow> fault + unit" where
  "pass2_field cfp name signature = rbind (verify_legal_field_name cfp name) (\<lambda>_.
     if cfp_need_verify cfp \<and> cfp_major_version cfp \<ge> JAVA_7_VERSION
     then if signature = [] \<or> hd signature = 40 then throwIllegalSignature ''Field'' else Inr ()
     else verify_legal_field_signature cfp name signature)"

definition pass2_method :: "ClassFileParser \<Rightarrow> constantTag \<Rightarrow> symbol \<Rightarrow> symbol \<Rightarrow> fault + unit" where
  "pass2_method cfp tag name signature = rbind (verify_legal_method_name cfp name) (\<lambda>_.
     rbind (if cfp_need_verify cfp \<and> cfp_major_version cfp \<ge> JAVA_7_VERSION
            then if signature = [] \<or> hd signature \<noteq> 40 then throwIllegalSignature ''Method'' else Inr ()
            else rbind (verify_legal_method_signature cfp name signature) (\<lambda>_. Inr ())) (\<lambda>_.
     if tag = JVM_CONSTANT_Methodref \<and> name \<noteq> [] \<and> hd name = 60 \<and> name \<noteq> object_initializer_name
     then classfile_parse_error ''Bad method name at constant pool index %u in class file %s'' else Inr ()))"

definition pass2_member :: "ClassFileParser \<Rightarrow> constantTag \<Rightarrow> int \<Rightarrow> ConstantPool \<Rightarrow> fault + unit" where
  "pass2_member cfp tag index cp =
     rbind (name_and_type_ref_index_at index cp) (\<lambda>name_and_type_ref_index.
     rbind (name_ref_index_at name_and_type_ref_index cp) (\<lambda>name_ref_index.
     rbind (signature_ref_index_at name_and_type_ref_index cp) (\<lambda>signature_ref_index.
     rbind (symbol_at name_ref_index cp) (\<lambda>name.
     rbind (symbol_at signature_ref_index cp) (\<lambda>signature.
     if tag = JVM_CONSTANT_Fieldref then pass2_field cfp name signature else pass2_method cfp tag name signature)))))"

definition pass2_method_handle :: "int \<Rightarrow> ConstantPool \<Rightarrow> fault + unit" where
  "pass2_method_handle index cp =
     rbind (method_handle_index_at index cp) (\<lambda>ref_index.
     rbind (method_handle_ref_kind_at index cp) (\<lambda>ref_kind.
     if ref_kind \<in> {5, 6, 7, 8} then
       rbind (name_and_type_ref_index_at ref_index cp) (\<lambda>name_and_type_ref_index.
       rbind (name_ref_index_at name_and_type_ref_index cp) (\<lambda>name_ref_index.
       rbind (symbol_at name_ref_index cp) (\<lambda>name.
       if ref_kind = 8
       then if name \<noteq> object_initializer_name
            then classfile_parse_error ''Bad constructor name at constant pool index %u in class file %s'' else Inr ()
       else if name = object_initializer_name
            then classfile_parse_error ''Bad method name at constant pool index %u in class file %s'' else Inr ())))
     else Inr ()))"

definition type_name :: symbol where "type_name = symbol_of ''type''"

definition pass2_entry :: "ClassFileParser \<Rightarrow> int \<Rightarrow> ConstantPool \<Rightarrow> fault + unit" where
  "pass2_entry cfp index cp = rbind (tag_at index cp) (\<lambda>tag.
     if tag = JVM_CONSTANT_UnresolvedClass then rbind (unresolved_klass_at index cp) (verify_legal_class_name cfp)
     else if tag = JVM_CONSTANT_NameAndType then pass2_name_and_type cfp index cp
     else if tag \<in> {JVM_CONSTANT_InvokeDynamic, JVM_CONSTANT_Fieldref, JVM_CONSTANT_Methodref, JVM_CONSTANT_InterfaceMethodref}
     then pass2_member cfp tag index cp
     else if tag = JVM_CONSTANT_MethodHandle then pass2_method_handle index cp
     else if tag = JVM_CONSTANT_MethodType
     then rbind (method_type_signature_at index cp) (\<lambda>signature.
          rbind (verify_legal_method_signature cfp type_name signature) (\<lambda>_. Inr ()))
     else Inr ())"

function pass2_loop :: "ClassFileParser \<Rightarrow> int \<Rightarrow> int \<Rightarrow> ConstantPool \<Rightarrow> fault + unit" where
  "pass2_loop cfp len index cp =
    (if index < len then rbind (pass2_entry cfp index cp) (\<lambda>_. pass2_loop cfp len (index + 1) cp) else Inr ())"
  by pat_completeness auto
termination by (relation "measure (\<lambda>(cfp, len, index, cp). nat (len - index))") auto

declare pass2_loop.simps [simp del]

section \<open>The pool\<close>

definition parse_constant_pool :: "ClassFileParser \<Rightarrow> ClassFileStream \<Rightarrow> fault + ConstantPool \<times> ClassFileStream" where
  "parse_constant_pool cfp cfs =
     rbind (guarantee_more 3 cfs) (\<lambda>_.
     rbind (get_u2_fast cfs) (\<lambda>(len, cfs).
     rbind (guarantee_property (len \<ge> 1) ''Illegal constant pool size %u in class file %s'') (\<lambda>_.
     rbind (parse_constant_pool_entries cfp len \<lparr>ps_stream = cfs, ps_cp = allocate (nat len), ps_names = [], ps_max_bootstrap = -1\<rparr>) (\<lambda>ps.
     rbind (pass1_loop cfp len 1 (ps_cp ps)) (\<lambda>cp.
     rbind (if cfp_need_verify cfp then pass2_loop cfp len 1 cp else Inr ()) (\<lambda>_.
     Inr (cp, ps_stream ps)))))))"

section \<open>Exception tables\<close>

fun exception_table_loop :: "ClassFileParser \<Rightarrow> ConstantPool \<Rightarrow> int \<Rightarrow> nat \<Rightarrow> ClassFileStream \<Rightarrow>
    fault + ExceptionTableElement list \<times> ClassFileStream" where
  "exception_table_loop cfp cp code_length 0 cfs = Inr ([], cfs)"
| "exception_table_loop cfp cp code_length (Suc n) cfs =
     rbind (get_u2_fast cfs) (\<lambda>(start_pc, cfs). rbind (get_u2_fast cfs) (\<lambda>(end_pc, cfs).
     rbind (get_u2_fast cfs) (\<lambda>(handler_pc, cfs). rbind (get_u2_fast cfs) (\<lambda>(catch_type_index, cfs).
     rbind (guarantee_property (start_pc < end_pc \<and> end_pc \<le> code_length) ''Illegal exception table range in class file %s'') (\<lambda>_.
     rbind (guarantee_property (handler_pc < code_length) ''Illegal exception table handler in class file %s'') (\<lambda>_.
     rbind (if catch_type_index \<noteq> 0
            then rbind (valid_klass_reference_at cfp catch_type_index cp) (\<lambda>b.
                 guarantee_property b ''Catch type in exception table has bad constant type in class file %s'')
            else Inr ()) (\<lambda>_.
     rbind (exception_table_loop cfp cp code_length n cfs) (\<lambda>(es, cfs).
     Inr (\<lparr>ex_start_pc = word_of_int start_pc, ex_end_pc = word_of_int end_pc, ex_handler_pc = word_of_int handler_pc,
           ex_catch_type_index = word_of_int catch_type_index\<rparr> # es, cfs)))))))))"

text \<open>The table is returned as the bytes from the old position on; here, for a verified class, as the entries
  read there.\<close>

definition parse_exception_table :: "ClassFileParser \<Rightarrow> ConstantPool \<Rightarrow> int \<Rightarrow> nat \<Rightarrow> ClassFileStream \<Rightarrow>
    fault + ExceptionTableElement list option \<times> ClassFileStream" where
  "parse_exception_table cfp cp code_length exception_table_length cfs =
     rbind (guarantee_more (8 * int exception_table_length) cfs) (\<lambda>_.
     if cfp_need_verify cfp
     then rbind (exception_table_loop cfp cp code_length exception_table_length cfs) (\<lambda>(es, cfs). Inr (Some es, cfs))
     else Inr (None, skip_u2_fast (int exception_table_length * 4) cfs))"

end
