(* ===== verification/Legal_Utf8.thy ===== *)
theory Legal_Utf8
  imports Format_Checks
begin

text \<open>
  What \<open>verify_legal_utf8\<close> accepts: exactly the modified UTF-8 encodings of sequences of UTF-16 units.  The first
  loop, over blocks of four bytes, only skips ASCII; the second loop is decided one character at a time.
\<close>

unbundle bit_operations_syntax

section \<open>UTF-8\<close>

lemma less_128: "(b :: u_char) < 128 \<longleftrightarrow> unat b < 128"
  by (simp add: word_less_nat_alt)

lemma less_128_bit: "(b :: u_char) < 128 \<longleftrightarrow> \<not> bit b 7"
proof -
  have "bit b 7 \<longleftrightarrow> bit (unat b) 7" by (simp add: bit_unsigned_iff)
  then have "bit b 7 \<longleftrightarrow> odd (unat b div 128)" by (simp add: bit_iff_odd)
  moreover have "unat b div 128 < 2" using unat_8_less [of b] by (simp add: div_less_iff_less_mult)
  ultimately show ?thesis unfolding less_128 by (auto simp: less_2_cases_iff)
qed

lemma ascii_byte: "((b :: u_char) < 128 \<and> b - 1 < 128) \<longleftrightarrow> (b \<noteq> 0 \<and> b < 128)"
proof (cases "b = 0")
  case False
  then have "unat (b - 1) = unat b - 1" by (rule unat_minus_one)
  then show ?thesis using False by (auto simp: less_128)
next
  case True
  have "\<not> (0 - 1 :: u_char) < 128" by code_simp
  then show ?thesis using True by blast
qed

lemma or_less_128: "(a OR b :: u_char) < 128 \<longleftrightarrow> a < 128 \<and> b < 128"
  by (simp add: less_128_bit bit_or_iff)

lemma high_part: "b AND NOT (mask n) = push_bit n (drop_bit n b)" for b :: u_char
  by (rule bit_eqI) (auto simp: bit_simps dest: bit_imp_le_length)

lemma both_parts: "b = (b AND mask n) OR (b AND NOT (mask n))" for b :: u_char
  by (rule bit_eqI) (auto simp: bit_simps dest: bit_imp_le_length)

lemma masks_8: "mask 4 = (0xF :: u_char)" "mask 5 = (0x1F :: u_char)" "mask 6 = (0x3F :: u_char)"
  "NOT (mask 4) = (0xF0 :: u_char)" "NOT (mask 5) = (0xE0 :: u_char)" "NOT (mask 6) = (0xC0 :: u_char)"
  by (simp_all add: mask_eq_exp_minus_1)

lemma unat_low: "unat (b AND mask n) = unat b mod 2 ^ n" for b :: u_char
proof -
  have "unat (b AND mask n) = take_bit n (unat b)" by (simp only: unsigned_take_bit_eq take_bit_eq_mask [symmetric])
  then show ?thesis by (simp only: take_bit_eq_mod)
qed

lemma lead_two: "drop_bit 4 b = 0xC \<or> drop_bit 4 b = 0xD \<Longrightarrow> b = (b AND 0x1F) OR 0xC0 \<and> unat (b AND 0x1F) < 32" for b :: u_char
proof -
  assume t: "drop_bit 4 b = 0xC \<or> drop_bit 4 b = 0xD"
  have "drop_bit 5 b = drop_bit 1 (drop_bit 4 b)" by simp
  also have "\<dots> = 6" using t by (auto simp: drop_bit_eq_div)
  finally have "b AND NOT (mask 5) = 0xC0" by (simp add: high_part push_bit_eq_mult)
  then show ?thesis using both_parts [of b 5] unat_low [of b 5] by (simp add: masks_8(2))
qed

lemma lead_three: "drop_bit 4 b = 0xE \<Longrightarrow> b = (b AND 0xF) OR 0xE0 \<and> unat (b AND 0xF) < 16" for b :: u_char
proof -
  assume "drop_bit 4 b = 0xE"
  then have "b AND NOT (mask 4) = 0xE0" by (simp add: high_part push_bit_eq_mult)
  then show ?thesis using both_parts [of b 4] unat_low [of b 4] by (simp add: masks_8(1))
qed

lemma continuation: "b AND 0xC0 = 0x80 \<Longrightarrow> b = (b AND 0x3F) OR 0x80 \<and> unat (b AND 0x3F) < 64" for b :: u_char
proof -
  assume "b AND 0xC0 = 0x80"
  then have "b AND NOT (mask 6) = 0x80" by (simp only: masks_8(6))
  then show ?thesis using both_parts [of b 6] unat_low [of b 6] by (simp add: masks_8(3))
qed

lemma digits_64: "l < 64 \<Longrightarrow> l' < 64 \<Longrightarrow> h * 64 + l = h' * 64 + l' \<longleftrightarrow> h = h' \<and> l = (l' :: nat)"
proof -
  assume l: "l < 64" "l' < 64"
  then have "(h * 64 + l) mod 64 = l" "(h' * 64 + l') mod 64 = l'" by simp_all
  then show ?thesis by (metis add_right_cancel mult_right_cancel zero_neq_numeral)
qed

lemma write_two:
  assumes "unat h < 32" "unat l < 64" "c = push_bit 6 (ucast (h :: u_char)) + ucast (l :: u_char)" "c = 0 \<or> c \<ge> 0x80"
  shows "utf8_write c = [h OR 0xC0, l OR 0x80]"
proof -
  have c: "unat c = unat h * 64 + unat l" using assms(1-3) two_byte_value by blast
  then have small: "unat c < 2048" using assms(1,2) by linarith
  have big: "unat c = 0 \<or> unat c \<ge> 128" using assms(4) by (auto simp: word_le_nat_alt)
  show ?thesis
  proof (cases c rule: utf8_write_cases)
    case one
    then show ?thesis using big by (auto simp: unat_eq_zero)
  next
    case (two h' l')
    then have "h' = h" "l' = l" using c digits_64 [of "unat l" "unat l'" "unat h" "unat h'"] assms(2) by (auto simp: word_unat_eq_iff)
    then show ?thesis using two by simp
  next
    case three
    then show ?thesis using small by simp
  qed
qed

lemma write_three:
  assumes "unat h < 16" "unat m < 64" "unat l < 64"
    and c: "c = push_bit 12 (ucast (h :: u_char)) + (push_bit 6 (ucast (m :: u_char)) + ucast (l :: u_char))" and "c \<ge> 0x800"
  shows "utf8_write c = [h OR 0xE0, m OR 0x80, l OR 0x80]"
proof -
  have c: "unat c = (unat h * 64 + unat m) * 64 + unat l"
    unfolding c using assms(1-3) by (simp add: unat_word_ariths push_bit_eq_mult unat_ucast_8_16 del: of_nat_unat)
  have big: "unat c \<ge> 2048" using assms(5) by (auto simp: word_le_nat_alt)
  show ?thesis
  proof (cases c rule: utf8_write_cases)
    case (two h' l')
    then show ?thesis using big by linarith
  next
    case (three h' m' l')
    then have "unat l' = unat l" "unat m' = unat m" "unat h' = unat h"
      using c digits_64 [of "unat l" "unat l'" "unat h * 64 + unat m" "unat h' * 64 + unat m'"]
        digits_64 [of "unat m" "unat m'" "unat h" "unat h'"] assms(2,3) by auto
    then have "h' = h" "m' = m" "l' = l" by (auto simp: word_unat_eq_iff)
    then show ?thesis using three by simp
  qed (use big in simp)
qed

lemma write_one: "b \<noteq> 0 \<Longrightarrow> b < 128 \<Longrightarrow> utf8_write (ucast (b :: u_char)) = [b]"
proof -
  assume "b \<noteq> 0" "b < 128"
  then have "(ucast b :: jchar) \<noteq> 0 \<and> (ucast b :: jchar) \<le> 0x7f"
    by (simp add: word_le_nat_alt less_128 word_unat_eq_iff del: of_nat_unat)
  moreover have "ucast (ucast b :: jchar) = b" by (simp add: word_unat_eq_iff unat_ucast_16_8 del: of_nat_unat)
  ultimately show ?thesis by (simp add: utf8_write_def)
qed

lemma arr_get_rest: "0 \<le> i \<Longrightarrow> k < len - nat i \<Longrightarrow> len \<le> length buffer \<Longrightarrow>
    arr_get buffer (i + int k) = Inr (drop (nat i) (take len buffer) ! k)"
  by (auto simp: arr_get_def nat_add_distrib)

lemma lead_ED: "a AND 0xF0 = 0xA0 \<or> a AND 0xF0 = 0xB0 \<Longrightarrow> a AND 0xC0 = 0x80" for a :: u_char
proof -
  have "a AND 0xC0 = (a AND 0xF0) AND 0xC0" by (simp add: and.assoc)
  then show "a AND 0xF0 = 0xA0 \<or> a AND 0xF0 = 0xB0 \<Longrightarrow> ?thesis" by auto
qed

lemma and_FF [simp]: "b AND 0xFF = (b :: u_char)"
proof -
  have "(0xFF :: u_char) = -1" by simp
  then show ?thesis by (simp only: and.right_neutral)
qed

lemma six_bytes:
  assumes "6 \<le> length xs" obtains b0 b1 b2 b3 b4 b5 ys where "xs = b0 # b1 # b2 # b3 # b4 # b5 # ys"
  using assms by (auto simp: numeral_eq_Suc Suc_le_length_iff)

lemma supplementary_six:
  "is_supplementary_character (b0 # b1 # b2 # b3 # b4 # b5 # ys) =
    Some (b0 = 0xED \<and> b1 AND 0xF0 = 0xA0 \<and> b2 AND 0xC0 = 0x80 \<and> b3 = 0xED \<and> b4 AND 0xF0 = 0xB0 \<and> b5 AND 0xC0 = 0x80)"
  by (simp add: is_supplementary_character_def byte_test_def)

lemma surrogate_write:
  assumes "a AND 0xC0 = 0x80" "b AND 0xC0 = 0x80"
  shows "\<exists>c. utf8_write c = [0xED, a, b]"
proof -
  let ?c = "push_bit 12 (ucast (0xD :: u_char)) + (push_bit 6 (ucast (a AND 0x3F)) + ucast (b AND 0x3F)) :: jchar"
  note ab = continuation [OF assms(1)] continuation [OF assms(2)]
  have "unat ?c = (13 * 64 + unat (a AND 0x3F)) * 64 + unat (b AND 0x3F)"
    using ab by (simp add: unat_word_ariths push_bit_eq_mult unat_ucast_8_16 del: of_nat_unat)
  then have "?c \<ge> 0x800" by (simp add: word_le_nat_alt)
  then have "utf8_write ?c = [0xD OR 0xE0, (a AND 0x3F) OR 0x80, (b AND 0x3F) OR 0x80]"
    using ab by (intro write_three [OF _ _ _ refl]) auto
  then show ?thesis using ab by auto
qed

lemma supplementary_writes:
  assumes "is_supplementary_character xs = Some True" "6 \<le> length xs"
  shows "\<exists>cs. cs \<noteq> [] \<and> take 6 xs = utf8_bytes cs"
proof -
  obtain b0 a b b3 a' b' ys where xs: "xs = b0 # a # b # b3 # a' # b' # ys" using six_bytes [OF assms(2)] .
  then have k: "b0 = 0xED" "b3 = 0xED" "a AND 0xF0 = 0xA0" "b AND 0xC0 = 0x80" "a' AND 0xF0 = 0xB0" "b' AND 0xC0 = 0x80"
    using assms(1) by (simp_all add: supplementary_six)
  obtain c c' where "utf8_write c = [0xED, a, b]" "utf8_write c' = [0xED, a', b']"
    using surrogate_write lead_ED k by metis
  then show ?thesis using xs k by (intro exI [of _ "[c, c']"]) simp
qed

text \<open>One character after a byte of 128 or more, in terms of the rest \<open>xs\<close> of the string.\<close>

definition two_ok :: "u_char \<Rightarrow> u_char \<Rightarrow> bool" where
  "two_ok b b1 \<longleftrightarrow> b1 AND 0xC0 = 0x80 \<and>
    (let c = push_bit 6 (ucast (b AND 0x1F)) + ucast (b1 AND 0x3F) :: u2 in c = 0 \<or> c \<ge> 0x80)"

definition three_ok :: "u_char \<Rightarrow> u_char \<Rightarrow> u_char \<Rightarrow> bool" where
  "three_ok b b1 b2 \<longleftrightarrow> b1 AND 0xC0 = 0x80 \<and> b2 AND 0xC0 = 0x80 \<and>
    (let c = push_bit 12 (ucast (b AND 0xF)) + (push_bit 6 (ucast (b1 AND 0x3F)) + ucast (b2 AND 0x3F)) :: u2 in c \<ge> 0x800)"

definition two_bytes :: "u_char list \<Rightarrow> bool" where
  "two_bytes xs \<longleftrightarrow> (case xs of b # b1 # ys \<Rightarrow> (drop_bit 4 b = 0xC \<or> drop_bit 4 b = 0xD) \<and> two_ok b b1 | _ \<Rightarrow> False)"

definition three_bytes :: "u_char list \<Rightarrow> bool" where
  "three_bytes xs \<longleftrightarrow> (case xs of b # b1 # b2 # ys \<Rightarrow> drop_bit 4 b = 0xE \<and> three_ok b b1 b2 | _ \<Rightarrow> False)"

definition six_bytes_ok :: "u_char list \<Rightarrow> bool" where
  "six_bytes_ok xs \<longleftrightarrow> 6 \<le> length xs \<and> is_supplementary_character xs = Some True"

definition long_size :: "u_char list \<Rightarrow> nat option" where
  "long_size xs = (if six_bytes_ok xs then Some 6 else if two_bytes xs then Some 2 else if three_bytes xs then Some 3 else None)"

lemma high_tag:
  "\<not> b < 128 \<Longrightarrow> (drop_bit 4 b = 0x8 \<or> drop_bit 4 b = 0x9 \<or> drop_bit 4 b = 0xA \<or> drop_bit 4 b = 0xB \<or> drop_bit 4 b = 0xF) \<longleftrightarrow>
     \<not> (drop_bit 4 b = 0xC \<or> drop_bit 4 b = 0xD) \<and> drop_bit 4 b \<noteq> 0xE" for b :: u_char
proof -
  assume b: "\<not> b < 128"
  have t: "unat (drop_bit 4 b) = unat b div 16" by (simp add: unat_div drop_bit_eq_div)
  have "8 \<le> unat b div 16" "unat b div 16 < 16" using b unat_8_less [of b] by (simp_all add: less_128 div_less_iff_less_mult)
  then have "unat (drop_bit 4 b) \<in> {8, 9, 10, 11, 12, 13, 14, 15}" unfolding t by auto
  then show ?thesis by (auto simp: word_unat_eq_iff)
qed

lemma long_character_size:
  assumes i: "0 \<le> i" "nat i + length xs = len" "drop (nat i) buffer = xs @ ys" "xs = b # xs'" and m: "47 < major" and b: "\<not> b < 128"
  shows "long_character major buffer (int len) i b = (case long_size xs of Some n \<Rightarrow> Inr (int n) | None \<Rightarrow> illegal_utf8)"
proof -
  have sup: "(if i + 5 < int len then opt_fault (is_supplementary_character (drop (nat i) buffer)) else Inr False) =
      Inr (six_bytes_ok xs)"
  proof (cases "6 \<le> length xs")
    case True
    then obtain b0 b1 b2 b3 b4 b5 zs where "xs = b0 # b1 # b2 # b3 # b4 # b5 # zs" using six_bytes by metis
    moreover have "i + 5 < int len" using True i by linarith
    ultimately show ?thesis using i(3) by (simp add: supplementary_six opt_fault_def six_bytes_ok_def)
  next
    case False
    then have "\<not> i + 5 < int len" using i by linarith
    then show ?thesis using False by (simp add: six_bytes_ok_def)
  qed
  have get: "arr_get buffer (i + int k) = Inr (xs ! k)" if "k < length xs" for k
  proof -
    have "nat i \<le> length buffer" using i(3,4) by (cases "nat i \<le> length buffer") auto
    then have "buffer ! (nat i + k) = (xs @ ys) ! k" using i(3) nth_drop [of "nat i" buffer k] by simp
    moreover have "nat i + k < length buffer" using that arg_cong [OF i(3), of length] by simp
    ultimately show ?thesis using that i(1) by (simp add: arr_get_def nth_append nat_add_distrib)
  qed
  have bounds: "i + 1 < int len \<longleftrightarrow> xs' \<noteq> []" "i + 2 < int len \<longleftrightarrow> xs' \<noteq> [] \<and> tl xs' \<noteq> []"
    using i by (cases xs'; cases "tl xs'"; auto)+
  have g1: "arr_get buffer (i + 1) = Inr (hd xs')" if "xs' \<noteq> []" using get [of 1] that i(4) by (cases xs') auto
  have g2: "arr_get buffer (i + 2) = Inr (hd (tl xs'))" if "xs' \<noteq> []" "tl xs' \<noteq> []"
    using get [of 2] that i(4) by (cases xs'; cases "tl xs'") auto
  have two: "two_bytes xs \<longleftrightarrow> (drop_bit 4 b = 0xC \<or> drop_bit 4 b = 0xD) \<and> xs' \<noteq> [] \<and> two_ok b (hd xs')"
    unfolding two_bytes_def i(4) by (cases xs') auto
  have three: "three_bytes xs \<longleftrightarrow> drop_bit 4 b = 0xE \<and> xs' \<noteq> [] \<and> tl xs' \<noteq> [] \<and> three_ok b (hd xs') (hd (tl xs'))"
    unfolding three_bytes_def i(4) by (cases xs'; cases "tl xs'") auto
  have s2: "(if b1 AND 0xC0 = 0x80 \<and> (major \<le> 47 \<or> c = 0 \<or> c \<ge> 0x80) then Inr 2 else illegal_utf8) =
      (if two_ok b b1 then Inr (2::int) else illegal_utf8)" if "c = push_bit 6 (ucast (b AND 0x1F)) + ucast (b1 AND 0x3F)" for b1 and c :: u2
    using m that by (simp add: two_ok_def Let_def)
  have s3: "(if b1 AND 0xC0 = 0x80 \<and> b2 AND 0xC0 = 0x80 \<and> (major \<le> 47 \<or> c \<ge> 0x800) then Inr 3 else illegal_utf8) =
      (if three_ok b b1 b2 then Inr (3::int) else illegal_utf8)"
    if "c = push_bit 12 (ucast (b AND 0xF)) + (push_bit 6 (ucast (b1 AND 0x3F)) + ucast (b2 AND 0x3F))" for b1 b2 and c :: u2
    using m that by (simp add: three_ok_def Let_def)
  have step: "long_character major buffer (int len) i b =
    (if six_bytes_ok xs then Inr 6
     else if drop_bit 4 b = 0xC \<or> drop_bit 4 b = 0xD then
       if xs' \<noteq> [] then rbind (arr_get buffer (i + 1)) (\<lambda>b1. if two_ok b b1 then Inr 2 else illegal_utf8) else illegal_utf8
     else if drop_bit 4 b = 0xE then
       if xs' \<noteq> [] \<and> tl xs' \<noteq> []
       then rbind (arr_get buffer (i + 1)) (\<lambda>b1. rbind (arr_get buffer (i + 2)) (\<lambda>b2. if three_ok b b1 b2 then Inr 3 else illegal_utf8))
       else illegal_utf8
     else illegal_utf8)"
    unfolding long_character_def sup Let_def rbind_simps s2 [OF refl] s3 [OF refl] bounds high_tag [OF b]
    by (cases "drop_bit 4 b = 0xC \<or> drop_bit 4 b = 0xD"; cases "drop_bit 4 b = 0xE") (simp_all only: if_True if_False simp_thms)
  consider (two) "drop_bit 4 b = 0xC \<or> drop_bit 4 b = 0xD" "drop_bit 4 b \<noteq> 0xE" | (three) "drop_bit 4 b = 0xE" "\<not> (drop_bit 4 b = 0xC \<or> drop_bit 4 b = 0xD)"
    | (bad) "\<not> (drop_bit 4 b = 0xC \<or> drop_bit 4 b = 0xD)" "drop_bit 4 b \<noteq> 0xE" by auto
  then show ?thesis unfolding step long_size_def two three by cases (simp_all add: g1 g2)
qed

lemma two_bytes_write: "two_bytes xs \<Longrightarrow> \<exists>c. take 2 xs = utf8_write c \<and> 2 \<le> length xs"
  unfolding two_bytes_def
proof (cases xs rule: list.exhaust)
  case (Cons b xs')
  assume two: "case xs of b # b1 # ys \<Rightarrow> (drop_bit 4 b = 0xC \<or> drop_bit 4 b = 0xD) \<and> two_ok b b1 | _ \<Rightarrow> False"
  then obtain b1 ys where xs: "xs = b # b1 # ys" and t: "drop_bit 4 b = 0xC \<or> drop_bit 4 b = 0xD" and ok: "two_ok b b1"
    using Cons by (auto split: list.splits)
  note parts = lead_two [OF t] continuation [of b1]
  let ?c = "push_bit 6 (ucast (b AND 0x1F)) + ucast (b1 AND 0x3F) :: u2"
  have "utf8_write ?c = [(b AND 0x1F) OR 0xC0, (b1 AND 0x3F) OR 0x80]"
    using parts ok by (intro write_two) (auto simp: two_ok_def Let_def)
  then show ?thesis using parts ok xs by (auto simp: two_ok_def intro!: exI [of _ ?c])
qed simp

lemma three_bytes_write: "three_bytes xs \<Longrightarrow> \<exists>c. take 3 xs = utf8_write c \<and> 3 \<le> length xs"
  unfolding three_bytes_def
proof (cases xs rule: list.exhaust)
  case (Cons b xs')
  assume three: "case xs of b # b1 # b2 # ys \<Rightarrow> drop_bit 4 b = 0xE \<and> three_ok b b1 b2 | _ \<Rightarrow> False"
  then obtain b1 b2 ys where xs: "xs = b # b1 # b2 # ys" and t: "drop_bit 4 b = 0xE" and ok: "three_ok b b1 b2"
    using Cons by (auto split: list.splits)
  note parts = lead_three [OF t] continuation [of b1] continuation [of b2]
  let ?c = "push_bit 12 (ucast (b AND 0xF)) + (push_bit 6 (ucast (b1 AND 0x3F)) + ucast (b2 AND 0x3F)) :: u2"
  have "utf8_write ?c = [(b AND 0xF) OR 0xE0, (b1 AND 0x3F) OR 0x80, (b2 AND 0x3F) OR 0x80]"
    using parts ok by (intro write_three [OF _ _ _ refl]) (auto simp: three_ok_def Let_def)
  then show ?thesis using parts ok xs by (auto simp: three_ok_def intro!: exI [of _ ?c])
qed simp

lemma long_size_sound: "long_size xs = Some n \<Longrightarrow> \<exists>cs. take n xs = utf8_bytes cs \<and> 0 < n \<and> n \<le> length xs"
proof -
  assume s: "long_size xs = Some n"
  then consider (six) "six_bytes_ok xs" "n = 6" | (two) "two_bytes xs" "n = 2" | (three) "three_bytes xs" "n = 3"
    by (auto simp: long_size_def split: if_splits)
  then show ?thesis
  proof cases
    case six
    then show ?thesis using supplementary_writes [of xs] by (auto simp: six_bytes_ok_def)
  next
    case two
    then obtain c where "take 2 xs = utf8_write c" "2 \<le> length xs" using two_bytes_write by blast
    then show ?thesis using two by (intro exI [of _ "[c]"]) simp
  next
    case three
    then obtain c where "take 3 xs = utf8_write c" "3 \<le> length xs" using three_bytes_write by blast
    then show ?thesis using three by (intro exI [of _ "[c]"]) simp
  qed
qed

lemma write_first_high:
  assumes "utf8_write c = b # bs" "\<not> b < 128"
  shows "(drop_bit 4 b = 0xC \<or> drop_bit 4 b = 0xD) \<and> (\<exists>b1. bs = [b1] \<and> two_ok b b1) \<or>
     drop_bit 4 b = 0xE \<and> (\<exists>b1 b2. bs = [b1, b2] \<and> three_ok b b1 b2)"
proof (cases c rule: utf8_write_cases)
  case one
  then show ?thesis using assms by (auto simp: less_128 unat_ucast_16_8)
next
  case (two h l)
  then have v: "push_bit 6 (ucast h) + ucast l = c" by (simp add: word_unat_eq_iff two_byte_value del: of_nat_unat)
  have "two_ok (h OR 0xC0) (l OR 0x80)"
    using two or_C0 [of h] cont_byte [of l] v by (auto simp: two_ok_def Let_def word_le_nat_alt)
  then show ?thesis using two tag_C [of h] assms(1) by auto
next
  case (three h m l)
  then have v: "push_bit 12 (ucast h) + (push_bit 6 (ucast m) + ucast l) = c"
    by (simp add: word_unat_eq_iff unat_word_ariths push_bit_eq_mult unat_ucast_8_16 del: of_nat_unat)
  have "three_ok (h OR 0xE0) (m OR 0x80) (l OR 0x80)"
    using three or_E0 [of h] cont_byte [of m] cont_byte [of l] v by (auto simp: three_ok_def Let_def word_le_nat_alt)
  then show ?thesis using three or_E0 [of h] assms(1) by auto
qed

lemma lead_tags: "drop_bit 4 (0xED :: u_char) = 0xE" "\<not> (0xED :: u_char) < 128"
  by (simp_all add: drop_bit_eq_div)

lemma first_char:
  assumes "b # xs = utf8_bytes cs"
  obtains c cs1 bs where "utf8_write c = b # bs" "xs = bs @ utf8_bytes cs1"
proof -
  have nonempty: "utf8_write c \<noteq> []" for c using utf8_write_length [of c] by (auto simp: utf8_size_def split: if_splits)
  obtain c cs1 where "b # xs = utf8_write c @ utf8_bytes cs1" using assms by (cases cs) auto
  then show thesis using nonempty [of c] by (cases "utf8_write c") (auto intro: that)
qed

lemma long_size_complete:
  assumes "b # xs = utf8_bytes cs" "\<not> b < 128"
  shows "\<exists>n cs'. long_size (b # xs) = Some n \<and> drop n (b # xs) = utf8_bytes cs'"
proof -
  obtain c cs1 bs where cs: "utf8_write c = b # bs" "xs = bs @ utf8_bytes cs1" using first_char [OF assms(1)] .
  show ?thesis
  proof (cases "six_bytes_ok (b # xs)")
    case True
    then obtain b0 b1 b2 b3 b4 b5 ys where "b # xs = b0 # b1 # b2 # b3 # b4 # b5 # ys"
      using six_bytes [of "b # xs"] unfolding six_bytes_ok_def by metis
    then have six: "b # xs = 0xED # b1 # b2 # 0xED # b4 # b5 # ys" using True by (simp add: six_bytes_ok_def supplementary_six)
    then have bs: "bs = [b1, b2]" "0xED # b4 # b5 # ys = utf8_bytes cs1"
      using cs(2) write_first_high [OF cs(1) assms(2)] lead_tags by auto
    obtain c2 cs2 ds where c2: "utf8_write c2 = 0xED # ds" "b4 # b5 # ys = ds @ utf8_bytes cs2" using first_char [OF bs(2)] .
    then have "ys = utf8_bytes cs2" using write_first_high [OF c2(1) lead_tags(2)] lead_tags(1) by auto
    then show ?thesis using True six by (auto simp: long_size_def)
  next
    case False
    have "two_bytes (b # xs) \<and> length bs = 1 \<or> three_bytes (b # xs) \<and> \<not> two_bytes (b # xs) \<and> length bs = 2"
      using write_first_high [OF cs(1) assms(2)] cs(2) by (auto simp: two_bytes_def three_bytes_def)
    then show ?thesis using False cs(2) by (auto simp: long_size_def)
  qed
qed

lemma ascii_bytes: "b \<noteq> 0 \<Longrightarrow> b < 128 \<Longrightarrow> (\<exists>cs. b # xs = utf8_bytes cs) \<longleftrightarrow> (\<exists>cs. xs = utf8_bytes cs)" for b :: u_char
proof
  assume b: "b \<noteq> 0" "b < 128" and "\<exists>cs. b # xs = utf8_bytes cs"
  then obtain c cs1 where "b # xs = utf8_write c @ utf8_bytes cs1" by (metis concat.simps list.distinct(1) list.exhaust list.simps(8,9))
  then have "utf8_next (b # xs) = Some (c, utf8_bytes cs1)" by simp
  then show "\<exists>cs. xs = utf8_bytes cs" using utf8_next_one [of b xs] b by (auto simp: less_128)
next
  assume b: "b \<noteq> 0" "b < 128" and "\<exists>cs. xs = utf8_bytes cs"
  then obtain cs where "xs = utf8_bytes cs" by blast
  then show "\<exists>cs. b # xs = utf8_bytes cs" using write_one [OF b] by (intro exI [of _ "ucast b # cs"]) simp
qed

lemma take_bytes: "take n xs = utf8_bytes cs \<Longrightarrow> drop n xs = utf8_bytes cs' \<Longrightarrow> \<exists>cs. xs = utf8_bytes cs"
  by (rule exI [of _ "cs @ cs'"]) (metis append_take_drop_id concat_append map_append)

lemma zero_bytes: "0 \<notin> set (utf8_bytes cs)"
  using utf8_write_nonzero by (induction cs) auto

text \<open>The second loop decides whether the rest of the string is the encoding of a sequence of units.\<close>

lemma utf8_rest_iff:
  assumes "47 < major" "0 \<le> i" "nat i + length xs = len" "drop (nat i) buffer = xs @ ys"
  shows "utf8_rest major buffer (int len) i = (if \<exists>cs. xs = utf8_bytes cs then Inr () else illegal_utf8)"
  using assms
proof (induction "length xs" arbitrary: xs i rule: less_induct)
  case less
  show ?case
  proof (cases xs)
    case Nil
    have "\<exists>cs. [] = utf8_bytes cs" by (rule exI [of _ "[]"]) simp
    moreover have "\<not> i < int len" using less.prems Nil by simp
    ultimately show ?thesis using Nil by (subst utf8_rest.simps) simp
  next
    case (Cons b xs')
    have i: "i < int len" using less.prems Cons by simp
    have d: "drop (nat i) buffer = b # xs' @ ys" using less.prems Cons by simp
    then have "nat i < length buffer" by (cases "nat i < length buffer") auto
    then have get: "arr_get buffer i = Inr b" using d less.prems(2) by (simp add: arr_get_def Cons_nth_drop_Suc [symmetric] nat_less_iff)
    have "drop (nat (i + int n)) buffer = drop n (drop (nat i) buffer)" for n
      using less.prems(2) by (simp add: nat_add_distrib add.commute)
    then have rest: "drop (nat (i + int n)) buffer = drop n xs @ ys" if "n \<le> length xs" for n
      using less.prems(4) that by simp
    have IH: "utf8_rest major buffer (int len) (i + int n) = (if \<exists>cs. drop n xs = utf8_bytes cs then Inr () else illegal_utf8)"
      if "0 < n" "n \<le> length xs" for n
      using less.prems that rest [OF that(2)] Cons by (intro less.hyps) auto
    note step = utf8_rest.simps [of major buffer "int len" i, unfolded if_P [OF i] get rbind_simps]
    consider (zero) "b = 0" | (ascii) "b \<noteq> 0" "b < 128" | (long) "b \<noteq> 0" "\<not> b < 128" by blast
    then show ?thesis
    proof cases
      case zero
      then have "\<nexists>cs. xs = utf8_bytes cs" using zero_bytes Cons by (metis list.set_intros(1))
      then show ?thesis unfolding step using zero by simp
    next
      case ascii
      then show ?thesis unfolding step using IH [of 1] Cons ascii_bytes [OF ascii, of xs'] by simp
    next
      case long
      note size = long_character_size [OF less.prems(2,3,4) Cons less.prems(1) long(2)]
      show ?thesis
      proof (cases "long_size xs")
        case None
        then have "\<nexists>cs. xs = utf8_bytes cs" using long_size_complete [of b xs' _, OF _ long(2)] Cons by fastforce
        then show ?thesis unfolding step size using long None by (simp add: illegal_utf8_def classfile_parse_error_def)
      next
        case (Some n)
        obtain cs where n: "take n xs = utf8_bytes cs" "0 < n" "n \<le> length xs" using long_size_sound [OF Some] by blast
        have "(\<exists>cs. xs = utf8_bytes cs) \<longleftrightarrow> (\<exists>cs. drop n xs = utf8_bytes cs)"
          using take_bytes [OF n(1)] long_size_complete [of b xs', OF _ long(2)] Some Cons by fastforce
        then show ?thesis unfolding step size using long Some IH [OF n(2,3)] by simp
      qed
    qed
  qed
qed

definition ascii_run :: "u_char list \<Rightarrow> int \<Rightarrow> int \<Rightarrow> bool" where
  "ascii_run buffer i j \<longleftrightarrow> i \<le> j \<and> (\<forall>k. i \<le> k \<and> k < j \<longrightarrow> (\<exists>b. arr_get buffer k = Inr b \<and> b \<noteq> 0 \<and> b < 128))"

lemma ascii_blocks_run:
  assumes "0 \<le> i" "i + 4 * int k \<le> int (length buffer)"
  shows "\<exists>j. ascii_blocks buffer i k = Inr j \<and> ascii_run buffer i j \<and> j \<le> i + 4 * int k"
  using assms
proof (induction k arbitrary: i)
  case 0
  then show ?case by (auto simp: ascii_run_def)
next
  case (Suc k)
  then obtain b0 b1 b2 b3 where b: "arr_get buffer i = Inr b0" "arr_get buffer (i + 1) = Inr b1"
      "arr_get buffer (i + 2) = Inr b2" "arr_get buffer (i + 3) = Inr b3"
    by (auto simp: arr_get_def)
  let ?res = "b0 OR (b0 - 1) OR b1 OR (b1 - 1) OR b2 OR (b2 - 1) OR b3 OR (b3 - 1)"
  show ?case
  proof (cases "?res < 128")
    case True
    then have ascii: "b0 \<noteq> 0 \<and> b0 < 128" "b1 \<noteq> 0 \<and> b1 < 128" "b2 \<noteq> 0 \<and> b2 < 128" "b3 \<noteq> 0 \<and> b3 < 128"
      using ascii_byte by (simp_all only: or_less_128) blast+
    obtain j where j: "ascii_blocks buffer (i + 4) k = Inr j" "ascii_run buffer (i + 4) j" "j \<le> i + 4 + 4 * int k"
      using Suc.IH [of "i + 4"] Suc.prems by auto
    have "\<exists>b. arr_get buffer n = Inr b \<and> b \<noteq> 0 \<and> b < 128" if "i \<le> n" "n < j" for n
    proof -
      have "n = i \<or> n = i + 1 \<or> n = i + 2 \<or> n = i + 3 \<or> i + 4 \<le> n" using that(1) by arith
      then show ?thesis using b ascii j(2) that(2) by (elim disjE) (auto simp: ascii_run_def)
    qed
    then have "ascii_run buffer i j" using j(2) by (simp add: ascii_run_def)
    moreover have "\<not> 128 \<le> ?res" using True by (simp only: not_le)
    then have "ascii_blocks buffer i (Suc k) = Inr j" using b j(1) by (simp add: Let_def)
    ultimately show ?thesis using j(3) by auto
  next
    case False
    then have "ascii_blocks buffer i (Suc k) = Inr i" using b by (simp add: Let_def not_less)
    then show ?thesis by (auto simp: ascii_run_def)
  qed
qed

lemma utf8_rest_ascii: "ascii_run buffer i j \<Longrightarrow> j \<le> len \<Longrightarrow> utf8_rest major buffer len i = utf8_rest major buffer len j"
proof (induction "nat (j - i)" arbitrary: i)
  case 0
  then show ?case by (simp add: ascii_run_def)
next
  case (Suc n)
  then have "i < j" by simp
  moreover from this obtain b where "arr_get buffer i = Inr b" "b \<noteq> 0" "b < 128" using Suc.prems by (auto simp: ascii_run_def)
  ultimately have "utf8_rest major buffer len i = utf8_rest major buffer len (i + 1)"
    using Suc.prems(2) by (subst utf8_rest.simps) simp
  also have "\<dots> = utf8_rest major buffer len j"
    using Suc.hyps(2) Suc.prems \<open>i < j\<close> by (intro Suc.hyps(1)) (auto simp: ascii_run_def)
  finally show ?case .
qed

lemma legal_utf8_eq:
  assumes "47 < cfp_major_version cfp" "len \<le> length buffer"
  shows "verify_legal_utf8 cfp buffer len = (if \<exists>cs. take len buffer = utf8_bytes cs then Inr () else illegal_utf8)"
proof -
  have q: "4 * (len div 4) \<le> len" by simp
  then have "0 + 4 * int (len div 4) \<le> int (length buffer)" using assms(2) by linarith
  then obtain j where j: "ascii_blocks buffer 0 (len div 4) = Inr j" "ascii_run buffer 0 j" "j \<le> 0 + 4 * int (len div 4)"
    using ascii_blocks_run [of 0 "len div 4" buffer] by auto
  have "j \<le> int len" using j(3) q by linarith
  then have "verify_legal_utf8 cfp buffer len = utf8_rest (cfp_major_version cfp) buffer (int len) 0"
    using j utf8_rest_ascii by (simp add: verify_legal_utf8_def)
  then show ?thesis using utf8_rest_iff [OF assms(1), of 0 "take len buffer" len buffer "drop len buffer"] assms(2) by simp
qed

text \<open>C10: From version 48 on, \<open>verify_legal_utf8\<close>, with its loop over blocks of four ASCII bytes and its step
  over surrogate pairs, accepts exactly the bytes that \<open>UNICODE::convert_to_utf8\<close> writes for some sequence of UTF-16
  units (modified UTF-8 in shortest form, no zero byte), rejects all others with a \<open>ClassFormatError\<close>, and reads only
  the bytes of the string.\<close>

theorem legal_utf8_iff:
  assumes "47 < cfp_major_version cfp" "len \<le> length buffer"
  shows "verify_legal_utf8 cfp buffer len =
    (if \<exists>cs. take len buffer @ [0] = convert_to_utf8 cs then Inr ()
     else Inl (Class_Format_Error ''Illegal UTF8 string in constant pool in class file %s''))"
  using legal_utf8_eq [OF assms] by (simp add: convert_to_utf8_eq illegal_utf8_def classfile_parse_error_def)

definition sample_parser :: ClassFileParser where
  "sample_parser = \<lparr>cfp_major_version = 52, cfp_need_verify = True, cfp_relax_verify = False, cfp_enable_invokedynamic = True,
     cfp_identifier_start = (\<lambda>c. Some True), cfp_identifier_part = (\<lambda>c. Some True), cfp_symbol_known = (\<lambda>s. False)\<rparr>"

theorem legal_utf8_iff_witness:
  "verify_legal_utf8 sample_parser [0x41, 0xC3, 0xA9, 0xFF] 3 = Inr () \<and> (\<exists>cs. [0x41, 0xC3, 0xA9] @ [0] = convert_to_utf8 cs)"
proof -
  have "verify_legal_utf8 sample_parser [0x41, 0xC3, 0xA9, 0xFF] 3 = Inr ()"
    by (simp add: verify_legal_utf8_def sample_parser_def utf8_rest.simps arr_get_def long_character_def opt_fault_def drop_bit_eq_div)
  moreover have "verify_legal_utf8 sample_parser [0x41, 0xC3, 0xA9, 0xFF] 3 =
    (if \<exists>cs. take 3 [0x41, 0xC3, 0xA9, 0xFF] @ [0] = convert_to_utf8 cs then Inr ()
     else Inl (Class_Format_Error ''Illegal UTF8 string in constant pool in class file %s''))"
    by (rule legal_utf8_iff) (simp_all add: sample_parser_def)
  ultimately show ?thesis by (auto split: if_splits)
qed

end
