(* ===== verification/Legal_Formats.thy ===== *)
theory Legal_Formats
  imports Legal_Utf8
begin

text \<open>
  What the checks on names and descriptors accept: names without the reserved characters, and the descriptors of
  the grammar with at most 255 dimensions.  No check reads outside the copy of a symbol.
\<close>

section \<open>Results of a check\<close>

text \<open>A check that returns with a property, or throws a \<open>ClassFormatError\<close>, and does nothing else.\<close>

definition checks :: "('a \<Rightarrow> bool) \<Rightarrow> fault + 'a \<Rightarrow> bool" where
  "checks P r \<longleftrightarrow> (case r of Inl e \<Rightarrow> (\<exists>m. e = Class_Format_Error m) | Inr x \<Rightarrow> P x)"

lemma checks_simps [simp]: "checks P (Inr x) \<longleftrightarrow> P x" "checks P (Inl e) \<longleftrightarrow> (\<exists>m. e = Class_Format_Error m)"
  "checks P (classfile_parse_error msg)" "checks P (throwIllegalSignature msg)" "checks P illegal_utf8"
  by (simp_all add: checks_def classfile_parse_error_def throwIllegalSignature_def illegal_utf8_def)

lemma checks_bind: "checks P m \<Longrightarrow> (\<And>x. P x \<Longrightarrow> m = Inr x \<Longrightarrow> checks Q (k x)) \<Longrightarrow> checks Q (rbind m k)"
  by (cases m) auto

lemma checks_mono: "checks P r \<Longrightarrow> (\<And>x. P x \<Longrightarrow> r = Inr x \<Longrightarrow> Q x) \<Longrightarrow> checks Q r"
  by (cases r) auto

lemma checks_Inr: "checks P r \<Longrightarrow> r = Inr x \<Longrightarrow> P x"
  by simp

lemma guarantee_checks: "checks (\<lambda>_. b) (guarantee_property b msg)"
  by (simp add: guarantee_property_def)

section \<open>Descriptors\<close>

text \<open>The types whose descriptors the parser accepts: no dot in a class name and at most 255 dimensions.\<close>

definition dotless :: "field_type \<Rightarrow> bool" where
  "dotless t \<longleftrightarrow> (case ft_elem t of FT_Class n \<Rightarrow> 46 \<notin> set n | _ \<Rightarrow> True)"

definition legal_type :: "field_type \<Rightarrow> bool" where
  "legal_type t \<longleftrightarrow> arg_ft t \<and> dotless t \<and> ft_dims t \<le> 255"

definition new_format :: "ClassFileParser \<Rightarrow> bool" where
  "new_format cfp \<longleftrightarrow> cfp_need_verify cfp \<and> \<not> cfp_relax_verify cfp \<and> cfp_major_version cfp \<ge> JAVA_1_5_VERSION"

lemma class_name_loop_eq:
  "class_name_loop (s @ [z]) (length s) =
    (let n = takeWhile (\<lambda>c. c \<noteq> 59) s
     in if 46 \<in> set n then classfile_parse_error ''Class name contains illegal character '.' in descriptor in class file %s''
        else Inr (drop (length n) (s @ [z])))"
  by (induction s) (simp_all add: Let_def)

lemma skip_class_eq:
  assumes "cfp_major_version cfp \<ge> JAVA_1_5_VERSION"
  shows "skip_class_signature cfp (s @ [0]) (length s) =
    (let n = takeWhile (\<lambda>c. c \<noteq> 59) s
     in if 46 \<in> set n then classfile_parse_error ''Class name contains illegal character '.' in descriptor in class file %s''
        else Inr (if 59 \<in> set s then Some (tl (drop (length n) s) @ [0]) else None))"
proof (cases "59 \<in> set s")
  case True
  then obtain n r where s: "s = n @ 59 # r" "59 \<notin> set n" using split_list_first [of 59 s] by blast
  then have "takeWhile (\<lambda>c. c \<noteq> 59) s = n" by (induction n arbitrary: s) auto
  then have loop: "class_name_loop (s @ [0]) (length s) =
      (if 46 \<in> set n then classfile_parse_error ''Class name contains illegal character '.' in descriptor in class file %s''
       else Inr (59 # r @ [0]))"
    using s by (simp only: class_name_loop_eq Let_def) simp
  have "takeWhile (\<lambda>c. c \<noteq> 59) s = n \<and> tl (drop (length n) s) = r" using s by (induction n arbitrary: s) auto
  then show ?thesis using assms True unfolding skip_class_signature_def loop by (simp add: Let_def classfile_parse_error_def)
next
  case False
  then have tw: "takeWhile (\<lambda>c. c \<noteq> 59) s = s" by (auto simp: takeWhile_eq_all_conv)
  have "class_name_loop (s @ [0]) (length s) =
      (if 46 \<in> set s then classfile_parse_error ''Class name contains illegal character '.' in descriptor in class file %s'' else Inr [0])"
    by (simp only: class_name_loop_eq Let_def tw) simp
  then show ?thesis using assms False unfolding Let_def tw by (simp add: skip_class_signature_def classfile_parse_error_def)
qed

definition skip_type_ok :: "bool \<Rightarrow> nat \<Rightarrow> field_type \<Rightarrow> bool" where
  "skip_type_ok void_ok d t \<longleftrightarrow> wf_ft t \<and> dotless t \<and> d + ft_dims t \<le> 255 \<and>
     (ft_elem t = FT_Base T_VOID \<longrightarrow> void_ok \<and> t = FT_Base T_VOID)"

lemma base_type_chars: "c \<in> {86, 90, 66, 67, 83, 73, 70, 74, 68} \<Longrightarrow> \<exists>b. b \<notin> {T_OBJECT, T_ARRAY, T_ILLEGAL} \<and> c = base_char b"
  by (elim insertE)
    (rule exI [of _ T_VOID] exI [of _ T_BOOLEAN] exI [of _ T_BYTE] exI [of _ T_CHAR] exI [of _ T_SHORT] exI [of _ T_INT]
       exI [of _ T_FLOAT] exI [of _ T_LONG] exI [of _ T_DOUBLE], simp; fail | simp)+

lemma base_signature_type: "base_signature c \<longleftrightarrow> (\<exists>b. b \<notin> {T_OBJECT, T_ARRAY, T_ILLEGAL} \<and> c = base_char b)"
proof
  assume "base_signature c"
  then show "\<exists>b. b \<notin> {T_OBJECT, T_ARRAY, T_ILLEGAL} \<and> c = base_char b"
    using base_type_chars unfolding base_signature_def by blast
next
  assume "\<exists>b. b \<notin> {T_OBJECT, T_ARRAY, T_ILLEGAL} \<and> c = base_char b"
  then obtain b where "b \<notin> {T_OBJECT, T_ARRAY, T_ILLEGAL}" "c = base_char b" by blast
  then show "base_signature c" by (cases b) (simp_all add: base_signature_def)
qed

lemma base_char_void: "base_char b = 86 \<longleftrightarrow> b = T_VOID"
  by (cases b) simp_all

lemma signature_step:
  "skip_signature_loop cfp (c # s) v (Suc n) d =
    (if c = 86 \<and> \<not> v then Inr None
     else if base_signature c then Inr (Some s)
     else if c = 76 then skip_class_signature cfp s n
     else if c = 91 then
       if d + 1 > 255 then classfile_parse_error ''Array type descriptor has more than 255 dimensions in class file %s''
       else skip_signature_loop cfp s False n (d + 1)
     else Inr None)"
  by simp

lemma skip_signature_sound:
  assumes "cfp_major_version cfp \<ge> JAVA_1_5_VERSION" "d \<le> 255"
  shows "checks (\<lambda>q. \<forall>p. q = Some p \<longrightarrow> (\<exists>t r. s = show_type t @ r \<and> p = r @ [0] \<and> skip_type_ok v d t))
    (skip_signature_loop cfp (s @ [0]) v (length s) d)"
  using assms(2)
proof (induction s arbitrary: v d)
  case (Cons c s)
  note step = signature_step [of cfp c "s @ [0]" v "length s" d]
  consider (void) "c = 86" "\<not> v" | (base) "\<not> (c = 86 \<and> \<not> v)" "base_signature c" | (cls) "c = 76" "\<not> (c = 86 \<and> \<not> v)" "\<not> base_signature c"
    | (arr) "c = 91" "\<not> (c = 86 \<and> \<not> v)" "\<not> base_signature c"
    | (other) "\<not> (c = 86 \<and> \<not> v)" "\<not> base_signature c" "c \<noteq> 76" "c \<noteq> 91" by (auto simp: base_signature_def)
  then show ?case
  proof cases
    case base
    then obtain b where b: "b \<notin> {T_OBJECT, T_ARRAY, T_ILLEGAL}" "c = base_char b" using base_signature_type by blast
    then have "skip_type_ok v d (FT_Base b)" using base(1) Cons.prems by (auto simp: skip_type_ok_def dotless_def base_char_void)
    then have "\<exists>t r. c # s = show_type t @ r \<and> s @ [0] = r @ [0] \<and> skip_type_ok v d t"
      using b by (intro exI [of _ "FT_Base b"] exI [of _ s]) simp
    then show ?thesis using base step by simp
  next
    case cls
    let ?n = "takeWhile (\<lambda>c. c \<noteq> 59) s"
    have "\<exists>t r. c # s = show_type t @ r \<and> tl (drop (length ?n) s) @ [0] = r @ [0] \<and> skip_type_ok v d t" if s59: "59 \<in> set s" and "46 \<notin> set ?n"
    proof -
      obtain n r where s: "s = n @ 59 # r" "59 \<notin> set n" using split_list_first [OF s59] by blast
      then have "?n = n" by (induction n arbitrary: s) auto
      then show ?thesis using that s cls(1) Cons.prems
        by (intro exI [of _ "FT_Class n"] exI [of _ r]) (auto simp: skip_type_ok_def dotless_def)
    qed
    then show ?thesis using cls step assms(1) by (simp add: skip_class_eq Let_def)
  next
    case arr
    show ?thesis
    proof (cases "d + 1 > 255")
      case False
      have "\<exists>t r. c # s = show_type t @ r \<and> p = r @ [0] \<and> skip_type_ok v d t"
        if ex: "\<exists>t r. s = show_type t @ r \<and> p = r @ [0] \<and> skip_type_ok False (d + 1) t" for p
      proof -
        obtain t r where "s = show_type t @ r" "p = r @ [0]" "skip_type_ok False (d + 1) t" using ex by blast
        then show ?thesis using arr(1)
          by (intro exI [of _ "FT_Array t"] exI [of _ r]) (auto simp: skip_type_ok_def dotless_def)
      qed
      then show ?thesis using Cons.IH [of "d + 1" False] False arr step by (auto elim: checks_mono)
    qed (use arr step in simp)
  qed (use step in auto)
qed simp

lemma skip_signature_complete:
  assumes "cfp_major_version cfp \<ge> JAVA_1_5_VERSION" "skip_type_ok v d t"
  shows "skip_signature_loop cfp (show_type t @ r @ [0]) v (length (show_type t @ r)) d = Inr (Some (r @ [0]))"
  using assms(2)
proof (induction t arbitrary: v d)
  case (FT_Base b)
  then have "base_signature (base_char b)" "base_char b = 86 \<longrightarrow> v"
    using base_signature_type by (auto simp: skip_type_ok_def base_char_void)
  then show ?case by (auto simp: signature_step simp del: skip_signature_loop.simps)
next
  case (FT_Class n)
  then have n: "59 \<notin> set n" "46 \<notin> set n" by (auto simp: skip_type_ok_def dotless_def)
  then have "takeWhile (\<lambda>c. c \<noteq> 59) (n @ 59 # r) = n" by (induction n) auto
  then have "skip_class_signature cfp (n @ 59 # r @ [0]) (Suc (length n + length r)) = Inr (Some (r @ [0]))"
    using skip_class_eq [OF assms(1), of "n @ 59 # r"] n(2) by (simp add: Let_def)
  then show ?case by (simp add: signature_step base_signature_def del: skip_signature_loop.simps)
next
  case (FT_Array t)
  then have "skip_type_ok False (d + 1) t" "\<not> d + 1 > 255" by (auto simp: skip_type_ok_def dotless_def)
  then show ?case using FT_Array.IH [of False "d + 1"] by (simp add: signature_step base_signature_def del: skip_signature_loop.simps)
qed

lemma void_elem: "ft_elem t = FT_Base T_VOID \<Longrightarrow> no_void_array t \<Longrightarrow> t = FT_Base T_VOID"
  by (cases t) (auto simp: no_void_array_def)

lemma skip_type_False: "skip_type_ok False 0 t \<longleftrightarrow> legal_type t"
proof -
  have "no_void_array t" if "ft_elem t \<noteq> FT_Base T_VOID" using that by (cases t) (auto simp: no_void_array_def)
  then show ?thesis using void_elem [of t] by (auto simp: skip_type_ok_def legal_type_def arg_ft_def)
qed

lemma skip_type_True: "skip_type_ok True 0 t \<longleftrightarrow> legal_type t \<or> t = FT_Base T_VOID"
  using skip_type_False [of t] by (auto simp: skip_type_ok_def dotless_def)

text \<open>Results of \<open>skip_over_field_signature\<close> on the rest of a descriptor.\<close>

lemma skip_field_checks:
  assumes "cfp_major_version cfp \<ge> JAVA_1_5_VERSION"
  shows "checks (\<lambda>q. \<forall>p. q = Some p \<longrightarrow> (\<exists>t r. s = show_type t @ r \<and> p = r @ [0] \<and> skip_type_ok v 0 t))
    (skip_over_field_signature cfp (s @ [0]) v (length s))"
  unfolding skip_over_field_signature_def by (rule skip_signature_sound [OF assms]) simp

lemma skip_field_show:
  assumes "cfp_major_version cfp \<ge> JAVA_1_5_VERSION" "skip_type_ok v 0 t"
  shows "skip_over_field_signature cfp (show_type t @ r @ [0]) v (length (show_type t @ r)) = Inr (Some (r @ [0]))"
  unfolding skip_over_field_signature_def by (rule skip_signature_complete [OF assms])

lemma field_signature_checks:
  assumes "new_format cfp"
  shows "checks (\<lambda>_. \<exists>t. sig = show_type t \<and> legal_type t) (verify_legal_field_signature cfp name sig)"
proof -
  have f: "cfp_need_verify cfp" "cfp_major_version cfp \<ge> JAVA_1_5_VERSION" using assms by (auto simp: new_format_def)
  have "checks (\<lambda>_. \<exists>t. sig = show_type t \<and> legal_type t)
      (if \<not> consumed (sig @ [0]) (length sig) q then throwIllegalSignature ''Field'' else Inr ())"
    if "\<forall>p. q = Some p \<longrightarrow> (\<exists>t r. sig = show_type t @ r \<and> p = r @ [0] \<and> skip_type_ok False 0 t)" for q
    using that by (cases q) (auto simp: consumed_def skip_type_False)
  then have "checks (\<lambda>_. \<exists>t. sig = show_type t \<and> legal_type t) (rbind (skip_over_field_signature cfp (sig @ [0]) False (length sig))
      (\<lambda>q. if \<not> consumed (sig @ [0]) (length sig) q then throwIllegalSignature ''Field'' else Inr ()))"
    by (rule checks_bind [OF skip_field_checks [OF f(2)]])
  then show ?thesis using f by (simp add: verify_legal_field_signature_def as_utf8_flexible_buffer_def Let_def)
qed

lemma field_signature_accepts:
  assumes "new_format cfp" "legal_type t"
  shows "verify_legal_field_signature cfp name (show_type t) = Inr ()"
  using assms skip_field_show [of cfp False t "[]"]
  by (simp add: new_format_def verify_legal_field_signature_def as_utf8_flexible_buffer_def Let_def skip_type_False consumed_def)

lemma usub_le: "b \<le> a \<Longrightarrow> a < 2 ^ 32 \<Longrightarrow> usub a b = a - b"
  by (simp add: usub_def of_nat_diff [symmetric] del: of_nat_diff)

text \<open>A parameter loop stops where no legal type starts.\<close>

definition type_words :: "field_type \<Rightarrow> nat" where
  "type_words t = nat (type_size (ft_type t))"

lemma first_char_words:
  "legal_type t \<Longrightarrow> \<exists>c r. show_type t = c # r \<and> (if c = 74 \<or> c = 68 then 2 else 1) = type_words t"
  by (cases t rule: show_type.cases; cases "ft_type t") (auto simp: type_words_def legal_type_def arg_ft_def)

definition params_at :: "symbol \<Rightarrow> nat \<Rightarrow> nat \<times> u_char list \<times> nat \<Rightarrow> bool" where
  "params_at s a = (\<lambda>(a', p, n). \<exists>ps r. s = show_types ps @ r \<and> p = r @ [0] \<and> n = length r \<and> list_all legal_type ps \<and>
     a' = a + sum_list (map type_words ps))"

lemma parameters_loop_checks:
  assumes "cfp_major_version cfp \<ge> JAVA_1_5_VERSION" "length s < 2 ^ 32"
  shows "checks (params_at s a) (parameters_loop cfp (s @ [0]) (length s) a)"
  using assms(2)
proof (induction "length s" arbitrary: s a rule: less_induct)
  case less
  have stop: "params_at s a (a, s @ [0], length s)" by (auto simp: params_at_def intro!: exI [of _ "[]"])
  show ?case unfolding parameters_loop.simps [of cfp "s @ [0]"]
  proof (rule checks_bind [OF skip_field_checks [OF assms(1)]])
    fix q assume q: "\<forall>p. q = Some p \<longrightarrow> (\<exists>t r. s = show_type t @ r \<and> p = r @ [0] \<and> skip_type_ok False 0 t)"
    show "checks (params_at s a) (case q of None \<Rightarrow> Inr (a, s @ [0], length s)
       | Some q \<Rightarrow> if length s > 0 then (case s @ [0] of [] \<Rightarrow> Inl Undefined_Behaviour
           | c # _ \<Rightarrow> parameters_loop cfp q (usub (length s) (length (s @ [0]) - length q)) (a + (if c = 74 \<or> c = 68 then 2 else 1)))
         else Inr (a, s @ [0], length s))"
    proof (cases q)
      case (Some p)
      then obtain t r where t: "s = show_type t @ r" "p = r @ [0]" "legal_type t" using q skip_type_False by blast
      obtain c bs where c: "show_type t = c # bs" "(if c = 74 \<or> c = 68 then 2 else 1) = type_words t" using first_char_words [OF t(3)] by blast
      have "usub (length s) (length (s @ [0]) - length p) = length r" using t less.prems usub_le [of "length (show_type t)" "length s"] by simp
      moreover have "checks (params_at r (a + type_words t)) (parameters_loop cfp (r @ [0]) (length r) (a + type_words t))"
        using t c less.prems by (intro less.hyps) auto
      then have "checks (params_at s a) (parameters_loop cfp (r @ [0]) (length r) (a + type_words t))"
      proof (rule checks_mono, unfold params_at_def, clarify)
        fix p' ps r' assume "r = show_types ps @ r'" "list_all legal_type ps"
        then show "\<exists>psa ra. s = show_types psa @ ra \<and> r' @ [0] = ra @ [0] \<and> length r' = length ra \<and> list_all legal_type psa \<and>
            a + type_words t + sum_list (map type_words ps) = a + sum_list (map type_words psa)"
          using t by (intro exI [of _ "t # ps"] exI [of _ r']) simp
      qed
      ultimately show ?thesis using Some t c by simp
    qed (use stop in simp)
  qed
qed

lemma parameters_loop_show:
  assumes "cfp_major_version cfp \<ge> JAVA_1_5_VERSION" "list_all legal_type ps" "length (show_types ps @ 41 # r) < 2 ^ 32"
  shows "parameters_loop cfp (show_types ps @ 41 # r @ [0]) (length (show_types ps @ 41 # r)) a =
    Inr (a + sum_list (map type_words ps), 41 # r @ [0], Suc (length r))"
  using assms(2,3)
proof (induction ps arbitrary: a)
  case Nil
  have "skip_over_field_signature cfp (41 # r @ [0]) False (Suc (length r)) = Inr None"
    by (simp add: skip_over_field_signature_def base_signature_def)
  then show ?case by (subst parameters_loop.simps) simp
next
  case (Cons t ps)
  let ?s = "show_types ps @ 41 # r"
  have t: "legal_type t" "list_all legal_type ps" using Cons.prems by auto
  obtain c bs where c: "show_type t = c # bs" "(if c = 74 \<or> c = 68 then 2 else 1) = type_words t" using first_char_words [OF t(1)] by blast
  have skip: "skip_over_field_signature cfp (show_type t @ ?s @ [0]) False (length (show_type t @ ?s)) = Inr (Some (?s @ [0]))"
    using assms(1) t(1) by (intro skip_field_show) (simp_all add: skip_type_False)
  have u: "usub (length (show_type t @ ?s)) (length (show_type t @ ?s @ [0]) - length (?s @ [0])) = length ?s"
    using Cons.prems(2) usub_le [of "length (show_type t)" "length (show_type t @ ?s)"] by simp
  have "parameters_loop cfp (show_type t @ ?s @ [0]) (length (show_type t @ ?s)) a = parameters_loop cfp (?s @ [0]) (length ?s) (a + type_words t)"
    unfolding parameters_loop.simps [of cfp "show_type t @ ?s @ [0]"] skip rbind_simps option.case u using c by simp
  then show ?case using Cons.IH [of "a + type_words t"] t(2) Cons.prems(2) by simp
qed

definition legal_return :: "symbol \<Rightarrow> field_type \<Rightarrow> bool" where
  "legal_return name r \<longleftrightarrow> r = FT_Base T_VOID \<or> (\<not> (name \<noteq> [] \<and> hd name = 60) \<and> legal_type r)"

definition method_result :: "symbol \<Rightarrow> symbol \<Rightarrow> int \<Rightarrow> bool" where
  "method_result name sig n \<longleftrightarrow> (\<exists>ps r. sig = show_method ps r \<and> list_all legal_type ps \<and> legal_return name r \<and> n = params_size ps)"

lemma type_words_sum: "int (sum_list (map type_words ps)) = params_size ps"
proof (induction ps)
  case (Cons t ps)
  then show ?case by (cases "ft_type t") (simp_all add: type_words_def)
qed simp

lemma show_type_void: "show_type t = [86] \<longleftrightarrow> t = FT_Base T_VOID"
  by (cases t) (auto simp: base_char_void dest: arg_cong [of _ _ length])

lemma method_signature_eq:
  assumes "cfp_need_verify cfp"
  shows "verify_legal_method_signature cfp name sig =
    (case sig of [] \<Rightarrow> throwIllegalSignature ''Method''
     | c # s \<Rightarrow> if c = 40 then rbind (parameters_loop cfp (s @ [0]) (length s) 0) (\<lambda>(args_size, p, len).
         if len > 0 then (case p of [] \<Rightarrow> Inl Undefined_Behaviour
           | c # p \<Rightarrow> if c = 41 then return_check cfp name args_size p (len - 1) else throwIllegalSignature ''Method'')
         else throwIllegalSignature ''Method'')
       else throwIllegalSignature ''Method'')"
  using assms by (cases sig) (simp_all add: verify_legal_method_signature_def as_utf8_flexible_buffer_def Let_def)

lemma return_check_checks:
  assumes "cfp_major_version cfp \<ge> JAVA_1_5_VERSION"
  shows "checks (\<lambda>n. n = int a \<and> (\<exists>r. s = show_type r \<and> legal_return name r)) (return_check cfp name a (s @ [0]) (length s))"
proof (cases "name \<noteq> [] \<and> hd name = 60")
  case True
  have "\<exists>r. [86] = show_type r \<and> legal_return name r" by (rule exI [of _ "FT_Base T_VOID"]) (simp add: legal_return_def)
  then show ?thesis using True by (cases s rule: list.exhaust; cases "tl s") (auto simp: return_check_def)
next
  case False
  have void: "\<exists>r. [86] = show_type r \<and> (r = FT_Base T_VOID \<or> legal_type r)" by (rule exI [of _ "FT_Base T_VOID"]) simp
  have "checks (\<lambda>n. n = int a \<and> (\<exists>r. s = show_type r \<and> legal_return name r))
      (if consumed (s @ [0]) (length s) q then Inr (int a) else throwIllegalSignature ''Method'')"
    if "\<forall>p. q = Some p \<longrightarrow> (\<exists>t r. s = show_type t @ r \<and> p = r @ [0] \<and> skip_type_ok True 0 t)" for q
    using that False by (cases q) (auto simp: consumed_def skip_type_True legal_return_def intro!: void)
  then have "checks (\<lambda>n. n = int a \<and> (\<exists>r. s = show_type r \<and> legal_return name r)) (rbind (skip_over_field_signature cfp (s @ [0]) True (length s))
      (\<lambda>q. if consumed (s @ [0]) (length s) q then Inr (int a) else throwIllegalSignature ''Method''))"
    by (rule checks_bind [OF skip_field_checks [OF assms]])
  then show ?thesis unfolding return_check_def if_not_P [OF False] .
qed

lemma return_check_show:
  assumes "cfp_major_version cfp \<ge> JAVA_1_5_VERSION" "legal_return name r"
  shows "return_check cfp name a (show_type r @ [0]) (length (show_type r)) = Inr (int a)"
proof (cases "name \<noteq> [] \<and> hd name = 60")
  case True
  then show ?thesis using assms(2) by (auto simp: return_check_def legal_return_def)
next
  case False
  then have "skip_type_ok True 0 r" using assms(2) by (auto simp: legal_return_def skip_type_True)
  then show ?thesis using False skip_field_show [OF assms(1), of True r "[]"] by (auto simp: return_check_def consumed_def)
qed

lemma method_signature_checks:
  assumes "new_format cfp" "length sig < 2 ^ 32"
  shows "checks (method_result name sig) (verify_legal_method_signature cfp name sig)"
proof -
  have f: "cfp_need_verify cfp" "cfp_major_version cfp \<ge> JAVA_1_5_VERSION" using assms(1) by (auto simp: new_format_def)
  show ?thesis
  proof (cases sig)
    case (Cons c s)
    have "checks (method_result name sig) (if length r > 0 then (case r @ [0] of [] \<Rightarrow> Inl Undefined_Behaviour
           | c # p \<Rightarrow> if c = 41 then return_check cfp name a p (length r - 1) else throwIllegalSignature ''Method'')
         else throwIllegalSignature ''Method'')"
      if ps: "s = show_types ps @ r" "list_all legal_type ps" "a = sum_list (map type_words ps)" "c = 40" for ps r a
    proof (cases r)
      case r: (Cons d r')
      have "method_result name sig n" if "n = int a" "r' = show_type t" "legal_return name t" "d = 41" for n t
        using that ps Cons r type_words_sum [of ps] unfolding method_result_def show_method_def
        by (intro exI [of _ ps] exI [of _ t]) simp
      then have "checks (method_result name sig) (return_check cfp name a (r' @ [0]) (length r'))" if "d = 41"
        using that by (intro checks_mono [OF return_check_checks [OF f(2)]]) blast
      then show ?thesis using r by simp
    qed simp
    then have "checks (method_result name sig) (rbind (parameters_loop cfp (s @ [0]) (length s) 0) (\<lambda>(args_size, p, len).
         if len > 0 then (case p of [] \<Rightarrow> Inl Undefined_Behaviour
           | c # p \<Rightarrow> if c = 41 then return_check cfp name args_size p (len - 1) else throwIllegalSignature ''Method'')
         else throwIllegalSignature ''Method''))" if "c = 40"
      using Cons assms(2) that by (intro checks_bind [OF parameters_loop_checks [OF f(2)]]) (auto simp: params_at_def)
    then show ?thesis using Cons by (simp add: method_signature_eq [OF f(1)])
  qed (simp add: method_signature_eq [OF f(1)])
qed

lemma method_signature_accepts:
  assumes "new_format cfp" "length (show_method ps r) < 2 ^ 32" "list_all legal_type ps" "legal_return name r"
  shows "verify_legal_method_signature cfp name (show_method ps r) = Inr (params_size ps)"
proof -
  have f: "cfp_need_verify cfp" "cfp_major_version cfp \<ge> JAVA_1_5_VERSION" using assms(1) by (auto simp: new_format_def)
  have "parameters_loop cfp ((show_types ps @ 41 # show_type r) @ [0]) (length (show_types ps @ 41 # show_type r)) 0 =
      Inr (sum_list (map type_words ps), 41 # show_type r @ [0], Suc (length (show_type r)))"
    using parameters_loop_show [OF f(2) assms(3), of "show_type r" 0] assms(2) by (simp add: show_method_def)
  then show ?thesis using return_check_show [OF f(2) assms(4)] type_words_sum [of ps]
    by (simp add: method_signature_eq [OF f(1)] show_method_def)
qed

text \<open>C9: For a class to be verified in full, from version 49 on, \<open>verify_legal_method_signature\<close> accepts exactly the method descriptors of the grammar whose
  types have at most 255 dimensions, no dot in a class name and no \<open>void\<close> parameter, and whose result is \<open>void\<close> when the name of
  the method starts with \<open><\<close>; it returns the number of words of the parameters,
  two for a \<open>long\<close> or \<open>double\<close>, where the comment on the function has the number of parameters.  It throws a \<open>ClassFormatError\<close> for every other
  descriptor, and never reads past the terminating zero.\<close>

theorem legal_method_signature_iff:
  assumes "cfp_need_verify cfp" "\<not> cfp_relax_verify cfp" "cfp_major_version cfp \<ge> 49" "length sig < 65536"
  shows "(verify_legal_method_signature cfp name sig = Inr n \<longleftrightarrow>
      (\<exists>ps r. sig = show_method ps r \<and> list_all legal_type ps \<and> legal_return name r \<and> n = params_size ps)) \<and>
    (\<forall>e. verify_legal_method_signature cfp name sig = Inl e \<longrightarrow> (\<exists>m. e = Class_Format_Error m))"
proof -
  have f: "new_format cfp" using assms by (simp add: new_format_def java_versions)
  have "checks (method_result name sig) (verify_legal_method_signature cfp name sig)" using assms(4) by (intro method_signature_checks f) simp
  then show ?thesis using method_signature_accepts [OF f] assms(4) by (auto simp: method_result_def)
qed

theorem legal_method_signature_iff_witness:
  "verify_legal_method_signature sample_parser (symbol_of ''f'') (symbol_of ''(J[I)V'') = Inr 3 \<and>
   (\<exists>ps r. symbol_of ''(J[I)V'' = show_method ps r \<and> list_all legal_type ps \<and> legal_return (symbol_of ''f'') r \<and> 3 = params_size ps)"
proof -
  have "verify_legal_method_signature sample_parser (symbol_of ''f'') (symbol_of ''(J[I)V'') = Inr 3" by code_simp
  then show ?thesis
    using legal_method_signature_iff [of sample_parser "symbol_of ''(J[I)V''" "symbol_of ''f''" 3] by (auto simp: sample_parser_def symbol_of_def)
qed

end
