(* ===== verification/Instruction_Safety.thy ===== *)
theory Instruction_Safety
  imports Method_Verifier
begin

text \<open>
  The checks of single instructions are defined and return: on a method whose constant pool, signatures
  and code have the form that the parser of class files guarantees, no check reads or writes outside an
  array, each keeps the frame well formed, and the height of its stack changes as the table of
  \<open>interpreter/bytecodes.cpp\<close> says.
\<close>

unbundle bit_operations_syntax

section \<open>Defined results\<close>

definition safe :: "('a \<Rightarrow> bool) \<Rightarrow> fault + 'a \<Rightarrow> bool" where
  "safe P r \<longleftrightarrow> (case r of Inl e \<Rightarrow> e \<noteq> Undefined_Behaviour | Inr x \<Rightarrow> P x)"

definition returns :: "('a \<Rightarrow> bool) \<Rightarrow> (fault + 'a) option \<Rightarrow> bool" where
  "returns P r \<longleftrightarrow> (case r of None \<Rightarrow> False | Some r \<Rightarrow> safe P r)"

lemma safe_simps1 [simp]: "safe P (Inr x) \<longleftrightarrow> P x" "safe P (Inl e) \<longleftrightarrow> e \<noteq> Undefined_Behaviour"
  by (simp_all add: safe_def)

lemma safe_errors [simp]: "safe P (verify_error c m)" "safe P (class_format_error m)"
  by (simp_all add: verify_error_def class_format_error_def)

lemma returns_Some [simp]: "returns P (Some r) \<longleftrightarrow> safe P r"
  by (simp add: returns_def)

lemma safe_bind: "safe P m \<Longrightarrow> (\<And>x. P x \<Longrightarrow> safe Q (k x)) \<Longrightarrow> safe Q (rbind m k)"
  by (cases m) simp_all

lemma returns_bind: "returns P m \<Longrightarrow> (\<And>x. P x \<Longrightarrow> returns Q (k x)) \<Longrightarrow> returns Q (pbind m k)"
  by (cases m; cases "the m") (simp_all add: returns_def)

lemma safe_mono: "safe P r \<Longrightarrow> (\<And>x. P x \<Longrightarrow> Q x) \<Longrightarrow> safe Q r"
  by (cases r) simp_all

lemma returns_mono: "returns P r \<Longrightarrow> (\<And>x. P x \<Longrightarrow> Q x) \<Longrightarrow> returns Q r"
  by (auto simp: returns_def split: option.splits intro: safe_mono)

section \<open>Frames with a known height\<close>

definition fr :: "int \<Rightarrow> int \<Rightarrow> int \<Rightarrow> StackMapFrame \<Rightarrow> bool" where
  "fr ml ms n f \<longleftrightarrow> frame_ok f \<and> max_locals f = ml \<and> max_stack f = ms \<and> stack_size f = n"

definition popped :: "int \<Rightarrow> int \<Rightarrow> int \<Rightarrow> VerificationType \<times> StackMapFrame \<Rightarrow> bool" where
  "popped ml ms n = (\<lambda>(t, f). sound_type t \<and> fr ml ms n f \<and> n < ms)"

lemma fr_ok: "fr ml ms n f \<Longrightarrow> frame_ok f" by (simp add: fr_def)

lemma assign_safe:
  "env_defined context \<Longrightarrow> asked_type t \<Longrightarrow> sound_type u \<Longrightarrow> safe (\<lambda>_. True) (is_assignable_from context t u b)"
  using assignable_asked [of "context" t u b] by (cases "is_assignable_from context t u b") auto

lemma push_fr: "fr ml ms n f \<Longrightarrow> sound_type t \<Longrightarrow> safe (fr ml ms (n + 1)) (push_stack t f)"
  using push_safe [of f t] by (auto simp: push_stack_def arr_set_def fr_def frame_ok_def)

lemma push_2_fr: "fr ml ms n f \<Longrightarrow> sound_type t \<Longrightarrow> sound_type u \<Longrightarrow> safe (fr ml ms (n + 2)) (push_stack_2 t u f)"
  using push_2_safe [of f t u] by (auto simp: push_stack_2_def arr_set_def fr_def frame_ok_def)

lemma pop_frame: "fr ml ms n f \<Longrightarrow> 0 < n \<Longrightarrow> sound_type (stack f ! nat (n - 1)) \<and> fr ml ms (n - 1) (f\<lparr>stack_size := n - 1\<rparr>) \<and> n - 1 < ms \<and>
    arr_get (stack f) (n - 1) = Inr (stack f ! nat (n - 1))"
  using stack_sound [of f "n - 1"] frame_ok_pop [of f "n - 1"] stack_get [of f "n - 1"] by (auto simp: fr_def frame_ok_def)

lemma pop_fr: "fr ml ms n f \<Longrightarrow> safe (popped ml ms (n - 1)) (pop_stack f)"
  using pop_frame [of ml ms n f] by (auto simp: pop_stack_def popped_def fr_def)

lemma pop_ex_fr:
  assumes "env_defined context" "asked_type t" "fr ml ms n f"
  shows "case pop_stack_ex context t f of (r, f') \<Rightarrow> safe (\<lambda>top. popped ml ms (n - 1) (top, f') \<and> is_assignable_from context t top False = Inr True) r"
proof (cases "n \<le> 0")
  case True
  then show ?thesis using assms by (simp add: pop_stack_ex_def fr_def)
next
  case False
  then show ?thesis using pop_frame [OF assms(3)] assms(3) assign_safe [OF assms(1,2), of "stack f ! nat (n - 1)" False]
    by (cases "is_assignable_from context t (stack f ! nat (n - 1)) False") (auto simp: pop_stack_ex_def popped_def fr_def)
qed

lemma pop_type_fr:
  assumes "env_defined context" "asked_type t" "fr ml ms n f"
  shows "safe (\<lambda>x. popped ml ms (n - 1) x \<and> is_assignable_from context t (fst x) False = Inr True) (pop_stack_type context t f)"
proof -
  have slow: "safe (\<lambda>x. popped ml ms (n - 1) x \<and> is_assignable_from context t (fst x) False = Inr True)
     (case pop_stack_ex context t f of (r, f') \<Rightarrow> rbind r (\<lambda>top. Inr (top, f')))"
    using pop_ex_fr [OF assms] by (cases "pop_stack_ex context t f"; cases "fst (pop_stack_ex context t f)") auto
  show ?thesis
  proof (cases "n \<le> 0")
    case True
    then have "stack_size f = 0" using assms(3) by (auto simp: fr_def frame_ok_def)
    then show ?thesis using slow by (simp add: pop_stack_type_def)
  next
    case False
    then show ?thesis using slow pop_frame [OF assms(3)] assms(3) assign_safe [OF assms(1,2), of "stack f ! nat (n - 1)" False]
      by (cases "is_assignable_from context t (stack f ! nat (n - 1)) False") (auto simp: pop_stack_type_def popped_def fr_def Let_def)
  qed
qed

lemma pop_2_fr:
  assumes e: "env_defined context" "asked_type t" "asked_type u" and f: "fr ml ms n f"
  shows "safe (fr ml ms (n - 2)) (pop_stack_2 context t u f)"
proof -
  have "safe_result (pop_stack_2 context t u f)" using pop_2_safe [OF e fr_ok [OF f]] .
  moreover have "stack_size f' = n - 2 \<and> max_locals f' = ml \<and> max_stack f' = ms" if "pop_stack_2 context t u f = Inr f'" for f'
    using that f by (auto simp: pop_stack_2_def pop_stack_ex_def Let_def rbind_Inr_iff fr_def split: if_splits sum.splits)
  ultimately show ?thesis by (cases "pop_stack_2 context t u f") (auto simp: safe_result_def fr_def)
qed

lemma get_local_fr:
  assumes "env_defined context" "asked_type t" "fr ml ms n f" "0 \<le> i"
  shows "safe (\<lambda>(u, f). sound_type u \<and> fr ml ms n f \<and> is_assignable_from context t u False = Inr True) (get_local context i t f)"
proof (cases "i < max_locals f")
  case True
  then have g: "arr_get (locals f) i = Inr (locals f ! nat i)" "sound_type (locals f ! nat i)"
    using assms local_sound [of f i] by (auto simp: fr_def frame_ok_def arr_get_def)
  have "frame_ok (if i \<ge> locals_size f then f\<lparr>locals_size := i + 1\<rparr> else f)"
    using assms True by (auto simp: fr_def frame_ok_def)
  then show ?thesis using True g assms assign_safe [OF assms(1,2) g(2), of False]
    by (cases "is_assignable_from context t (locals f ! nat i) False") (auto simp: get_local_def fr_def)
qed (simp add: get_local_def)

lemma get_local_2_fr:
  assumes "env_defined context" "asked_type t" "asked_type u" "frame_ok f" "0 \<le> i"
  shows "safe (\<lambda>_. True) (get_local_2 context i t u f)"
  using get_local_2_safe [OF assms(4,1), of i t u] assms by (cases "get_local_2 context i t u f") (auto simp: safe_result_def)

lemma set_local_fr: "fr ml ms n f \<Longrightarrow> 0 \<le> i \<Longrightarrow> single t \<Longrightarrow> sound_type t \<Longrightarrow> safe (fr ml ms n) (set_local i t f)"
  using set_local_safe [of f i t] by (cases "set_local i t f") (auto simp: safe_result_def fr_def set_local_def rbind_Inr_iff split: if_splits)

lemma set_local_2_fr: "fr ml ms n f \<Longrightarrow> 0 \<le> i \<Longrightarrow> half2 t = Some u \<Longrightarrow> safe (fr ml ms n) (set_local_2 i t u f)"
  using set_local_2_safe [of f i t u] by (cases "set_local_2 i t u f") (auto simp: safe_result_def fr_def set_local_2_def rbind_Inr_iff split: if_splits)

lemma initialize_fr:
  "fr ml ms n f \<Longrightarrow> is_uninitialized t \<Longrightarrow> single u \<Longrightarrow> sound_type u \<Longrightarrow> safe (fr ml ms n) (initialize_object t u f)"
  using initialize_object_safe [of f t u] by (cases "initialize_object t u f") (auto simp: safe_result_def fr_def initialize_object_def rbind_Inr_iff)

lemma top_ctx_safe: "fr ml ms n f \<Longrightarrow> n < ms \<Longrightarrow> safe (\<lambda>_. True) (stack_top_ctx f)"
  by (auto simp: stack_top_ctx_def copy_frame_def copy_prefix_def stack_at_def arr_get_def fr_def frame_ok_def u2_of_def)

lemma top_error_safe: "fr ml ms n f \<Longrightarrow> n < ms \<Longrightarrow> safe P (stack_top_error c m f)"
  unfolding stack_top_error_def by (rule safe_bind [OF top_ctx_safe]) simp_all

section \<open>One instruction\<close>

text \<open>The instructions whose effect on the height of the stack depends on their operands.\<close>

definition varying_codes :: "Code list" where
  "varying_codes = [bc_getstatic, bc_putstatic, bc_getfield, bc_putfield, bc_invokevirtual, bc_invokespecial, bc_invokestatic,
     bc_invokeinterface, bc_invokedynamic, bc_multianewarray]"

text \<open>The check returns, in a well-formed frame, and changes the height as the table of codes says.\<close>

definition step_ok :: "int \<Rightarrow> int \<Rightarrow> int \<Rightarrow> Code \<Rightarrow> step_result \<Rightarrow> bool" where
  "step_ok ml ms n opcode r \<longleftrightarrow>
     returns (\<lambda>(f, _, _). \<exists>n'. fr ml ms n' f \<and> (opcode \<notin> set varying_codes \<longrightarrow> bc_depth opcode = Inr (n' - n))) r"

lemma fall_ok: "safe (fr ml ms n') r \<Longrightarrow> bc_depth opcode = Inr (n' - n) \<Longrightarrow> step_ok ml ms n opcode (fall r)"
  by (cases r) (auto simp: step_ok_def fall_def)

lemma leave_ok: "safe (fr ml ms n') r \<Longrightarrow> bc_depth opcode = Inr (n' - n) \<Longrightarrow> step_ok ml ms n opcode (leave r)"
  by (cases r) (auto simp: step_ok_def leave_def)

lemma if_step: "(b \<Longrightarrow> step_ok ml ms n opcode x) \<Longrightarrow> (\<not> b \<Longrightarrow> step_ok ml ms n opcode y) \<Longrightarrow> step_ok ml ms n opcode (if b then x else y)"
  by simp

lemma seq_fr: "safe (fr ml ms k) a \<Longrightarrow> (\<And>f. fr ml ms k f \<Longrightarrow> safe (fr ml ms k') (b f)) \<Longrightarrow> safe (fr ml ms k') (rbind a b)"
  by (rule safe_bind)

lemma skip_fr: "safe (\<lambda>_. True) a \<Longrightarrow> (\<And>x. safe (fr ml ms k') (b x)) \<Longrightarrow> safe (fr ml ms k') (rbind a b)"
  by (rule safe_bind)

text \<open>What the checks rely on: the environment, the names of classes, the constant pool.\<close>

definition class_ok :: "ClassVerifier \<Rightarrow> bool" where
  "class_ok v \<longleftrightarrow> env_defined (cv_context v) \<and> (\<forall>k. sound_name (cv_name_of v k)) \<and> cv_supers v (cv_klass v) \<noteq> []"

lemma class_env: "class_ok v \<Longrightarrow> env_defined (cv_context v)" by (simp add: class_ok_def)

lemma class_name_sound: "class_ok v \<Longrightarrow> sound_type (reference_type (cv_name_of v k))"
  by (simp add: class_ok_def reference_type_def)

lemma asked_checks [simp]: "asked_type reference_check" "asked_type category1_check" "asked_type category2_check"
  by (simp_all add: asked_type_def)

lemma pop_as_fr: "class_ok v \<Longrightarrow> asked_type t \<Longrightarrow> fr ml ms n f \<Longrightarrow> safe (fr ml ms (n - 1)) (pop_as v t f)"
  unfolding pop_as_def by (rule safe_bind [OF pop_type_fr [OF class_env]]) (auto simp: popped_def)

lemma pop_long_fr: "class_ok v \<Longrightarrow> fr ml ms n f \<Longrightarrow> safe (fr ml ms (n - 2)) (pop_long v f)"
  unfolding pop_long_def by (rule pop_2_fr [OF class_env]) simp_all

lemma pop_double_fr: "class_ok v \<Longrightarrow> fr ml ms n f \<Longrightarrow> safe (fr ml ms (n - 2)) (pop_double v f)"
  unfolding pop_double_def by (rule pop_2_fr [OF class_env]) simp_all

lemma push_long_fr: "fr ml ms n f \<Longrightarrow> safe (fr ml ms (n + 2)) (push_long f)"
  unfolding push_long_def by (rule push_2_fr) simp_all

lemma push_double_fr: "fr ml ms n f \<Longrightarrow> safe (fr ml ms (n + 2)) (push_double f)"
  unfolding push_double_def by (rule push_2_fr) simp_all

lemmas effect_rules = seq_fr pop_as_fr pop_long_fr pop_double_fr push_long_fr push_double_fr push_fr

lemmas effect_intros = effect_rules sound_constants sound_asked

lemma convert_ok:
  assumes v: "class_ok v" and f: "fr ml ms n f" and o: "step_ok ml ms n opcode otherwise"
  shows "step_ok ml ms n opcode (convert_instr v opcode f otherwise)"
  unfolding convert_instr_def Let_def
  by (intro if_step o) (rule fall_ok, (rule effect_intros v f | assumption)+, force simp: bc_depths)+

lemma arith_ok:
  assumes v: "class_ok v" and f: "fr ml ms n f" and o: "step_ok ml ms n opcode otherwise"
    and iinc: "opcode = bc_iinc \<Longrightarrow> safe (fr ml ms n) (rbind (get_index m bcs) (\<lambda>index. verify_iinc v index f))"
  shows "step_ok ml ms n opcode (arith_instr v m opcode bcs f otherwise)"
  unfolding arith_instr_def Let_def
  by (intro if_step o)
    ((rule fall_ok, (rule effect_intros v f | assumption)+, force simp: bc_depths) | (rule fall_ok [OF iinc]; simp add: bc_depths))+

section \<open>Operands\<close>

lemma narrow_instruction:
  assumes "instruction_at m c s" "wide_length_for c = Inr 0" "length_for c = Inr l" "0 < l"
  shows "0 \<le> bcs_bci s \<and> bcs_bci s + l \<le> code_size m \<and> bcs_is_wide s = Some False"
  using assms by (auto simp: instruction_at_def)

lemma index_u1_safe: "instruction_at m c s \<Longrightarrow> wide_length_for c = Inr 0 \<Longrightarrow> length_for c = Inr l \<Longrightarrow> 2 \<le> l \<Longrightarrow> safe (\<lambda>i. 0 \<le> i) (get_index_u1 m s)"
  using narrow_instruction [of m c s l] by (simp add: get_index_u1_def byte_get_in)

lemma index_u2_safe: "instruction_at m c s \<Longrightarrow> wide_length_for c = Inr 0 \<Longrightarrow> length_for c = Inr l \<Longrightarrow> 3 \<le> l \<Longrightarrow> safe (\<lambda>i. 0 \<le> i) (get_index_u2 m s)"
  using narrow_instruction [of m c s l] u2_in [of "bcs_bci s + 1" m] by (auto simp: get_index_u2_def)

lemma index_safe:
  assumes "instruction_at m c s" "length_for c = Inr l" "2 \<le> l" "wide_length_for c = Inr w" "w = 0 \<or> 4 \<le> w"
  shows "safe (\<lambda>i. 0 \<le> i) (get_index m s)"
  using assms u2_in [of "bcs_bci s + 2" m]
  by (auto simp: get_index_def is_wide_def get_index_u1_def instruction_at_def byte_get_in)

lemma dest_safe: "instruction_at m c s \<Longrightarrow> wide_length_for c = Inr 0 \<Longrightarrow> length_for c = Inr l \<Longrightarrow> 3 \<le> l \<Longrightarrow> safe (\<lambda>_. True) (dest m s)"
  using narrow_instruction [of m c s l] u2_in [of "bcs_bci s + 1" m] by (auto simp: dest_def)

lemma dest_w_safe: "instruction_at m c s \<Longrightarrow> wide_length_for c = Inr 0 \<Longrightarrow> length_for c = Inr l \<Longrightarrow> 5 \<le> l \<Longrightarrow> safe (\<lambda>_. True) (dest_w m s)"
  using narrow_instruction [of m c s l] u4_in [of "bcs_bci s + 1" m] by (auto simp: dest_w_def)

section \<open>Loads and stores\<close>

lemma reference_single: "sound_type t \<Longrightarrow> is_assignable_from context reference_check t False = Inr True \<Longrightarrow> single t"
  by (auto simp: is_assignable_from.simps single_def half2_def is_half2_def sound_data value_types_def type_defs vt_consts vt_equals_def is_bogus_def split: if_splits)

lemma integer_single: "sound_type t \<Longrightarrow> is_assignable_from context integer_type t False = Inr True \<Longrightarrow> t = integer_type"
  using assignable_prim [of UNIV Integer t "context" False] sound_wf [of t] by (auto simp: type_defs vt_consts)

lemma single_constants [simp]: "single integer_type" "single float_type" "half2 long_type = Some long2_type" "half2 double_type = Some double2_type"
  by (simp_all add: half2_def single_def is_half2_def type_defs vt_consts)

lemma get_local_bind:
  assumes "class_ok v" "asked_type t" "fr ml ms n f" "0 \<le> i"
    and "\<And>u f. sound_type u \<Longrightarrow> fr ml ms n f \<Longrightarrow> is_assignable_from (cv_context v) t u False = Inr True \<Longrightarrow> safe P (k (u, f))"
  shows "safe P (rbind (get_local (cv_context v) i t f) k)"
  using assms by (intro safe_bind [OF get_local_fr [OF class_env [OF assms(1)]]]) auto

lemma pop_type_bind:
  assumes "class_ok v" "asked_type t" "fr ml ms n f"
    and "\<And>u f. sound_type u \<Longrightarrow> fr ml ms (n - 1) f \<Longrightarrow> n - 1 < ms \<Longrightarrow> is_assignable_from (cv_context v) t u False = Inr True \<Longrightarrow> safe P (k (u, f))"
  shows "safe P (rbind (pop_stack_type (cv_context v) t f) k)"
  using assms by (intro safe_bind [OF pop_type_fr [OF class_env [OF assms(1)]]]) (auto simp: popped_def)

lemma pop_bind:
  assumes "fr ml ms n f" "\<And>u f. sound_type u \<Longrightarrow> fr ml ms (n - 1) f \<Longrightarrow> n - 1 < ms \<Longrightarrow> safe P (k (u, f))"
  shows "safe P (rbind (pop_stack f) k)"
  using assms by (intro safe_bind [OF pop_fr]) (auto simp: popped_def)

lemma loads_fr:
  assumes v: "class_ok v" and f: "fr ml ms n f" and i: "0 \<le> i"
  shows "safe (fr ml ms (n + 1)) (verify_iload v i f)" "safe (fr ml ms (n + 2)) (verify_lload v i f)"
    "safe (fr ml ms (n + 1)) (verify_fload v i f)" "safe (fr ml ms (n + 2)) (verify_dload v i f)"
    "safe (fr ml ms (n + 1)) (verify_aload v i f)"
  unfolding verify_iload_def verify_lload_def verify_fload_def verify_dload_def verify_aload_def
  by (rule get_local_bind [OF v _ f i]; simp add: push_fr)
    (rule skip_fr [OF get_local_2_fr [OF class_env [OF v]]]; simp add: push_2_fr [OF f] fr_ok [OF f] i
      | rule get_local_bind [OF v _ f i]; simp add: push_fr)+

lemma stores_fr:
  assumes v: "class_ok v" and f: "fr ml ms n f" and i: "0 \<le> i"
  shows "safe (fr ml ms (n - 1)) (verify_istore v i f)" "safe (fr ml ms (n - 2)) (verify_lstore v i f)"
    "safe (fr ml ms (n - 1)) (verify_fstore v i f)" "safe (fr ml ms (n - 2)) (verify_dstore v i f)"
    "safe (fr ml ms (n - 1)) (verify_astore v i f)"
  unfolding verify_istore_def verify_lstore_def verify_fstore_def verify_dstore_def verify_astore_def
  by (rule pop_type_bind [OF v _ f]; simp add: set_local_fr i reference_single
      | rule seq_fr [OF pop_2_fr [OF class_env [OF v] _ _ f]]; simp add: set_local_2_fr i)+

lemma iinc_fr: "class_ok v \<Longrightarrow> fr ml ms n f \<Longrightarrow> 0 \<le> i \<Longrightarrow> safe (fr ml ms n) (verify_iinc v i f)"
  unfolding verify_iinc_def by (rule get_local_bind) (auto intro!: set_local_fr dest!: integer_single)

lemma local_instr_ok:
  assumes verify: "\<And>i. 0 \<le> i \<Longrightarrow> safe (fr ml ms n') (verify i f)" and o: "step_ok ml ms n opcode otherwise"
    and ins: "instruction_at m opcode bcs"
    and code: "length_for code = Inr 2" "wide_length_for code = Inr 4"
    and depths: "bc_depth code = Inr (n' - n)" "bc_depth code_0 = Inr (n' - n)" "bc_depth (code_0 + 1) = Inr (n' - n)"
      "bc_depth (code_0 + 2) = Inr (n' - n)" "bc_depth (code_0 + 3) = Inr (n' - n)"
  shows "step_ok ml ms n opcode (local_instr verify code code_0 m opcode bcs f otherwise)"
proof -
  have "safe (fr ml ms n') (rbind (get_index m bcs) (\<lambda>i. verify i f))" if "opcode = code"
    using ins code that by (intro safe_bind [OF index_safe [where c = opcode]] verify) auto
  moreover have "bc_depth opcode = Inr (n' - n)" "0 \<le> opcode - code_0" if "opcode \<in> set [code_0, code_0 + 1, code_0 + 2, code_0 + 3]"
    using that depths by auto
  ultimately show ?thesis unfolding local_instr_def
    by (intro if_step o) (auto intro!: fall_ok verify simp: depths)
qed
lemma short_codes:
  "bc_iload_0 + 1 = bc_iload_1" "bc_iload_0 + 2 = bc_iload_2" "bc_iload_0 + 3 = bc_iload_3"
  "bc_lload_0 + 1 = bc_lload_1" "bc_lload_0 + 2 = bc_lload_2" "bc_lload_0 + 3 = bc_lload_3"
  "bc_fload_0 + 1 = bc_fload_1" "bc_fload_0 + 2 = bc_fload_2" "bc_fload_0 + 3 = bc_fload_3"
  "bc_dload_0 + 1 = bc_dload_1" "bc_dload_0 + 2 = bc_dload_2" "bc_dload_0 + 3 = bc_dload_3"
  "bc_aload_0 + 1 = bc_aload_1" "bc_aload_0 + 2 = bc_aload_2" "bc_aload_0 + 3 = bc_aload_3"
  "bc_istore_0 + 1 = bc_istore_1" "bc_istore_0 + 2 = bc_istore_2" "bc_istore_0 + 3 = bc_istore_3"
  "bc_lstore_0 + 1 = bc_lstore_1" "bc_lstore_0 + 2 = bc_lstore_2" "bc_lstore_0 + 3 = bc_lstore_3"
  "bc_fstore_0 + 1 = bc_fstore_1" "bc_fstore_0 + 2 = bc_fstore_2" "bc_fstore_0 + 3 = bc_fstore_3"
  "bc_dstore_0 + 1 = bc_dstore_1" "bc_dstore_0 + 2 = bc_dstore_2" "bc_dstore_0 + 3 = bc_dstore_3"
  "bc_astore_0 + 1 = bc_astore_1" "bc_astore_0 + 2 = bc_astore_2" "bc_astore_0 + 3 = bc_astore_3"
  by (simp_all add: bc_defs)

lemma load_ok:
  assumes "class_ok v" "fr ml ms n f" "instruction_at m opcode bcs" "step_ok ml ms n opcode otherwise"
  shows "step_ok ml ms n opcode (load_instr v m opcode bcs f otherwise)"
  unfolding load_instr_def
  by (intro local_instr_ok [where verify = "verify_iload v" and n' = "n + 1"]
      local_instr_ok [where verify = "verify_lload v" and n' = "n + 2"]
      local_instr_ok [where verify = "verify_fload v" and n' = "n + 1"]
      local_instr_ok [where verify = "verify_dload v" and n' = "n + 2"]
      local_instr_ok [where verify = "verify_aload v" and n' = "n + 1"]
      loads_fr [OF assms(1,2)] assms(3,4); simp add: bc_depths short_codes)

lemma store_ok:
  assumes "class_ok v" "fr ml ms n f" "instruction_at m opcode bcs" "step_ok ml ms n opcode otherwise"
  shows "step_ok ml ms n opcode (store_instr v m opcode bcs f otherwise)"
  unfolding store_instr_def
  by (intro local_instr_ok [where verify = "verify_istore v" and n' = "n - 1"]
      local_instr_ok [where verify = "verify_lstore v" and n' = "n - 2"]
      local_instr_ok [where verify = "verify_fstore v" and n' = "n - 1"]
      local_instr_ok [where verify = "verify_dstore v" and n' = "n - 2"]
      local_instr_ok [where verify = "verify_astore v" and n' = "n - 1"]
      stores_fr [OF assms(1,2)] assms(3,4); simp add: bc_depths short_codes)

section \<open>Arrays\<close>

lemma pop_array_fr:
  assumes v: "class_ok v" and f: "fr ml ms n f"
  shows "safe (\<lambda>(t, f). sound_type t \<and> fr ml ms (n - 2) f \<and> ok t) (pop_array v bci ok name f)"
  unfolding pop_array_def
  by (rule safe_bind [OF pop_as_fr [OF v _ f]], simp, rule pop_type_bind [OF v]) (auto intro: top_error_safe simp: algebra_simps)

lemma pop_array_bind:
  assumes "class_ok v" "fr ml ms n f" "\<And>t f. sound_type t \<Longrightarrow> fr ml ms (n - 2) f \<Longrightarrow> ok t \<Longrightarrow> safe (fr ml ms k) (g (t, f))"
  shows "safe (fr ml ms k) (rbind (pop_array v bci ok name f) g)"
  using assms(3) by (intro safe_bind [OF pop_array_fr [OF assms(1,2)]]) auto

lemma component_sound: "is_reference_array t \<Longrightarrow> sound_type t \<Longrightarrow> \<not> is_null t \<Longrightarrow> safe sound_type (get_component t)"
  using get_component_sound [of t] by (auto simp: is_reference_array_def is_object_array_def is_array_array_def is_x_array_def)

lemma array_load_ok:
  assumes v: "class_ok v" and f: "fr ml ms n f" and o: "step_ok ml ms n opcode otherwise"
  shows "step_ok ml ms n opcode (array_load_instr v opcode bci f otherwise)"
proof -
  have push: "safe (fr ml ms (n - 1)) (push_stack t f)" if "fr ml ms (n - 2) f" "sound_type t" for t f
    using push_fr [OF that] by simp
  have comp: "safe (fr ml ms (n - 1)) (if is_null t then push_stack null_type f else rbind (get_component t) (\<lambda>c. push_stack c f))"
    if "sound_type t" "fr ml ms (n - 2) f" "is_reference_array t" for t f
    using that component_sound [of t] by (auto intro!: push intro: safe_bind)
  show ?thesis unfolding array_load_instr_def Let_def
    by (intro if_step o)
      (rule fall_ok, rule pop_array_bind [OF v f],
        (simp only: prod.case, (rule effect_intros comp | assumption)+), force simp: bc_depths)+
qed

lemma array_store_ok:
  assumes v: "class_ok v" and f: "fr ml ms n f" and o: "step_ok ml ms n opcode otherwise"
  shows "step_ok ml ms n opcode (array_store_instr v opcode bci f otherwise)"
proof -
  have obj: "asked_type object_type" by (simp add: object_type_def asked_type_def reference_type_def java_lang_Object_def symbol_of_def sound_name.simps)
  have rest: "safe (fr ml ms (k - 2)) (rbind (pop_array v bci ok name g) (\<lambda>(_, f). Inr f))" if "fr ml ms k g" for k g ok name
    using that by (intro pop_array_bind [OF v]) auto
  show ?thesis unfolding array_store_instr_def Let_def
    by (intro if_step o)
      (rule fall_ok, rule seq_fr, (rule effect_intros v f obj | assumption)+, rule rest, assumption, force simp: bc_depths)+
qed

section \<open>The stack\<close>

lemma push_types_fr: "fr ml ms n f \<Longrightarrow> list_all sound_type ts \<Longrightarrow> safe (fr ml ms (n + int (length ts))) (push_types ts f)"
proof (induction ts arbitrary: n f)
  case (Cons t ts)
  have rest: "safe (fr ml ms (n + 1 + int (length ts))) (push_types ts g)" if "fr ml ms (n + 1) g" for g
    using Cons.IH [OF that] Cons.prems(2) by simp
  have eq: "n + int (length (t # ts)) = n + 1 + int (length ts)" by simp
  show ?case unfolding eq push_types.simps
    by (rule safe_bind [OF push_fr [OF Cons.prems(1)]]) (use Cons.prems(2) in simp, rule rest)
qed simp

lemma pop_types_fr: "class_ok v \<Longrightarrow> fr ml ms n f \<Longrightarrow> list_all sound_type ts \<Longrightarrow> safe (fr ml ms (n - int (length ts))) (pop_types v ts f)"
proof (induction ts arbitrary: n f)
  case (Cons t ts)
  have "safe (fr ml ms (n - 1 - int (length ts))) (pop_types v ts g)" if "fr ml ms (n - 1) g" for g
    using Cons.IH [OF Cons.prems(1) that] Cons.prems(3) by simp
  then show ?case using Cons.prems by simp (rule pop_type_bind [OF Cons.prems(1) _ Cons.prems(2)]; simp add: algebra_simps)
qed simp

lemma pop_two_bind:
  assumes v: "class_ok v" and f: "fr ml ms n f"
    and k: "\<And>t u f. sound_type t \<Longrightarrow> sound_type u \<Longrightarrow> fr ml ms (n - 2) f \<Longrightarrow> safe P (k (t, u, f))"
  shows "safe P (rbind (pop_two v bci name f) k)"
proof -
  have second: "safe (\<lambda>(u, f). sound_type u \<and> fr ml ms (n - 2) f) (pop_second v bci name t f)" if "fr ml ms (n - 1) f" "n - 1 < ms" for t f
  proof -
    have "safe (\<lambda>(u, f). sound_type u \<and> fr ml ms (n - 2) f) (pop_stack_type (cv_context v) c f)" if "asked_type c" for c
      by (rule safe_mono [OF pop_type_fr [OF class_env [OF v] that \<open>fr ml ms (n - 1) f\<close>]]) (auto simp: popped_def)
    then show ?thesis using that by (auto simp: pop_second_def intro: top_error_safe)
  qed
  have "safe (\<lambda>(t, u, f). sound_type t \<and> sound_type u \<and> fr ml ms (n - 2) f) (pop_two v bci name f)"
    unfolding pop_two_def by (rule pop_bind [OF f]) (auto intro!: safe_bind [OF second])
  then show ?thesis by (rule safe_bind) (auto intro: k)
qed

lemma stack_ok:
  assumes v: "class_ok v" and f: "fr ml ms n f" and o: "step_ok ml ms n opcode otherwise"
  shows "step_ok ml ms n opcode (stack_instr v opcode bci f otherwise)"
proof -
  have push: "safe (fr ml ms (k + 2)) (push_types [a, b] g)" "safe (fr ml ms (k + 3)) (push_types [a, b, c] g)"
    "safe (fr ml ms (k + 4)) (push_types [a, b, c, d] g)" "safe (fr ml ms (k + 5)) (push_types [a, b, c, d, e] g)"
    "safe (fr ml ms (k + 6)) (push_types [a, b, c, d, e, h] g)"
    if "fr ml ms k g" "sound_type a" "sound_type b" "sound_type c" "sound_type d" "sound_type e" "sound_type h" for a b c d e h k g
    using push_types_fr [OF that(1), of "[a, b]"] push_types_fr [OF that(1), of "[a, b, c]"] push_types_fr [OF that(1), of "[a, b, c, d]"]
      push_types_fr [OF that(1), of "[a, b, c, d, e]"] push_types_fr [OF that(1), of "[a, b, c, d, e, h]"] that(2-)
    by (simp_all del: push_types.simps)
  have inr: "safe (fr ml ms k) (Inr g)" if "fr ml ms k g" for k g using that by simp
  show ?thesis unfolding stack_instr_def Let_def
    by (intro if_step o)
      (rule fall_ok, ((rule pop_type_bind [OF v asked_checks(2)] pop_two_bind [OF v] f | assumption)+, simp only: prod.case)+,
       (rule inr push; assumption?), force simp: bc_depths)+
qed

section \<open>Constants\<close>

text \<open>What the parser of class files guarantees of the constant pool.\<close>

definition pool_ok :: "ConstantPool \<Rightarrow> bool" where
  "pool_ok cp \<longleftrightarrow> cp_cache cp = None \<and>
     (\<forall>i t. tag_at i cp = Inr t \<and> (tag_is_klass t \<or> tag_is_unresolved_klass t) \<longrightarrow>
        (\<exists>n. klass_name_at i cp = Inr n \<and> sound_name n \<and> 0 \<notin> set n)) \<and>
     (\<forall>i. tag_at i cp = Inr JVM_CONSTANT_String \<longrightarrow> (\<exists>b. is_pseudo_string_at i cp = Inr b))"

lemma pool_klasses: "pool_ok cp \<Longrightarrow> pool_klasses_ok cp"
  by (auto simp: pool_ok_def pool_klasses_ok_def)

lemma cp_index_safe: "safe (\<lambda>_. \<exists>t. tag_at i cp = Inr t) (verify_cp_index bci cp i)"
  by (simp add: verify_cp_index_def tag_at_def arr_get_def cp_length_def)

lemma cp_type_safe:
  assumes "pool_ok cp"
  shows "safe (\<lambda>_. \<exists>t. tag_at i cp = Inr t \<and> types AND tag_bit t \<noteq> 0) (verify_cp_type bci i cp types)"
  using assms unfolding verify_cp_type_def by (auto simp: pool_ok_def intro!: safe_bind [OF cp_index_safe])

lemma cp_class_safe:
  assumes "pool_ok cp"
  shows "safe (\<lambda>_. \<exists>n. klass_name_at i cp = Inr n \<and> sound_name n \<and> 0 \<notin> set n) (verify_cp_class_type bci i cp)"
  unfolding verify_cp_class_type_def
proof (rule safe_bind [OF cp_index_safe])
  fix x :: unit assume "\<exists>t. tag_at i cp = Inr t"
  then obtain t where t: "tag_at i cp = Inr t" by blast
  then show "safe (\<lambda>_. \<exists>n. klass_name_at i cp = Inr n \<and> sound_name n \<and> 0 \<notin> set n)
     (rbind (tag_at i cp) (\<lambda>tag. if \<not> tag_is_klass tag \<and> \<not> tag_is_unresolved_klass tag
        then verify_error (bad_cp_index bci) ''Illegal type at constant pool entry %d in class %s'' else Inr ()))"
    using assms by (auto simp: pool_ok_def)
qed

lemma cp_class_bind:
  assumes "pool_ok cp" "\<And>n. klass_name_at i cp = Inr n \<Longrightarrow> sound_name n \<Longrightarrow> 0 \<notin> set n \<Longrightarrow> safe P (k ())"
  shows "safe P (rbind (verify_cp_class_type bci i cp) k)"
  using assms(2) by (intro safe_bind [OF cp_class_safe [OF assms(1)]]) auto

lemma sound_names [simp]:
  "sound_name java_lang_Object" "sound_name java_lang_String" "sound_name java_lang_Class" "sound_name java_lang_Throwable"
  "sound_name java_lang_invoke_MethodHandle" "sound_name java_lang_invoke_MethodType"
  by (simp_all add: sound_name.simps symbol_of_def java_lang_Object_def java_lang_String_def java_lang_Class_def java_lang_Throwable_def
      java_lang_invoke_MethodHandle_def java_lang_invoke_MethodType_def)

lemma sound_reference [simp]: "sound_type (reference_type s) \<longleftrightarrow> sound_name s"
  by (simp add: reference_type_def)

lemma sound_object [simp]: "sound_type object_type"
  by (simp add: object_type_def)

lemma tag_bits: "ldc_types AND tag_bit 5 = 0" "ldc_types AND tag_bit 6 = 0"
  "(tag_bit 6 OR tag_bit 5) AND tag_bit 3 = 0" "(tag_bit 6 OR tag_bit 5) AND tag_bit 4 = 0" "(tag_bit 6 OR tag_bit 5) AND tag_bit 7 = 0"
  "(tag_bit 6 OR tag_bit 5) AND tag_bit 8 = 0" "(tag_bit 6 OR tag_bit 5) AND tag_bit 15 = 0" "(tag_bit 6 OR tag_bit 5) AND tag_bit 16 = 0"
  "(tag_bit 6 OR tag_bit 5) AND tag_bit 100 = 0" "(tag_bit 6 OR tag_bit 5) AND tag_bit 103 = 0"
  by (simp_all add: tag_bit_def ldc_types_def tag_values)

lemma ldc_fr:
  assumes cp: "pool_ok cp" and f: "fr ml ms n f"
  shows "safe (fr ml ms (n + (if opcode = bc_ldc \<or> opcode = bc_ldc_w then 1 else 2))) (verify_ldc opcode i cp bci f)"
  unfolding verify_ldc_def
proof (rule safe_bind [OF cp_index_safe])
  fix u :: unit assume "\<exists>t. tag_at i cp = Inr t"
  then obtain t where t: "tag_at i cp = Inr t" by blast
  let ?short = "opcode = bc_ldc \<or> opcode = bc_ldc_w"
  have chk: "safe (\<lambda>_. if ?short then t \<noteq> 5 \<and> t \<noteq> 6 else t \<notin> {3, 4, 7, 8, 15, 16, 100, 103})
     (if ?short then if \<not> tag_is_unresolved_klass t then verify_cp_type bci i cp ldc_types else Inr ()
      else verify_cp_type bci i cp (tag_bit JVM_CONSTANT_Double OR tag_bit JVM_CONSTANT_Long))"
    using cp_type_safe [OF cp, of i ldc_types bci] cp_type_safe [OF cp, of i "tag_bit 6 OR tag_bit 5" bci] t tag_bits
    by (auto simp: tag_values tag_defs elim!: safe_mono)
  have pseudo: "safe (\<lambda>_. True) (if tag_is_string t then is_pseudo_string_at i cp else Inr False)"
    using cp t by (auto simp: pool_ok_def tag_defs tag_values)
  show "safe (fr ml ms (n + (if ?short then 1 else 2))) (rbind (tag_at i cp) (\<lambda>tag.
     rbind (if ?short then if \<not> tag_is_unresolved_klass tag then verify_cp_type bci i cp ldc_types else Inr ()
            else verify_cp_type bci i cp (tag_bit JVM_CONSTANT_Double OR tag_bit JVM_CONSTANT_Long)) (\<lambda>_.
     rbind (if tag_is_string tag then is_pseudo_string_at i cp else Inr False) (\<lambda>pseudo.
     if tag_is_string tag \<and> pseudo then push_stack object_type f
     else if tag_is_string tag then push_stack (reference_type java_lang_String) f
     else if tag_is_klass tag \<or> tag_is_unresolved_klass tag then push_stack (reference_type java_lang_Class) f
     else if tag_is_int tag then push_stack integer_type f
     else if tag_is_float tag then push_stack float_type f
     else if tag_is_double tag then push_stack_2 double_type double2_type f
     else if tag_is_long tag then push_stack_2 long_type long2_type f
     else if tag_is_method_handle tag then push_stack (reference_type java_lang_invoke_MethodHandle) f
     else if tag_is_method_type tag then push_stack (reference_type java_lang_invoke_MethodType) f
     else verify_error (bad_cp_index bci) ''Invalid index in ldc''))))"
    unfolding t rbind_simps
    by (rule safe_bind [OF chk], rule safe_bind [OF pseudo])
      (auto simp: tag_defs tag_values push_fr [OF f] push_2_fr [OF f] split: if_splits)
qed

lemma const_ok:
  assumes cp: "pool_ok (m_constants mt)" and f: "fr ml ms n f" and o: "step_ok ml ms n opcode otherwise"
    and ins: "instruction_at (m_code mt) opcode bcs"
  shows "step_ok ml ms n opcode (const_instr mt opcode bcs bci f otherwise)"
proof -
  have d: "bc_ldc2_w \<noteq> bc_ldc" "bc_ldc2_w \<noteq> bc_ldc_w" "bc_ldc_w \<noteq> bc_ldc2_w" by (simp_all add: bc_defs)
  have nop: "safe (fr ml ms n) (Inr f)" using f by simp
  have ldc: "safe (fr ml ms (n + 1)) (rbind (get_index_u1 (m_code mt) bcs) (\<lambda>i. verify_ldc opcode i (m_constants mt) bci f))"
    if "opcode = bc_ldc"
    using ins that ldc_fr [OF cp f, of bc_ldc] by (intro safe_bind [OF index_u1_safe [where c = opcode and l = 2]]) auto
  have ldc_w: "safe (fr ml ms (n + (if opcode = bc_ldc_w then 1 else 2))) (rbind (get_index_u2 (m_code mt) bcs) (\<lambda>i. verify_ldc opcode i (m_constants mt) bci f))"
    if "opcode = bc_ldc_w \<or> opcode = bc_ldc2_w"
    using ins that ldc_fr [OF cp f, of bc_ldc_w] ldc_fr [OF cp f, of bc_ldc2_w]
    by (intro safe_bind [OF index_u2_safe [where c = opcode and l = 3]]) (auto simp: d)
  show ?thesis unfolding const_instr_def Let_def
    by (intro if_step o)
      ((rule fall_ok, (rule effect_intros nop ldc ldc_w f | assumption)+, force simp: bc_depths d))+
qed

section \<open>Jumps\<close>

definition table_ok :: "u2 \<Rightarrow> u2 \<Rightarrow> StackMapTable \<Rightarrow> bool" where
  "table_ok ml ms t \<longleftrightarrow> list_all (table_entry_ok ml ms) (smt_frame_array t)"

text \<open>The frames that are matched against the table: the current frame, and the frame of a handler.\<close>

definition matchable :: "u2 \<Rightarrow> StackMapFrame \<Rightarrow> bool" where
  "matchable ml f \<longleftrightarrow> int (length (locals f)) = uint ml \<and> list_all sound_type (locals f) \<and>
     stack_size f \<le> int (length (stack f)) \<and> list_all sound_type (stack f)"

lemma fr_matchable: "fr (uint ml) ms n f \<Longrightarrow> matchable ml f"
  by (auto simp: fr_def frame_ok_def matchable_def)

lemma types_assignable_safe:
  assumes "env_defined context" "0 \<le> i" "len \<le> int (length from)" "len \<le> int (length to)"
    and "list_all sound_type from" "list_all sound_type (take (nat len) to)"
  shows "safe (\<lambda>_. True) (types_assignable context from to len i)"
  using assms
proof (induction "context" "from" to len i rule: types_assignable.induct)
  case (1 ctx "from" to len i)
  show ?case
  proof (cases "i < len")
    case True
    then have g: "arr_get to i = Inr (to ! nat i)" "arr_get from i = Inr (from ! nat i)" using "1.prems" by (auto simp: arr_get_def)
    have "sound_type (from ! nat i)" using "1.prems" True by (auto simp: list_all_length)
    moreover have "sound_type (take (nat len) to ! nat i)" using "1.prems" True unfolding list_all_length by auto
    then have "sound_type (to ! nat i)" using "1.prems"(2) True by simp
    ultimately have a: "safe (\<lambda>_. True) (is_assignable_from ctx (to ! nat i) (from ! nat i) False)"
      using "1.prems"(1) by (intro assign_safe) simp_all
    show ?thesis
    proof (cases "is_assignable_from ctx (to ! nat i) (from ! nat i) False")
      case (Inl e)
      then show ?thesis using a True g by (subst types_assignable.simps) simp
    next
      case (Inr ok)
      have "safe (\<lambda>_. True) (types_assignable ctx from to len (i + 1))" if ok
        using "1.IH" [OF True g Inr] "1.prems" that by simp
      then show ?thesis using Inr True g by (subst types_assignable.simps) simp
    qed
  qed (subst types_assignable.simps; simp)
qed

lemma frame_assignable_safe:
  assumes e: "env_defined context" and f: "matchable ml f" and g: "table_entry_ok ml ms g"
  shows "safe (\<lambda>_. True) (frame_is_assignable_to context f g)"
proof (cases "stack_size f = stack_size g")
  case True
  have g': "locals_size g \<le> int (length (locals f))" "locals_size g \<le> int (length (locals g))"
    "list_all sound_type (take (nat (locals_size g)) (locals g))" "stack_size g = int (length (stack g))" "list_all sound_type (stack g)"
    using f g by (auto simp: matchable_def table_entry_ok_def locals_ok_def)
  have 1: "safe (\<lambda>_. True) (types_assignable context (locals f) (locals g) (locals_size g) 0)"
    using f g' by (intro types_assignable_safe [OF e]) (auto simp: matchable_def)
  have 2: "safe (\<lambda>_. True) (types_assignable context (stack f) (stack g) (stack_size g) 0)"
    using f g' True by (intro types_assignable_safe [OF e]) (auto simp: matchable_def)
  show ?thesis unfolding frame_is_assignable_to_def using True
    by (auto intro!: safe_bind [OF 1] safe_bind [OF 2])
qed (auto simp: frame_is_assignable_to_def)

lemma match_only_safe:
  assumes e: "env_defined context" and f: "matchable ml f" and t: "table_ok ml ms t"
  shows "safe (\<lambda>(_, f'). f' = f) (match_stackmap context f target b False t)"
proof -
  let ?i = "get_index_from_offset target t"
  have "table_entry_ok ml ms (smt_frame_array t ! nat ?i)" "arr_get (smt_frame_array t) ?i = Inr (smt_frame_array t ! nat ?i)"
    if "0 \<le> ?i" "?i < smt_frame_count t"
    using t that by (auto simp: table_ok_def list_all_length smt_frame_count_def arr_get_def)
  then show ?thesis unfolding match_stackmap_def match_stackmap_at_def
    using frame_assignable_safe [OF e f] by (cases b) (auto intro!: safe_bind)
qed

lemma jump_target_safe:
  assumes "env_defined context" "matchable ml f" "table_ok ml ms t"
  shows "safe (\<lambda>_. True) (check_jump_target context f target t)"
  unfolding check_jump_target_def by (rule safe_bind [OF match_only_safe [OF assms]]) (auto split: option.splits)

lemma jump_fr:
  assumes "class_ok v" "table_ok ml ms t" "safe (\<lambda>_. True) d" "fr (uint ml) ms' n f"
  shows "safe (fr (uint ml) ms' n) (jump v t d f)"
  unfolding jump_def using assms(4)
  by (intro skip_fr [OF assms(3)] skip_fr [OF jump_target_safe [OF class_env [OF assms(1)] fr_matchable [OF assms(4)] assms(2)]]) simp

section \<open>Switches\<close>

lemma padding_safe: "0 \<le> p \<Longrightarrow> aligned \<le> code_size m \<Longrightarrow> safe (\<lambda>_. True) (padding_loop m bci p aligned)"
proof (induction m bci p aligned rule: padding_loop.induct)
  case (1 m bci p aligned)
  show ?case
  proof (cases "p < aligned")
    case True
    then have "byte_get m p = Inr (uint (ca_bytes m ! nat p))" using "1.prems" by (intro byte_get_in) auto
    then show ?thesis using "1.IH" [OF True] "1.prems" True by (subst padding_loop.simps) auto
  qed (subst padding_loop.simps; simp)
qed

lemma sorted_keys_safe:
  "0 \<le> i \<Longrightarrow> 0 \<le> aligned \<Longrightarrow> aligned + (2 + 2 * keys) * 4 \<le> code_size m \<Longrightarrow> safe (\<lambda>_. True) (sorted_keys_loop m bci aligned keys i)"
proof (induction m bci aligned keys i rule: sorted_keys_loop.induct)
  case (1 m bci aligned keys i)
  show ?case
  proof (cases "i < keys - 1")
    case True
    obtain a b where w: "get_Java_u4 m (aligned + (2 + 2 * i) * 4) = Inr a" "get_Java_u4 m (aligned + (2 + 2 * i + 2) * 4) = Inr b"
      using u4_in [of "aligned + (2 + 2 * i) * 4" m] u4_in [of "aligned + (2 + 2 * i + 2) * 4" m] True "1.prems" by auto
    show ?thesis using "1.IH" [OF True w] "1.prems" True w by (subst sorted_keys_loop.simps) auto
  qed (subst sorted_keys_loop.simps; simp)
qed

lemma switch_targets_safe:
  assumes "class_ok v" "table_ok ml ms t" "fr (uint ml) ms' n f" "0 \<le> i" "0 \<le> bci" "1 \<le> delta"
    and "aligned_bcp m bci + (3 + (keys - 1) * delta + 1) * 4 \<le> code_size m"
  shows "safe (\<lambda>_. True) (switch_targets_loop v m bci delta f t keys i)"
  using assms
proof (induction v m bci delta f t keys i rule: switch_targets_loop.induct)
  case (1 v m bci delta f t keys i)
  show ?case
  proof (cases "i < keys")
    case True
    have "i * delta \<le> (keys - 1) * delta" using True "1.prems"(6) by (intro mult_right_mono) auto
    moreover have "0 \<le> i * delta" using "1.prems"(4,6) by simp
    ultimately obtain w where w: "get_Java_u4 m (aligned_bcp m bci + (3 + i * delta) * 4) = Inr w"
      using u4_in [of "aligned_bcp m bci + (3 + i * delta) * 4" m] "1.prems"(5,7) aligned_bounds(1) [of bci m] by auto
    note j = jump_target_safe [OF class_env [OF "1.prems"(1)] fr_matchable [OF "1.prems"(3)] "1.prems"(2), of "signed_take_bit 31 (bci + sint w)"]
    have "safe (\<lambda>_. True) (switch_targets_loop v m bci delta f t keys (i + 1))"
      if "check_jump_target (cv_context v) f (signed_take_bit 31 (bci + sint w)) t = Inr u" for u
      using "1.IH" [OF True w that] "1.prems" by auto
    then show ?thesis using w True j
      by (subst switch_targets_loop.simps) (cases "check_jump_target (cv_context v) f (signed_take_bit 31 (bci + sint w)) t"; simp)
  qed (subst switch_targets_loop.simps; simp)
qed

lemma switch_fr:
  assumes v: "class_ok v" and t: "table_ok ml ms t" and f: "fr (uint ml) ms' n f"
    and ins: "instruction_at m c bcs" "bcs_raw_code bcs = c" "c = bc_tableswitch \<or> c = bc_lookupswitch" and size: "code_size m < 65536"
  shows "safe (fr (uint ml) ms' (n - 1)) (verify_switch v m bcs t f)"
proof -
  let ?bci = "bcs_bci bcs" let ?a = "aligned_bcp m ?bci"
  have "wide_length_for c = Inr 0" using ins(3) by auto
  then have bci: "0 \<le> ?bci" "bcs_next_bci bcs \<le> code_size m" and sw: "switch_at m c bcs" using ins(1) by (auto simp: instruction_at_def)
  have a: "?bci < ?a" using aligned_bounds(1) [of ?bci m] .
  have in_code: "?a + 8 < code_size m" using sw ins(3) by (auto simp: switch_at_def Let_def)
  have d: "bc_lookupswitch \<noteq> bc_tableswitch" by (simp add: bc_defs)
  have pad: "safe (\<lambda>_. True) (if b then padding_loop m ?bci (?bci + 1) ?a else Inr ())" for b
    using padding_safe [of "?bci + 1" ?a m ?bci] bci(1) in_code by simp
  have dflt: "safe (\<lambda>_. True) (get_Java_u4 m ?a)" using u4_in [of ?a m] a bci(1) in_code by auto
  have keys: "safe (\<lambda>(keys, delta). 1 \<le> delta \<and> ?a + (3 + (keys - 1) * delta + 1) * 4 \<le> code_size m)
      (if bcs_raw_code bcs = bc_tableswitch
       then rbind (get_Java_u4 m (?a + 4)) (\<lambda>low. rbind (get_Java_u4 m (?a + 2 * 4)) (\<lambda>high.
              if sint low > sint high then verify_error (bad_code ?bci) ''low must be less than or equal to high in tableswitch''
              else let keys = signed_take_bit 31 (sint high - sint low + 1) in
                if keys < 0 then verify_error (bad_code ?bci) ''too many keys in tableswitch'' else Inr (keys, 1)))
       else rbind (get_Java_u4 m (?a + 4)) (\<lambda>k.
              if sint k < 0 then verify_error (bad_code ?bci) ''number of keys in lookupswitch less than 0''
              else rbind (sorted_keys_loop m ?bci ?a (sint k) 0) (\<lambda>_. Inr (sint k, 2))))" (is "safe ?P ?keys")
  proof (cases "c = bc_tableswitch")
    case True
    then obtain lo hi where w: "get_Java_u4 m (?a + 4) = Inr lo" "get_Java_u4 m (?a + 8) = Inr hi"
      and nx: "bcs_next_bci bcs = ?a + (3 + sint hi - sint lo + 1) * 4" using sw by (auto simp: switch_at_def Let_def)
    have "signed_take_bit 31 (sint hi - sint lo + 1) = sint hi - sint lo + 1" if "sint lo \<le> sint hi"
      using that nx bci a size by (intro signed_take_bit_int_eq_self) auto
    then show ?thesis using True ins(2) w nx bci by (auto simp: Let_def)
  next
    case False
    then obtain k where w: "get_Java_u4 m (?a + 4) = Inr k" and nx: "bcs_next_bci bcs = ?a + (2 + 2 * sint k) * 4"
      using sw ins(3) by (auto simp: switch_at_def Let_def)
    have "safe (\<lambda>_. True) (sorted_keys_loop m ?bci ?a (sint k) 0)" using nx bci a by (intro sorted_keys_safe) auto
    then have "safe ?P (rbind (sorted_keys_loop m ?bci ?a (sint k) 0) (\<lambda>_. Inr (sint k, 2)))"
      using nx bci by (elim safe_bind) auto
    then show ?thesis using False ins(2) w by simp
  qed
  note jmp = jump_target_safe [OF class_env [OF v] fr_matchable t]
  show ?thesis unfolding verify_switch_def Let_def
    by (rule skip_fr [OF pad], rule skip_fr [OF dflt], rule pop_type_bind [OF v _ f], simp, simp only: prod.case,
        rule safe_bind [OF keys [unfolded Let_def]], simp only: prod.case split_beta,
        rule skip_fr [OF jmp], assumption, rule skip_fr [OF switch_targets_safe [OF v t]]) (use bci in auto)
qed

lemma branch_ok:
  assumes v: "class_ok v" and t: "table_ok ml ms t" and f: "fr (uint ml) ms' n f" and o: "step_ok (uint ml) ms' n opcode otherwise"
    and ins: "instruction_at m opcode bcs" "bcs_raw_code bcs = opcode" and size: "code_size m < 65536"
  shows "step_ok (uint ml) ms' n opcode (branch_instr v m opcode bcs t f otherwise)"
proof -
  have d: "safe (\<lambda>_. True) (dest m bcs)" if "opcode \<in> set (bc_goto # conditional_branch_codes)"
    using that by (intro dest_safe [OF ins(1), where l = 3]) (auto simp: conditional_branch_codes_def)
  have dw: "safe (\<lambda>_. True) (dest_w m bcs)" if "opcode = bc_goto_w"
    using that by (intro dest_w_safe [OF ins(1), where l = 5]) auto
  have jmp: "safe (fr (uint ml) ms' k) (jump v t (dest m bcs) g)" if "opcode \<in> set (bc_goto # conditional_branch_codes)" "fr (uint ml) ms' k g" for k g
    using that by (intro jump_fr [OF v t] d)
  have jmp_w: "safe (fr (uint ml) ms' n) (jump v t (dest_w m bcs) f)" if "opcode = bc_goto_w"
    using that by (intro jump_fr [OF v t] dw f)
  have sw: "safe (fr (uint ml) ms' (n - 1)) (verify_switch v m bcs t f)" if "opcode = bc_tableswitch \<or> opcode = bc_lookupswitch"
    using that by (rule switch_fr [OF v t f ins _ size])
  show ?thesis unfolding branch_instr_def Let_def
    by (intro if_step o)
      ((rule fall_ok leave_ok, (rule effect_intros asked_checks v f jmp | assumption)+,
        force simp: conditional_branch_codes_def, (rule effect_intros v f | assumption)+, force simp: bc_depths)
       | (rule leave_ok, rule jmp, force, rule f, force simp: bc_depths)
       | (rule leave_ok, erule jmp_w sw, force simp: bc_depths))+
qed

section \<open>Returns\<close>

lemma return_value_safe:
  assumes "class_ok v" "sound_type rt" "sound_type ty" "fr ml ms n f" "n < ms"
  shows "safe (\<lambda>_. True) (verify_return_value v rt ty bci f)"
  using assms unfolding verify_return_value_def
  by (auto intro: top_error_safe intro!: safe_bind [OF assign_safe [OF class_env]])

lemma return_ok:
  assumes v: "class_ok v" and rt: "sound_type return_type" and f: "fr ml ms n f" and o: "step_ok ml ms n opcode otherwise"
  shows "step_ok ml ms n opcode (return_instr v mt return_type opcode bci f otherwise)"
proof -
  have give: "safe (fr ml ms (k - 1)) (rbind (pop_stack_type (cv_context v) ty g) (\<lambda>(type, f).
      rbind (verify_return_value v return_type type bci f) (\<lambda>_. Inr f)))" if "asked_type ty" "fr ml ms k g" for ty k g
    using that by (intro pop_type_bind [OF v]) (auto intro!: skip_fr [OF return_value_safe [OF v rt]])
  have ret: "safe (fr ml ms n) (if return_type \<noteq> bogus_type then verify_error (bad_code bci) ''Method expects a return value''
       else if m_name mt = object_initializer_name \<and> flag_this_uninit f
       then verify_error (bad_code bci) ''Constructor must call super() or this() before return'' else Inr f)" using f by simp
  show ?thesis unfolding return_instr_def Let_def
    by (intro if_step o)
      (rule leave_ok, (rule effect_intros asked_checks give ret v f | assumption)+, force simp: bc_depths)+
qed

section \<open>Objects and arrays\<close>

lemma fall_varying: "opcode \<in> set varying_codes \<Longrightarrow> safe (\<lambda>f. \<exists>n'. fr ml ms n' f) r \<Longrightarrow> step_ok ml ms n opcode (fall r)"
  by (cases r) (auto simp: step_ok_def fall_def)

lemma symbol_safe: "safe (\<lambda>n. n = s) (create_symbol s)"
  by (simp add: create_symbol_def)

lemma newarray_sound: "safe sound_type (get_newarray_type i bci)"
proof (cases "i < 4 \<or> i > 11")
  case False
  then have "nat i \<in> set [4..<12]" by auto
  then have "nat i = 4 \<or> nat i = 5 \<or> nat i = 6 \<or> nat i = 7 \<or> nat i = 8 \<or> nat i = 9 \<or> nat i = 10 \<or> nat i = 11" by auto
  then obtain s where s: "newarray_signatures ! nat i = Some s" "sound_name (symbol_of s)"
    by (elim disjE) (simp_all add: newarray_signatures_def symbol_of_def sound_name.simps)
  have "arr_get newarray_signatures i = Inr (Some s)" using False s(1) by (simp add: arr_get_def newarray_signatures_def)
  then show ?thesis using False s(2) by (auto simp: get_newarray_type_def intro!: safe_bind [OF symbol_safe])
qed (auto simp: get_newarray_type_def)

lemma takeWhile_nonzero: "0 \<notin> set n \<Longrightarrow> takeWhile (\<lambda>b. b \<noteq> 0) n = n"
  by (auto simp: takeWhile_eq_all_conv)

lemma array_signature_sound:
  assumes "sound_name n" "0 \<notin> set n"
  shows "sound_name (array_signature (reference_type n))"
proof (cases "is_array (reference_type n)")
  case True
  have "array_signature (reference_type n) = 91 # n"
    using True takeWhile_nonzero [OF assms(2)] by (simp add: array_signature_def Let_def reference_type_def)
  moreover obtain r where "n = 91 # r" using True by (cases n) (auto simp: is_array_def byte_at_is_def nth_opt_def reference_type_def)
  ultimately show ?thesis using assms(1) by simp (subst sound_name.simps, simp)
next
  case False
  then have "array_signature (reference_type n) = 91 # 76 # n @ [59]"
    using takeWhile_nonzero [OF assms(2)] by (simp add: array_signature_def Let_def reference_type_def)
  then show ?thesis using assms(1) by simp (subst sound_name.simps, simp)
qed

lemma anewarray_fr:
  assumes v: "class_ok v" and cp: "pool_ok cp" and f: "fr ml ms n f"
  shows "safe (fr ml ms n) (verify_anewarray v bci i cp f)"
  unfolding verify_anewarray_def
proof (rule cp_class_bind [OF cp])
  fix nm assume nm: "klass_name_at i cp = Inr nm" "sound_name nm" "0 \<notin> set nm"
  have push: "safe (fr ml ms n) (rbind (create_symbol (array_signature (reference_type nm))) (\<lambda>s. push_stack (reference_type s) g))"
    if "fr ml ms (n - 1) g" for g
    using push_fr [OF that, of "reference_type (array_signature (reference_type nm))"] array_signature_sound [OF nm(2,3)]
    by (intro safe_bind [OF symbol_safe]) simp
  show "safe (fr ml ms n) (rbind (pop_stack_type (cv_context v) integer_type f) (\<lambda>(_, f).
     rbind (cp_index_to_type i cp) (\<lambda>component_type.
     rbind (create_symbol (array_signature component_type)) (\<lambda>arr_sig. push_stack (reference_type arr_sig) f))))"
    by (rule pop_type_bind [OF v _ f]) (simp_all add: cp_index_to_type_def nm(1) push)
qed

lemma new_fr:
  assumes cp: "pool_ok cp" and f: "fr ml ms n f"
  shows "safe (fr ml ms (n + 1)) (verify_new cp bci i f)"
  unfolding verify_new_def by (rule cp_class_bind [OF cp]) (simp add: cp_index_to_type_def push_fr [OF f])

lemma arraylength_fr:
  assumes v: "class_ok v" and f: "fr ml ms n f"
  shows "safe (fr ml ms n) (verify_arraylength v bci f)"
  unfolding verify_arraylength_def
proof (rule pop_type_bind [OF v _ f])
  fix u g assume g: "fr ml ms (n - 1) g" "n - 1 < ms"
  have push: "safe (fr ml ms n) (push_stack integer_type g)" using push_fr [OF g(1), of integer_type] by simp
  have "later_fault (Verify_Error k b m) e = e" for k b m e by (cases e) simp_all
  then have "safe (fr ml ms n) (case push_stack integer_type g of Inl e \<Rightarrow> Inl (later_fault (Verify_Error k b m) e) | Inr _ \<Rightarrow> Inl (Verify_Error k b m))"
    for k b m using push by (cases "push_stack integer_type g") simp_all
  then show "safe (fr ml ms n) (case (u, g) of (type, f) \<Rightarrow>
     if \<not> (is_null type \<or> is_array type)
     then rbind (stack_top_ctx f) (\<lambda>_.
       let err = Verify_Error (fst (bad_type bci)) (snd (bad_type bci)) ''Bad type on operand stack in arraylength'' in
       case push_stack integer_type f of Inl e \<Rightarrow> Inl (later_fault err e) | Inr _ \<Rightarrow> Inl err)
     else push_stack integer_type f)"
    using push by (auto simp: Let_def intro!: skip_fr [OF top_ctx_safe [OF g]])
qed simp

lemma checkcast_fr:
  assumes v: "class_ok v" and cp: "pool_ok cp" and f: "fr ml ms n f"
  shows "safe (fr ml ms n) (verify_checkcast v cp bci i f)"
  unfolding verify_checkcast_def
proof (rule cp_class_bind [OF cp], rule seq_fr [OF pop_as_fr [OF v _ f]])
  fix nm g assume "klass_name_at i cp = Inr nm" "sound_name nm" "fr ml ms (n - 1) g"
  then show "safe (fr ml ms n) (rbind (cp_index_to_type i cp) (\<lambda>t. push_stack t g))"
    using push_fr [of ml ms "n - 1" g "reference_type nm"] by (simp add: cp_index_to_type_def)
qed simp

lemma instanceof_fr:
  assumes v: "class_ok v" and cp: "pool_ok cp" and f: "fr ml ms n f"
  shows "safe (fr ml ms n) (verify_instanceof v cp bci i f)"
proof -
  have "safe (fr ml ms n) (push_stack integer_type g)" if "fr ml ms (n - 1) g" for g using push_fr [OF that, of integer_type] by simp
  then show ?thesis unfolding verify_instanceof_def
    by (intro cp_class_bind [OF cp] seq_fr [OF pop_as_fr [OF v _ f]]) simp_all
qed

lemma sound_brackets: "sound_name s \<Longrightarrow> s \<noteq> [] \<Longrightarrow> \<exists>b \<in> set s. b \<noteq> 91"
proof (induction s rule: sound_name.induct)
  case (1 s)
  then show ?case by (subst (asm) (3) sound_name.simps) (auto split: list.splits if_splits)
qed

lemma dimensions_sound:
  assumes "sound_name s" "is_array (reference_type s)" shows "\<exists>n. dimensions (reference_type s) = Inr n"
proof -
  have "s \<noteq> []" using assms(2) by (auto simp: is_array_def reference_type_def)
  then obtain b where "b \<in> set s" "b \<noteq> 91" using sound_brackets [OF assms(1)] by blast
  then have "takeWhile (\<lambda>b. b = 91) s \<noteq> s" by (metis (full_types) set_takeWhileD)
  then have "length (takeWhile (\<lambda>b. b = 91) s) < length s" by (metis length_takeWhile_le le_neq_implies_less takeWhile_eq_take take_all_iff order_refl)
  then show ?thesis by (simp add: dimensions_def reference_type_def Let_def)
qed

lemma multianewarray_fr:
  assumes v: "class_ok v" and cp: "pool_ok cp" and f: "fr ml ms n f"
  shows "safe (\<lambda>f. \<exists>n'. fr ml ms n' f) (verify_multianewarray v cp bci i dim f)"
  unfolding verify_multianewarray_def
proof (rule cp_class_bind [OF cp])
  fix nm assume nm: "klass_name_at i cp = Inr nm" "sound_name nm"
  have pop: "safe (fr ml ms (n - int (nat dim))) (pop_types v (replicate (nat dim) integer_type) f)"
    using pop_types_fr [OF v f, of "replicate (nat dim) integer_type"] by (simp add: list_all_length)
  have "safe (\<lambda>f. \<exists>n'. fr ml ms n' f) (rbind (pop_types v (replicate (nat dim) integer_type) f) (push_stack (reference_type nm)))"
    by (rule safe_bind [OF pop], rule safe_mono [OF push_fr]) (use nm(2) in auto)
  then show "safe (\<lambda>f. \<exists>n'. fr ml ms n' f) (rbind (cp_index_to_type i cp) (\<lambda>new_array_type.
     if \<not> is_array new_array_type
     then verify_error (bad_type bci) ''Illegal constant pool index in multianewarray instruction''
     else rbind (if dim < 1 then Inr True else rbind (dimensions new_array_type) (\<lambda>n. Inr (n < dim))) (\<lambda>illegal.
     if illegal then verify_error (bad_code bci) ''Illegal dimension in multianewarray instruction: %d''
     else rbind (pop_types v (replicate (nat dim) integer_type) f) (push_stack new_array_type))))"
    using nm(1) dimensions_sound [OF nm(2)] by (auto simp: cp_index_to_type_def)
qed

lemma object_ok:
  assumes v: "class_ok v" and cp: "pool_ok (m_constants mt)" and f: "fr ml ms n f" and o: "step_ok ml ms n opcode otherwise"
    and ins: "instruction_at (m_code mt) opcode bcs"
  shows "step_ok ml ms n opcode (object_instr v mt opcode bcs bci f otherwise)"
proof -
  let ?m = "m_code mt"
  have u2: "safe (\<lambda>i. 0 \<le> i) (get_index_u2 ?m bcs)"
    if "opcode \<in> set [bc_new, bc_anewarray, bc_checkcast, bc_instanceof, bc_multianewarray]"
  proof -
    have "\<exists>l. length_for opcode = Inr l \<and> 3 \<le> l \<and> wide_length_for opcode = Inr 0" using that by auto
    then show ?thesis using index_u2_safe [OF ins] by blast
  qed
  have indexed: "safe (fr ml ms k) (rbind (get_index_u2 ?m bcs) g)"
    if "opcode \<in> set [bc_new, bc_anewarray, bc_checkcast, bc_instanceof, bc_multianewarray]" "\<And>i. safe (fr ml ms k) (g i)" for g k
    using that by (intro safe_bind [OF u2]) auto
  have newarray: "safe (fr ml ms n) (rbind (get_index ?m bcs) (\<lambda>i. rbind (get_newarray_type i bci) (\<lambda>type.
      rbind (pop_as v integer_type f) (push_stack type))))" if "opcode = bc_newarray"
  proof -
    have "safe (fr ml ms n) (push_stack type g)" if "fr ml ms (n - 1) g" "sound_type type" for type g using push_fr [OF that] by simp
    then show ?thesis using that
      by (intro skip_fr safe_mono [OF index_safe [OF ins, where l = 2 and w = 0]] safe_bind [OF newarray_sound] seq_fr [OF pop_as_fr [OF v _ f]]) simp_all
  qed
  have multi: "step_ok ml ms n opcode (fall (rbind (get_index_u2 ?m bcs) (\<lambda>i.
      rbind (byte_get ?m (bcs_bci bcs + 3)) (\<lambda>dim. verify_multianewarray v (m_constants mt) bci i dim f))))" if "opcode = bc_multianewarray"
  proof (rule fall_varying)
    have "bcs_bci bcs + 4 \<le> code_size ?m" "0 \<le> bcs_bci bcs" using narrow_instruction [OF ins, of 4] that by auto
    then show "safe (\<lambda>f. \<exists>n'. fr ml ms n' f) (rbind (get_index_u2 ?m bcs) (\<lambda>i.
      rbind (byte_get ?m (bcs_bci bcs + 3)) (\<lambda>dim. verify_multianewarray v (m_constants mt) bci i dim f)))"
      using that by (intro safe_bind [OF u2]) (auto simp: byte_get_in multianewarray_fr [OF v cp f])
  qed (simp add: that varying_codes_def)
  have throwable: "asked_type (reference_type java_lang_Throwable)" by simp
  show ?thesis unfolding object_instr_def Let_def
    by (intro if_step o)
      (erule multi
       | (rule fall_ok leave_ok, (rule newarray arraylength_fr [OF v f] pop_as_fr [OF v] asked_checks throwable f | assumption)+, force simp: bc_depths)
       | (rule fall_ok, rule indexed, force, rule new_fr [OF cp f] anewarray_fr [OF v cp f] checkcast_fr [OF v cp f] instanceof_fr [OF v cp f],
          force simp: bc_depths))+
qed

end
