(* ===== verification/Member_Safety.thy ===== *)
theory Member_Safety
  imports Instruction_Safety
begin

text \<open>
  The checks of the instructions that name members of classes are defined and return: field accesses,
  invocations, constructors and the exception handlers around them.  With the other groups they make up
  \<open>verify_instruction\<close>.
\<close>

unbundle bit_operations_syntax

section \<open>Members of the constant pool\<close>

definition field_sig_ok :: "symbol \<Rightarrow> bool" where
  "field_sig_ok s \<longleftrightarrow> (\<exists>t. s = show_type t \<and> arg_ft t \<and> list_all sound_type (ft_verification_types t))"

definition method_sig_ok :: "symbol \<Rightarrow> bool" where
  "method_sig_ok s \<longleftrightarrow> (\<exists>ps r. s = show_method ps r \<and> list_all arg_ft ps \<and> wf_ft r \<and> no_void_array r \<and>
     list_all sound_type (arg_types ps) \<and> sound_type (ft_return_type r))"

text \<open>The entries that name members, in a pool that is not linked yet.\<close>

definition members_ok :: "ConstantPool \<Rightarrow> bool" where
  "members_ok cp \<longleftrightarrow> (\<forall>i t. tag_at i cp = Inr t \<longrightarrow> (0 \<le> t \<and> t < 32 \<or> t = JVM_CONSTANT_UnresolvedClass) \<and>
     (t \<in> {JVM_CONSTANT_Fieldref, JVM_CONSTANT_Methodref, JVM_CONSTANT_InterfaceMethodref, JVM_CONSTANT_InvokeDynamic} \<longrightarrow>
       (\<exists>n s. name_ref_at i cp = Inr n \<and> n \<noteq> [] \<and> signature_ref_at i cp = Inr s \<and>
          (if t = JVM_CONSTANT_Fieldref then field_sig_ok s else method_sig_ok s))) \<and>
     (t \<in> {JVM_CONSTANT_Fieldref, JVM_CONSTANT_Methodref, JVM_CONSTANT_InterfaceMethodref} \<longrightarrow>
       (\<exists>j c. klass_ref_index_at i cp = Inr j \<and> klass_name_at j cp = Inr c \<and> sound_name c)))"

lemma tag_bit_and: "tag_bit a AND tag_bit t \<noteq> 0 \<longleftrightarrow> a mod 32 = t mod 32"
proof -
  have "bit (tag_bit a AND tag_bit t) n \<longleftrightarrow> n = nat (a mod 32) \<and> n = nat (t mod 32)" for n
    by (auto simp: tag_bit_def bit_simps)
  then have "tag_bit a AND tag_bit t = 0 \<longleftrightarrow> nat (a mod 32) \<noteq> nat (t mod 32)" by (auto simp: bit_eq_iff)
  then show ?thesis by (simp add: nat_eq_iff)
qed

lemma tag_or_and: "(a OR b) AND tag_bit t \<noteq> 0 \<longleftrightarrow> a AND tag_bit t \<noteq> 0 \<or> b AND tag_bit t \<noteq> 0" for a b :: int
  by (simp add: bit.conj_disj_distrib2 or_eq_0_iff)

lemma tag_of_bit:
  assumes "members_ok cp" "tag_at i cp = Inr t" "tag_bit a AND tag_bit t \<noteq> 0" "a \<in> {9, 10, 11, 18}"
  shows "t = a"
proof -
  have "0 \<le> t \<and> t < 32 \<or> t = JVM_CONSTANT_UnresolvedClass" using assms(1,2) unfolding members_ok_def by blast
  moreover have "a mod 32 = t mod 32" using assms(3) by (simp only: tag_bit_and)
  ultimately show ?thesis using assms(4) by (auto simp: tag_values)
qed

lemma field_entry:
  assumes "members_ok cp" "tag_at i cp = Inr t" "tag_bit JVM_CONSTANT_Fieldref AND tag_bit t \<noteq> 0"
  shows "\<exists>n s j c. name_ref_at i cp = Inr n \<and> signature_ref_at i cp = Inr s \<and> field_sig_ok s \<and>
    klass_ref_index_at i cp = Inr j \<and> klass_name_at j cp = Inr c \<and> sound_name c \<and> tag_at i cp = Inr JVM_CONSTANT_Fieldref"
proof -
  have "t = JVM_CONSTANT_Fieldref" using tag_of_bit [OF assms(1,2), of 9] assms(3) by (simp add: tag_values)
  then show ?thesis using assms(1,2) by (auto simp: members_ok_def)
qed

lemma method_entry:
  assumes "members_ok cp" "tag_at i cp = Inr t" "invoke_types v opcode AND tag_bit t \<noteq> 0"
  shows "\<exists>n s. name_ref_at i cp = Inr n \<and> n \<noteq> [] \<and> signature_ref_at i cp = Inr s \<and> method_sig_ok s \<and>
    (opcode \<noteq> bc_invokedynamic \<longrightarrow> (\<exists>j c. klass_ref_index_at i cp = Inr j \<and> klass_name_at j cp = Inr c \<and> sound_name c))"
proof -
  have "t = 10 \<or> t = 11 \<or> t = 18 \<and> opcode = bc_invokedynamic"
    using assms(3) tag_of_bit [OF assms(1,2), of 10] tag_of_bit [OF assms(1,2), of 11] tag_of_bit [OF assms(1,2), of 18]
    unfolding invoke_types_def by (auto simp: tag_values tag_or_and split: if_splits)
  then show ?thesis using assms(1,2) by (auto simp: members_ok_def tag_values)
qed

section \<open>Fields\<close>

text \<open>No field reference of the constant pool leads to a protected field of a superclass in another package.\<close>

definition fields_open :: "ClassVerifier \<Rightarrow> ConstantPool \<Rightarrow> bool" where
  "fields_open v cp \<longleftrightarrow> (\<forall>i j c k n s. tag_at i cp = Inr JVM_CONSTANT_Fieldref \<and> klass_ref_index_at i cp = Inr j \<and>
     klass_name_at j cp = Inr c \<and> name_in_supers v c (cv_supers v (cv_klass v)) \<and> load_class v c = Inr k \<and> name_ref_at i cp = Inr n \<and> signature_ref_at i cp = Inr s \<longrightarrow>
     \<not> is_protected_access v (cv_klass v) k n s False)"

lemma field_stream:
  assumes "s = show_type t" "arg_ft t"
  shows "\<exists>ss. new_stream s False = Inr ss \<and> change_sig_to_verificationType s ss = Inr (ft_verification_types t)"
proof -
  have t: "wf_ft t" "no_void_array t" "ft_type t \<noteq> T_VOID" using assms(2) by (cases t; auto simp: arg_ft_def)+
  let ?ss = "\<lparr>ss_begin = 0, ss_end = 0, ss_type = T_ILLEGAL, ss_at_return_type = False\<rparr>"
  let ?s' = "?ss\<lparr>ss_begin := 0, ss_end := length (show_type t), ss_type := ft_type t\<rparr>"
  have n: "ss_next s ?ss = Inr ?s'" using ss_next_show [OF t(1,2), of ?ss s "[]"] assms(1) by simp
  have "at_entry s ?s' t []" using assms(1) by (simp add: at_entry_def)
  then have "change_sig_to_verificationType s ?s' = Inr (ft_verification_types t)" using t by (intro change_sig_show)
  then show ?thesis using n by (intro exI [of _ ?s']) (simp add: new_stream_def)
qed

lemma check_protected_safe:
  assumes v: "class_ok v" "fields_open v cp" and kl: "klass_ref_index_at i cp = Inr j" "klass_name_at j cp = Inr c"
    and m: "tag_at i cp = Inr JVM_CONSTANT_Fieldref" "name_ref_at i cp = Inr nm" "signature_ref_at i cp = Inr s" and f: "P f"
  shows "safe P (check_protected v cp bci i nm s ty f)"
proof -
  have "load_class v c \<noteq> Inl Undefined_Behaviour" using v(1) by (simp add: load_class_def class_ok_def env_defined_def)
  then show ?thesis using v(2) kl m f
    by (cases "load_class v c") (auto simp: check_protected_def fields_open_def)
qed

definition some_fr :: "int \<Rightarrow> int \<Rightarrow> StackMapFrame \<Rightarrow> bool" where
  "some_fr ml ms f \<longleftrightarrow> (\<exists>n. fr ml ms n f)"

lemma fr_some: "fr ml ms n f \<Longrightarrow> some_fr ml ms f" by (auto simp: some_fr_def)

lemma field_access_fr:
  assumes v: "class_ok v" "fields_open v cp" and f: "fr ml ms n f" and ts: "list_all sound_type ts" and c: "sound_name c"
    and kl: "klass_ref_index_at i cp = Inr j" "klass_name_at j cp = Inr c"
    and m: "tag_at i cp = Inr JVM_CONSTANT_Fieldref" "name_ref_at i cp = Inr nm" "signature_ref_at i cp = Inr s"
  shows "safe (some_fr ml ms) (push_types ts f)" "safe (some_fr ml ms) (pop_types v (rev ts) f)"
    "safe (some_fr ml ms) (rbind (pop_stack_type (cv_context v) (reference_type c) f) (\<lambda>(t, f).
       rbind (push_types ts f) (\<lambda>f. check_protected v cp bci i nm s t f)))"
    "safe (some_fr ml ms) (rbind (pop_types v (rev ts) f) (\<lambda>f. rbind (pop_stack f) (\<lambda>(top, f).
       let t = (if top = uninitialized_this_type \<and> vt_equals (reference_type c) (current_type v) \<and> b then current_type v else top) in
       rbind (is_assignable_from (cv_context v) (reference_type c) t False) (\<lambda>ok.
       if \<not> ok then stack_top_error (bad_type bci) ''Bad type on operand stack in putfield'' f
       else check_protected v cp bci i nm s t f))))"
proof -
  have r: "list_all sound_type (rev ts)" using ts by (simp add: list_all_iff)
  note prot = check_protected_safe [OF v kl m]
  have cur: "sound_type (current_type v)" using class_name_sound [OF v(1)] by (simp add: current_type_def)
  show "safe (some_fr ml ms) (push_types ts f)" using push_types_fr [OF f ts] by (rule safe_mono) (rule fr_some)
  show "safe (some_fr ml ms) (pop_types v (rev ts) f)" using pop_types_fr [OF v(1) f r] by (rule safe_mono) (rule fr_some)
  show "safe (some_fr ml ms) (rbind (pop_stack_type (cv_context v) (reference_type c) f) (\<lambda>(t, f).
       rbind (push_types ts f) (\<lambda>f. check_protected v cp bci i nm s t f)))"
    by (rule pop_type_bind [OF v(1) _ f])
      (simp add: c, simp only: prod.case, rule safe_bind [OF push_types_fr [OF _ ts]], assumption, rule prot, rule fr_some)
  show "safe (some_fr ml ms) (rbind (pop_types v (rev ts) f) (\<lambda>f. rbind (pop_stack f) (\<lambda>(top, f).
       let t = (if top = uninitialized_this_type \<and> vt_equals (reference_type c) (current_type v) \<and> b then current_type v else top) in
       rbind (is_assignable_from (cv_context v) (reference_type c) t False) (\<lambda>ok.
       if \<not> ok then stack_top_error (bad_type bci) ''Bad type on operand stack in putfield'' f
       else check_protected v cp bci i nm s t f))))"
    unfolding Let_def
    by (rule safe_bind [OF pop_types_fr [OF v(1) f r]], rule pop_bind, assumption, simp only: prod.case,
        rule safe_bind [OF assign_safe [OF class_env [OF v(1)]]])
      (auto simp: c cur intro: top_error_safe intro!: prot fr_some)
qed

lemma field_instructions_fr:
  assumes v: "class_ok v" "fields_open v cp" and cp: "pool_ok cp" "members_ok cp" and f: "fr ml ms n f"
    and ins: "instruction_at m opcode bcs" "bcs_raw_code bcs = opcode" and code: "opcode \<in> set [bc_getstatic, bc_putstatic, bc_getfield, bc_putfield]"
  shows "safe (some_fr ml ms) (verify_field_instructions v m bcs cp f)"
proof -
  have "length_for opcode = Inr 3" "wide_length_for opcode = Inr 0" using code by auto
  then have idx: "safe (\<lambda>i. 0 \<le> i) (get_index_u2 m bcs)" using index_u2_safe [OF ins(1)] by simp
  show ?thesis
    unfolding verify_field_instructions_def Let_def
  proof (rule safe_bind [OF idx], rule safe_bind [OF cp_type_safe [OF cp(1)]])
    fix i assume "\<exists>t. tag_at i cp = Inr t \<and> tag_bit JVM_CONSTANT_Fieldref AND tag_bit t \<noteq> 0"
    then obtain nm s j c where e: "name_ref_at i cp = Inr nm" "signature_ref_at i cp = Inr s" "field_sig_ok s"
      "klass_ref_index_at i cp = Inr j" "klass_name_at j cp = Inr c" "sound_name c" "tag_at i cp = Inr JVM_CONSTANT_Fieldref"
      using field_entry [OF cp(2)] by blast
    obtain t where t: "s = show_type t" "arg_ft t" "list_all sound_type (ft_verification_types t)" using e(3) by (auto simp: field_sig_ok_def)
    obtain ss where ss: "new_stream s False = Inr ss" "change_sig_to_verificationType s ss = Inr (ft_verification_types t)"
      using field_stream [OF t(1,2)] by blast
    note acc = field_access_fr [OF v f t(3) e(6,4,5,7,1,2)]
    show "safe (some_fr ml ms) (rbind (name_ref_at i cp) (\<lambda>field_name.
     rbind (signature_ref_at i cp) (\<lambda>field_sig.
     if \<not> is_valid_type_signature field_sig
     then class_format_error ''Invalid signature for field in class %s referenced from constant pool index %d''
     else rbind (cp_ref_index_to_type i cp) (\<lambda>ref_class_type.
     if \<not> is_object ref_class_type
     then verify_error (bad_type (u2_of (bcs_bci bcs))) ''Expecting reference to class in class %s at constant pool index %d''
     else rbind (new_stream field_sig False) (\<lambda>sig_stream.
          rbind (change_sig_to_verificationType field_sig sig_stream) (\<lambda>field_type.
     if bcs_raw_code bcs = bc_getstatic then push_types field_type f
     else if bcs_raw_code bcs = bc_putstatic then pop_types v (rev field_type) f
     else if bcs_raw_code bcs = bc_getfield then
       rbind (pop_stack_type (cv_context v) ref_class_type f) (\<lambda>(stack_object_type, f).
       rbind (push_types field_type f) (\<lambda>f.
         check_protected v cp (u2_of (bcs_bci bcs)) i field_name field_sig stack_object_type f))
     else if bcs_raw_code bcs = bc_putfield then
       rbind (pop_types v (rev field_type) f) (\<lambda>f.
       rbind (pop_stack f) (\<lambda>(top, f).
       rbind (is_assignable_from (cv_context v) ref_class_type
             (if top = uninitialized_this_type \<and> vt_equals ref_class_type (current_type v) \<and>
                 cv_find_local_field v (cv_klass v) field_name field_sig
              then current_type v else top) False) (\<lambda>is_assignable.
       if \<not> is_assignable then stack_top_error (bad_type (u2_of (bcs_bci bcs))) ''Bad type on operand stack in putfield'' f
       else check_protected v cp (u2_of (bcs_bci bcs)) i field_name field_sig
             (if top = uninitialized_this_type \<and> vt_equals ref_class_type (current_type v) \<and>
                 cv_find_local_field v (cv_klass v) field_name field_sig
              then current_type v else top) f)))
     else Inl Should_Not_Reach_Here))))))"
      unfolding e(1,2) rbind_simps cp_ref_index_to_type_def cp_index_to_type_def e(4,5) ss
      using acc(1,2) acc(3) [where bci = "u2_of (bcs_bci bcs)"]
        acc(4) [unfolded Let_def, where bci = "u2_of (bcs_bci bcs)" and b = "cv_find_local_field v (cv_klass v) nm s"]
      by simp
  qed
qed

section \<open>Exception handlers\<close>

definition handlers_ok :: "Method \<Rightarrow> bool" where
  "handlers_ok mt \<longleftrightarrow> list_all (\<lambda>e. ex_catch_type_index e = 0 \<or>
     (\<exists>n. klass_name_at (uint (ex_catch_type_index e)) (m_constants mt) = Inr n \<and> sound_name n)) (m_exception_table mt)"

text \<open>The scan of each handler returns.\<close>

definition scans_return :: "Method \<Rightarrow> bool" where
  "scans_return mt \<longleftrightarrow> list_all (\<lambda>e. returns (\<lambda>_. True) (ends_in_athrow mt (uint (ex_handler_pc e)))) (m_exception_table mt)"

lemma handler_frame_safe:
  assumes "matchable ml f" "sound_type t"
  shows "safe (matchable ml) (push_stack t (frame_in_exception_handler w f))"
  using assms by (simp add: push_stack_def frame_in_exception_handler_def table_frame_def matchable_def arr_set_def u2_of_def)

lemma targets_safe:
  assumes v: "class_ok v" and t: "table_ok ml ms t" and f: "matchable ml f"
    and es: "list_all (\<lambda>e. ex_catch_type_index e = 0 \<or> (\<exists>n. klass_name_at (uint (ex_catch_type_index e)) cp = Inr n \<and> sound_name n)) es"
  shows "safe (\<lambda>_. True) (verify_exception_handler_targets v cp bci b f t es)"
  using es
proof (induction es)
  case (Cons e es)
  let ?w = "if b then flags f OR FLAG_THIS_UNINIT else flags f"
  have push: "safe (matchable ml) (if ex_catch_type_index e \<noteq> 0
      then rbind (cp_index_to_type (uint (ex_catch_type_index e)) cp) (\<lambda>c. push_stack c (frame_in_exception_handler ?w f))
      else push_stack (reference_type java_lang_Throwable) (frame_in_exception_handler ?w f))"
    using Cons.prems handler_frame_safe [OF f] by (auto simp: cp_index_to_type_def)
  have match: "safe (\<lambda>_. True) (rbind (match_stackmap (cv_context v) g (uint (ex_handler_pc e)) True False t) (\<lambda>(mismatch, _).
      case mismatch of Some ctx \<Rightarrow> verify_error ctx ''Stack map does not match the one at exception handler %d'' | None \<Rightarrow> Inr ()))"
    if "matchable ml g" for g
    by (rule safe_bind [OF match_only_safe [OF class_env [OF v] that t]]) (auto split: option.splits)
  show ?case unfolding verify_exception_handler_targets.simps Let_def
    by (rule safe_bind [where P = "\<lambda>_. True"], simp only: safe_bind [OF push match] safe_simps1 split: if_split) (use Cons in simp_all)
qed simp

section \<open>Arguments\<close>

lemma ft_types_length: "wf_ft t \<Longrightarrow> length (ft_verification_types t) \<le> 2 * length (show_type t)"
  by (cases t) auto

lemma show_nonempty: "wf_ft t \<Longrightarrow> 0 < length (show_type t)"
  by (cases t) simp_all

lemma arg_types_length: "list_all arg_ft ps \<Longrightarrow> length (arg_types ps) \<le> 2 * length (show_types ps)"
proof (induction ps)
  case (Cons p ps)
  then show ?case using ft_types_length [of p] by (simp add: arg_ft_def)
qed simp

lemma arg_types_size: "list_all arg_ft ps \<Longrightarrow> int (length (arg_types ps)) = params_size ps"
proof (induction ps)
  case (Cons p ps)
  have "int (length (ft_verification_types p)) = type_size (ft_type p)"
  proof (cases p)
    case (FT_Base b)
    then show ?thesis using Cons.prems by (cases b) (simp_all add: arg_ft_def)
  qed simp_all
  then show ?case using Cons by simp
qed simp

lemma argument_types_ok:
  assumes "list_all arg_ft ps" "wf_ft r" "no_void_array r" "s = show_method ps r"
  shows "\<exists>ss. argument_types s = Some (Inr (ss, arg_types ps)) \<and> at_entry s ss r []"
proof -
  let ?s0 = "\<lparr>ss_begin = 1, ss_end = 1, ss_type = T_ILLEGAL, ss_at_return_type = False\<rparr>"
  have "drop (ss_end ?s0) s = show_types ps @ 41 # show_type r" using assms(4) by (simp add: show_method_def)
  then obtain ss where ss: "new_stream s True = Inr ss" "at_entries s ss ps r"
    using at_entries_next [of ?s0 s ps r] assms(1-3) by (auto simp: new_stream_def)
  have len: "length s = 2 + length (show_types ps) + length (show_type r)" using assms(4) by (simp add: show_method_def)
  obtain sz where sz: "(if (int (length s) - 3) * 2 > 128 then ArgumentSizeComputer_size s else Inr 128) = Inr sz"
    and fits: "int (length (arg_types ps)) \<le> sz"
  proof (cases "(int (length s) - 3) * 2 > 128")
    case True
    have "ArgumentSizeComputer_size s = Inr (params_size ps)"
      using assms(1,4) by (auto simp: list_all_iff arg_ft_def intro!: ArgumentSizeComputer_show)
    then show ?thesis using that True arg_types_size [OF assms(1)] by auto
  next
    case False
    then show ?thesis using that [of 128] arg_types_length [OF assms(1)] show_nonempty [OF assms(2)] len by auto
  qed
  have "0 + length (arg_types ps) \<le> length (replicate (nat sz) bogus_type)" using fits by simp
  from args_loop_show [OF ss(2) assms(1-3) this] obtain ss' where
    "args_loop s ss 0 (replicate (nat sz) bogus_type) = Some (Inr (ss', int (length (arg_types ps)),
       arg_types ps @ drop (length (arg_types ps)) (replicate (nat sz) bogus_type)))" "at_entry s ss' r []" by auto
  then show ?thesis using sz ss(1) by (intro exI [of _ ss']) (simp add: argument_types_def Let_def)
qed

lemma push_result_safe:
  assumes at: "at_entry s ss r []" and r: "wf_ft r" "sound_type (ft_return_type r)" and f: "fr ml ms n f"
  shows "safe (some_fr ml ms) (push_result bci nm s ss f)"
proof (cases "ft_type r = T_VOID")
  case True
  then show ?thesis using at fr_some [OF f] by (simp add: push_result_def at_entry_def)
next
  case False
  have "list_all sound_type (ft_verification_types r)" using r(2) by (cases r) auto
  then have "safe (some_fr ml ms) (push_types (ft_verification_types r) f)"
    using push_types_fr [OF f] by (auto intro: safe_mono fr_some)
  then show ?thesis using False at change_sig_show [OF at r(1) False] by (simp add: push_result_def at_entry_def)
qed

section \<open>Checks before the operands\<close>

lemma error_bind [simp]: "rbind (verify_error c m) k = verify_error c m"
  by (simp add: verify_error_def)

lemma invoke_operands_safe:
  assumes ins: "instruction_at m opcode bcs"
    and c: "opcode \<in> set [bc_invokevirtual, bc_invokespecial, bc_invokestatic, bc_invokeinterface, bc_invokedynamic]"
  shows "safe (\<lambda>_. True) (check_invoke_operands m (bcs_bci bcs) opcode k)"
proof -
  have d: "bc_invokedynamic \<noteq> bc_invokeinterface" by (simp add: bc_defs)
  have b: "0 \<le> bcs_bci bcs" "opcode = bc_invokeinterface \<or> opcode = bc_invokedynamic \<Longrightarrow> bcs_bci bcs + 5 \<le> code_size m"
    using narrow_instruction [OF ins, of 5] ins by (auto simp: instruction_at_def)
  then show ?thesis by (auto simp: check_invoke_operands_def Let_def byte_get_in d)
qed

lemma invokespecial_safe:
  assumes v: "class_ok v" and c: "sound_name c" and tag: "tag_at i cp = Inr t"
  shows "safe (\<lambda>_. True) (check_invokespecial v cp bci i (reference_type c))"
proof -
  have a: "safe (\<lambda>_. True) (is_assignable_from (cv_context v) (reference_type c) (current_type v) False)"
    "safe (\<lambda>_. True) (is_assignable_from (cv_context v) (reference_type c) (reference_type (cv_name_of v k)) False)" for k
    using class_name_sound [OF v] c by (intro assign_safe [OF class_env [OF v]]; simp add: current_type_def)+
  obtain s ss where "cv_supers v (cv_klass v) = s # ss" using v by (cases "cv_supers v (cv_klass v)") (auto simp: class_ok_def)
  then show ?thesis using tag
    by (auto simp: check_invokespecial_def Let_def intro!: safe_bind [where P = "\<lambda>_. True"] safe_bind [OF a(1)] safe_bind [OF a(2)])
qed

section \<open>Receivers\<close>

lemma special_receiver_fr:
  assumes v: "class_ok v" and f: "fr ml ms n f"
  shows "safe (some_fr ml ms) (check_special_receiver v f)"
proof -
  have cur: "sound_type (current_type v)" using class_name_sound [OF v] by (simp add: current_type_def)
  have 1: "safe (some_fr ml ms) (rbind (pop_stack_type (cv_context v) (current_type v) f) (\<lambda>(_, f). Inr f))"
    by (rule pop_type_bind [OF v _ f]) (auto simp: cur intro: fr_some)
  have 2: "safe (some_fr ml ms) (rbind (pop_stack f) (\<lambda>(top, f).
       rbind (is_assignable_from (cv_context v) (reference_type (cv_name_of v k)) top False) (\<lambda>subtype.
         if \<not> subtype then stack_top_error (bad_type (smf_offset f)) ''Bad type on operand stack'' f else Inr f)))" for k
    by (rule pop_bind [OF f], simp only: prod.case, rule safe_bind [OF assign_safe [OF class_env [OF v]]])
      (use class_name_sound [OF v] in \<open>auto intro: top_error_safe fr_some\<close>)
  show ?thesis using 1 2 by (simp add: check_special_receiver_def Let_def)
qed

lemma virtual_receiver_fr:
  assumes v: "class_ok v" and f: "fr ml ms n f" and c: "sound_name c" and kl: "klass_ref_index_at i cp = Inr j" "klass_name_at j cp = Inr c"
  shows "safe (some_fr ml ms) (check_virtual_receiver v cp bci i nm s (reference_type c) f)"
proof -
  have cur: "sound_type (current_type v)" using class_name_sound [OF v] by (simp add: current_type_def)
  have load: "safe (\<lambda>_. True) (load_class v c)"
    using v by (cases "load_class v c") (auto simp: load_class_def class_ok_def env_defined_def)
  show ?thesis unfolding check_virtual_receiver_def
  proof (rule pop_type_bind [OF v _ f])
    fix u g assume u: "sound_type u" and g: "fr ml ms (n - 1) g" "n - 1 < ms"
    note err = top_error_safe [OF g] and ok = fr_some [OF g(1)]
    show "safe (some_fr ml ms) (case (u, g) of (stack_object_type, f) \<Rightarrow>
     if current_type v = stack_object_type then Inr f
     else rbind (klass_ref_index_at i cp) (\<lambda>i. rbind (klass_name_at i cp) (\<lambda>ref_class_name.
       if \<not> name_in_supers v ref_class_name (cv_supers v (cv_klass v)) then Inr f
       else rbind (load_class v ref_class_name) (\<lambda>ref_class.
         if is_protected_access v (cv_klass v) ref_class nm s True
         then rbind (is_assignable_from (cv_context v) (current_type v) stack_object_type True) (\<lambda>is_assignable.
           if \<not> is_assignable \<and> \<not> (vt_name (reference_type c) = java_lang_Object \<and> is_array stack_object_type \<and> nm = clone_name)
           then stack_top_error (bad_type bci) ''Bad access to protected data in invokevirtual'' f else Inr f)
         else Inr f))))"
      using u by (simp add: kl err ok cur safe_bind [OF load] safe_bind [OF assign_safe [OF class_env [OF v]]])
  qed (simp add: c)
qed

section \<open>Constructors\<close>

lemma safe_if: "(b \<Longrightarrow> safe P x) \<Longrightarrow> (\<not> b \<Longrightarrow> safe P y) \<Longrightarrow> safe P (if b then x else y)"
  by simp

lemma reference_bind: "klass_name_at i cp = Inr n \<Longrightarrow> safe P (k (reference_type n)) \<Longrightarrow> safe P (rbind (cp_index_to_type i cp) k)"
  by (simp add: cp_index_to_type_def)

lemma scans_safe:
  "list_all (\<lambda>e. returns (\<lambda>_. True) (ends_in_athrow mt (uint (ex_handler_pc e)))) es \<Longrightarrow>
   returns (\<lambda>_. True) (handlers_end_in_athrow mt bci es)"
  by (induction es) (auto intro!: returns_bind [where P = "\<lambda>_. True"])

text \<open>What the check of an invocation relies on, besides the state.\<close>

definition method_env_ok :: "ClassVerifier \<Rightarrow> Method \<Rightarrow> bool" where
  "method_env_ok v mt \<longleftrightarrow> class_ok v \<and> fields_open v (m_constants mt) \<and> pool_ok (m_constants mt) \<and> members_ok (m_constants mt) \<and>
     handlers_ok mt \<and> scans_return mt \<and> code_size (m_code mt) < 65536"

lemma env_parts:
  assumes "method_env_ok v mt"
  shows "class_ok v" "fields_open v (m_constants mt)" "pool_ok (m_constants mt)" "members_ok (m_constants mt)" "handlers_ok mt" "scans_return mt"
    "code_size (m_code mt) < 65536"
  using assms by (simp_all add: method_env_ok_def)

lemma method_targets_safe:
  assumes "method_env_ok v mt" "table_ok ml ms t" "matchable ml f"
  shows "safe (\<lambda>_. True) (verify_exception_handler_targets v (m_constants mt) bci b f t (m_exception_table mt))"
  using targets_safe [OF env_parts(1) [OF assms(1)] assms(2,3)] env_parts(5) [OF assms(1)] by (simp add: handlers_ok_def)

lemma init_this_safe:
  assumes e: "method_env_ok v mt" and t: "table_ok ml ms t" and f: "fr (uint ml) ms' n f" and ty: "is_uninitialized type"
  shows "returns (\<lambda>(f, _). some_fr (uint ml) ms' f) (init_this v mt bci c in_try t type f)"
proof -
  have v: "class_ok v" and scan: "scans_return mt" using env_parts [OF e] by simp_all
  obtain s ss where sup: "cv_supers v (cv_klass v) = s # ss" using v by (cases "cv_supers v (cv_klass v)") (auto simp: class_ok_def)
  have cur: "single (current_type v)" "sound_type (current_type v)"
    using class_name_sound [OF v] by (simp_all add: current_type_def single_def half2_def is_half2_def reference_type_def type_defs)
  have init: "safe (\<lambda>(f, _). some_fr (uint ml) ms' f) (rbind (initialize_object type (current_type v) f) (\<lambda>f. Inr (f, b)))" for b
    by (rule safe_bind [OF initialize_fr [OF f ty cur]]) (simp add: fr_some)
  have scan': "returns (\<lambda>_. True) (handlers_end_in_athrow mt bci (m_exception_table mt))"
    using scan by (intro scans_safe) (simp add: scans_return_def)
  have "returns (\<lambda>(f, _). some_fr (uint ml) ms' f) (if in_try
     then pbind (handlers_end_in_athrow mt bci (m_exception_table mt)) (\<lambda>_.
       Some (rbind (verify_exception_handler_targets v (m_constants mt) bci True f t (m_exception_table mt))
         (\<lambda>_. rbind (initialize_object type (current_type v) f) (\<lambda>f. Inr (f, True)))))
     else Some (rbind (initialize_object type (current_type v) f) (\<lambda>f. Inr (f, True))))"
    using init by (auto intro!: returns_bind [OF scan'] safe_bind [OF method_targets_safe [OF e t fr_matchable [OF f]]])
  then show ?thesis unfolding init_this_def Let_def sup by (intro returns_bind [where P = "\<lambda>_. True"]) auto
qed

lemma init_new_safe:
  assumes e: "method_env_ok v mt" and t: "table_ok ml ms t" and f: "fr (uint ml) ms' n f" and ty: "is_uninitialized type"
    and c: "sound_name c" and ins: "instruction_at (m_code mt) bc_invokespecial bcs"
    and idx: "get_index_u2 (m_code mt) bcs = Inr i" "signature_ref_at i (m_constants mt) = Inr s"
  shows "safe (\<lambda>(f, _). some_fr (uint ml) ms' f)
    (init_new v mt bcs (u2_of (bcs_bci bcs)) (reference_type c) (code_size (m_code mt)) in_try b t type f)"
proof -
  let ?m = "m_code mt" and ?cp = "m_constants mt" and ?off = "uint (vt_bci type)" and ?bci = "u2_of (bcs_bci bcs)"
  note v = env_parts(1) [OF e] and cp = env_parts(3) [OF e]
  have b: "0 \<le> bcs_bci bcs" "bcs_bci bcs + 3 \<le> code_size ?m" using narrow_instruction [OF ins, of 3] by simp_all
  then have bcp: "bcs_bci bcs - ?bci + ?off = ?off" using env_parts(7) [OF e] by (simp add: u2_of_small)
  have u4: "u4_of (code_size ?m - 3) = code_size ?m - 3" using b env_parts(7) [OF e] by (simp add: u4_of_def)
  have new: "safe (\<lambda>bad. bad \<or> ?off + 3 \<le> code_size ?m)
      (if ?off > u4_of (code_size ?m - 3) then Inr True else rbind (byte_get ?m ?off) (\<lambda>b. Inr (b \<noteq> bc_new)))"
    unfolding u4 by (auto simp: byte_get_in)
  have load: "safe (\<lambda>_. True) (load_class v c)"
    using v by (cases "load_class v c") (auto simp: load_class_def class_ok_def env_defined_def)
  have cur: "asked_type (current_type v)" using class_name_sound [OF v] by (simp add: current_type_def)
  have prot: "safe (\<lambda>_. True) (if name_in_supers v (vt_name (reference_type c)) (cv_supers v (cv_klass v))
       then rbind (load_class v (vt_name (reference_type c))) (\<lambda>ref_klass.
            rbind (get_index_u2 ?m bcs) (\<lambda>index. rbind (signature_ref_at index ?cp) (\<lambda>sig.
            case cv_lookup_method v ref_klass object_initializer_name sig of
              None \<Rightarrow> Inr ()
            | Some (holder, is_protected) \<Rightarrow>
                if is_protected \<and> \<not> cv_same_class_package v holder (cv_klass v)
                then rbind (is_assignable_from (cv_context v) (current_type v) (reference_type nm) True) (\<lambda>assignable.
                  if \<not> assignable then verify_error (bad_type ?bci) ''Bad access to protected <init> method'' else Inr ())
                else Inr ())))
       else Inr ())" if "sound_name nm" for nm
    using that idx load
    by (auto simp: reference_type_def split: option.splits
        intro!: safe_bind [where P = "\<lambda>_. True"] assign_safe [OF class_env [OF v] cur])
  have targets: "safe (\<lambda>_. True) (if in_try then verify_exception_handler_targets v ?cp ?bci b f t (m_exception_table mt) else Inr ())"
    using method_targets_safe [OF e t fr_matchable [OF f]] by simp
  have init: "safe (\<lambda>(f, _). some_fr (uint ml) ms' f) (rbind (initialize_object type (reference_type nm) f) (\<lambda>f. Inr (f, b)))"
    if "sound_name nm" for nm
  proof (rule safe_bind [OF initialize_fr [OF f ty]])
    show "single (reference_type nm)" by (simp add: single_def half2_def is_half2_def reference_type_def type_defs)
  qed (use that in \<open>simp_all add: fr_some\<close>)
  have u2: "safe (\<lambda>_. True) (get_Java_u2 ?m (?off + 1))" if "bad \<or> ?off + 3 \<le> code_size ?m" "\<not> bad" for bad
    using that u2_in [of "?off + 1" ?m] by auto
  show ?thesis unfolding init_new_def Let_def bcp
    by (rule safe_bind [OF new], rule safe_if, rule safe_errors, rule safe_bind [OF u2], assumption, assumption,
        rule cp_class_bind [OF cp], rule reference_bind, assumption, rule safe_if, rule safe_errors,
        rule safe_bind [OF prot], assumption, rule safe_bind [OF targets], rule init, assumption)
qed

lemma invoke_init_safe:
  assumes e: "method_env_ok v mt" and t: "table_ok ml ms t" and f: "fr (uint ml) ms' n f"
    and c: "sound_name c" and ins: "instruction_at (m_code mt) bc_invokespecial bcs"
    and idx: "get_index_u2 (m_code mt) bcs = Inr i" "signature_ref_at i (m_constants mt) = Inr s"
  shows "returns (\<lambda>(f, _). some_fr (uint ml) ms' f)
    (verify_invoke_init v mt bcs (reference_type c) (code_size (m_code mt)) in_try b t f)"
  unfolding verify_invoke_init_def Let_def
proof (rule returns_bind [where P = "popped (uint ml) ms' (n - 1)"])
  show "returns (popped (uint ml) ms' (n - 1)) (Some (pop_stack_type (cv_context v) reference_check f))"
    using pop_type_fr [OF class_env [OF env_parts(1) [OF e]] _ f, of reference_check] by (auto intro: safe_mono)
next
  fix x assume "popped (uint ml) ms' (n - 1) x"
  then obtain ty g where x: "x = (ty, g)" and g: "fr (uint ml) ms' (n - 1) g" "n - 1 < ms'" by (auto simp: popped_def)
  have this_ty: "is_uninitialized uninitialized_this_type" by (simp add: uninitialized_this_type_def uninitialized_type_tests)
  show "returns (\<lambda>(f, _). some_fr (uint ml) ms' f) (case x of (type, f) \<Rightarrow>
     if type = uninitialized_this_type then init_this v mt (u2_of (bcs_bci bcs)) (reference_type c) in_try t type f
     else if is_uninitialized type
     then Some (init_new v mt bcs (u2_of (bcs_bci bcs)) (reference_type c) (code_size (m_code mt)) in_try b t type f)
     else Some (stack_top_error (bad_type (u2_of (bcs_bci bcs))) ''Bad operand type when invoking <init>'' f))"
    unfolding x prod.case
    using init_this_safe [OF e t g(1) this_ty] init_new_safe [OF e t g(1) _ c ins idx]
    by (auto intro: top_error_safe [OF g])
qed

section \<open>Invocations\<close>

abbreviation invoke_codes :: "Code list" where
  "invoke_codes \<equiv> [bc_invokevirtual, bc_invokespecial, bc_invokestatic, bc_invokeinterface, bc_invokedynamic]"

text \<open>The first stage of \<open>verify_invoke_instructions\<close> finds an entry for a method.\<close>

definition method_entry_ok :: "code_array \<Rightarrow> ConstantPool \<Rightarrow> Code \<Rightarrow> RawBytecodeStream \<Rightarrow> int \<times> symbol \<times> symbol \<times> VerificationType \<Rightarrow> bool" where
  "method_entry_ok m cp opcode bcs = (\<lambda>(i, n, s, rct). get_index_u2 m bcs = Inr i \<and> n \<noteq> [] \<and> signature_ref_at i cp = Inr s \<and> method_sig_ok s \<and>
     (\<exists>t. tag_at i cp = Inr t) \<and>
     (opcode \<noteq> bc_invokedynamic \<longrightarrow> (\<exists>j c. rct = reference_type c \<and> klass_ref_index_at i cp = Inr j \<and> klass_name_at j cp = Inr c \<and> sound_name c)))"

lemma invoke_entry_safe:
  assumes cp: "pool_ok cp" "members_ok cp" and ins: "instruction_at m opcode bcs" and code: "opcode \<in> set invoke_codes"
  shows "safe (method_entry_ok m cp opcode bcs)
    (rbind (get_index_u2 m bcs) (\<lambda>index.
       rbind (verify_cp_type bci index cp (invoke_types v opcode)) (\<lambda>_.
       rbind (name_ref_at index cp) (\<lambda>method_name.
       rbind (signature_ref_at index cp) (\<lambda>method_sig.
       if \<not> is_valid_method_signature method_sig
       then class_format_error ''Invalid method signature in class %s referenced from constant pool index %d''
       else rbind (if opcode = bc_invokedynamic
              then if \<not> cv_enable_invokedynamic v then class_format_error ''invokedynamic instructions not enabled in this JVM''
                   else if cv_major_version v (cv_klass v) < INVOKEDYNAMIC_MAJOR_VERSION
                   then class_format_error ''invokedynamic instructions not supported by this class file version (%d), class %s''
                   else Inr bogus_type
              else cp_ref_index_to_type index cp) (\<lambda>ref_class_type.
            Inr (index, method_name, method_sig, ref_class_type)))))))"
proof -
  have "\<exists>l. length_for opcode = Inr l \<and> 3 \<le> l \<and> wide_length_for opcode = Inr 0" using code by auto
  then have idx: "safe (\<lambda>i. 0 \<le> i) (get_index_u2 m bcs)" using index_u2_safe [OF ins] by blast
  show ?thesis
  proof (cases "get_index_u2 m bcs")
    case True: (Inr i)
    show ?thesis unfolding True rbind_simps
    proof (rule safe_bind [OF cp_type_safe [OF cp(1)]])
      fix u assume "\<exists>t. tag_at i cp = Inr t \<and> invoke_types v opcode AND tag_bit t \<noteq> 0"
      then obtain t where t: "tag_at i cp = Inr t" "invoke_types v opcode AND tag_bit t \<noteq> 0" by blast
      obtain n s where e: "name_ref_at i cp = Inr n" "n \<noteq> []" "signature_ref_at i cp = Inr s" "method_sig_ok s"
        and kl: "opcode \<noteq> bc_invokedynamic \<longrightarrow> (\<exists>j c. klass_ref_index_at i cp = Inr j \<and> klass_name_at j cp = Inr c \<and> sound_name c)"
        using method_entry [OF cp(2) t] by (elim exE conjE) (rule that; assumption)
      have dyn: "method_entry_ok m cp opcode bcs (i, n, s, bogus_type)" if "opcode = bc_invokedynamic"
        using True t(1) e that by (simp add: method_entry_ok_def)
      have cls: "safe (\<lambda>c. method_entry_ok m cp opcode bcs (i, n, s, c)) (cp_ref_index_to_type i cp)" if nd: "opcode \<noteq> bc_invokedynamic"
      proof -
        obtain j c where "klass_ref_index_at i cp = Inr j" "klass_name_at j cp = Inr c" "sound_name c" using kl nd by blast
        then show ?thesis using True t(1) e by (simp add: method_entry_ok_def cp_ref_index_to_type_def cp_index_to_type_def)
      qed
      show "safe (method_entry_ok m cp opcode bcs) (rbind (name_ref_at i cp) (\<lambda>method_name.
       rbind (signature_ref_at i cp) (\<lambda>method_sig.
       if \<not> is_valid_method_signature method_sig
       then class_format_error ''Invalid method signature in class %s referenced from constant pool index %d''
       else rbind (if opcode = bc_invokedynamic
              then if \<not> cv_enable_invokedynamic v then class_format_error ''invokedynamic instructions not enabled in this JVM''
                   else if cv_major_version v (cv_klass v) < INVOKEDYNAMIC_MAJOR_VERSION
                   then class_format_error ''invokedynamic instructions not supported by this class file version (%d), class %s''
                   else Inr bogus_type
              else cp_ref_index_to_type i cp) (\<lambda>ref_class_type.
            Inr (i, method_name, method_sig, ref_class_type)))))"
        unfolding e(1,3) rbind_simps
        by (rule safe_if, rule safe_errors, rule safe_bind [where P = "\<lambda>c. method_entry_ok m cp opcode bcs (i, n, s, c)"],
            intro safe_if safe_errors cls) ((unfold safe_simps1)?, (erule dyn | assumption))+
    qed
  qed (use idx in simp)
qed

lemma invoke_operands_fr:
  assumes v: "class_ok v" and f: "fr ml ms n f" and ins: "instruction_at m opcode bcs" and code: "opcode \<in> set invoke_codes"
    and e: "method_entry_ok m cp opcode bcs (i, nm, s, rct)" and ts: "list_all sound_type ts"
  shows "safe (\<lambda>g. (\<exists>k. fr ml ms k g) \<and> (nm = object_initializer_name \<longrightarrow> opcode = bc_invokespecial))
    (rbind (check_invoke_operands m (bcs_bci bcs) opcode (int (length ts))) (\<lambda>_.
       rbind (case nm of
                [] \<Rightarrow> Inl Undefined_Behaviour
              | c # _ \<Rightarrow>
                 if c = 60
                 then if opcode \<noteq> bc_invokespecial \<or> nm \<noteq> object_initializer_name
                      then verify_error (bad_code bci) ''Illegal call to internal method'' else Inr ()
                 else if opcode = bc_invokespecial then check_invokespecial v cp bci i rct
                 else Inr ()) (\<lambda>_.
       pop_types v (rev ts) f)))"
proof -
  have d: "bc_invokespecial \<noteq> bc_invokedynamic" by (simp add: bc_defs)
  have hd: "c # r \<noteq> object_initializer_name" if "c \<noteq> 60" for c r using that by (simp add: object_initializer_name_def symbol_of_def)
  have sp: "safe (\<lambda>_. True) (check_invokespecial v cp bci i rct)" if "opcode = bc_invokespecial"
    using e that invokespecial_safe [OF v] d by (auto simp: method_entry_ok_def)
  obtain c r where nm: "nm = c # r" using e by (cases nm) (auto simp: method_entry_ok_def)
  have name: "safe (\<lambda>_. nm = object_initializer_name \<longrightarrow> opcode = bc_invokespecial) (case nm of
                [] \<Rightarrow> Inl Undefined_Behaviour
              | c # _ \<Rightarrow>
                 if c = 60
                 then if opcode \<noteq> bc_invokespecial \<or> nm \<noteq> object_initializer_name
                      then verify_error (bad_code bci) ''Illegal call to internal method'' else Inr ()
                 else if opcode = bc_invokespecial then check_invokespecial v cp bci i rct
                 else Inr ())"
    using hd [of c r] nm sp by (auto intro: safe_mono)
  have r: "list_all sound_type (rev ts)" using ts by (simp add: list_all_iff)
  show ?thesis
    by (rule safe_bind [OF invoke_operands_safe [OF ins code]], rule safe_bind [OF name], rule safe_mono [OF pop_types_fr [OF v f r]]) auto
qed

lemma invoke_instructions_fr:
  assumes e: "method_env_ok v mt" and t: "table_ok ml ms t" and f: "fr (uint ml) ms' n f"
    and ins: "instruction_at (m_code mt) opcode bcs" "bcs_raw_code bcs = opcode" and code: "opcode \<in> set invoke_codes"
  shows "returns (\<lambda>(f, _). some_fr (uint ml) ms' f) (verify_invoke_instructions v mt bcs (code_size (m_code mt)) in_try b t f)"
proof -
  let ?m = "m_code mt" and ?cp = "m_constants mt" and ?bci = "u2_of (bcs_bci bcs)"
  note v = env_parts(1) [OF e]
  have receiver: "returns (\<lambda>(f, _). some_fr (uint ml) ms' f) (if opcode \<noteq> bc_invokestatic \<and> opcode \<noteq> bc_invokedynamic
            then if nm = object_initializer_name
                 then verify_invoke_init v mt bcs rct (code_size ?m) in_try b t g
                 else Some (rbind (
                   if opcode = bc_invokespecial then check_special_receiver v g
                   else if opcode = bc_invokevirtual then check_virtual_receiver v ?cp ?bci i nm s rct g
                   else rbind (pop_stack_type (cv_context v) rct g) (\<lambda>(_, f). Inr f)) (\<lambda>f. Inr (f, b)))
            else Some (Inr (g, b)))"
    if en: "method_entry_ok ?m ?cp opcode bcs (i, nm, s, rct)" and g: "fr (uint ml) ms' k g" "nm = object_initializer_name \<longrightarrow> opcode = bc_invokespecial"
    for i nm s rct k g
  proof (cases "opcode \<noteq> bc_invokestatic \<and> opcode \<noteq> bc_invokedynamic")
    case True
    then obtain j c where c: "rct = reference_type c" "klass_ref_index_at i ?cp = Inr j" "klass_name_at j ?cp = Inr c" "sound_name c"
      and idx: "get_index_u2 ?m bcs = Inr i" "signature_ref_at i ?cp = Inr s" using en by (auto simp: method_entry_ok_def)
    have init: "returns (\<lambda>(f, _). some_fr (uint ml) ms' f) (verify_invoke_init v mt bcs rct (code_size ?m) in_try b t g)"
      if "nm = object_initializer_name"
      using invoke_init_safe [OF e t g(1) c(4) _ idx] ins(1) g(2) that c(1) by simp
    have pop: "safe (some_fr (uint ml) ms') (rbind (pop_stack_type (cv_context v) rct g) (\<lambda>(_, f). Inr f))"
      by (rule pop_type_bind [OF v _ g(1)]) (auto simp: c intro: fr_some)
    have "safe (some_fr (uint ml) ms') (if opcode = bc_invokespecial then check_special_receiver v g
                   else if opcode = bc_invokevirtual then check_virtual_receiver v ?cp ?bci i nm s rct g
                   else rbind (pop_stack_type (cv_context v) rct g) (\<lambda>(_, f). Inr f))"
      using special_receiver_fr [OF v g(1)] virtual_receiver_fr [OF v g(1) c(4,2,3)] pop c(1) by simp
    then show ?thesis using True init by (auto intro: safe_bind)
  qed (use g fr_some in auto)
  have rest: "returns (\<lambda>(f, _). some_fr (uint ml) ms' f) (pbind (argument_types s) (\<lambda>(ss, ts).
     pbind (Some (rbind (check_invoke_operands ?m (bcs_bci bcs) opcode (int (length ts))) (\<lambda>_.
       rbind (case nm of
                [] \<Rightarrow> Inl Undefined_Behaviour
              | c # _ \<Rightarrow>
                 if c = 60
                 then if opcode \<noteq> bc_invokespecial \<or> nm \<noteq> object_initializer_name
                      then verify_error (bad_code ?bci) ''Illegal call to internal method'' else Inr ()
                 else if opcode = bc_invokespecial then check_invokespecial v ?cp ?bci i rct
                 else Inr ()) (\<lambda>_.
       pop_types v (rev ts) f)))) (\<lambda>g.
     pbind (if opcode \<noteq> bc_invokestatic \<and> opcode \<noteq> bc_invokedynamic
            then if nm = object_initializer_name
                 then verify_invoke_init v mt bcs rct (code_size ?m) in_try b t g
                 else Some (rbind (
                   if opcode = bc_invokespecial then check_special_receiver v g
                   else if opcode = bc_invokevirtual then check_virtual_receiver v ?cp ?bci i nm s rct g
                   else rbind (pop_stack_type (cv_context v) rct g) (\<lambda>(_, f). Inr f)) (\<lambda>f. Inr (f, b)))
            else Some (Inr (g, b))) (\<lambda>(g, u).
     Some (rbind (push_result ?bci nm s ss g) (\<lambda>f. Inr (f, u)))))))"
    if en: "method_entry_ok ?m ?cp opcode bcs (i, nm, s, rct)" for i nm s rct
  proof -
    obtain ps r where sig: "s = show_method ps r" "list_all arg_ft ps" "wf_ft r" "no_void_array r" "list_all sound_type (arg_types ps)" "sound_type (ft_return_type r)"
      using en by (auto simp: method_entry_ok_def method_sig_ok_def)
    obtain ss where ss: "argument_types s = Some (Inr (ss, arg_types ps))" "at_entry s ss r []"
      using argument_types_ok [OF sig(2-4,1)] by blast
    have push: "safe (\<lambda>(f, _). some_fr (uint ml) ms' f) (rbind (push_result ?bci nm s ss g) (\<lambda>f. Inr (f, u)))" if "some_fr (uint ml) ms' g" for g u
      using that push_result_safe [OF ss(2) sig(3,6)] by (auto simp: some_fr_def intro!: safe_bind [where P = "some_fr (uint ml) ms'"])
    show ?thesis unfolding ss(1) pbind_simps prod.case
      by (rule returns_bind, unfold returns_Some, rule invoke_operands_fr [OF v f ins(1) code en sig(5)], elim conjE exE,
          rule returns_bind [OF receiver [OF en]], assumption, assumption) (auto intro!: push)
  qed
  show ?thesis unfolding verify_invoke_instructions_def Let_def ins(2)
    by (rule returns_bind, unfold returns_Some, rule invoke_entry_safe [OF env_parts(3,4) [OF e] ins(1) code])
      (clarsimp simp only: split_paired_all, rule rest)
qed

lemma member_ok:
  assumes e: "method_env_ok v mt" and t: "table_ok ml ms t" and f: "fr (uint ml) ms' n f"
    and ins: "instruction_at (m_code mt) opcode bcs" "bcs_raw_code bcs = opcode" and o: "step_ok (uint ml) ms' n opcode otherwise"
  shows "step_ok (uint ml) ms' n opcode (member_instr v mt opcode bcs in_try t f otherwise)"
proof -
  have fields: "step_ok (uint ml) ms' n opcode (fall (verify_field_instructions v (m_code mt) bcs (m_constants mt) f))"
    if "opcode \<in> set [bc_getstatic, bc_putstatic, bc_getfield, bc_putfield]"
    using safe_mono [OF field_instructions_fr [OF env_parts(1-4) [OF e] f ins that], of "\<lambda>f. \<exists>n'. fr (uint ml) ms' n' f"] that
    by (intro fall_varying) (auto simp: varying_codes_def some_fr_def)
  have invokes: "step_ok (uint ml) ms' n opcode (pbind (verify_invoke_instructions v mt bcs (code_size (m_code mt)) in_try False t f)
       (\<lambda>(f, this_uninit). Some (Inr (f, this_uninit, False))))" if "opcode \<in> set invoke_codes"
    unfolding step_ok_def
    by (rule returns_bind [OF invoke_instructions_fr [OF e t f ins that]])
      (use that in \<open>auto simp: some_fr_def varying_codes_def\<close>)
  show ?thesis using fields invokes o unfolding member_instr_def Let_def by (intro if_step) simp_all
qed

section \<open>All instructions\<close>

text \<open>Only field accesses and invocations need the conditions on fields and on the scan of handlers.\<close>

lemma member_skipped:
  "opcode \<notin> set varying_codes \<Longrightarrow> member_instr v mt opcode bcs in_try t f otherwise = otherwise"
  by (simp add: member_instr_def varying_codes_def)

lemma instruction_ok:
  assumes v: "class_ok v" and cp: "pool_ok (m_constants mt)" and size: "code_size (m_code mt) < 65536"
    and e: "opcode \<in> set varying_codes \<Longrightarrow> method_env_ok v mt" and t: "table_ok ml ms t" and f: "fr (uint ml) ms' n f" and rt: "sound_type return_type"
    and ins: "instruction_at (m_code mt) opcode bcs" "bcs_raw_code bcs = opcode"
  shows "step_ok (uint ml) ms' n opcode (verify_instruction v mt return_type opcode bcs in_try t f)"
proof -
  have iinc: "safe (fr (uint ml) ms' n) (rbind (get_index (m_code mt) bcs) (\<lambda>index. verify_iinc v index f))" if "opcode = bc_iinc"
    using that ins(1) by (intro safe_bind [OF index_safe [where c = opcode and l = 3 and w = 6]] iinc_fr [OF v f]) auto
  have bad: "step_ok (uint ml) ms' n opcode (Some (verify_error c m))" for c m by (simp add: step_ok_def)
  have members: "step_ok (uint ml) ms' n opcode (member_instr v mt opcode bcs in_try t f otherwise)"
    if "step_ok (uint ml) ms' n opcode otherwise" for otherwise
    using member_ok [OF e t f ins that] member_skipped that by (cases "opcode \<in> set varying_codes") simp_all
  show ?thesis unfolding verify_instruction_def Let_def
    by (intro const_ok [OF cp f _ ins(1)] load_ok [OF v f ins(1)] array_load_ok [OF v f] store_ok [OF v f ins(1)] array_store_ok [OF v f]
        stack_ok [OF v f] arith_ok [OF v f _ iinc] convert_ok [OF v f] branch_ok [OF v t f _ ins size] return_ok [OF v rt f]
        members object_ok [OF v cp f _ ins(1)] bad)
qed

lemma verify_instruction_ok:
  assumes e: "method_env_ok v mt" and t: "table_ok ml ms t" and f: "fr (uint ml) ms' n f" and rt: "sound_type return_type"
    and ins: "instruction_at (m_code mt) opcode bcs" "bcs_raw_code bcs = opcode"
  shows "step_ok (uint ml) ms' n opcode (verify_instruction v mt return_type opcode bcs in_try t f)"
  by (rule instruction_ok [OF env_parts(1,3,7) [OF e] e t f rt ins])

end
