(* ===== verification/Parsed_Pool.thy ===== *)
theory Parsed_Pool
  imports Class_File_Parser Legal_Formats Member_Safety
begin

text \<open>
  The constant pool while its entries are read (\<open>parse_constant_pool_entries\<close>): for every index before the current one
  it has a tag and a slot that agree, or a name that is stored with the next batch.
\<close>

section \<open>Entries as they are read\<close>

definition legal_symbol :: "symbol \<Rightarrow> bool" where
  "legal_symbol s \<longleftrightarrow> 0 \<notin> set s \<and> length s < 65536"

definition pair_tags :: "constantTag set" where
  "pair_tags = {JVM_CONSTANT_Fieldref, JVM_CONSTANT_Methodref, JVM_CONSTANT_InterfaceMethodref, JVM_CONSTANT_NameAndType,
     JVM_CONSTANT_InvokeDynamic, JVM_CONSTANT_MethodHandle}"

definition index_tags :: "constantTag set" where
  "index_tags = {JVM_CONSTANT_ClassIndex, JVM_CONSTANT_StringIndex, JVM_CONSTANT_MethodType}"

definition wide_tags :: "constantTag set" where
  "wide_tags = {JVM_CONSTANT_Long, JVM_CONSTANT_Double}"

definition raw_entry :: "constantTag \<Rightarrow> cp_slot \<Rightarrow> bool" where
  "raw_entry t s \<longleftrightarrow>
     t = JVM_CONSTANT_Utf8 \<and> (\<exists>n. s = Slot_Symbol n \<and> legal_symbol n) \<or>
     t \<in> index_tags \<and> (\<exists>i. u2_index i \<and> s = Slot_Int (word_of_int i)) \<or>
     t \<in> pair_tags \<and> (\<exists>h l. u2_index h \<and> u2_index l \<and> s = Slot_Int (pack_indices h l)) \<or>
     t \<in> {JVM_CONSTANT_Integer, JVM_CONSTANT_Float} \<and> (\<exists>w. s = Slot_Int w) \<or>
     t \<in> wide_tags \<and> (\<exists>w. s = Slot_Bits w)"

definition wide_at :: "ConstantPool \<Rightarrow> int \<Rightarrow> bool" where
  "wide_at cp j \<longleftrightarrow> (\<exists>t \<in> wide_tags. tag_at j cp = Inr t)"

definition filled :: "ConstantPool \<Rightarrow> int \<Rightarrow> bool" where
  "filled cp j \<longleftrightarrow> (\<exists>t s. tag_at j cp = Inr t \<and> slot_at j cp = Inr s \<and> (raw_entry t s \<or> t = JVM_CONSTANT_Invalid \<and> wide_at cp (j - 1)))"

definition invalid_at :: "ConstantPool \<Rightarrow> int \<Rightarrow> bool" where
  "invalid_at cp j \<longleftrightarrow> tag_at j cp = Inr JVM_CONSTANT_Invalid"

definition parsed :: "int \<Rightarrow> int \<Rightarrow> ConstantPool \<Rightarrow> (int \<times> symbol) list \<Rightarrow> bool" where
  "parsed len i cp names \<longleftrightarrow> pool_wf cp \<and> cp_length cp = len \<and> cp_cache cp = None \<and> 1 \<le> i \<and> i \<le> len \<and> invalid_at cp 0 \<and>
     distinct (map fst names) \<and>
     (\<forall>(j, n) \<in> set names. 1 \<le> j \<and> j < i \<and> legal_symbol n \<and> invalid_at cp j) \<and>
     (\<forall>j. 1 \<le> j \<and> j < i \<longrightarrow> j \<in> fst ` set names \<or> filled cp j) \<and>
     (\<forall>j. wide_at cp j \<longrightarrow> j + 1 < i \<and> invalid_at cp (j + 1) \<and> j + 1 \<notin> fst ` set names) \<and>
     (\<forall>j. i \<le> j \<and> j < len \<longrightarrow> invalid_at cp j)"

lemma allocate_parsed: "1 \<le> len \<Longrightarrow> parsed len 1 (allocate (nat len)) []"
  by (auto simp: parsed_def allocate_def pool_wf_def cp_length_def invalid_at_def wide_at_def tag_at_def arr_get_def wide_tags_def tag_values
      split: if_splits)

lemma same_except_facts:
  assumes "same_except i cp cp'" "j \<noteq> i"
  shows "invalid_at cp' j = invalid_at cp j" "wide_at cp' j = wide_at cp j" "tag_at j cp' = tag_at j cp" "slot_at j cp' = slot_at j cp"
  using assms by (auto simp: same_except_def invalid_at_def wide_at_def)

lemma filled_other:
  assumes "same_except i cp cp'" "j \<noteq> i" "j - 1 \<noteq> i" shows "filled cp' j = filled cp j"
  using same_except_facts [OF assms(1,2)] same_except_facts [OF assms(1,3)] by (simp add: filled_def)

lemma pool_put:
  assumes "parsed len i cp names" "0 \<le> j" "j < len"
  obtains cp' where "entry_at_put j t s cp = Inr cp'" "tag_at j cp' = Inr t" "slot_at j cp' = Inr s" "same_except j cp cp'"
    "pool_wf cp'" "cp_length cp' = len" "cp_cache cp' = None"
proof -
  have wf: "pool_wf cp" "cp_length cp = len" "cp_cache cp = None" using assms(1) by (auto simp: parsed_def)
  then obtain cp' where cp': "entry_at_put j t s cp = Inr cp'"
    using entry_laws(1) [of cp j t s] assms(2,3) by (auto simp: is_within_bounds_def)
  show thesis using entry_at_put_Inr [OF cp'] wf by (intro that [OF cp']) (auto simp: same_except_def)
qed

lemma parsed_facts:
  assumes "parsed len i cp names"
  shows "\<And>j. 1 \<le> j \<Longrightarrow> j < i \<Longrightarrow> j \<in> fst ` set names \<or> filled cp j"
    "\<And>j. wide_at cp j \<Longrightarrow> j + 1 < i \<and> invalid_at cp (j + 1) \<and> j + 1 \<notin> fst ` set names"
    "\<And>j. i \<le> j \<Longrightarrow> j < len \<Longrightarrow> invalid_at cp j"
    "\<And>j n. (j, n) \<in> set names \<Longrightarrow> 1 \<le> j \<and> j < i \<and> legal_symbol n \<and> invalid_at cp j"
    "invalid_at cp 0" "distinct (map fst names)" "1 \<le> i" "i \<le> len"
  using assms unfolding parsed_def by (blast | auto)+

lemma parsedI:
  assumes "pool_wf cp" "cp_length cp = len" "cp_cache cp = None" "1 \<le> i" "i \<le> len" "invalid_at cp 0" "distinct (map fst names)"
    and "\<And>j n. (j, n) \<in> set names \<Longrightarrow> 1 \<le> j \<and> j < i \<and> legal_symbol n \<and> invalid_at cp j"
    and "\<And>j. 1 \<le> j \<Longrightarrow> j < i \<Longrightarrow> j \<in> fst ` set names \<or> filled cp j"
    and "\<And>j. wide_at cp j \<Longrightarrow> j + 1 < i \<and> invalid_at cp (j + 1) \<and> j + 1 \<notin> fst ` set names"
    and "\<And>j. i \<le> j \<Longrightarrow> j < len \<Longrightarrow> invalid_at cp j"
  shows "parsed len i cp names"
  unfolding parsed_def using assms by blast

text \<open>An entry is stored at the current index.\<close>

lemma parsed_store:
  assumes p: "parsed len i cp names" and e: "raw_entry t s" and n: "n = (if t \<in> wide_tags then 2 else 1)" "i + n \<le> len"
    and put: "entry_at_put i t s cp = Inr cp'"
  shows "parsed len (i + n) cp' names"
proof -
  note f = parsed_facts [OF p]
  have i: "1 \<le> i" "i < len" using f n by (auto split: if_splits)
  note st = entry_at_put_Inr [OF put] and same = same_except_facts [OF entry_at_put_Inr(3) [OF put]]
  have t: "t \<noteq> JVM_CONSTANT_Invalid" using e by (auto simp: raw_entry_def pair_tags_def index_tags_def wide_tags_def tag_values)
  have names: "1 \<le> j \<and> j < i + n \<and> legal_symbol m \<and> invalid_at cp' j" if "(j, m) \<in> set names" for j m
    using f(4) [OF that] same(1) [of j] n by (auto split: if_splits)
  have here: "filled cp' i" using st e by (auto simp: filled_def)
  have wide: "wide_at cp' i \<longleftrightarrow> t \<in> wide_tags" using st by (auto simp: wide_at_def)
  have old: "filled cp' j" if "filled cp j" "1 \<le> j" "j < i" for j using filled_other [OF st(3)] that by auto
  have new: "filled cp' (i + 1)" if "t \<in> wide_tags"
  proof -
    have "invalid_at cp' (i + 1)" using f(3) [of "i + 1"] same(1) [of "i + 1"] n that i by auto
    moreover have "\<exists>s. slot_at (i + 1) cp' = Inr s"
      using calculation p st(3) by (auto simp: invalid_at_def tag_at_def slot_at_def arr_get_def parsed_def same_except_def pool_wf_def split: if_splits)
    ultimately show ?thesis using wide that by (auto simp: filled_def invalid_at_def)
  qed
  have fill: "j \<in> fst ` set names \<or> filled cp' j" if "1 \<le> j" "j < i + n" for j
  proof -
    have "j < i \<or> j = i \<or> j = i + 1 \<and> t \<in> wide_tags" using that n by (auto split: if_splits)
    then show ?thesis using f(1) [of j] old here new that(1) by auto
  qed
  have w: "j + 1 < i + n \<and> invalid_at cp' (j + 1) \<and> j + 1 \<notin> fst ` set names" if "wide_at cp' j" for j
  proof (cases "j = i")
    case True
    have "i + 1 \<notin> fst ` set names" using f(4) by fastforce
    then show ?thesis using True that wide n f(3) [of "i + 1"] same(1) [of "i + 1"] by auto
  next
    case False
    then have "j + 1 < i \<and> invalid_at cp (j + 1) \<and> j + 1 \<notin> fst ` set names" using f(2) that same(2) [of j] by auto
    then show ?thesis using same(1) [of "j + 1"] n by (auto split: if_splits)
  qed
  have rest: "invalid_at cp' j" if "i + n \<le> j" "j < len" for j
    using f(3) [of j] same(1) [of j] that n by (auto split: if_splits)
  have "pool_wf cp' \<and> cp_length cp' = len \<and> cp_cache cp' = None" using st(3) p by (auto simp: same_except_def parsed_def)
  then show ?thesis using names fill w rest f(5,6) same(1) [of 0] i n unfolding parsed_def by (auto split: if_splits)
qed

text \<open>A name is kept for the next batch, and the batch is stored.\<close>

lemma parsed_pend:
  assumes p: "parsed len i cp names" "i < len" "legal_symbol n"
  shows "parsed len (i + 1) cp (names @ [(i, n)])"
proof -
  note f = parsed_facts [OF p(1)]
  have d: "i \<notin> fst ` set names" using f(4) by fastforce
  have fill: "j \<in> fst ` set (names @ [(i, n)]) \<or> filled cp j" if "1 \<le> j" "j < i + 1" for j
    using f(1) [of j] that by (cases "j = i") auto
  have wide: "j + 1 < i + 1 \<and> invalid_at cp (j + 1) \<and> j + 1 \<notin> fst ` set (names @ [(i, n)])" if "wide_at cp j" for j
    using f(2) [OF that] by auto
  have all: "1 \<le> j \<and> j < i + 1 \<and> legal_symbol m \<and> invalid_at cp j" if "(j, m) \<in> set (names @ [(i, n)])" for j m
    using that f(4) [of j m] f(3) [of i] f(7) p by auto
  have "pool_wf cp" "cp_length cp = len" "cp_cache cp = None" using p(1) by (auto simp: parsed_def)
  then show ?thesis using p(2) f(3,5,6,7) d by (intro parsedI fill wide all) auto
qed

lemma parsed_symbol:
  assumes p: "parsed len i cp ((j, n) # names)" and put: "symbol_at_put j n cp = Inr cp'"
  shows "parsed len i cp' names"
proof -
  note f = parsed_facts [OF p]
  note st = entry_at_put_Inr [OF put [unfolded symbol_at_put_def]]
  note same = same_except_facts [OF st(3)]
  have j: "1 \<le> j" "j < i" "legal_symbol n" "invalid_at cp j" "j \<notin> fst ` set names" using f(4) [of j n] f(6) by auto
  have wj: "\<not> wide_at cp j" "\<not> wide_at cp' j" using j(4) st(1) by (auto simp: wide_at_def invalid_at_def wide_tags_def tag_values)
  have fill: "k \<in> fst ` set names \<or> filled cp' k" if "1 \<le> k" "k < i" for k
  proof (cases "k = j")
    case True
    then show ?thesis using st(1,2) j(3) by (auto simp: filled_def raw_entry_def)
  next
    case False
    have "filled cp' k" if k: "filled cp k" using k same(3,4) [OF False] same(2) [of "k - 1"] wj
      by (cases "k - 1 = j") (auto simp: filled_def)
    then show ?thesis using f(1) [OF that] False by auto
  qed
  have w: "k + 1 < i \<and> invalid_at cp' (k + 1) \<and> k + 1 \<notin> fst ` set names" if "wide_at cp' k" for k
  proof -
    have "k \<noteq> j" using wj that by auto
    then have "k + 1 < i \<and> invalid_at cp (k + 1) \<and> k + 1 \<notin> fst ` set ((j, n) # names)" using f(2) that same(2) by auto
    then show ?thesis using same(1) [of "k + 1"] by auto
  qed
  have names: "1 \<le> k \<and> k < i \<and> legal_symbol m \<and> invalid_at cp' k" if "(k, m) \<in> set names" for k m
  proof -
    have "k \<noteq> j" using that j(5) by force
    then show ?thesis using f(4) [of k m] that same(1) [of k] by auto
  qed
  have rest: "invalid_at cp' k" if "i \<le> k" "k < len" for k using f(3) [OF that] same(1) [of k] j that by auto
  have "pool_wf cp' \<and> cp_length cp' = len \<and> cp_cache cp' = None" using st(3) p by (auto simp: same_except_def parsed_def)
  then show ?thesis using names fill w rest f same(1) [of 0] j unfolding parsed_def by auto
qed

lemma parsed_flush: "parsed len i cp names \<Longrightarrow> \<exists>cp'. new_symbols names cp = Inr cp' \<and> parsed len i cp' []"
  unfolding new_symbols_def
proof (induction names arbitrary: cp)
  case (Cons a names)
  obtain j n where a: "a = (j, n)" by fastforce
  have "1 \<le> j" "j < i" "i \<le> len" using parsed_facts(4) [OF Cons.prems, of j n] parsed_facts(8) [OF Cons.prems] a by auto
  then obtain cp1 where cp1: "symbol_at_put j n cp = Inr cp1" unfolding symbol_at_put_def by (metis pool_put Cons.prems order_less_le_trans zero_le_one order_trans)
  then have "parsed len i cp1 names" using parsed_symbol Cons.prems a by simp
  then show ?case using Cons.IH cp1 a by simp
qed simp

section \<open>Reading\<close>

definition input_ok :: "int \<Rightarrow> ClassFileStream \<Rightarrow> bool" where
  "input_ok n s \<longleftrightarrow> has_more n s \<and> length (cfs_buffer s) < 2 ^ 31"

lemma more_checks: "input_ok 0 s \<Longrightarrow> 0 \<le> n \<Longrightarrow> n < 2 ^ 32 \<Longrightarrow> checks (\<lambda>_. input_ok n s) (guarantee_more n s)"
  by (simp add: input_ok_def guarantee_more_eq truncated_file_error_def)

lemma stream_mono: "input_ok n s \<Longrightarrow> m \<le> n \<Longrightarrow> input_ok m s"
  by (auto simp: input_ok_def has_more_def)

lemma stream_advanced: "input_ok n s \<Longrightarrow> advanced k s s' \<Longrightarrow> 0 \<le> k \<Longrightarrow> input_ok (n - k) s'"
  by (auto simp: input_ok_def has_more_def advanced_def)

lemma u1_checks: "input_ok n s \<Longrightarrow> 1 \<le> n \<Longrightarrow> checks (\<lambda>(v, s'). 0 \<le> v \<and> v < 256 \<and> input_ok (n - 1) s') (get_u1_fast s)"
  using u1_read [of s] stream_mono [of n s 1] stream_advanced [of n s 1] by (auto simp: input_ok_def)

lemma u2_checks: "input_ok n s \<Longrightarrow> 2 \<le> n \<Longrightarrow> checks (\<lambda>(v, s'). u2_index v \<and> input_ok (n - 2) s') (get_u2_fast s)"
  using u2_read [of s] stream_mono [of n s 2] stream_advanced [of n s 2] by (auto simp: input_ok_def u2_index_def)

lemma u4_checks: "input_ok n s \<Longrightarrow> 4 \<le> n \<Longrightarrow> checks (\<lambda>(v, s'). input_ok (n - 4) s') (get_u4_fast s)"
  using u4_read [of s] stream_mono [of n s 4] stream_advanced [of n s 4] by (auto simp: input_ok_def)

lemma u8_checks: "input_ok n s \<Longrightarrow> 8 \<le> n \<Longrightarrow> checks (\<lambda>(v, s'). input_ok (n - 8) s') (get_u8_fast s)"
  using u8_read [of s] stream_mono [of n s 8] stream_advanced [of n s 8] by (auto simp: input_ok_def)

definition state_ok :: "int \<Rightarrow> int \<Rightarrow> parse_state \<Rightarrow> bool" where
  "state_ok len i ps \<longleftrightarrow> parsed len i (ps_cp ps) (ps_names ps) \<and> input_ok 1 (ps_stream ps)"

lemma put_checks:
  assumes "parsed len i (ps_cp ps) (ps_names ps)" "raw_entry t s" "i + (if t \<in> wide_tags then 2 else 1) \<le> len" "input_ok 1 cfs"
    and "\<And>cp. store cp = entry_at_put i t s cp"
  shows "checks (state_ok len (i + (if t \<in> wide_tags then 2 else 1))) (put_entry store ps cfs)"
proof -
  have "0 \<le> i" "i < len" using parsed_facts(7) [OF assms(1)] assms(3) by (auto split: if_splits)
  then obtain cp' where cp': "entry_at_put i t s (ps_cp ps) = Inr cp'" using pool_put [OF assms(1)] by metis
  then have "parsed len (i + (if t \<in> wide_tags then 2 else 1)) cp' (ps_names ps)" by (intro parsed_store [OF assms(1,2) refl assms(3)])
  then show ?thesis using cp' assms(4,5) by (simp add: put_entry_def state_ok_def)
qed

lemmas narrow_tags = wide_tags_def pair_tags_def index_tags_def tag_values

lemma put_narrow:
  assumes "parsed len i (ps_cp ps) (ps_names ps)" "raw_entry t s" "t \<notin> wide_tags" "i < len" "input_ok 1 cfs"
    and "\<And>cp. store cp = entry_at_put i t s cp"
  shows "checks (state_ok len (i + 1)) (put_entry store ps cfs)"
  using put_checks [OF assms(1,2) _ assms(5,6)] assms(3,4) by simp

lemma raw_pair: "t \<in> pair_tags \<Longrightarrow> u2_index h \<Longrightarrow> u2_index l \<Longrightarrow> raw_entry t (Slot_Int (pack_indices h l)) \<and> t \<notin> wide_tags"
  by (auto simp: raw_entry_def narrow_tags)

lemma put_pair:
  assumes "parsed len i (ps_cp ps) (ps_names ps)" "i < len" "t \<in> pair_tags" "u2_index l"
    and "\<And>h cp. store h cp = entry_at_put i t (Slot_Int (pack_indices h l)) cp"
  shows "u2_index h \<Longrightarrow> input_ok 1 cfs \<Longrightarrow> checks (state_ok len (i + 1)) (put_entry (store h) ps cfs)"
  using raw_pair [OF assms(3) _ assms(4), of h] assms(1,2,5) by (auto intro!: put_narrow)

lemma raw_index: "t \<in> index_tags \<Longrightarrow> u2_index i \<Longrightarrow> raw_entry t (Slot_Int (word_of_int i)) \<and> t \<notin> wide_tags"
  by (auto simp: raw_entry_def narrow_tags)

lemma parse_index_checks:
  assumes "parsed len i (ps_cp ps) (ps_names ps)" "i < len" "input_ok 0 cfs" "t \<in> index_tags"
    and "\<And>j cp. store j cp = entry_at_put i t (Slot_Int (word_of_int j)) cp"
  shows "checks (state_ok len (i + 1)) (parse_index store cfs ps)"
  unfolding parse_index_def
proof (rule checks_bind [OF more_checks [OF assms(3)]])
  assume "input_ok 3 cfs"
  then show "checks (state_ok len (i + 1)) (rbind (get_u2_fast cfs) (\<lambda>(j, cfs). put_entry (store j) ps cfs))"
    using raw_index [OF assms(4)] assms(1,2,5) by (intro checks_bind [OF u2_checks]) (auto intro!: put_narrow)
qed simp_all

lemma parse_indices_checks:
  assumes "parsed len i (ps_cp ps) (ps_names ps)" "i < len" "input_ok 0 cfs" "t \<in> pair_tags"
    and "\<And>j k cp. store j k cp = entry_at_put i t (Slot_Int (pack_indices k j)) cp"
  shows "checks (state_ok len (i + 1)) (parse_indices store cfs ps)"
  unfolding parse_indices_def
proof (rule checks_bind [OF more_checks [OF assms(3)]])
  assume "input_ok 5 cfs"
  then show "checks (state_ok len (i + 1)) (rbind (get_u2_fast cfs) (\<lambda>(j, cfs). rbind (get_u2_fast cfs) (\<lambda>(k, cfs). put_entry (store j k) ps cfs)))"
  proof (rule checks_bind [OF u2_checks], simp, clarify)
    fix j cfs1 assume j: "u2_index j" "input_ok (5 - 2) cfs1"
    show "checks (state_ok len (i + 1)) (rbind (get_u2_fast cfs1) (\<lambda>(k, cfs). put_entry (store j k) ps cfs))"
      using raw_pair [OF assms(4) _ j(1)] assms(1,2,5) j(2) by (intro checks_bind [OF u2_checks [OF j(2)]]) (auto intro!: put_narrow)
  qed
qed simp_all

lemma parse_word_checks:
  assumes "parsed len i (ps_cp ps) (ps_names ps)" "i < len" "input_ok 0 cfs" "t \<in> {JVM_CONSTANT_Integer, JVM_CONSTANT_Float}"
    and "\<And>w cp. store w cp = entry_at_put i t (Slot_Int w) cp"
  shows "checks (state_ok len (i + 1)) (parse_word store cfs ps)"
  unfolding parse_word_def
proof (rule checks_bind [OF more_checks [OF assms(3)]])
  have t: "raw_entry t (Slot_Int w)" "t \<notin> wide_tags" for w using assms(4) by (auto simp: raw_entry_def narrow_tags)
  assume "input_ok 5 cfs"
  then show "checks (state_ok len (i + 1)) (rbind (get_u4_fast cfs) (\<lambda>(w, cfs). put_entry (store (word_of_int w)) ps cfs))"
    using t assms(1,2,5) by (intro checks_bind [OF u4_checks]) (auto intro!: put_narrow)
qed simp_all

lemma parse_long_checks:
  assumes "parsed len i (ps_cp ps) (ps_names ps)" "input_ok 0 cfs" "t \<in> wide_tags"
    and "\<And>w cp. store w cp = entry_at_put i t (Slot_Bits w) cp"
  shows "checks (state_ok len (i + 2)) (parse_long store (i + 1 < len) cfs ps)"
  unfolding parse_long_def
proof (rule checks_bind [OF guarantee_checks], rule checks_bind [OF more_checks [OF assms(2)]])
  have t: "raw_entry t (Slot_Bits w)" for w using assms(3) by (auto simp: raw_entry_def)
  assume i: "i + 1 < len" and "input_ok 9 cfs"
  have "checks (state_ok len (i + 2)) (put_entry (store w) ps cfs1)" if "input_ok 1 cfs1" for w cfs1
    using put_checks [OF assms(1) t [of w] _ that, of "store w"] assms(3,4) i by simp
  then show "checks (state_ok len (i + 2)) (rbind (get_u8_fast cfs) (\<lambda>(w, cfs). put_entry (store (word_of_int w)) ps cfs))"
    using \<open>input_ok 9 cfs\<close> by (intro checks_bind [OF u8_checks]) auto
qed simp_all

lemma parse_method_handle_checks:
  assumes "parsed len i (ps_cp ps) (ps_names ps)" "i < len" "input_ok 0 cfs"
  shows "checks (state_ok len (i + 1)) (parse_method_handle i cfs ps)"
  unfolding parse_method_handle_def
proof (rule checks_bind [OF more_checks [OF assms(3)]])
  assume "input_ok 4 cfs"
  then show "checks (state_ok len (i + 1)) (rbind (get_u1_fast cfs) (\<lambda>(k, cfs). rbind (get_u2_fast cfs) (\<lambda>(m, cfs).
      put_entry (method_handle_index_at_put i k m) ps cfs)))"
  proof (rule checks_bind [OF u1_checks], simp, clarify)
    fix k :: int and cfs1 assume k: "0 \<le> k" "k < 256" "input_ok (4 - 1) cfs1"
    have "u2_index k" using k by (simp add: u2_index_def)
    then have "u2_index m \<Longrightarrow> input_ok 1 cfs \<Longrightarrow> checks (state_ok len (i + 1)) (put_entry (method_handle_index_at_put i k m) ps cfs)" for m cfs
      using assms(1,2) by (intro put_pair) (auto simp: method_handle_index_at_put_def pair_tags_def)
    then show "checks (state_ok len (i + 1)) (rbind (get_u2_fast cfs1) (\<lambda>(m, cfs). put_entry (method_handle_index_at_put i k m) ps cfs))"
      by (intro checks_bind [OF u2_checks [OF k(3)]]) auto
  qed
qed simp_all

lemma parse_invoke_dynamic_checks:
  assumes "parsed len i (ps_cp ps) (ps_names ps)" "i < len" "input_ok 0 cfs"
  shows "checks (state_ok len (i + 1)) (parse_invoke_dynamic i cfs ps)"
  unfolding parse_invoke_dynamic_def
proof (rule checks_bind [OF more_checks [OF assms(3)]])
  assume "input_ok 5 cfs"
  then show "checks (state_ok len (i + 1)) (rbind (get_u2_fast cfs) (\<lambda>(b, cfs). rbind (get_u2_fast cfs) (\<lambda>(nt, cfs).
      put_entry (invoke_dynamic_at_put i b nt) (ps\<lparr>ps_max_bootstrap := max (ps_max_bootstrap ps) b\<rparr>) cfs)))"
  proof (rule checks_bind [OF u2_checks], simp, clarify)
    fix b cfs1 assume b: "u2_index b" "input_ok (5 - 2) cfs1"
    let ?ps = "ps\<lparr>ps_max_bootstrap := max (ps_max_bootstrap ps) b\<rparr>"
    have "u2_index nt \<Longrightarrow> input_ok 1 cfs \<Longrightarrow> checks (state_ok len (i + 1)) (put_entry (invoke_dynamic_at_put i b nt) ?ps cfs)" for nt cfs
      using assms(1,2) b(1) by (intro put_pair) (auto simp: invoke_dynamic_at_put_def pair_tags_def)
    then show "checks (state_ok len (i + 1)) (rbind (get_u2_fast cfs1) (\<lambda>(nt, cfs). put_entry (invoke_dynamic_at_put i b nt) ?ps cfs))"
      by (intro checks_bind [OF u2_checks [OF b(2)]]) auto
  qed
qed simp_all

lemma add_name_checks:
  assumes p: "parsed len i (ps_cp ps) (ps_names ps)" "i < len" and s: "input_ok 1 cfs" and n: "legal_symbol n"
  shows "checks (state_ok len (i + 1)) (add_name cfp i n cfs ps)"
proof -
  have known: "checks (state_ok len (i + 1)) (put_entry (symbol_at_put i n) ps cfs)"
    using p s n by (intro put_narrow [OF p(1)]) (auto simp: raw_entry_def narrow_tags symbol_at_put_def)
  note pend = parsed_pend [OF p n]
  obtain cp' where "new_symbols (ps_names ps @ [(i, n)]) (ps_cp ps) = Inr cp'" "parsed len (i + 1) cp' []"
    using parsed_flush [OF pend] by blast
  then show ?thesis using known pend s by (simp add: add_name_def Let_def put_entry_def state_ok_def)
qed

lemma utf8_legal:
  assumes "47 < cfp_major_version cfp" "n \<le> length buffer" "n < 65536"
  shows "checks (\<lambda>_. legal_symbol (take n buffer)) (verify_legal_utf8 cfp buffer n)"
  using legal_utf8_eq [OF assms(1,2)] zero_bytes assms(3) by (auto simp: legal_symbol_def)

lemma parse_utf8_checks:
  assumes p: "parsed len i (ps_cp ps) (ps_names ps)" "i < len" and s: "input_ok 0 cfs"
    and c: "cfp_need_verify cfp" "47 < cfp_major_version cfp"
  shows "checks (state_ok len (i + 1)) (parse_utf8 cfp i cfs ps)"
  unfolding parse_utf8_def
proof (rule checks_bind [OF more_checks [OF s]])
  assume "input_ok 2 cfs"
  then show "checks (state_ok len (i + 1)) (rbind (get_u2_fast cfs) (\<lambda>(n, cfs). let buffer = drop (nat (cfs_current cfs)) (cfs_buffer cfs) in
     rbind (guarantee_more (n + 1) cfs) (\<lambda>_. let cfs = skip_u1_fast n cfs in
     rbind (if cfp_need_verify cfp then verify_legal_utf8 cfp buffer (nat n) else Inr ()) (\<lambda>_.
     add_name cfp i (take (nat n) buffer) cfs ps))))"
  proof (rule checks_bind [OF u2_checks], simp, clarify)
    fix n cfs1 assume n: "u2_index n" "input_ok (2 - 2) cfs1"
    let ?buffer = "drop (nat (cfs_current cfs1)) (cfs_buffer cfs1)"
    have "checks (state_ok len (i + 1)) (rbind (verify_legal_utf8 cfp ?buffer (nat n)) (\<lambda>_. add_name cfp i (take (nat n) ?buffer) (skip_u1_fast n cfs1) ps))"
      if "input_ok (n + 1) cfs1"
    proof (rule checks_bind [OF utf8_legal [OF c(2)]])
      show "nat n \<le> length ?buffer" "nat n < 65536" using that n by (auto simp: input_ok_def has_more_def u2_index_def)
      assume "legal_symbol (take (nat n) ?buffer)"
      then show "checks (state_ok len (i + 1)) (add_name cfp i (take (nat n) ?buffer) (skip_u1_fast n cfs1) ps)"
        using that n by (intro add_name_checks [OF p]) (auto simp: input_ok_def has_more_def u2_index_def skip_u1_fast_def)
    qed
    then show "checks (state_ok len (i + 1)) (let buffer = ?buffer in rbind (guarantee_more (n + 1) cfs1) (\<lambda>_. let cfs = skip_u1_fast n cfs1 in
     rbind (if cfp_need_verify cfp then verify_legal_utf8 cfp buffer (nat n) else Inr ()) (\<lambda>_. add_name cfp i (take (nat n) buffer) cfs ps)))"
      using n c(1) unfolding Let_def by (intro checks_bind [OF more_checks]) (auto simp: u2_index_def)
  qed
qed simp_all

lemma dynamic_checks: "checks (\<lambda>_. True) (check_dynamic_tag cfp)"
  by (simp add: check_dynamic_tag_def)

lemma one_checks: "checks P r \<Longrightarrow> checks (\<lambda>(two, x). P x \<and> \<not> two) (rbind r (\<lambda>x. Inr (False, x)))"
  by (rule checks_bind) auto

lemma two_checks: "checks P r \<Longrightarrow> checks (\<lambda>(two, x). P x \<and> two) (rbind r (\<lambda>x. Inr (True, x)))"
  by (rule checks_bind) auto

lemma parse_entry_checks:
  assumes s: "state_ok len i ps" "i < len" and c: "cfp_need_verify cfp" "47 < cfp_major_version cfp"
  shows "checks (\<lambda>(two, ps). state_ok len (i + (if two then 2 else 1)) ps) (parse_entry cfp len i ps)"
proof -
  have p: "parsed len i (ps_cp ps) (ps_names ps)" and "input_ok 1 (ps_stream ps)" using s(1) by (auto simp: state_ok_def)
  let ?Q = "\<lambda>(two, ps). state_ok len (i + (if two then 2 else 1)) ps"
  have one: "checks (state_ok len (i + 1)) r \<Longrightarrow> checks ?Q (rbind r (\<lambda>ps. Inr (False, ps)))" for r
    by (erule checks_mono [OF one_checks]) auto
  have two: "checks (state_ok len (i + 2)) r \<Longrightarrow> checks ?Q (rbind r (\<lambda>ps. Inr (True, ps)))" for r
    by (erule checks_mono [OF two_checks]) auto
  have dyn: "checks (state_ok len (i + 1)) r \<Longrightarrow> checks (state_ok len (i + 1)) (rbind (check_dynamic_tag cfp) (\<lambda>_. r))" for r
    by (rule checks_bind [OF dynamic_checks])
  show ?thesis unfolding parse_entry_def Let_def
  proof (rule checks_bind [OF u1_checks [OF \<open>input_ok 1 (ps_stream ps)\<close>]], simp, clarify)
    fix tag cfs assume "input_ok (1 - 1) cfs"
    then have z: "input_ok 0 cfs" by simp
    note idx = parse_index_checks [OF p s(2) z] and pair = parse_indices_checks [OF p s(2) z] and word = parse_word_checks [OF p s(2) z]
      and long = parse_long_checks [OF p z] and kinds = parse_method_handle_checks [OF p s(2) z] parse_invoke_dynamic_checks [OF p s(2) z]
        parse_utf8_checks [OF p s(2) z c]
    have a: "checks (state_ok len (i + 1)) (parse_index (klass_index_at_put i) cfs ps)"
        "checks (state_ok len (i + 1)) (parse_index (string_index_at_put i) cfs ps)"
        "checks (state_ok len (i + 1)) (parse_index (method_type_index_at_put i) cfs ps)"
      by (rule idx, auto simp: index_tags_def pool_unfold)+
    have b: "checks (state_ok len (i + 1)) (parse_indices (field_at_put i) cfs ps)" "checks (state_ok len (i + 1)) (parse_indices (method_at_put i) cfs ps)"
        "checks (state_ok len (i + 1)) (parse_indices (interface_method_at_put i) cfs ps)"
        "checks (state_ok len (i + 1)) (parse_indices (name_and_type_at_put i) cfs ps)"
      by (rule pair, auto simp: pair_tags_def pool_unfold)+
    have w: "checks (state_ok len (i + 1)) (parse_word (int_at_put i) cfs ps)" "checks (state_ok len (i + 1)) (parse_word (float_at_put i) cfs ps)"
      by (rule word, auto simp: pool_unfold)+
    have l: "checks (state_ok len (i + 2)) (parse_long (long_at_put i) (i + 1 < len) cfs ps)"
        "checks (state_ok len (i + 2)) (parse_long (double_at_put i) (i + 1 < len) cfs ps)"
      by (rule long, auto simp: pool_unfold wide_tags_def)+
    show "checks ?Q
      (if tag = JVM_CONSTANT_Class then rbind (parse_index (klass_index_at_put i) cfs ps) (\<lambda>ps. Inr (False, ps))
       else if tag = JVM_CONSTANT_Fieldref then rbind (parse_indices (field_at_put i) cfs ps) (\<lambda>ps. Inr (False, ps))
       else if tag = JVM_CONSTANT_Methodref then rbind (parse_indices (method_at_put i) cfs ps) (\<lambda>ps. Inr (False, ps))
       else if tag = JVM_CONSTANT_InterfaceMethodref then rbind (parse_indices (interface_method_at_put i) cfs ps) (\<lambda>ps. Inr (False, ps))
       else if tag = JVM_CONSTANT_String then rbind (parse_index (string_index_at_put i) cfs ps) (\<lambda>ps. Inr (False, ps))
       else if tag = JVM_CONSTANT_MethodHandle
         then rbind (rbind (check_dynamic_tag cfp) (\<lambda>_. parse_method_handle i cfs ps)) (\<lambda>ps. Inr (False, ps))
       else if tag = JVM_CONSTANT_MethodType
         then rbind (rbind (check_dynamic_tag cfp) (\<lambda>_. parse_index (method_type_index_at_put i) cfs ps)) (\<lambda>ps. Inr (False, ps))
       else if tag = JVM_CONSTANT_InvokeDynamic
         then rbind (rbind (check_dynamic_tag cfp) (\<lambda>_. parse_invoke_dynamic i cfs ps)) (\<lambda>ps. Inr (False, ps))
       else if tag = JVM_CONSTANT_Integer then rbind (parse_word (int_at_put i) cfs ps) (\<lambda>ps. Inr (False, ps))
       else if tag = JVM_CONSTANT_Float then rbind (parse_word (float_at_put i) cfs ps) (\<lambda>ps. Inr (False, ps))
       else if tag = JVM_CONSTANT_Long then rbind (parse_long (long_at_put i) (i + 1 < len) cfs ps) (\<lambda>ps. Inr (True, ps))
       else if tag = JVM_CONSTANT_Double then rbind (parse_long (double_at_put i) (i + 1 < len) cfs ps) (\<lambda>ps. Inr (True, ps))
       else if tag = JVM_CONSTANT_NameAndType then rbind (parse_indices (name_and_type_at_put i) cfs ps) (\<lambda>ps. Inr (False, ps))
       else if tag = JVM_CONSTANT_Utf8 then rbind (parse_utf8 cfp i cfs ps) (\<lambda>ps. Inr (False, ps))
       else classfile_parse_error ''Unknown constant tag %u in class file %s'')"
      by (simp only: one [OF a(1)] one [OF a(2)] one [OF dyn [OF a(3)]] one [OF b(1)] one [OF b(2)] one [OF b(3)] one [OF b(4)]
          one [OF w(1)] one [OF w(2)] two [OF l(1)] two [OF l(2)] one [OF dyn [OF kinds(1)]] one [OF dyn [OF kinds(2)]] one [OF kinds(3)]
          checks_simps if_True if_False split: if_split) simp
  qed
qed

lemma parse_loop_checks:
  assumes "state_ok len i ps" "cfp_need_verify cfp" "47 < cfp_major_version cfp"
  shows "checks (state_ok len len) (parse_entries_loop cfp len i ps)"
  using assms(1)
proof (induction "nat (len - i)" arbitrary: i ps rule: less_induct)
  case less
  have "i \<le> len" using less.prems parsed_facts(8) by (auto simp: state_ok_def)
  show ?case
  proof (cases "i < len")
    case True
    have "checks (state_ok len len) (rbind (parse_entry cfp len i ps) (\<lambda>(two, ps). parse_entries_loop cfp len (i + (if two then 2 else 1)) ps))"
    proof (rule checks_bind [OF parse_entry_checks [OF less.prems True assms(2,3)]], clarify)
      fix two ps' assume "state_ok len (i + (if two then 2 else 1)) ps'"
      then show "checks (state_ok len len) (parse_entries_loop cfp len (i + (if two then 2 else 1)) ps')" using True by (intro less.hyps) auto
    qed
    then show ?thesis using True by (subst parse_entries_loop.simps) simp
  next
    case False
    then show ?thesis using \<open>i \<le> len\<close> less.prems by (subst parse_entries_loop.simps) simp
  qed
qed

lemma parse_entries_checks:
  assumes "state_ok len 1 ps" "cfp_need_verify cfp" "47 < cfp_major_version cfp"
  shows "checks (\<lambda>ps. parsed len len (ps_cp ps) [] \<and> input_ok 1 (ps_stream ps)) (parse_constant_pool_entries cfp len ps)"
  unfolding parse_constant_pool_entries_def
proof (rule checks_bind [OF parse_loop_checks [OF assms]])
  fix ps' assume s: "state_ok len len ps'"
  obtain cp' where "new_symbols (ps_names ps') (ps_cp ps') = Inr cp'" "parsed len len cp' []"
    using parsed_flush [of len len "ps_cp ps'" "ps_names ps'"] s by (auto simp: state_ok_def)
  then show "checks (\<lambda>ps. parsed len len (ps_cp ps) [] \<and> input_ok 1 (ps_stream ps))
     (if length (ps_names ps') > 0 then put_entry (new_symbols (ps_names ps')) (ps'\<lparr>ps_names := []\<rparr>) (ps_stream ps') else Inr ps')"
    using s by (auto simp: put_entry_def state_ok_def)
qed

end
