(* ===== verification/Checked_Pool.thy ===== *)
theory Checked_Pool
  imports Parsed_Pool
begin

text \<open>
  The two passes over a parsed constant pool.  The first pass leaves every reference within the pool and of the
  right kind; the second pass makes the names and descriptors legal.  Together they give what the verifier relies on.
\<close>

section \<open>The first pass\<close>

definition klassish :: "constantTag \<Rightarrow> bool" where
  "klassish t \<longleftrightarrow> t = JVM_CONSTANT_ClassIndex \<or> t = JVM_CONSTANT_UnresolvedClass"

definition member_tags :: "constantTag set" where
  "member_tags = {JVM_CONSTANT_Fieldref, JVM_CONSTANT_Methodref, JVM_CONSTANT_InterfaceMethodref}"

text \<open>The references that an entry makes, to tags that the first pass does not change or to a class.\<close>

definition refs_ok :: "ConstantPool \<Rightarrow> constantTag \<Rightarrow> int \<Rightarrow> int \<Rightarrow> bool" where
  "refs_ok cp t h l \<longleftrightarrow>
     (t \<in> member_tags \<longrightarrow> tag_at h cp = Inr JVM_CONSTANT_NameAndType \<and> (\<exists>k. klassish k \<and> tag_at l cp = Inr k)) \<and>
     (t = JVM_CONSTANT_NameAndType \<longrightarrow> tag_at h cp = Inr JVM_CONSTANT_Utf8 \<and> tag_at l cp = Inr JVM_CONSTANT_Utf8) \<and>
     (t = JVM_CONSTANT_InvokeDynamic \<longrightarrow> tag_at h cp = Inr JVM_CONSTANT_NameAndType) \<and>
     (t = JVM_CONSTANT_MethodHandle \<and> l \<in> {5, 6, 7, 8} \<longrightarrow>
        (\<exists>k \<in> {JVM_CONSTANT_Methodref, JVM_CONSTANT_InterfaceMethodref}. tag_at h cp = Inr k))"

definition linked_entry :: "ConstantPool \<Rightarrow> constantTag \<Rightarrow> cp_slot \<Rightarrow> bool" where
  "linked_entry cp t s \<longleftrightarrow>
     t = JVM_CONSTANT_UnresolvedClass \<and> (\<exists>n. s = Slot_Unresolved n \<and> legal_symbol n) \<or>
     t = JVM_CONSTANT_String \<and> (\<exists>n. s = Slot_Symbol n) \<or>
     t = JVM_CONSTANT_MethodType \<and> (\<exists>i. u2_index i \<and> s = Slot_Int (word_of_int i) \<and> tag_at i cp = Inr JVM_CONSTANT_Utf8) \<or>
     t \<in> pair_tags \<and> (\<exists>h l. u2_index h \<and> u2_index l \<and> s = Slot_Int (pack_indices h l) \<and> refs_ok cp t h l) \<or>
     t \<notin> pair_tags \<and> t \<notin> index_tags \<and> raw_entry t s"

definition entry_at :: "ConstantPool \<Rightarrow> int \<Rightarrow> int \<Rightarrow> bool" where
  "entry_at cp k j \<longleftrightarrow> (\<exists>t s. tag_at j cp = Inr t \<and> slot_at j cp = Inr s \<and>
     (t = JVM_CONSTANT_Invalid \<and> wide_at cp (j - 1) \<or> (if j < k then linked_entry cp t s else raw_entry t s)))"

definition pass1_at :: "int \<Rightarrow> int \<Rightarrow> ConstantPool \<Rightarrow> bool" where
  "pass1_at len k cp \<longleftrightarrow> pool_wf cp \<and> cp_length cp = len \<and> cp_cache cp = None \<and> invalid_at cp 0 \<and> 1 \<le> k \<and> \<not> wide_at cp (k - 1) \<and>
     (\<forall>j. 1 \<le> j \<and> j < len \<longrightarrow> entry_at cp k j) \<and> (\<forall>j. wide_at cp j \<longrightarrow> j + 1 < len \<and> invalid_at cp (j + 1))"

lemma parsed_pass1: "parsed len len cp [] \<Longrightarrow> pass1_at len 1 cp"
proof -
  assume p: "parsed len len cp []"
  note f = parsed_facts [OF p]
  have "\<not> wide_at cp 0" using f(5) by (auto simp: wide_at_def invalid_at_def narrow_tags)
  moreover have "entry_at cp 1 j" if "1 \<le> j" "j < len" for j using f(1) [OF that] that by (auto simp: filled_def entry_at_def)
  ultimately show ?thesis using p f unfolding pass1_at_def parsed_def by auto
qed

lemma pass1_facts:
  assumes "pass1_at len k cp"
  shows "cp_cache cp = None" "invalid_at cp 0" "\<And>j. wide_at cp j \<Longrightarrow> j + 1 < len \<and> invalid_at cp (j + 1)"
    "\<And>j. 1 \<le> j \<Longrightarrow> j < len \<Longrightarrow> entry_at cp k j" "1 \<le> k" "\<not> wide_at cp (k - 1)" "pool_wf cp" "cp_length cp = len"
  using assms unfolding pass1_at_def by blast+

lemma pass1_entry_of:
  assumes p: "pass1_at len k cp" and t: "tag_at i cp = Inr t" "t \<noteq> JVM_CONSTANT_Invalid"
  shows "1 \<le> i \<and> i < len" "\<exists>s. slot_at i cp = Inr s \<and> (if i < k then linked_entry cp t s else raw_entry t s)"
proof -
  have "0 \<le> i" "i < len" using t(1) pass1_facts(8) [OF p] by (auto simp: tag_at_def cp_length_def arr_get_def split: if_splits)
  moreover have "i \<noteq> 0" using pass1_facts(2) [OF p] t by (auto simp: invalid_at_def)
  ultimately show i: "1 \<le> i \<and> i < len" by simp
  show "\<exists>s. slot_at i cp = Inr s \<and> (if i < k then linked_entry cp t s else raw_entry t s)"
    using pass1_facts(4) [OF p, of i] i t by (auto simp: entry_at_def)
qed

definition allowed_tags :: "constantTag set" where
  "allowed_tags = {JVM_CONSTANT_Invalid, JVM_CONSTANT_Utf8, JVM_CONSTANT_Integer, JVM_CONSTANT_Float, JVM_CONSTANT_String,
     JVM_CONSTANT_UnresolvedClass} \<union> pair_tags \<union> index_tags \<union> wide_tags"

lemma pass1_tags: "pass1_at len k cp \<Longrightarrow> tag_at i cp = Inr t \<Longrightarrow> t \<in> allowed_tags"
  using pass1_entry_of(2) [of len k cp i t]
  by (cases "t = JVM_CONSTANT_Invalid") (auto simp: allowed_tags_def linked_entry_def raw_entry_def index_tags_def split: if_splits)

lemma pass1_symbol:
  assumes "pass1_at len k cp" "tag_at i cp = Inr JVM_CONSTANT_Utf8"
  shows "\<exists>n. symbol_at i cp = Inr n \<and> legal_symbol n"
  using pass1_entry_of(2) [OF assms]
  by (auto simp: linked_entry_def raw_entry_def narrow_tags symbol_at_def symbol_at_addr_def split: if_splits)

text \<open>Loads of the indices of an entry.\<close>

lemma sint_u2: "u2_index i \<Longrightarrow> sint (word_of_int i :: jint) = i"
  by (simp add: u2_index_def signed_of_int signed_take_bit_int_eq_self)

lemma pair_loads:
  assumes "slot_at i cp = Inr (Slot_Int (pack_indices h l))" "u2_index h" "u2_index l" "cp_cache cp = None" "tag_at i cp = Inr t" "0 \<le> i"
  shows "klass_ref_index_at i cp = Inr l" "name_and_type_ref_index_at i cp = Inr h" "name_ref_index_at i cp = Inr l"
    "signature_ref_index_at i cp = Inr h" "method_handle_index_at i cp = Inr h" "method_handle_ref_kind_at i cp = Inr l"
    "invoke_dynamic_name_and_type_ref_index_at i cp = Inr h"
  using assms
  by (simp_all add: klass_ref_index_at_def impl_klass_ref_index_at_def is_invokedynamic_index_def name_and_type_ref_index_at_def
      impl_name_and_type_ref_index_at_def Let_def invoke_dynamic_name_and_type_ref_index_at_def name_ref_index_at_def signature_ref_index_at_def
      name_and_type_at_def method_handle_index_at_def method_handle_ref_kind_at_def int_at_addr_def extract_low_pack extract_high_pack)

lemma index_loads:
  assumes "slot_at i cp = Inr (Slot_Int (word_of_int n))" "u2_index n"
  shows "klass_index_at i cp = Inr n" "string_index_at i cp = Inr n" "method_type_index_at i cp = Inr n"
  using assms by (simp_all add: klass_index_at_def string_index_at_def method_type_index_at_def int_at_addr_def sint_u2)

text \<open>The tests of an index.\<close>

lemma tag_test_checks:
  assumes "cfp_need_verify cfp" "b \<Longrightarrow> is_within_bounds i cp"
  shows "checks (\<lambda>_. b \<and> (\<exists>t. tag_at i cp = Inr t \<and> test t)) (rbind (tag_test b test i cp) (\<lambda>b. check_property cfp b msg))"
proof (cases b)
  case True
  then have "\<exists>t. tag_at i cp = Inr t" using assms(2) by (simp add: is_within_bounds_def tag_at_def cp_length_def arr_get_def)
  then show ?thesis using assms(1) True by (auto simp: tag_test_def check_property_def guarantee_property_def)
qed (use assms(1) in \<open>simp add: tag_test_def check_property_def guarantee_property_def\<close>)

lemma symbol_index_checks:
  "cfp_need_verify cfp \<Longrightarrow> checks (\<lambda>_. tag_at i cp = Inr JVM_CONSTANT_Utf8) (check_index cfp (valid_symbol_at i cp))"
  unfolding check_index_def valid_symbol_at_def by (rule checks_mono [OF tag_test_checks]) (auto simp: tag_is_utf8_def)

lemma range_bounds: "cp_length cp = len \<Longrightarrow> valid_cp_range i len \<Longrightarrow> is_within_bounds i cp"
  by (simp add: valid_cp_range_def is_within_bounds_def)

lemma name_and_type_index_checks:
  "cfp_need_verify cfp \<Longrightarrow> cp_length cp = len \<Longrightarrow>
   checks (\<lambda>_. tag_at i cp = Inr JVM_CONSTANT_NameAndType) (check_index cfp (valid_name_and_type_at i len cp))"
  unfolding check_index_def valid_name_and_type_at_def
  by (rule checks_mono [OF tag_test_checks]) (auto simp: tag_is_name_and_type_def intro: range_bounds)

lemma klass_reference_tag:
  assumes "pass1_at len k cp" "tag_at i cp = Inr t" "tag_is_klass_or_reference t \<or> tag_is_klass_reference t"
  shows "klassish t"
  using pass1_tags [OF assms(1,2)] assms(3) by (auto simp: allowed_tags_def narrow_tags klassish_def tag_defs)

lemma klass_index_checks:
  assumes "pass1_at len k cp" "cfp_need_verify cfp"
  shows "checks (\<lambda>_. \<exists>t. klassish t \<and> tag_at i cp = Inr t) (check_index cfp (valid_klass_reference_at cfp i cp))"
  unfolding check_index_def valid_klass_reference_at_def
  by (rule checks_mono [OF tag_test_checks [OF assms(2)]]) (auto intro: klass_reference_tag [OF assms(1)] split: if_splits)

section \<open>One entry of the first pass\<close>

lemma raw_pair_slot:
  assumes "pass1_at len k cp" "tag_at k cp = Inr t" "t \<in> pair_tags"
  obtains h l where "slot_at k cp = Inr (Slot_Int (pack_indices h l))" "u2_index h" "u2_index l"
proof -
  have "t \<noteq> JVM_CONSTANT_Invalid" using assms(3) by (auto simp: narrow_tags)
  then obtain s where "slot_at k cp = Inr s" "raw_entry t s" using pass1_entry_of(2) [OF assms(1,2)] by auto
  then show thesis using assms(3) that by (auto simp: raw_entry_def narrow_tags)
qed

lemma raw_index_slot:
  assumes "pass1_at len k cp" "tag_at k cp = Inr t" "t \<in> index_tags"
  obtains i where "slot_at k cp = Inr (Slot_Int (word_of_int i))" "u2_index i"
proof -
  have "t \<noteq> JVM_CONSTANT_Invalid" using assms(3) by (auto simp: narrow_tags)
  then obtain s where "slot_at k cp = Inr s" "raw_entry t s" using pass1_entry_of(2) [OF assms(1,2)] by auto
  then show thesis using assms(3) that by (auto simp: raw_entry_def narrow_tags)
qed

text \<open>Going on without a change of the pool.\<close>

lemma pass1_keep:
  assumes p: "pass1_at len k cp" and t: "tag_at k cp = Inr t" "slot_at k cp = Inr s" "linked_entry cp t s"
  shows "pass1_at len (k + (if t \<in> wide_tags then 2 else 1)) cp"
proof -
  note f = pass1_facts [OF p]
  let ?n = "if t \<in> wide_tags then 2 else 1 :: int"
  have wk: "wide_at cp k \<longleftrightarrow> t \<in> wide_tags" using t by (auto simp: wide_at_def)
  have "\<not> wide_at cp (k + ?n - 1)"
    using wk f(3) [of k] by (auto simp: wide_at_def invalid_at_def narrow_tags add.commute [of 1])
  moreover have "entry_at cp (k + ?n) j" if "1 \<le> j" "j < len" for j
  proof -
    have e: "entry_at cp k j" using f(4) that by blast
    have "j < k \<or> j = k \<or> j = k + 1 \<and> t \<in> wide_tags \<or> k + ?n \<le> j" by auto
    then show ?thesis using e t wk f(3) [of k] by (auto simp: entry_at_def invalid_at_def)
  qed
  ultimately show ?thesis using p unfolding pass1_at_def by auto
qed

text \<open>Going on with a class or a string.\<close>

lemma refs_kept:
  assumes "same_except k cp cp'" "tag_at k cp = Inr t0" "t0 \<in> {JVM_CONSTANT_ClassIndex, JVM_CONSTANT_StringIndex}"
    and "t0 = JVM_CONSTANT_ClassIndex \<longrightarrow> tag_at k cp' = Inr JVM_CONSTANT_UnresolvedClass" and "linked_entry cp t s"
  shows "linked_entry cp' t s"
proof -
  have keep: "tag_at i cp' = Inr u" if "tag_at i cp = Inr u" "\<not> klassish u" "u \<noteq> JVM_CONSTANT_StringIndex" for i u
    using that assms(1-3) by (cases "i = k") (auto simp: same_except_def klassish_def)
  have klass: "\<exists>u'. klassish u' \<and> tag_at i cp' = Inr u'" if "tag_at i cp = Inr u" "klassish u" for i u
    using that assms(1-4) by (cases "i = k") (auto simp: same_except_def klassish_def narrow_tags)
  have "refs_ok cp' t h l" if "refs_ok cp t h l" for h l
    using that keep klass unfolding refs_ok_def by (auto simp: klassish_def tag_values)
  moreover have "tag_at i cp' = Inr JVM_CONSTANT_Utf8" if "tag_at i cp = Inr JVM_CONSTANT_Utf8" for i
    using keep [OF that] by (simp add: klassish_def tag_values)
  ultimately show ?thesis using assms(5) unfolding linked_entry_def by blast
qed

lemma pass1_put:
  assumes p: "pass1_at len k cp" and t: "tag_at k cp = Inr t0" "t0 \<in> {JVM_CONSTANT_ClassIndex, JVM_CONSTANT_StringIndex}"
    and t1: "t0 = JVM_CONSTANT_ClassIndex \<longrightarrow> t = JVM_CONSTANT_UnresolvedClass" "t \<in> {JVM_CONSTANT_UnresolvedClass, JVM_CONSTANT_String}"
    and s: "\<And>cp. linked_entry cp t s"
  shows "checks (pass1_at len (k + 1)) (entry_at_put k t s cp)"
proof -
  note f = pass1_facts [OF p]
  have k: "1 \<le> k" "k < len" using pass1_entry_of(1) [OF p t(1)] t(2) by (auto simp: tag_values)
  obtain cp' where put: "entry_at_put k t s cp = Inr cp'" using entry_laws(1) [OF f(7), of k] f(8) k by (auto simp: is_within_bounds_def)
  note st = entry_at_put_Inr [OF put]
  note same = same_except_facts [OF st(3)]
  have wk: "\<not> wide_at cp k" "\<not> wide_at cp' k" using t st(1) t1(2) by (auto simp: wide_at_def narrow_tags)
  have w: "wide_at cp' j = wide_at cp j" for j using same(2) [of j] wk by (cases "j = k") auto
  have nk: "\<not> invalid_at cp k" using t by (auto simp: invalid_at_def tag_values)
  have link: "linked_entry cp' u v" if "linked_entry cp u v" for u v
    using refs_kept [OF st(3) t(1,2)] t1(1) st(1) that by auto
  have "entry_at cp' (k + 1) j" if "1 \<le> j" "j < len" for j
  proof (cases "j = k")
    case True
    then show ?thesis using st(1,2) s by (auto simp: entry_at_def)
  next
    case False
    then have "j < k + 1 \<longleftrightarrow> j < k" by auto
    then show ?thesis using f(4) [OF that] same(3,4) [OF False] link w by (auto simp: entry_at_def split: if_splits)
  qed
  moreover have "j + 1 < len \<and> invalid_at cp' (j + 1)" if "wide_at cp' j" for j
    using f(3) [of j] that w same(1) [of "j + 1"] nk by (cases "j + 1 = k") auto
  moreover have "invalid_at cp' 0" using f(2) same(1) [of 0] k by auto
  moreover have "pool_wf cp' \<and> cp_length cp' = len \<and> cp_cache cp' = None" using st(3) f by (auto simp: same_except_def)
  ultimately show ?thesis using put wk k unfolding pass1_at_def by auto
qed

lemma pass1_member_checks:
  assumes p: "pass1_at len k cp" and t: "tag_at k cp = Inr t" "t \<in> member_tags" and c: "cfp_need_verify cfp"
    and s: "slot_at k cp = Inr (Slot_Int (pack_indices h l))" "u2_index h" "u2_index l"
  shows "checks (\<lambda>_. refs_ok cp t h l) (pass1_member cfp len k cp)"
proof -
  have k: "0 \<le> k" using pass1_facts(5) [OF p] by simp
  note loads = pair_loads [OF s pass1_facts(1) [OF p] t(1) k]
  have "checks (\<lambda>_. refs_ok cp t h l) (rbind (check_index cfp (valid_klass_reference_at cfp l cp)) (\<lambda>_. check_index cfp (valid_name_and_type_at h len cp)))"
  proof (rule checks_bind [OF klass_index_checks [OF p c]])
    assume "\<exists>t. klassish t \<and> tag_at l cp = Inr t"
    then show "checks (\<lambda>_. refs_ok cp t h l) (check_index cfp (valid_name_and_type_at h len cp))"
      using t(2) by (intro checks_mono [OF name_and_type_index_checks [OF c pass1_facts(8) [OF p]]]) (auto simp: refs_ok_def member_tags_def tag_values)
  qed
  then show ?thesis using c loads by (simp add: pass1_member_def)
qed

lemma pass1_name_and_type_checks:
  assumes p: "pass1_at len k cp" and t: "tag_at k cp = Inr JVM_CONSTANT_NameAndType" and c: "cfp_need_verify cfp"
    and s: "slot_at k cp = Inr (Slot_Int (pack_indices h l))" "u2_index h" "u2_index l"
  shows "checks (\<lambda>_. refs_ok cp JVM_CONSTANT_NameAndType h l) (pass1_name_and_type cfp k cp)"
proof -
  have k: "0 \<le> k" using pass1_facts(5) [OF p] by simp
  note loads = pair_loads [OF s pass1_facts(1) [OF p] t k]
  have "checks (\<lambda>_. refs_ok cp JVM_CONSTANT_NameAndType h l)
      (rbind (check_index cfp (valid_symbol_at l cp)) (\<lambda>_. check_index cfp (valid_symbol_at h cp)))"
  proof (rule checks_bind [OF symbol_index_checks [OF c]])
    assume "tag_at l cp = Inr JVM_CONSTANT_Utf8"
    then show "checks (\<lambda>_. refs_ok cp JVM_CONSTANT_NameAndType h l) (check_index cfp (valid_symbol_at h cp))"
      by (intro checks_mono [OF symbol_index_checks [OF c]]) (auto simp: refs_ok_def member_tags_def tag_values)
  qed
  then show ?thesis using c loads by (simp add: pass1_name_and_type_def)
qed

lemma pass1_invoke_dynamic_checks:
  assumes p: "pass1_at len k cp" and t: "tag_at k cp = Inr JVM_CONSTANT_InvokeDynamic" and c: "cfp_need_verify cfp"
    and s: "slot_at k cp = Inr (Slot_Int (pack_indices h l))" "u2_index h" "u2_index l"
  shows "checks (\<lambda>_. refs_ok cp JVM_CONSTANT_InvokeDynamic h l) (pass1_invoke_dynamic cfp len k cp)"
proof -
  have k: "0 \<le> k" using pass1_facts(5) [OF p] by simp
  have "checks (\<lambda>_. refs_ok cp JVM_CONSTANT_InvokeDynamic h l) (check_index cfp (valid_name_and_type_at h len cp))"
    by (rule checks_mono [OF name_and_type_index_checks [OF c pass1_facts(8) [OF p]]]) (auto simp: refs_ok_def member_tags_def tag_values)
  then show ?thesis using pair_loads(7) [OF s pass1_facts(1) [OF p] t k] by (simp add: pass1_invoke_dynamic_def)
qed

lemma ref_kind_checks:
  "cfp_need_verify cfp \<Longrightarrow> tag_at h cp = Inr u \<Longrightarrow> checks (\<lambda>_. refs_ok cp JVM_CONSTANT_MethodHandle h l) (pass1_ref_kind cfp l u)"
  by (auto simp: pass1_ref_kind_def check_property_def guarantee_property_def refs_ok_def member_tags_def tag_defs tag_values)

lemma pass1_method_handle_checks:
  assumes p: "pass1_at len k cp" and t: "tag_at k cp = Inr JVM_CONSTANT_MethodHandle" and c: "cfp_need_verify cfp"
    and s: "slot_at k cp = Inr (Slot_Int (pack_indices h l))" "u2_index h" "u2_index l"
  shows "checks (\<lambda>_. refs_ok cp JVM_CONSTANT_MethodHandle h l) (pass1_method_handle cfp len k cp)"
proof -
  have k: "0 \<le> k" using pass1_facts(5) [OF p] by simp
  note loads = pair_loads [OF s pass1_facts(1) [OF p] t k]
  show ?thesis
  proof (cases "valid_cp_range h len \<and> cfp_enable_invokedynamic cfp")
    case True
    then obtain u where "tag_at h cp = Inr u" using range_bounds [OF pass1_facts(8) [OF p]]
      by (auto simp: is_within_bounds_def tag_at_def cp_length_def arr_get_def)
    then show ?thesis using True loads ref_kind_checks [OF c, of h cp u l] c
      by (simp add: pass1_method_handle_def check_index_def check_property_def guarantee_property_def)
  next
    case False
    then show ?thesis using loads c by (auto simp: pass1_method_handle_def check_index_def check_property_def guarantee_property_def classfile_parse_error_def)
  qed
qed

lemma pass1_method_type_checks:
  assumes "slot_at k cp = Inr (Slot_Int (word_of_int i))" "u2_index i" "cfp_need_verify cfp"
  shows "checks (\<lambda>_. tag_at i cp = Inr JVM_CONSTANT_Utf8) (pass1_method_type cfp k cp)"
proof -
  have "\<exists>b. valid_symbol_at i cp = Inr b \<and> (b \<longrightarrow> tag_at i cp = Inr JVM_CONSTANT_Utf8)"
    by (auto simp: valid_symbol_at_def tag_test_def is_within_bounds_def tag_at_def cp_length_def arr_get_def tag_is_utf8_def)
  then show ?thesis using index_loads(3) [OF assms(1,2)] assms(3)
    by (auto simp: pass1_method_type_def check_index_def check_property_def guarantee_property_def)
qed

lemma pass1_class_checks:
  assumes p: "pass1_at len k cp" and t: "tag_at k cp = Inr JVM_CONSTANT_ClassIndex" and c: "cfp_need_verify cfp"
  shows "checks (pass1_at len (k + 1)) (pass1_class cfp k cp)"
proof -
  obtain i where i: "slot_at k cp = Inr (Slot_Int (word_of_int i))" "u2_index i" using raw_index_slot [OF p t] by (auto simp: index_tags_def)
  have "checks (pass1_at len (k + 1)) (rbind (check_index cfp (valid_symbol_at i cp)) (\<lambda>_. rbind (symbol_at i cp) (\<lambda>s. unresolved_klass_at_put k s cp)))"
  proof (rule checks_bind [OF symbol_index_checks [OF c]])
    assume "tag_at i cp = Inr JVM_CONSTANT_Utf8"
    then obtain n where "symbol_at i cp = Inr n" "legal_symbol n" using pass1_symbol [OF p] by blast
    then show "checks (pass1_at len (k + 1)) (rbind (symbol_at i cp) (\<lambda>s. unresolved_klass_at_put k s cp))"
      using pass1_put [OF p t] by (simp add: unresolved_klass_at_put_def linked_entry_def)
  qed
  then show ?thesis using index_loads(1) [OF i] by (simp add: pass1_class_def)
qed

lemma pass1_string_checks:
  assumes p: "pass1_at len k cp" and t: "tag_at k cp = Inr JVM_CONSTANT_StringIndex" and c: "cfp_need_verify cfp"
  shows "checks (pass1_at len (k + 1)) (pass1_string cfp k cp)"
proof -
  obtain i where i: "slot_at k cp = Inr (Slot_Int (word_of_int i))" "u2_index i" using raw_index_slot [OF p t] by (auto simp: index_tags_def)
  have "checks (pass1_at len (k + 1)) (rbind (check_index cfp (valid_symbol_at i cp)) (\<lambda>_. rbind (symbol_at i cp) (\<lambda>s. unresolved_string_at_put k (Some s) cp)))"
  proof (rule checks_bind [OF symbol_index_checks [OF c]])
    assume "tag_at i cp = Inr JVM_CONSTANT_Utf8"
    then obtain n where "symbol_at i cp = Inr n" "legal_symbol n" using pass1_symbol [OF p] by blast
    then show "checks (pass1_at len (k + 1)) (rbind (symbol_at i cp) (\<lambda>s. unresolved_string_at_put k (Some s) cp))"
      using pass1_put [OF p t] by (simp add: unresolved_string_at_put_def linked_entry_def tag_values)
  qed
  then show ?thesis using index_loads(2) [OF i] by (simp add: pass1_string_def)
qed

lemma pass1_entry_raw:
  assumes p: "pass1_at len k cp" "k < len"
  obtains t s where "tag_at k cp = Inr t" "slot_at k cp = Inr s" "raw_entry t s"
proof -
  have "entry_at cp k k" using pass1_facts(4,5) [OF p(1)] p(2) by blast
  then show thesis using that pass1_facts(6) [OF p(1)] by (auto simp: entry_at_def)
qed

lemma keep_checks:
  assumes p: "pass1_at len k cp" and t: "tag_at k cp = Inr t" "slot_at k cp = Inr s" "t \<notin> wide_tags"
    and r: "checks (\<lambda>_. linked_entry cp t s) r"
  shows "checks (\<lambda>(two, cp). pass1_at len (k + (if two then 2 else 1)) cp) (rbind r (\<lambda>_. Inr (False, cp)))"
  using pass1_keep [OF p t(1,2)] t(3) by (intro checks_bind [OF r]) auto

lemma pair_linked: "t \<in> pair_tags \<Longrightarrow> u2_index h \<Longrightarrow> u2_index l \<Longrightarrow> refs_ok cp t h l \<Longrightarrow> linked_entry cp t (Slot_Int (pack_indices h l))"
  by (auto simp: linked_entry_def)

lemma pass1_pair_checks:
  assumes p: "pass1_at len k cp" and t: "tag_at k cp = Inr t" "t \<in> pair_tags" and c: "cfp_need_verify cfp"
  shows "checks (\<lambda>(two, cp). pass1_at len (k + (if two then 2 else 1)) cp) (pass1_entry cfp len k cp)"
proof -
  obtain h l where s: "slot_at k cp = Inr (Slot_Int (pack_indices h l))" "u2_index h" "u2_index l" using raw_pair_slot [OF p t] .
  have w: "t \<notin> wide_tags" using t(2) by (auto simp: narrow_tags)
  note keep = keep_checks [OF p t(1) s(1) w checks_mono [OF _ pair_linked [OF t(2) s(2,3)]]]
  consider (member) "t \<in> member_tags" | (nt) "t = JVM_CONSTANT_NameAndType" | (indy) "t = JVM_CONSTANT_InvokeDynamic" | (mh) "t = JVM_CONSTANT_MethodHandle"
    using t(2) by (auto simp: pair_tags_def member_tags_def)
  then show ?thesis
  proof cases
    case member
    then have "pass1_entry cfp len k cp = rbind (pass1_member cfp len k cp) (\<lambda>_. Inr (False, cp))"
      using t(1) by (auto simp: pass1_entry_def member_tags_def tag_values)
    then show ?thesis using keep [OF pass1_member_checks [OF p t(1) member c s]] by simp
  next
    case nt
    then have "pass1_entry cfp len k cp = rbind (pass1_name_and_type cfp k cp) (\<lambda>_. Inr (False, cp))"
      using t(1) by (simp add: pass1_entry_def tag_values)
    then show ?thesis using keep pass1_name_and_type_checks [OF p _ c s] t(1) nt by simp
  next
    case indy
    then have "pass1_entry cfp len k cp = rbind (pass1_invoke_dynamic cfp len k cp) (\<lambda>_. Inr (False, cp))"
      using t(1) by (simp add: pass1_entry_def tag_values)
    then show ?thesis using keep pass1_invoke_dynamic_checks [OF p _ c s] t(1) indy by simp
  next
    case mh
    then have "pass1_entry cfp len k cp = rbind (pass1_method_handle cfp len k cp) (\<lambda>_. Inr (False, cp))"
      using t(1) by (simp add: pass1_entry_def tag_values)
    then show ?thesis using keep pass1_method_handle_checks [OF p _ c s] t(1) mh by simp
  qed
qed

lemma pass1_index_checks:
  assumes p: "pass1_at len k cp" and t: "tag_at k cp = Inr t" "t \<in> index_tags" and c: "cfp_need_verify cfp"
  shows "checks (\<lambda>(two, cp). pass1_at len (k + (if two then 2 else 1)) cp) (pass1_entry cfp len k cp)"
proof -
  have put: "checks (\<lambda>(two, cp). pass1_at len (k + (if two then 2 else 1)) cp) (rbind r (\<lambda>cp. Inr (False, cp)))"
    if "checks (pass1_at len (k + 1)) r" for r by (rule checks_bind [OF that]) simp
  consider (cls) "t = JVM_CONSTANT_ClassIndex" | (str) "t = JVM_CONSTANT_StringIndex" | (mt) "t = JVM_CONSTANT_MethodType"
    using t(2) by (auto simp: index_tags_def)
  then show ?thesis
  proof cases
    case cls
    then have "pass1_entry cfp len k cp = rbind (pass1_class cfp k cp) (\<lambda>cp. Inr (False, cp))" using t(1) by (simp add: pass1_entry_def tag_values)
    then show ?thesis using put pass1_class_checks [OF p _ c] t(1) cls by simp
  next
    case str
    then have "pass1_entry cfp len k cp = rbind (pass1_string cfp k cp) (\<lambda>cp. Inr (False, cp))" using t(1) by (simp add: pass1_entry_def tag_values)
    then show ?thesis using put pass1_string_checks [OF p _ c] t(1) str by simp
  next
    case mt
    obtain i where i: "slot_at k cp = Inr (Slot_Int (word_of_int i))" "u2_index i" using raw_index_slot [OF p t] .
    have "checks (\<lambda>_. linked_entry cp t (Slot_Int (word_of_int i))) (pass1_method_type cfp k cp)"
      using i(2) mt by (intro checks_mono [OF pass1_method_type_checks [OF i c]]) (auto simp: linked_entry_def)
    moreover have "pass1_entry cfp len k cp = rbind (pass1_method_type cfp k cp) (\<lambda>_. Inr (False, cp))"
      using t(1) mt by (simp add: pass1_entry_def tag_values)
    ultimately show ?thesis using keep_checks [OF p t(1) i(1)] mt by (simp add: narrow_tags)
  qed
qed

lemma pass1_entry_checks:
  assumes p: "pass1_at len k cp" "k < len" and c: "cfp_need_verify cfp"
  shows "checks (\<lambda>(two, cp). pass1_at len (k + (if two then 2 else 1)) cp) (pass1_entry cfp len k cp)"
proof -
  obtain t s where t: "tag_at k cp = Inr t" "slot_at k cp = Inr s" "raw_entry t s" using pass1_entry_raw [OF p] .
  then consider (pair) "t \<in> pair_tags" | (index) "t \<in> index_tags" | (plain) "t \<in> {JVM_CONSTANT_Utf8, JVM_CONSTANT_Integer, JVM_CONSTANT_Float}"
    | (wide) "t \<in> wide_tags" by (auto simp: raw_entry_def)
  then show ?thesis
  proof cases
    case pair
    then show ?thesis using pass1_pair_checks [OF p(1) t(1) _ c] by blast
  next
    case index
    then show ?thesis using pass1_index_checks [OF p(1) t(1) _ c] by blast
  next
    case plain
    then have "linked_entry cp t s" "t \<notin> wide_tags" using t(3) by (auto simp: linked_entry_def narrow_tags)
    moreover have "pass1_entry cfp len k cp = Inr (False, cp)" using plain t(1) by (auto simp: pass1_entry_def tag_values)
    ultimately show ?thesis using pass1_keep [OF p(1) t(1,2)] by simp
  next
    case wide
    then have l: "linked_entry cp t s" using t(3) by (auto simp: linked_entry_def narrow_tags)
    have "k + 1 < len \<and> invalid_at cp (k + 1)" using pass1_facts(3) [OF p(1)] wide t(1) by (auto simp: wide_at_def)
    then have "pass1_long cfp len (k + 1) cp = Inr ()"
      using c by (simp add: pass1_long_def tag_test_def invalid_at_def tag_is_invalid_def check_property_def guarantee_property_def)
    then have "pass1_entry cfp len k cp = Inr (True, cp)" using wide t(1) by (auto simp: pass1_entry_def narrow_tags)
    then show ?thesis using pass1_keep [OF p(1) t(1,2) l] wide by simp
  qed
qed

lemma pass1_loop_checks:
  assumes "pass1_at len k cp" "cfp_need_verify cfp"
  shows "checks (\<lambda>cp. \<exists>k. len \<le> k \<and> pass1_at len k cp) (pass1_loop cfp len k cp)"
  using assms(1)
proof (induction "nat (len - k)" arbitrary: k cp rule: less_induct)
  case less
  show ?case
  proof (cases "k < len")
    case True
    have "checks (\<lambda>cp. \<exists>k. len \<le> k \<and> pass1_at len k cp)
        (rbind (pass1_entry cfp len k cp) (\<lambda>(two, cp). pass1_loop cfp len (k + (if two then 2 else 1)) cp))"
    proof (rule checks_bind [OF pass1_entry_checks [OF less.prems True assms(2)]], clarify)
      fix two cp' assume "pass1_at len (k + (if two then 2 else 1)) cp'"
      then show "checks (\<lambda>cp. \<exists>k. len \<le> k \<and> pass1_at len k cp) (pass1_loop cfp len (k + (if two then 2 else 1)) cp')"
        using True by (intro less.hyps) auto
    qed
    then show ?thesis using True by (subst pass1_loop.simps) simp
  next
    case False
    then show ?thesis using less.prems by (subst pass1_loop.simps) (auto intro!: exI [of _ k])
  qed
qed

section \<open>Names\<close>

text \<open>The walk over a name stops at its terminating zero.\<close>

lemma unqualified_checks: "checks (\<lambda>_. True) (unqualified_loop ty (s @ [0]) (int (length s)))"
proof (induction "length s" arbitrary: s rule: less_induct)
  case less
  show ?case
  proof (cases s)
    case Nil
    then show ?thesis by (subst unqualified_loop.simps) simp
  next
    case (Cons c r)
    obtain v s' where n: "utf8_next (s @ [0]) = Some (v, s' @ [0])" "strict_suffix s' s" using utf8_next_stops [of s "[]"] Cons by auto
    have "length s' < length s" using n(2) by (auto simp: strict_suffix_def suffix_def)
    then have "checks (\<lambda>_. True) (unqualified_loop ty (s' @ [0]) (int (length s')))" by (rule less.hyps)
    moreover have "checks (\<lambda>_. True) (unqualified_loop ty (r @ [0]) (int (length r)))" using Cons by (intro less.hyps) simp
    ultimately show ?thesis using n Cons by (subst unqualified_loop.simps) auto
  qed
qed

definition class_name_ok :: "symbol \<Rightarrow> bool" where
  "class_name_ok n \<longleftrightarrow> n \<noteq> [] \<and> (hd n = 91 \<longrightarrow> (\<exists>t. n = show_type t \<and> legal_type t))"

lemma class_name_checks:
  assumes "new_format cfp" shows "checks (\<lambda>_. class_name_ok n) (verify_legal_class_name cfp n)"
proof -
  have f: "cfp_need_verify cfp" "\<not> cfp_relax_verify cfp" "cfp_major_version cfp \<ge> JAVA_1_5_VERSION" using assms by (auto simp: new_format_def)
  have finish: "checks (\<lambda>_. class_name_ok n) (rbind r (\<lambda>legal. if \<not> legal then classfile_parse_error m else Inr ()))"
    if "checks (\<lambda>b. b \<longrightarrow> class_name_ok n) r" for r :: "fault + bool" and m
    by (rule checks_bind [OF that]) auto
  consider (empty) "n = []" | (array) "n \<noteq> []" "hd n = 91" | (other) "n \<noteq> []" "hd n \<noteq> 91" by blast
  then have "checks (\<lambda>b. b \<longrightarrow> class_name_ok n)
     (if length n > 0 then
        if hd (n @ [0]) = 91 then rbind (skip_over_field_signature cfp (n @ [0]) False (length n)) (\<lambda>p. Inr (consumed (n @ [0]) (length n) p))
        else verify_unqualified_name (n @ [0]) (length n) LegalClass
      else Inr False)"
  proof cases
    case array
    have "checks (\<lambda>b. b \<longrightarrow> class_name_ok n)
        (rbind (skip_over_field_signature cfp (n @ [0]) False (length n)) (\<lambda>p. Inr (consumed (n @ [0]) (length n) p)))"
      by (rule checks_bind [OF skip_field_checks [OF f(3)]])
        (use array in \<open>auto simp: consumed_def class_name_ok_def skip_type_False split: option.splits\<close>)
    then show ?thesis using array by simp
  next
    case other
    then have "class_name_ok n" by (simp add: class_name_ok_def)
    then show ?thesis using other unqualified_checks [of LegalClass n] by (auto simp: verify_unqualified_name_def elim: checks_mono)
  qed simp
  moreover have "verify_legal_class_name cfp n = rbind
     (if length n > 0 then
        if hd (n @ [0]) = 91 then rbind (skip_over_field_signature cfp (n @ [0]) False (length n)) (\<lambda>p. Inr (consumed (n @ [0]) (length n) p))
        else verify_unqualified_name (n @ [0]) (length n) LegalClass
      else Inr False) (\<lambda>legal. if \<not> legal then classfile_parse_error ''Illegal class name \"%s\" in class file %s'' else Inr ())"
    using f by (simp add: verify_legal_class_name_def as_utf8_flexible_buffer_def Let_def)
  ultimately show ?thesis using finish by presburger
qed

lemma field_name_checks:
  assumes "new_format cfp" shows "checks (\<lambda>_. n \<noteq> []) (verify_legal_field_name cfp n)"
proof -
  have "checks (\<lambda>b. b \<longrightarrow> n \<noteq> []) (if length n > 0 then verify_unqualified_name (n @ [0]) (length n) LegalField else Inr False)"
    using unqualified_checks [of LegalField n] by (auto simp: verify_unqualified_name_def elim: checks_mono)
  then have "checks (\<lambda>_. n \<noteq> []) (rbind (if length n > 0 then verify_unqualified_name (n @ [0]) (length n) LegalField else Inr False)
      (\<lambda>legal. if \<not> legal then classfile_parse_error ''Illegal field name \"%s\" in class %s'' else Inr ()))"
    by (rule checks_bind) auto
  then show ?thesis using assms by (cases "n = []") (simp_all add: new_format_def verify_legal_field_name_def as_utf8_flexible_buffer_def Let_def)
qed

lemma method_name_checks:
  assumes "new_format cfp" shows "checks (\<lambda>_. n \<noteq> []) (verify_legal_method_name cfp n)"
proof -
  have "checks (\<lambda>b. b \<longrightarrow> n \<noteq> []) (if length n > 0 then if hd (n @ [0]) = 60 then Inr (n = object_initializer_name \<or> n = class_initializer_name)
      else verify_unqualified_name (n @ [0]) (length n) LegalMethod else Inr False)"
    using unqualified_checks [of LegalMethod n] by (auto simp: verify_unqualified_name_def elim: checks_mono)
  then have "checks (\<lambda>_. n \<noteq> []) (rbind (if length n > 0 then if hd (n @ [0]) = 60 then Inr (n = object_initializer_name \<or> n = class_initializer_name)
      else verify_unqualified_name (n @ [0]) (length n) LegalMethod else Inr False)
      (\<lambda>legal. if \<not> legal then classfile_parse_error ''Illegal method name \"%s\" in class %s'' else Inr ()))"
    by (rule checks_bind) auto
  then show ?thesis using assms by (cases "n = []"; cases "hd n = 60") (simp_all add: new_format_def verify_legal_method_name_def as_utf8_flexible_buffer_def Let_def)
qed

section \<open>The second pass\<close>

definition linked_pool :: "int \<Rightarrow> ConstantPool \<Rightarrow> bool" where
  "linked_pool len cp \<longleftrightarrow> (\<exists>k. len \<le> k \<and> pass1_at len k cp)"

lemma linked_entry_of:
  assumes "linked_pool len cp" "tag_at i cp = Inr t" "t \<noteq> JVM_CONSTANT_Invalid"
  shows "1 \<le> i \<and> i < len" "\<exists>s. slot_at i cp = Inr s \<and> linked_entry cp t s"
proof -
  obtain k where k: "len \<le> k" "pass1_at len k cp" using assms(1) by (auto simp: linked_pool_def)
  note e = pass1_entry_of [OF k(2) assms(2,3)]
  show "1 \<le> i \<and> i < len" by (rule e(1))
  then show "\<exists>s. slot_at i cp = Inr s \<and> linked_entry cp t s" using e(2) k(1) by auto
qed

lemma linked_cache: "linked_pool len cp \<Longrightarrow> cp_cache cp = None \<and> cp_length cp = len"
  by (auto simp: linked_pool_def pass1_at_def)

lemma linked_symbol: "linked_pool len cp \<Longrightarrow> tag_at i cp = Inr JVM_CONSTANT_Utf8 \<Longrightarrow> \<exists>n. symbol_at i cp = Inr n \<and> legal_symbol n"
  using pass1_symbol by (auto simp: linked_pool_def)

lemma linked_pair:
  assumes p: "linked_pool len cp" and t: "tag_at i cp = Inr t" "t \<in> pair_tags"
  obtains h l where "slot_at i cp = Inr (Slot_Int (pack_indices h l))" "u2_index h" "u2_index l" "refs_ok cp t h l" "0 \<le> i"
proof -
  have "t \<noteq> JVM_CONSTANT_Invalid" using t(2) by (auto simp: narrow_tags)
  from linked_entry_of [OF p t(1) this] obtain s where "slot_at i cp = Inr s" "linked_entry cp t s" "1 \<le> i" by auto
  then show thesis using t(2) that by (auto simp: linked_entry_def narrow_tags)
qed

text \<open>The name and the descriptor of an entry \<open>NameAndType\<close>.\<close>

lemma name_and_type_symbols:
  assumes p: "linked_pool len cp" and t: "tag_at i cp = Inr JVM_CONSTANT_NameAndType"
  obtains l h name sig where "name_ref_index_at i cp = Inr l" "signature_ref_index_at i cp = Inr h"
    "symbol_at l cp = Inr name" "symbol_at h cp = Inr sig" "legal_symbol name" "legal_symbol sig"
proof -
  obtain h l where s: "slot_at i cp = Inr (Slot_Int (pack_indices h l))" "u2_index h" "u2_index l" "refs_ok cp JVM_CONSTANT_NameAndType h l" "0 \<le> i"
    using linked_pair [OF p t] by (auto simp: pair_tags_def)
  note loads = pair_loads [OF s(1-3) conjunct1 [OF linked_cache [OF p]] t s(5)]
  have "tag_at h cp = Inr JVM_CONSTANT_Utf8" "tag_at l cp = Inr JVM_CONSTANT_Utf8" using s(4) by (auto simp: refs_ok_def)
  then show thesis using that loads(3,4) linked_symbol [OF p] by metis
qed

definition nameable_tags :: "constantTag set" where
  "nameable_tags = member_tags \<union> {JVM_CONSTANT_InvokeDynamic}"

lemma member_symbols:
  assumes p: "linked_pool len cp" and t: "tag_at i cp = Inr t" "t \<in> nameable_tags"
  obtains nt l h name sig where "name_and_type_ref_index_at i cp = Inr nt" "tag_at nt cp = Inr JVM_CONSTANT_NameAndType"
    "name_ref_index_at nt cp = Inr l" "signature_ref_index_at nt cp = Inr h" "symbol_at l cp = Inr name" "symbol_at h cp = Inr sig"
    "legal_symbol name" "legal_symbol sig" "name_ref_at i cp = Inr name" "signature_ref_at i cp = Inr sig"
proof -
  have "t \<in> pair_tags" using t(2) by (auto simp: pair_tags_def nameable_tags_def member_tags_def)
  from linked_pair [OF p t(1) this] obtain h l where s: "slot_at i cp = Inr (Slot_Int (pack_indices h l))" "u2_index h" "u2_index l" "refs_ok cp t h l" "0 \<le> i" .
  have nt: "tag_at h cp = Inr JVM_CONSTANT_NameAndType" using s(4) t(2) by (auto simp: refs_ok_def nameable_tags_def)
  note load = pair_loads(2) [OF s(1-3) conjunct1 [OF linked_cache [OF p]] t(1) s(5)]
  obtain l' h' name sig where n: "name_ref_index_at h cp = Inr l'" "signature_ref_index_at h cp = Inr h'"
    "symbol_at l' cp = Inr name" "symbol_at h' cp = Inr sig" "legal_symbol name" "legal_symbol sig"
    using name_and_type_symbols [OF p nt] .
  have "name_ref_at i cp = Inr name" "signature_ref_at i cp = Inr sig"
    using load n by (simp_all add: name_ref_at_def signature_ref_at_def impl_name_ref_at_def impl_signature_ref_at_def name_and_type_ref_index_at_def)
  then show thesis using that load nt n by blast
qed

definition field_legal :: "symbol \<Rightarrow> bool" where
  "field_legal s \<longleftrightarrow> (\<exists>t. s = show_type t \<and> legal_type t)"

definition method_legal :: "symbol \<Rightarrow> bool" where
  "method_legal s \<longleftrightarrow> (\<exists>name n. method_result name s n)"

definition descriptor_legal :: "symbol \<Rightarrow> bool" where
  "descriptor_legal s \<longleftrightarrow> s \<noteq> [] \<and> (if hd s = 40 then method_legal s else field_legal s)"

text \<open>The descriptor of a member, checked here or at its entry \<open>NameAndType\<close>.\<close>

definition member_legal :: "ClassFileParser \<Rightarrow> constantTag \<Rightarrow> symbol \<Rightarrow> bool" where
  "member_legal cfp t s \<longleftrightarrow>
    (if cfp_major_version cfp \<ge> JAVA_7_VERSION then s \<noteq> [] \<and> (hd s = 40 \<longleftrightarrow> t \<noteq> JVM_CONSTANT_Fieldref)
     else if t = JVM_CONSTANT_Fieldref then field_legal s else method_legal s)"

lemma method_signature_legal:
  assumes "new_format cfp" "legal_symbol sig"
  shows "checks (\<lambda>_. method_legal sig) (rbind (verify_legal_method_signature cfp name sig) (\<lambda>_. Inr ()))"
  using assms by (intro checks_bind [OF method_signature_checks]) (auto simp: method_legal_def legal_symbol_def)

lemma field_signature_legal:
  assumes "new_format cfp" shows "checks (\<lambda>_. field_legal sig) (verify_legal_field_signature cfp name sig)"
  using field_signature_checks [OF assms] by (simp add: field_legal_def)

lemma pass2_field_checks:
  assumes "new_format cfp"
  shows "checks (\<lambda>_. name \<noteq> [] \<and> member_legal cfp JVM_CONSTANT_Fieldref sig) (pass2_field cfp name sig)"
proof -
  have c: "cfp_need_verify cfp" using assms by (simp add: new_format_def)
  show ?thesis unfolding pass2_field_def
  proof (rule checks_bind [OF field_name_checks [OF assms]])
    assume n: "name \<noteq> []"
    show "checks (\<lambda>_. name \<noteq> [] \<and> member_legal cfp JVM_CONSTANT_Fieldref sig)
       (if cfp_need_verify cfp \<and> cfp_major_version cfp \<ge> JAVA_7_VERSION
        then if sig = [] \<or> hd sig = 40 then throwIllegalSignature ''Field'' else Inr () else verify_legal_field_signature cfp name sig)"
      using c n field_signature_legal [OF assms, of sig name] by (auto simp: member_legal_def elim: checks_mono)
  qed
qed

lemma pass2_method_checks:
  assumes "new_format cfp" "legal_symbol sig" "t \<noteq> JVM_CONSTANT_Fieldref"
  shows "checks (\<lambda>_. name \<noteq> [] \<and> member_legal cfp t sig) (pass2_method cfp t name sig)"
proof -
  have c: "cfp_need_verify cfp" using assms by (simp add: new_format_def)
  have "checks (\<lambda>_. member_legal cfp t sig)
     (if cfp_need_verify cfp \<and> cfp_major_version cfp \<ge> JAVA_7_VERSION
      then if sig = [] \<or> hd sig \<noteq> 40 then throwIllegalSignature ''Method'' else Inr ()
      else rbind (verify_legal_method_signature cfp name sig) (\<lambda>_. Inr ()))"
    using c assms(3) method_signature_legal [OF assms(1,2), of name] by (auto simp: member_legal_def elim: checks_mono)
  then show ?thesis unfolding pass2_method_def
    by (intro checks_bind [OF method_name_checks [OF assms(1)]] checks_bind [of "\<lambda>_. member_legal cfp t sig"]) auto
qed

text \<open>What the second pass knows of an entry.\<close>

definition pass2_fact :: "ClassFileParser \<Rightarrow> ConstantPool \<Rightarrow> int \<Rightarrow> bool" where
  "pass2_fact cfp cp i \<longleftrightarrow>
     (tag_at i cp = Inr JVM_CONSTANT_UnresolvedClass \<longrightarrow> (\<exists>n. klass_name_at i cp = Inr n \<and> class_name_ok n \<and> legal_symbol n)) \<and>
     (tag_at i cp = Inr JVM_CONSTANT_NameAndType \<and> cfp_major_version cfp \<ge> JAVA_7_VERSION \<longrightarrow>
        (\<exists>h sig. signature_ref_index_at i cp = Inr h \<and> symbol_at h cp = Inr sig \<and> descriptor_legal sig)) \<and>
     (\<forall>t \<in> nameable_tags. tag_at i cp = Inr t \<longrightarrow> (\<exists>name sig. name_ref_at i cp = Inr name \<and> name \<noteq> [] \<and>
        signature_ref_at i cp = Inr sig \<and> member_legal cfp t sig))"

lemma pass2_name_and_type_checks:
  assumes p: "linked_pool len cp" and f: "new_format cfp" and t: "tag_at i cp = Inr JVM_CONSTANT_NameAndType"
  shows "checks (\<lambda>_. pass2_fact cfp cp i) (pass2_name_and_type cfp i cp)"
proof -
  obtain l h name sig where s: "name_ref_index_at i cp = Inr l" "signature_ref_index_at i cp = Inr h"
    "symbol_at l cp = Inr name" "symbol_at h cp = Inr sig" "legal_symbol name" "legal_symbol sig" using name_and_type_symbols [OF p t] .
  have fact: "pass2_fact cfp cp i" if "cfp_major_version cfp \<ge> JAVA_7_VERSION \<longrightarrow> descriptor_legal sig"
    using that s t by (auto simp: pass2_fact_def nameable_tags_def member_tags_def tag_values)
  have "checks (\<lambda>_. descriptor_legal sig) (rbind (guarantee_property (sig \<noteq> []) m) (\<lambda>_.
      if hd sig = 40 then rbind (verify_legal_method_signature cfp name sig) (\<lambda>_. Inr ()) else verify_legal_field_signature cfp name sig))" for m
    using method_signature_legal [OF f s(6), of name] field_signature_legal [OF f, of sig name]
    by (intro checks_bind [OF guarantee_checks]) (auto simp: descriptor_legal_def elim: checks_mono)
  then have "checks (\<lambda>_. pass2_fact cfp cp i) (rbind (guarantee_property (sig \<noteq> []) m) (\<lambda>_.
      if hd sig = 40 then rbind (verify_legal_method_signature cfp name sig) (\<lambda>_. Inr ()) else verify_legal_field_signature cfp name sig))" for m
    by (rule checks_mono) (simp add: fact)
  then show ?thesis using s fact f
    by (cases "cfp_major_version cfp \<ge> JAVA_7_VERSION") (simp_all add: pass2_name_and_type_def new_format_def)
qed

lemma pass2_member_checks:
  assumes p: "linked_pool len cp" and f: "new_format cfp" and t: "tag_at i cp = Inr t" "t \<in> nameable_tags"
  shows "checks (\<lambda>_. pass2_fact cfp cp i) (pass2_member cfp t i cp)"
proof -
  obtain nt l h name sig where s: "name_and_type_ref_index_at i cp = Inr nt" "tag_at nt cp = Inr JVM_CONSTANT_NameAndType"
    "name_ref_index_at nt cp = Inr l" "signature_ref_index_at nt cp = Inr h" "symbol_at l cp = Inr name" "symbol_at h cp = Inr sig"
    "legal_symbol name" "legal_symbol sig" "name_ref_at i cp = Inr name" "signature_ref_at i cp = Inr sig" using member_symbols [OF p t] .
  have fact: "pass2_fact cfp cp i" if "name \<noteq> [] \<and> member_legal cfp t sig"
    using that s t by (auto simp: pass2_fact_def nameable_tags_def member_tags_def tag_values)
  have "checks (\<lambda>_. name \<noteq> [] \<and> member_legal cfp t sig)
      (if t = JVM_CONSTANT_Fieldref then pass2_field cfp name sig else pass2_method cfp t name sig)"
    using pass2_field_checks [OF f] pass2_method_checks [OF f s(8)] by auto
  then have "checks (\<lambda>_. pass2_fact cfp cp i) (if t = JVM_CONSTANT_Fieldref then pass2_field cfp name sig else pass2_method cfp t name sig)"
    by (rule checks_mono) (rule fact)
  then show ?thesis using s by (simp add: pass2_member_def)
qed

lemma pass2_method_handle_checks:
  assumes p: "linked_pool len cp" and t: "tag_at i cp = Inr JVM_CONSTANT_MethodHandle"
  shows "checks (\<lambda>_. True) (pass2_method_handle i cp)"
proof -
  obtain h l where s: "slot_at i cp = Inr (Slot_Int (pack_indices h l))" "u2_index h" "u2_index l" "refs_ok cp JVM_CONSTANT_MethodHandle h l" "0 \<le> i"
    using linked_pair [OF p t] by (auto simp: pair_tags_def)
  note loads = pair_loads(5,6) [OF s(1-3) conjunct1 [OF linked_cache [OF p]] t s(5)]
  show ?thesis
  proof (cases "l \<in> {5, 6, 7, 8}")
    case True
    then obtain u where u: "tag_at h cp = Inr u" "u \<in> nameable_tags" using s(4) by (auto simp: refs_ok_def nameable_tags_def member_tags_def)
    obtain nt l' h' name sig where "name_and_type_ref_index_at h cp = Inr nt" "name_ref_index_at nt cp = Inr l'" "symbol_at l' cp = Inr name"
      using member_symbols [OF p u] by metis
    then show ?thesis using True loads by (simp add: pass2_method_handle_def)
  next
    case False
    then show ?thesis using loads by (simp add: pass2_method_handle_def)
  qed
qed

lemma pass2_entry_checks:
  assumes p: "linked_pool len cp" and f: "new_format cfp" and i: "1 \<le> i" "i < len"
  shows "checks (\<lambda>_. pass2_fact cfp cp i) (pass2_entry cfp i cp)"
proof -
  obtain t where t: "tag_at i cp = Inr t" using i linked_cache [OF p] by (auto simp: tag_at_def cp_length_def arr_get_def)
  consider (cls) "t = JVM_CONSTANT_UnresolvedClass" | (nt) "t = JVM_CONSTANT_NameAndType" | (member) "t \<in> nameable_tags"
    | (mh) "t = JVM_CONSTANT_MethodHandle" | (mt) "t = JVM_CONSTANT_MethodType"
    | (other) "t \<notin> {JVM_CONSTANT_UnresolvedClass, JVM_CONSTANT_NameAndType, JVM_CONSTANT_MethodHandle, JVM_CONSTANT_MethodType} \<union> nameable_tags"
    by auto
  then show ?thesis
  proof cases
    case cls
    then obtain n where n: "slot_at i cp = Inr (Slot_Unresolved n)" "legal_symbol n"
      using linked_entry_of(2) [OF p t] by (auto simp: linked_entry_def raw_entry_def narrow_tags)
    have "checks (\<lambda>_. pass2_fact cfp cp i) (verify_legal_class_name cfp n)"
      using n cls t by (intro checks_mono [OF class_name_checks [OF f]])
        (auto simp: pass2_fact_def klass_name_at_def nameable_tags_def member_tags_def tag_values)
    then show ?thesis using t cls n by (simp add: pass2_entry_def unresolved_klass_at_def)
  next
    case nt
    then show ?thesis using pass2_name_and_type_checks [OF p f] t by (simp add: pass2_entry_def tag_values)
  next
    case member
    then have "pass2_entry cfp i cp = pass2_member cfp t i cp" using t by (auto simp: pass2_entry_def nameable_tags_def member_tags_def tag_values)
    then show ?thesis using pass2_member_checks [OF p f t member] by simp
  next
    case mh
    then have "pass2_fact cfp cp i" using t by (auto simp: pass2_fact_def nameable_tags_def member_tags_def tag_values)
    then show ?thesis using pass2_method_handle_checks [OF p] t mh by (auto simp: pass2_entry_def tag_values elim: checks_mono)
  next
    case mt
    then obtain j where j: "slot_at i cp = Inr (Slot_Int (word_of_int j))" "u2_index j" "tag_at j cp = Inr JVM_CONSTANT_Utf8"
      using linked_entry_of(2) [OF p t] by (auto simp: linked_entry_def raw_entry_def narrow_tags)
    obtain s where s: "symbol_at j cp = Inr s" "legal_symbol s" using linked_symbol [OF p j(3)] by blast
    have "pass2_fact cfp cp i" using t mt by (auto simp: pass2_fact_def nameable_tags_def member_tags_def tag_values)
    then show ?thesis using t mt s(1) index_loads(3) [OF j(1,2)] method_signature_legal [OF f s(2), of type_name]
      by (auto simp: pass2_entry_def method_type_signature_at_def tag_values elim: checks_mono)
  next
    case other
    then have "pass2_fact cfp cp i" using t by (auto simp: pass2_fact_def)
    then show ?thesis using other t by (auto simp: pass2_entry_def nameable_tags_def member_tags_def)
  qed
qed

lemma pass2_loop_checks:
  assumes p: "linked_pool len cp" and f: "new_format cfp" and i: "1 \<le> i"
  shows "checks (\<lambda>_. \<forall>j. i \<le> j \<and> j < len \<longrightarrow> pass2_fact cfp cp j) (pass2_loop cfp len i cp)"
  using i
proof (induction "nat (len - i)" arbitrary: i rule: less_induct)
  case less
  show ?case
  proof (cases "i < len")
    case True
    have "checks (\<lambda>_. \<forall>j. i \<le> j \<and> j < len \<longrightarrow> pass2_fact cfp cp j) (rbind (pass2_entry cfp i cp) (\<lambda>_. pass2_loop cfp len (i + 1) cp))"
    proof (rule checks_bind [OF pass2_entry_checks [OF p f less.prems True]])
      assume here: "pass2_fact cfp cp i"
      have "checks (\<lambda>_. \<forall>j. i + 1 \<le> j \<and> j < len \<longrightarrow> pass2_fact cfp cp j) (pass2_loop cfp len (i + 1) cp)"
        using less.prems True by (intro less.hyps) auto
      then show "checks (\<lambda>_. \<forall>j. i \<le> j \<and> j < len \<longrightarrow> pass2_fact cfp cp j) (pass2_loop cfp len (i + 1) cp)"
        by (rule checks_mono) (metis here add.commute add1_zle_eq order_le_less)
    qed
    then show ?thesis using True by (subst pass2_loop.simps) simp
  next
    case False
    then show ?thesis by (subst pass2_loop.simps) auto
  qed
qed

section \<open>A parsed pool\<close>

text \<open>No \<open>L\<close> is followed by \<open>[\<close>.  In a descriptor of the grammar this holds unless the name of a class starts with \<open>[\<close>
  or has \<open>L[\<close> in it, which no class that can be loaded has.\<close>

fun plain_name :: "symbol \<Rightarrow> bool" where
  "plain_name [] \<longleftrightarrow> True"
| "plain_name [a] \<longleftrightarrow> True"
| "plain_name (a # b # s) \<longleftrightarrow> \<not> (a = 76 \<and> b = 91) \<and> plain_name (b # s)"

lemma plain_append: "plain_name (s @ r) \<Longrightarrow> plain_name s \<and> plain_name r"
proof (induction s rule: plain_name.induct)
  case (2 a)
  then show ?case by (cases r) auto
qed auto

definition plain_elem :: "field_type \<Rightarrow> bool" where
  "plain_elem t \<longleftrightarrow> (\<forall>n. ft_elem t = FT_Class n \<longrightarrow> n = [] \<or> hd n \<noteq> 91)"

lemma plain_type: "plain_name (show_type t) \<Longrightarrow> plain_elem t"
proof (induction t)
  case (FT_Class n)
  then show ?case by (cases n) (auto simp: plain_elem_def)
next
  case (FT_Array t)
  have "plain_name (show_type t)" using FT_Array.prems plain_append [of "[91]" "show_type t"] by simp
  then show ?case using FT_Array.IH by (simp add: plain_elem_def)
qed (simp add: plain_elem_def)

lemma plain_types: "plain_name (show_types ts) \<Longrightarrow> list_all plain_elem ts"
  by (induction ts) (auto dest: plain_append plain_type)

lemma sound_first: "n = [] \<or> hd n \<noteq> 91 \<Longrightarrow> sound_name n"
  by (cases n) (simp_all add: sound_name.simps)

lemma sound_array: "wf_ft u \<Longrightarrow> plain_elem u \<Longrightarrow> sound_name (91 # show_type u)"
proof (induction u)
  case (FT_Base b)
  then show ?case using base_char_not [of b] by (simp add: sound_name.simps)
next
  case (FT_Class n)
  then show ?case using sound_first [of n] by (simp add: sound_name.simps [of "91 # _"] plain_elem_def)
next
  case (FT_Array u)
  then have "sound_name (91 # show_type u)" by (simp add: plain_elem_def)
  then show ?case by (simp add: sound_name.simps [of "91 # 91 # _"])
qed

lemma legal_name_sound:
  assumes "class_name_ok n" "plain_name n" shows "sound_name n"
proof (cases "hd n = 91")
  case True
  then obtain t where t: "n = show_type t" "legal_type t" using assms(1) by (auto simp: class_name_ok_def)
  show ?thesis
  proof (cases t)
    case (FT_Array u)
    have "wf_ft u" "plain_elem u" using t FT_Array plain_type [of t] assms(2) by (auto simp: legal_type_def arg_ft_def plain_elem_def)
    then show ?thesis using sound_array t FT_Array by simp
  next
    case (FT_Base b)
    then show ?thesis using True t base_char_not [of b] by (simp add: legal_type_def arg_ft_def)
  qed (use True t in simp)
qed (use sound_first in blast)

lemma type_sound:
  assumes "legal_type t" "plain_elem t" shows "list_all sound_type (ft_verification_types t)"
proof (cases t)
  case (FT_Class n)
  then show ?thesis using assms(2) sound_first [of n] by (auto simp: plain_elem_def reference_type_def)
next
  case (FT_Array u)
  then show ?thesis using assms sound_array [of u] by (auto simp: legal_type_def arg_ft_def plain_elem_def reference_type_def)
qed (auto simp: sound_data value_types_def)

lemma return_sound:
  assumes "legal_type t \<or> t = FT_Base T_VOID" "plain_elem t" shows "sound_type (ft_return_type t)"
proof (cases t)
  case (FT_Class n)
  then show ?thesis using assms(2) sound_first [of n] by (auto simp: plain_elem_def reference_type_def)
next
  case (FT_Array u)
  then show ?thesis using assms sound_array [of u] by (auto simp: legal_type_def arg_ft_def plain_elem_def reference_type_def)
next
  case (FT_Base b)
  then show ?thesis by (cases b) (simp_all add: sound_data value_types_def)
qed

lemma field_legal_ok: "field_legal s \<Longrightarrow> plain_name s \<Longrightarrow> field_sig_ok s"
  using plain_type type_sound by (auto simp: field_legal_def field_sig_ok_def legal_type_def)

lemma plain_descriptor:
  assumes p: "plain_name (show_method ps r)" and t: "list_all legal_type ps" "legal_type r \<or> r = FT_Base T_VOID"
  shows "list_all arg_ft ps" "list_all sound_type (arg_types ps)" "wf_ft r" "no_void_array r" "sound_type (ft_return_type r)"
proof -
  have "plain_name (show_types ps)" "plain_name (show_type r)"
    using p plain_append [of "[40]" "show_types ps @ 41 # show_type r"] plain_append [of "show_types ps" "41 # show_type r"]
      plain_append [of "[41]" "show_type r"] by (auto simp: show_method_def)
  then have e: "list_all plain_elem ps" "plain_elem r" using plain_types plain_type by auto
  show "list_all arg_ft ps" using t(1) by (auto simp: list_all_iff legal_type_def)
  show "list_all sound_type (arg_types ps)" using t(1) e(1) type_sound by (fastforce simp: list_all_iff)
  show "wf_ft r" "no_void_array r" using t(2) by (auto simp: legal_type_def arg_ft_def no_void_array_def)
  show "sound_type (ft_return_type r)" by (rule return_sound [OF t(2) e(2)])
qed

lemma method_legal_ok:
  assumes "method_legal s" "plain_name s" shows "method_sig_ok s"
proof -
  obtain ps r where s: "s = show_method ps r" "list_all legal_type ps" "legal_type r \<or> r = FT_Base T_VOID"
    using assms(1) by (auto simp: method_legal_def method_result_def legal_return_def)
  with plain_descriptor [OF assms(2) [unfolded s(1)] s(2,3)] show ?thesis unfolding method_sig_ok_def by blast
qed

definition plain_pool :: "ConstantPool \<Rightarrow> bool" where
  "plain_pool cp \<longleftrightarrow>
     (\<forall>i s. tag_at i cp = Inr JVM_CONSTANT_UnresolvedClass \<and> klass_name_at i cp = Inr s \<longrightarrow> plain_name s) \<and>
     (\<forall>i t s. tag_at i cp = Inr t \<and> t \<in> nameable_tags \<and> signature_ref_at i cp = Inr s \<longrightarrow> plain_name s)"

definition checked_pool :: "ClassFileParser \<Rightarrow> int \<Rightarrow> ConstantPool \<Rightarrow> bool" where
  "checked_pool cfp len cp \<longleftrightarrow> linked_pool len cp \<and> (\<forall>i. 1 \<le> i \<and> i < len \<longrightarrow> pass2_fact cfp cp i)"

lemma checked_class:
  assumes c: "checked_pool cfp len cp" "plain_pool cp" and t: "tag_at i cp = Inr JVM_CONSTANT_UnresolvedClass"
  shows "\<exists>n. klass_name_at i cp = Inr n \<and> sound_name n \<and> 0 \<notin> set n"
proof -
  have p: "linked_pool len cp" using c(1) by (simp add: checked_pool_def)
  have "pass2_fact cfp cp i" using c(1) linked_entry_of(1) [OF p t] by (simp add: checked_pool_def tag_values)
  then obtain n where n: "klass_name_at i cp = Inr n" "class_name_ok n" "legal_symbol n" using t by (auto simp: pass2_fact_def)
  moreover have "plain_name n" using c(2) t n(1) by (auto simp: plain_pool_def)
  ultimately show ?thesis using legal_name_sound by (auto simp: legal_symbol_def)
qed

lemma linked_tags:
  assumes "linked_pool len cp" "tag_at i cp = Inr t"
  shows "t \<in> allowed_tags" "t \<noteq> JVM_CONSTANT_ClassIndex" "t \<noteq> JVM_CONSTANT_StringIndex"
proof -
  show "t \<in> allowed_tags" using assms pass1_tags by (auto simp: linked_pool_def)
  show "t \<noteq> JVM_CONSTANT_ClassIndex" "t \<noteq> JVM_CONSTANT_StringIndex"
    using linked_entry_of(2) [OF assms] by (auto simp: linked_entry_def raw_entry_def narrow_tags)
qed

lemma checked_pool_ok:
  assumes c: "checked_pool cfp len cp" "plain_pool cp" shows "pool_ok cp"
proof -
  have p: "linked_pool len cp" using c(1) by (simp add: checked_pool_def)
  have "\<exists>n. klass_name_at i cp = Inr n \<and> sound_name n \<and> 0 \<notin> set n"
    if t: "tag_at i cp = Inr t" "tag_is_klass t \<or> tag_is_unresolved_klass t" for i t
    using checked_class [OF c] linked_tags(1) [OF p t(1)] t by (auto simp: tag_defs allowed_tags_def narrow_tags)
  moreover have "\<exists>b. is_pseudo_string_at i cp = Inr b" if t: "tag_at i cp = Inr JVM_CONSTANT_String" for i
  proof -
    obtain n where "slot_at i cp = Inr (Slot_Symbol n)"
      using linked_entry_of(2) [OF p t] by (auto simp: linked_entry_def raw_entry_def narrow_tags)
    then have "is_pseudo_string_at i cp = Inr False" by (simp add: is_pseudo_string_at_def unresolved_string_at_def symbol_at_addr_def)
    then show ?thesis by blast
  qed
  ultimately show ?thesis unfolding pool_ok_def using linked_cache [OF p] by blast
qed

lemma checked_member:
  assumes c: "checked_pool cfp len cp" "plain_pool cp" and t: "tag_at i cp = Inr t" "t \<in> nameable_tags"
  shows "\<exists>n s. name_ref_at i cp = Inr n \<and> n \<noteq> [] \<and> signature_ref_at i cp = Inr s \<and>
    (if t = JVM_CONSTANT_Fieldref then field_sig_ok s else method_sig_ok s)"
proof -
  have p: "linked_pool len cp" and all: "\<And>i. 1 \<le> i \<Longrightarrow> i < len \<Longrightarrow> pass2_fact cfp cp i" using c(1) by (auto simp: checked_pool_def)
  obtain nt h sig where m: "tag_at nt cp = Inr JVM_CONSTANT_NameAndType" "signature_ref_index_at nt cp = Inr h" "symbol_at h cp = Inr sig"
    "signature_ref_at i cp = Inr sig" using member_symbols [OF p t] by metis
  have "t \<noteq> JVM_CONSTANT_Invalid" using t(2) by (auto simp: nameable_tags_def member_tags_def tag_values)
  from all [of i] linked_entry_of(1) [OF p t(1) this] obtain name where n: "name_ref_at i cp = Inr name" "name \<noteq> []" "member_legal cfp t sig"
    using t m(4) by (auto simp: pass2_fact_def)
  have "descriptor_legal sig" if "cfp_major_version cfp \<ge> JAVA_7_VERSION"
    using all [of nt] linked_entry_of(1) [OF p m(1)] m that by (auto simp: pass2_fact_def tag_values)
  then have "if t = JVM_CONSTANT_Fieldref then field_legal sig else method_legal sig"
    using n(3) by (auto simp: member_legal_def descriptor_legal_def split: if_splits)
  moreover have "plain_name sig" using c(2) t m(4) by (auto simp: plain_pool_def)
  ultimately show ?thesis using n m(4) field_legal_ok method_legal_ok by auto
qed

lemma checked_members_ok:
  assumes c: "checked_pool cfp len cp" "plain_pool cp" shows "members_ok cp"
proof -
  have p: "linked_pool len cp" using c(1) by (simp add: checked_pool_def)
  have klass: "\<exists>j n. klass_ref_index_at i cp = Inr j \<and> klass_name_at j cp = Inr n \<and> sound_name n"
    if t: "tag_at i cp = Inr t" "t \<in> member_tags" for i t
  proof -
    have "t \<in> pair_tags" using t(2) by (auto simp: pair_tags_def member_tags_def)
    from linked_pair [OF p t(1) this] obtain h l where s: "slot_at i cp = Inr (Slot_Int (pack_indices h l))" "u2_index h" "u2_index l" "refs_ok cp t h l" "0 \<le> i" .
    then obtain k where "klassish k" "tag_at l cp = Inr k" using t(2) by (auto simp: refs_ok_def)
    then have "tag_at l cp = Inr JVM_CONSTANT_UnresolvedClass" using linked_tags(2) [OF p] by (auto simp: klassish_def)
    then show ?thesis using checked_class [OF c] pair_loads(1) [OF s(1-3) conjunct1 [OF linked_cache [OF p]] t(1) s(5)] by auto
  qed
  have tags: "0 \<le> t \<and> t < 32 \<or> t = JVM_CONSTANT_UnresolvedClass" if "tag_at i cp = Inr t" for i t
    using linked_tags [OF p that] by (auto simp: allowed_tags_def narrow_tags)
  have fields: "\<exists>n s. name_ref_at i cp = Inr n \<and> n \<noteq> [] \<and> signature_ref_at i cp = Inr s \<and> field_sig_ok s"
    if "tag_at i cp = Inr JVM_CONSTANT_Fieldref" for i
    using checked_member [OF c that] by (simp add: nameable_tags_def member_tags_def)
  have methods: "\<exists>n s. name_ref_at i cp = Inr n \<and> n \<noteq> [] \<and> signature_ref_at i cp = Inr s \<and> method_sig_ok s"
    if "tag_at i cp = Inr t" "t \<in> nameable_tags" "t \<noteq> JVM_CONSTANT_Fieldref" for i t
    using checked_member [OF c that(1,2)] that(3) by simp
  show ?thesis unfolding members_ok_def using klass tags fields methods
    by (auto simp: nameable_tags_def member_tags_def narrow_tags)
qed

end
