(* ===== verification/Method_Safety.thy ===== *)
theory Method_Safety
  imports Member_Safety
begin

text \<open>
  The verification of a whole method (\<open>ClassVerifier::verify_method\<close>) on the code of a parsed class
  file: the scan of the code and the map of its instructions, the exception handler table, the local
  variable table, the initial frame, the stack map table, and the loop over the code.  Each of them
  keeps to the bounds of the arrays it reads, and the loop ends.
\<close>

section \<open>The instructions of a method\<close>

text \<open>The codes that the stream reads from a position on, with the state after each.\<close>

function instructions :: "code_array \<Rightarrow> RawBytecodeStream \<Rightarrow> (Code \<times> RawBytecodeStream) list" where
  "instructions m s =
    (if is_last_bytecode s then []
     else case raw_next m s of
       Inl e \<Rightarrow> []
     | Inr (c, s') \<Rightarrow> if c \<noteq> bc_illegal then (c, s') # instructions m s' else [])"
  by pat_completeness auto
termination
  by (relation "measure (\<lambda>(m, s). nat (bcs_end_bci s - bcs_next_bci s))")
    (auto simp: is_last_bytecode_def dest!: raw_next_progress)

declare instructions.simps [simp del]

definition method_instructions :: "code_array \<Rightarrow> (Code \<times> RawBytecodeStream) list" where
  "method_instructions m = instructions m (new_raw_stream m)"

definition starts :: "(Code \<times> RawBytecodeStream) list \<Rightarrow> int list" where
  "starts is = map (\<lambda>(c, s). bcs_bci s) is"

text \<open>Each position at which the stream reads an instruction has the number of a code.\<close>

definition codes_from :: "code_array \<Rightarrow> RawBytecodeStream \<Rightarrow> bool" where
  "codes_from m s \<longleftrightarrow> list_all (\<lambda>p. p < code_size m \<longrightarrow> code_at_ok m p) (bcs_next_bci s # map (\<lambda>(c, s'). bcs_next_bci s') (instructions m s))"

lemma instructions_step:
  assumes "\<not> is_last_bytecode s" "raw_next m s = Inr (c, s')" "c \<noteq> bc_illegal"
  shows "instructions m s = (c, s') # instructions m s'"
  using assms by (subst instructions.simps) simp

lemma instructions_last: "is_last_bytecode s \<Longrightarrow> instructions m s = []"
  by (subst instructions.simps) simp

lemma new_stream_ok: "stream_ok m (new_raw_stream m)"
  by (simp add: stream_ok_def new_raw_stream_def set_interval_def code_size_def)

lemma stream_next:
  assumes s: "stream_ok m s" "\<not> is_last_bytecode s" and c: "codes_from m s"
  shows "\<exists>c s'. raw_next m s = Inr (c, s') \<and> bcs_bci s' = bcs_next_bci s \<and> bcs_raw_code s' = c \<and>
    (c = bc_illegal \<or> instruction_at m c s' \<and> stream_ok m s' \<and> codes_from m s')"
proof -
  have "bcs_next_bci s < code_size m" using s by (auto simp: stream_ok_def is_last_bytecode_def)
  then have "code_at_ok m (bcs_next_bci s)" using c by (simp add: codes_from_def)
  from raw_next_spec [OF s this] obtain c' s' where r: "raw_next m s = Inr (c', s')" "bcs_raw_code s' = c'" "bcs_end_bci s' = bcs_end_bci s"
    "bcs_bci s' = bcs_next_bci s" "c' = bc_illegal \<or> instruction_at m c' s'" by blast
  have "stream_ok m s' \<and> codes_from m s'" if "c' \<noteq> bc_illegal" "instruction_at m c' s'"
    using c s(1) r(3) that(2) instructions_step [OF s(2) r(1) that(1)] by (auto simp: stream_ok_def instruction_at_def codes_from_def)
  then show ?thesis using r by blast
qed

lemma starts_bounds: "(c, s') \<in> set (instructions m s) \<Longrightarrow> bcs_next_bci s \<le> bcs_bci s'"
proof (induction m s arbitrary: c s' rule: instructions.induct)
  case (1 m s)
  obtain c0 s0 where r: "\<not> is_last_bytecode s" "raw_next m s = Inr (c0, s0)" "c0 \<noteq> bc_illegal"
    using "1.prems" instructions.simps [of m s] by (cases "raw_next m s") (auto split: if_splits)
  have p: "bcs_next_bci s < bcs_next_bci s0" "bcs_bci s0 = bcs_next_bci s" using raw_next_progress [OF r(2,3)] by simp_all
  show ?case using "1.prems" instructions_step [OF r] p "1.IH" [OF r(1,2) refl r(3)] by fastforce
qed

section \<open>The map of the code\<close>

definition mark_of :: "Code \<Rightarrow> u1" where
  "mark_of c = (if c = bc_new then NEW_OFFSET else BYTECODE_OFFSET)"

lemma mark_nonzero [simp]: "mark_of c \<noteq> 0"
  by (simp add: mark_of_def NEW_OFFSET_def BYTECODE_OFFSET_def)

lemma code_data_spec:
  assumes "code_data_loop m s data = Inr d" "stream_ok m s" "codes_from m s"
  shows "length d = length data \<and>
    (\<forall>p < length data. d ! p \<noteq> data ! p \<longrightarrow> (\<exists>(c, s') \<in> set (instructions m s). bcs_bci s' = int p)) \<and>
    (\<forall>(c, s') \<in> set (instructions m s). 0 \<le> bcs_bci s' \<and> bcs_bci s' < int (length data) \<and> d ! nat (bcs_bci s') = mark_of c)"
  using assms
proof (induction m s data rule: code_data_loop.induct)
  case (1 m s data)
  show ?case
  proof (cases "is_last_bytecode s")
    case True
    then show ?thesis using "1.prems"(1) by (subst (asm) code_data_loop.simps) (simp add: instructions_last)
  next
    case False
    obtain c s' where r: "raw_next m s = Inr (c, s')" "bcs_bci s' = bcs_next_bci s" "bcs_raw_code s' = c"
      "c = bc_illegal \<or> instruction_at m c s' \<and> stream_ok m s' \<and> codes_from m s'"
      using stream_next [OF "1.prems"(2) False "1.prems"(3)] by blast
    have legal: "c \<noteq> bc_illegal"
      using "1.prems"(1) False r(1) by (subst (asm) code_data_loop.simps) (auto simp: verify_error_def)
    obtain data' where d: "arr_set data (bcs_bci s') (mark_of c) = Inr data'" "code_data_loop m s' data' = Inr d"
      using "1.prems"(1) False r(1,3) legal by (subst (asm) code_data_loop.simps) (auto simp: rbind_Inr_iff mark_of_def)
    then have b: "0 \<le> bcs_bci s'" "bcs_bci s' < int (length data)" "data' = data[nat (bcs_bci s') := mark_of c]"
      by (auto simp: arr_set_Inr)
    have nx: "bcs_bci s' < bcs_next_bci s'" using r(4) legal by (simp add: instruction_at_def)
    have IH: "length d = length data' \<and>
      (\<forall>p < length data'. d ! p \<noteq> data' ! p \<longrightarrow> (\<exists>(c, t) \<in> set (instructions m s'). bcs_bci t = int p)) \<and>
      (\<forall>(c, t) \<in> set (instructions m s'). 0 \<le> bcs_bci t \<and> bcs_bci t < int (length data') \<and> d ! nat (bcs_bci t) = mark_of c)"
      using "1.IH" [OF False r(1) refl legal, of data'] d r(3,4) legal by (simp add: mark_of_def)
    have "d ! nat (bcs_bci s') = mark_of c"
    proof (rule ccontr)
      assume "d ! nat (bcs_bci s') \<noteq> mark_of c"
      then have "d ! nat (bcs_bci s') \<noteq> data' ! nat (bcs_bci s')" "nat (bcs_bci s') < length data'" using b by auto
      then obtain c2 t where "(c2, t) \<in> set (instructions m s')" "bcs_bci t = bcs_bci s'" using IH b(1) by fastforce
      then show False using starts_bounds [of c2 t m s'] nx by simp
    qed
    moreover have "d ! p \<noteq> data ! p \<longrightarrow> (\<exists>(c, t) \<in> set (instructions m s). bcs_bci t = int p)" if "p < length data" for p
      using IH that b instructions_step [OF False r(1) legal] by (cases "p = nat (bcs_bci s')") (auto simp: nth_list_update)
    ultimately show ?thesis using IH b instructions_step [OF False r(1) legal] by auto
  qed
qed

lemma code_data_safe:
  assumes "stream_ok m s" "codes_from m s" "int (length data) = code_size m"
  shows "safe (\<lambda>d. int (length d) = code_size m) (code_data_loop m s data)"
  using assms
proof (induction m s data rule: code_data_loop.induct)
  case (1 m s data)
  show ?case
  proof (cases "is_last_bytecode s")
    case True
    then show ?thesis using "1.prems"(3) by (subst code_data_loop.simps) simp
  next
    case False
    obtain c s' where r: "raw_next m s = Inr (c, s')" "bcs_bci s' = bcs_next_bci s"
      "c = bc_illegal \<or> instruction_at m c s' \<and> stream_ok m s' \<and> codes_from m s'"
      using stream_next [OF "1.prems"(1) False "1.prems"(2)] by blast
    show ?thesis
    proof (cases "c = bc_illegal")
      case True
      then show ?thesis using False r(1) by (subst code_data_loop.simps) simp
    next
      case legal: False
      let ?w = "if bcs_raw_code s' = bc_new then NEW_OFFSET else BYTECODE_OFFSET"
      have set: "arr_set data (bcs_bci s') ?w = Inr (data[nat (bcs_bci s') := ?w])"
        using r(3) legal "1.prems"(3) by (auto simp: arr_set_def instruction_at_def)
      have "safe (\<lambda>d. int (length d) = code_size m) (code_data_loop m s' (data[nat (bcs_bci s') := ?w]))"
        using "1.IH" [OF False r(1) refl legal set] r(3) legal "1.prems"(3) by simp
      then show ?thesis using False r(1) legal set by (subst code_data_loop.simps) simp
    qed
  qed
qed

section \<open>The tables of a method\<close>

lemma instruction_test_safe: "int (length d) = n \<Longrightarrow> 0 \<le> p \<Longrightarrow> safe (\<lambda>_. True) (not_an_instruction n d p)"
  by (simp add: not_an_instruction_def arr_get_def)

lemma catch_type_safe:
  assumes "class_ok v" "ex_catch_type_index e = 0 \<or> (\<exists>n. klass_name_at (uint (ex_catch_type_index e)) cp = Inr n \<and> sound_name n)"
  shows "safe (\<lambda>_. True) (verify_catch_type v cp e)"
  using assms unfolding verify_catch_type_def
  by (auto simp: cp_index_to_type_def intro!: safe_bind [OF assign_safe [OF class_env]])

lemma handler_table_safe:
  assumes v: "class_ok v" and d: "int (length d) = n"
    and es: "list_all (\<lambda>e. ex_catch_type_index e = 0 \<or> (\<exists>n. klass_name_at (uint (ex_catch_type_index e)) cp = Inr n \<and> sound_name n)) es"
  shows "safe (\<lambda>_. True) (verify_exception_handler_table v cp n d es mn mx)"
  using es
proof (induction es arbitrary: mn mx)
  case (Cons e es)
  have start: "safe (\<lambda>_. True) (not_an_instruction n d (uint (w :: u2)))" for w by (rule instruction_test_safe [OF d]) simp
  have stop: "safe (\<lambda>_. True) (if uint (ex_end_pc e) = n then Inr False else if uint (ex_end_pc e) > n then Inr True
      else rbind (arr_get d (uint (ex_end_pc e))) (\<lambda>c. Inr (c = 0)))" using d by (simp add: arr_get_def)
  have catch: "safe (\<lambda>_. True) (verify_catch_type v cp e)" using Cons.prems by (intro catch_type_safe [OF v]) simp
  show ?case unfolding verify_exception_handler_table.simps Let_def
    by (rule safe_bind [OF start], rule safe_if, rule safe_errors, rule safe_bind [OF stop], rule safe_if, rule safe_errors,
        rule safe_bind [OF start], rule safe_if, rule safe_errors, rule safe_bind [OF catch], rule Cons.IH) (use Cons.prems in simp)
qed simp

lemma variable_table_safe:
  assumes "int (length d) = n" shows "safe (\<lambda>_. True) (verify_local_variable_table n d es)"
proof (induction es)
  case (Cons e es)
  obtain st len where e: "e = (st, len)" by (cases e)
  have 1: "safe (\<lambda>_. True) (not_an_instruction n d (uint st))" by (rule instruction_test_safe [OF assms]) simp
  have 2: "safe (\<lambda>_. True) (if uint st + uint len = n then Inr False else not_an_instruction n d (uint st + uint len))"
    using instruction_test_safe [OF assms, of "uint st + uint len"] by simp
  show ?case unfolding e verify_local_variable_table.simps Let_def
    by (intro safe_bind [OF 1] safe_if safe_errors safe_bind [OF 2] Cons)
qed simp

text \<open>The initial frame, and the arguments for which there is one.\<close>

definition arguments_ok :: "ClassVerifier \<Rightarrow> Method \<Rightarrow> bool" where
  "arguments_ok v mt \<longleftrightarrow> (\<exists>ps r. m_signature mt = show_method ps r \<and> list_all arg_ft ps \<and> wf_ft r \<and> no_void_array r \<and>
     list_all sound_type (arg_types ps) \<and> sound_type (ft_return_type r) \<and>
     length (receiver_types (m_name mt) (m_is_static mt) (current_type v) @ arg_types ps) \<le> unat (m_max_locals mt))"

lemma initial_frame_fr:
  assumes v: "class_ok v" and a: "arguments_ok v mt"
  shows "\<exists>rt f. set_locals_from_arg (m_name mt) (m_is_static mt) (m_signature mt) (current_type v) (new_frame (m_max_locals mt) (m_max_stack mt)) =
      Some (Inr (rt, f)) \<and> sound_type rt \<and> fr (uint (m_max_locals mt)) (uint (m_max_stack mt)) 0 f \<and> smf_offset f = 0"
proof -
  obtain ps r where p: "m_signature mt = show_method ps r" "list_all arg_ft ps" "wf_ft r" "no_void_array r"
     "list_all sound_type (arg_types ps)" "sound_type (ft_return_type r)"
     "length (receiver_types (m_name mt) (m_is_static mt) (current_type v) @ arg_types ps) \<le> unat (m_max_locals mt)"
    using a unfolding arguments_ok_def by blast
  have cur: "single (current_type v)" "sound_type (current_type v)"
    using class_name_sound [OF v] by (simp_all add: current_type_def single_def half2_def is_half2_def reference_type_def type_defs)
  note I = initial_frame_eq [OF p(2-4) cur p(5,7), of "m_max_stack mt"]
  show ?thesis using I p(6) unfolding p(1) by (intro exI conjI) (erule conjunct1, assumption, simp_all add: fr_def new_frame_def)
qed

text \<open>The constructor of the stack map table, on the map of the code of a method.\<close>

definition stack_map_of :: "Method \<Rightarrow> StackMapFrame \<Rightarrow> u1 list \<Rightarrow> fault + StackMapTable" where
  "stack_map_of mt f code_data =
    (case new_reader (m_constants mt) (m_stackmap_data mt) code_data (code_size (m_code mt)) of (reader, frame_count) \<Rightarrow>
       new_table reader frame_count f (m_max_locals mt) (m_max_stack mt) code_data (code_size (m_code mt)))"

lemma method_tables_eq:
  "method_tables v mt f =
     rbind (generate_code_data (m_code mt) (code_size (m_code mt))) (\<lambda>code_data.
     rbind (verify_exception_handler_table v (m_constants mt) (code_size (m_code mt)) code_data (m_exception_table mt)
       (code_size (m_code mt)) (- 1)) (\<lambda>(ex_min, ex_max).
     rbind (case m_localvariable_table mt of None \<Rightarrow> Inr () | Some es \<Rightarrow> verify_local_variable_table (code_size (m_code mt)) code_data es) (\<lambda>_.
     rbind (stack_map_of mt f code_data) (\<lambda>t. Inr (ex_min, ex_max, t)))))"
  by (simp add: method_tables_def stack_map_of_def Let_def split_beta)

lemma stack_map_frames:
  assumes "pool_ok (m_constants mt)" "fr (uint (m_max_locals mt)) ms 0 f" "smf_offset f = 0" "int (length d) = code_size (m_code mt)"
    and "stack_map_of mt f d = Inr t"
  shows "table_ok (m_max_locals mt) (m_max_stack mt) t \<and> list_all (at_instruction d (code_size (m_code mt))) (smt_frame_array t) \<and>
    smt_code_length t = code_size (m_code mt)"
proof -
  let ?n = "code_size (m_code mt)"
  obtain r k where r: "new_reader (m_constants mt) (m_stackmap_data mt) d ?n = (r, k)" by fastforce
  obtain n where k: "k = Some n" using assms(5) r by (cases k) (auto simp: stack_map_of_def new_table_def)
  let ?r0 = "\<lparr>sr_cp = m_constants mt, sr_data = m_stackmap_data mt, sr_index = 0, sr_code_data = d, sr_code_length = ?n, sr_fault = None\<rparr>"
  have ok0: "reader_ok ?r0" using pool_klasses [OF assms(1)] assms(4) by (simp add: reader_ok_def)
  obtain w r1 where u2: "sms_get_u2 ?r0 = (w, r1)" by fastforce
  have "r = ?r0 \<or> r = r1" using r u2 by (simp add: new_reader_def Let_def split: if_splits)
  then have ok: "reader_ok r" using ok0 step_ok [OF get_u2_step [OF ok0 u2]] by auto
  have pre: "pre_ok (m_max_locals mt) f" using assms(2,3) by (intro frame_ok_pre) (auto simp: fr_def)
  obtain fs r' where fs: "read_frames (nat n) True 0 f (m_max_locals mt) (m_max_stack mt) d ?n r = Inr (fs, r')"
    and t: "t = \<lparr>smt_code_length = ?n, smt_frame_array = fs\<rparr>"
    using assms(5) r k by (auto simp: stack_map_of_def new_table_def rbind_Inr_iff split: option.splits)
  show ?thesis using read_frames_ok [OF pre ok assms(4) fs] t by (simp add: table_ok_def)
qed

section \<open>The loop over the code\<close>

lemma match_update_safe:
  assumes e: "env_defined context" and f: "fr (uint ml) (uint ms) n f" and t: "table_ok ml ms t" and i: "0 \<le> i"
  shows "safe (\<lambda>(r, f). \<exists>n. fr (uint ml) (uint ms) n f) (match_stackmap_at context f target i b True t)"
proof (cases "i < smt_frame_count t")
  case True
  let ?g = "smt_frame_array t ! nat i"
  have g: "table_entry_ok ml ms ?g" using t i True by (auto simp: table_ok_def list_all_length smt_frame_count_def)
  have get: "arr_get (smt_frame_array t) i = Inr ?g" using i True by (simp add: arr_get_def smt_frame_count_def)
  have 1: "safe (\<lambda>_. True) (if b then frame_is_assignable_to context f ?g else Inr None)"
    using frame_assignable_safe [OF e fr_matchable [OF f] g] by simp
  have m: "frame_ok f" "max_locals f = uint ml" "max_stack f = uint ms" using f by (simp_all add: fr_def)
  have 2: "safe (\<lambda>(r, f). \<exists>n. fr (uint ml) (uint ms) n f)
      (rbind (if locals_size f > locals_size ?g \<or> stack_size f > stack_size ?g then reset f else Inr f) (\<lambda>frame.
      rbind (copy_locals ?g (set_locals_size (locals_size ?g) frame)) (\<lambda>frame.
      rbind (copy_stack ?g (set_stack_size (stack_size ?g) frame)) (\<lambda>frame. Inr (res, set_flags (flags ?g) frame)))))" for res
    using update_from_entry [OF m g, of res] m by (auto simp: fr_def)
  have "\<not> (i < 0 \<or> smt_frame_count t \<le> i)" using i True by simp
  then show ?thesis unfolding match_stackmap_at_def Let_def get if_True rbind_simps
    by (simp only: if_False) (rule safe_bind [OF 1], rule 2)
qed (use i in \<open>simp add: match_stackmap_at_def\<close>)

lemma stackmap_at_safe:
  assumes v: "class_ok v" and f: "fr (uint ml) (uint ms) n f" and t: "table_ok ml ms t" and i: "0 \<le> i"
  shows "safe (\<lambda>(i, f). 0 \<le> i \<and> (\<exists>n. fr (uint ml) (uint ms) n f)) (verify_stackmap_table v i bci f t nc)"
proof (cases "i < smt_frame_count t")
  case True
  then obtain off where off: "get_offset i t = Inr off" using i by (simp add: get_offset_def arr_get_def smt_frame_count_def)
  have m: "safe (\<lambda>(i, f). 0 \<le> i \<and> (\<exists>n. fr (uint ml) (uint ms) n f))
      (rbind (match_stackmap_at (cv_context v) f target i b True t) (\<lambda>(mismatch, frame).
         case mismatch of Some ctx \<Rightarrow> verify_error ctx msg | None \<Rightarrow> Inr (u2_of (i + 1), frame)))" for target b msg
    by (rule safe_bind [OF match_update_safe [OF class_env [OF v] f t i]]) (auto simp: u2_of_def split: option.splits)
  show ?thesis unfolding verify_stackmap_table_def Let_def using True off i f m by auto
qed (use i f in \<open>auto simp: verify_stackmap_table_def\<close>)

lemma step_safe:
  assumes e: "method_env_ok v mt" and t: "table_ok ml ms t" and f: "fr (uint ml) (uint ms) n f" and rt: "sound_type rt" and i: "0 \<le> i"
    and ins: "instruction_at (m_code mt) opcode bcs" "bcs_raw_code bcs = opcode"
  shows "returns (\<lambda>(f, i, _). 0 \<le> i \<and> (\<exists>n. fr (uint ml) (uint ms) n f)) (verify_step v mt rt mn mx t opcode bcs f i nc)"
proof -
  have "\<exists>w. is_wide bcs = Inr w" using ins(1) by (auto simp: is_wide_def instruction_at_def)
  then obtain w where wide: "is_wide bcs = Inr w" ..
  let ?bci = "u2_of (bcs_bci bcs)"
  let ?targets = "\<lambda>b f. verify_exception_handler_targets v (m_constants mt) ?bci b f t (m_exception_table mt)"
  have f': "fr (uint ml) (uint ms) n (set_mark (set_offset ?bci f))" using f by (simp add: fr_def set_mark_def set_offset_def simple_ops_ok frame_ok_def)
  have tgt: "safe (\<lambda>_. True) (if c then ?targets b g else Inr ())" if "fr (uint ml) (uint ms) k g" for c b k g
    using method_targets_safe [OF e t fr_matchable [OF that]] by simp
  have before: "safe (\<lambda>(i, f). 0 \<le> i \<and> (\<exists>n. fr (uint ml) (uint ms) n f))
     (rbind (verify_stackmap_table v i ?bci (set_mark (set_offset ?bci f)) t nc) (\<lambda>(stackmap_index, f).
       rbind (is_wide bcs) (\<lambda>wide.
       if wide \<and> opcode \<notin> set wide_codes then verify_error (bad_code ?bci) ''Bad wide instruction''
       else rbind (if c then ?targets False f else Inr ()) (\<lambda>_. Inr (stackmap_index, f)))))" for c
    by (rule safe_bind [OF stackmap_at_safe [OF env_parts(1) [OF e] f' t i]])
      (clarsimp simp only: wide rbind_simps, intro safe_if safe_errors, rule safe_bind [OF tgt], assumption, auto)
  have after: "returns (\<lambda>(f, i, _). 0 \<le> i \<and> (\<exists>n. fr (uint ml) (uint ms) n f))
     (pbind (verify_instruction v mt rt opcode bcs in_try t g) (\<lambda>(f, this_uninit, no_control_flow).
     Some (rbind (if c then ?targets this_uninit f else Inr ()) (\<lambda>_. Inr (f, j, no_control_flow)))))"
    if "0 \<le> j" "fr (uint ml) (uint ms) k g" for j g k c in_try
    by (rule returns_bind [OF verify_instruction_ok [OF e t that(2) rt ins, unfolded step_ok_def]])
      (clarsimp split del: if_split, rule safe_bind [OF tgt], assumption, use that(1) in auto)
  show ?thesis unfolding verify_step_def Let_def
    by (rule returns_bind, unfold returns_Some, rule before) (auto intro: after)
qed

lemma code_data_next:
  assumes "code_data_loop m s data = Inr d" "\<not> is_last_bytecode s" "stream_ok m s" "codes_from m s"
  shows "\<exists>c s' data'. raw_next m s = Inr (c, s') \<and> c \<noteq> bc_illegal \<and> bcs_raw_code s' = c \<and> instruction_at m c s' \<and> stream_ok m s' \<and>
    codes_from m s' \<and> code_data_loop m s' data' = Inr d"
proof -
  obtain c s' where r: "raw_next m s = Inr (c, s')" "bcs_raw_code s' = c"
    "c = bc_illegal \<or> instruction_at m c s' \<and> stream_ok m s' \<and> codes_from m s'"
    using stream_next [OF assms(3,2,4)] by blast
  have c: "c \<noteq> bc_illegal" using assms(1,2) r(1) by (subst (asm) code_data_loop.simps) (auto simp: verify_error_def)
  then have "\<exists>data'. code_data_loop m s' data' = Inr d"
    using assms(1,2) r(1) by (subst (asm) code_data_loop.simps) (auto simp: rbind_Inr_iff)
  then show ?thesis using r c by blast
qed

lemma loop_safe:
  assumes e: "method_env_ok v mt" and t: "table_ok ml ms t" and rt: "sound_type rt"
    and "code_data_loop (m_code mt) bcs data = Inr d" "stream_ok (m_code mt) bcs" "codes_from (m_code mt) bcs"
    and "fr (uint ml) (uint ms) n f" "0 \<le> i"
  shows "returns (\<lambda>_. True) (code_loop v mt rt mn mx t bcs f i nc)"
  using assms(4-)
proof (induction "nat (bcs_end_bci bcs - bcs_next_bci bcs)" arbitrary: bcs data f n i nc rule: less_induct)
  case less
  show ?case
  proof (cases "is_last_bytecode bcs \<or> cv_rewritten_at v (bcs_next_bci bcs)")
    case True
    then show ?thesis by (subst code_loop.simps) auto
  next
    case False
    then have nl: "\<not> is_last_bytecode bcs" by simp
    obtain c s data' where r: "raw_next (m_code mt) bcs = Inr (c, s)" "c \<noteq> bc_illegal" "bcs_raw_code s = c" "instruction_at (m_code mt) c s"
      "stream_ok (m_code mt) s" "codes_from (m_code mt) s" "code_data_loop (m_code mt) s data' = Inr d"
      using code_data_next [OF less.prems(1) nl less.prems(2,3)] by blast
    have dec: "nat (bcs_end_bci s - bcs_next_bci s) < nat (bcs_end_bci bcs - bcs_next_bci bcs)"
      using raw_next_progress [OF r(1,2)] nl by (auto simp: is_last_bytecode_def)
    have "returns (\<lambda>_. True) (pbind (verify_step v mt rt mn mx t c s f i nc) (\<lambda>y. case y of (f', i', n') \<Rightarrow>
         code_loop v mt rt mn mx t s f' i' n'))"
      by (rule returns_bind [OF step_safe [OF e t less.prems(4) rt less.prems(5) r(4,3)]])
        (use less.hyps [OF dec r(7,5,6)] in auto)
    then show ?thesis using False r(1) by (subst code_loop.simps) simp
  qed
qed

section \<open>The verification of a method\<close>

text \<open>The constructor of the stack map table has an undefined result on the table of the method.\<close>

definition stack_map_undefined :: "ClassVerifier \<Rightarrow> Method \<Rightarrow> bool" where
  "stack_map_undefined v mt \<longleftrightarrow>
     (case set_locals_from_arg (m_name mt) (m_is_static mt) (m_signature mt) (current_type v) (new_frame (m_max_locals mt) (m_max_stack mt)) of
        Some (Inr (return_type, f)) \<Rightarrow>
          (case generate_code_data (m_code mt) (code_size (m_code mt)) of
             Inr d \<Rightarrow> stack_map_of mt f d = Inl Undefined_Behaviour | Inl e \<Rightarrow> False)
      | _ \<Rightarrow> False)"

lemma code_data_length:
  assumes "codes_from (m_code mt) (new_raw_stream (m_code mt))"
  shows "safe (\<lambda>d. int (length d) = code_size (m_code mt)) (generate_code_data (m_code mt) (code_size (m_code mt)))"
  unfolding generate_code_data_def
  by (rule code_data_safe [OF new_stream_ok assms]) (simp add: code_size_def)

lemma tables_safe:
  assumes e: "method_env_ok v mt" and d: "generate_code_data (m_code mt) (code_size (m_code mt)) = Inr d" "int (length d) = code_size (m_code mt)"
    and f: "fr (uint (m_max_locals mt)) (uint (m_max_stack mt)) 0 f" "smf_offset f = 0"
    and u: "stack_map_of mt f d \<noteq> Inl Undefined_Behaviour"
  shows "safe (\<lambda>(mn, mx, t). table_ok (m_max_locals mt) (m_max_stack mt) t) (method_tables v mt f)"
proof -
  let ?n = "code_size (m_code mt)"
  have 1: "safe (\<lambda>_. True) (verify_exception_handler_table v (m_constants mt) ?n d (m_exception_table mt) ?n (- 1))"
    using env_parts [OF e] d(2) by (intro handler_table_safe) (auto simp: handlers_ok_def list_all_iff)
  have 2: "safe (\<lambda>_. True) (case m_localvariable_table mt of None \<Rightarrow> Inr () | Some es \<Rightarrow> verify_local_variable_table ?n d es)"
    using variable_table_safe [OF d(2)] by (simp split: option.splits)
  have 3: "safe (table_ok (m_max_locals mt) (m_max_stack mt)) (stack_map_of mt f d)"
    using u stack_map_frames [OF env_parts(3) [OF e] f d(2)] by (cases "stack_map_of mt f d") auto
  show ?thesis unfolding method_tables_eq d(1) rbind_simps
    by (rule safe_bind [OF 1], clarsimp, rule safe_bind [OF 2], rule safe_bind [OF 3], simp)
qed

text \<open>The verification of a method whose constants, signatures and codes are those of a parsed class file
  returns, and is defined when the stack map table is read without an undefined result.\<close>

definition method_ok :: "ClassVerifier \<Rightarrow> Method \<Rightarrow> bool" where
  "method_ok v mt \<longleftrightarrow> method_env_ok v mt \<and> arguments_ok v mt \<and> codes_from (m_code mt) (new_raw_stream (m_code mt))"

text \<open>What the class file parser and the loader leave: the part of \<open>method_ok\<close> that is not about fields of other packages
  and the scan of handlers.\<close>

definition method_wf :: "ClassVerifier \<Rightarrow> Method \<Rightarrow> bool" where
  "method_wf v mt \<longleftrightarrow> class_ok v \<and> pool_ok (m_constants mt) \<and> members_ok (m_constants mt) \<and> handlers_ok mt \<and>
     code_size (m_code mt) < 65536 \<and> arguments_ok v mt \<and> codes_from (m_code mt) (new_raw_stream (m_code mt))"

lemma method_ok_iff: "method_ok v mt \<longleftrightarrow> method_wf v mt \<and> fields_open v (m_constants mt) \<and> scans_return mt"
  by (auto simp: method_ok_def method_env_ok_def method_wf_def)

lemma wf_parts:
  assumes "method_wf v mt"
  shows "class_ok v" "pool_ok (m_constants mt)" "members_ok (m_constants mt)" "handlers_ok mt" "code_size (m_code mt) < 65536"
    "arguments_ok v mt" "codes_from (m_code mt) (new_raw_stream (m_code mt))"
  using assms by (simp_all add: method_wf_def)

lemma method_returns:
  assumes "method_ok v mt" "\<not> stack_map_undefined v mt"
  shows "returns (\<lambda>_. True) (verify_method v mt)"
proof (cases "is_valid_method_signature (m_signature mt)")
  case True
  have e: "method_env_ok v mt" and a: "arguments_ok v mt" and c: "codes_from (m_code mt) (new_raw_stream (m_code mt))"
    using assms(1) by (simp_all add: method_ok_def)
  obtain rt f where i: "set_locals_from_arg (m_name mt) (m_is_static mt) (m_signature mt) (current_type v)
      (new_frame (m_max_locals mt) (m_max_stack mt)) = Some (Inr (rt, f))" "sound_type rt"
      "fr (uint (m_max_locals mt)) (uint (m_max_stack mt)) 0 f" "smf_offset f = 0"
    using initial_frame_fr [OF env_parts(1) [OF e] a] by (elim exE conjE) (rule that; assumption)
  show ?thesis
  proof (cases "generate_code_data (m_code mt) (code_size (m_code mt))")
    case (Inl x)
    then show ?thesis using code_data_length [OF c] True i(1) by (simp add: verify_method_def method_tables_eq)
  next
    case (Inr d)
    have len: "int (length d) = code_size (m_code mt)" using code_data_length [OF c] Inr by simp
    have u: "stack_map_of mt f d \<noteq> Inl Undefined_Behaviour" using assms(2) i(1) Inr by (simp add: stack_map_undefined_def)
    have T: "returns (\<lambda>(mn, mx, t). table_ok (m_max_locals mt) (m_max_stack mt) t) (Some (method_tables v mt f))"
      using tables_safe [OF e Inr len i(3,4) u] by simp
    have L: "returns (\<lambda>_. True) (code_loop v mt rt mn mx t (new_raw_stream (m_code mt)) f 0 False)"
      if "table_ok (m_max_locals mt) (m_max_stack mt) t" for mn mx t
      by (rule loop_safe [OF e that i(2) Inr [unfolded generate_code_data_def] new_stream_ok c i(3)]) simp
    show ?thesis unfolding verify_method_def using True i(1)
      by simp (rule returns_bind [OF T], clarsimp, rule returns_bind [OF L], assumption, simp)
  qed
qed (simp add: verify_method_def)

end
