(* ===== verification/Accepted_Code.thy ===== *)
theory Accepted_Code
  imports Method_Safety
begin

text \<open>
  The code of a method that \<open>ClassVerifier::verify_method\<close> accepts: what its instructions jump to,
  after which of them control does not reach the next one, and that every successor is an
  instruction.  Then the exception handler table, and the rounds of \<open>ends_in_athrow\<close> at a switch
  that jumps to itself.
\<close>

section \<open>The successors of an instruction\<close>

text \<open>The targets of the jumps of an instruction, in exact arithmetic; and the codes after which
  control does not reach the next instruction.\<close>

fun switch_entries :: "code_array \<Rightarrow> int \<Rightarrow> int \<Rightarrow> nat \<Rightarrow> nat \<Rightarrow> fault + int list" where
  "switch_entries m bci delta i 0 = Inr []"
| "switch_entries m bci delta i (Suc n) =
     rbind (get_Java_u4 m (aligned_bcp m bci + (3 + int i * delta) * 4)) (\<lambda>w.
     rbind (switch_entries m bci delta (Suc i) n) (\<lambda>ts. Inr ((bci + sint w) # ts)))"

definition switch_targets :: "code_array \<Rightarrow> Code \<Rightarrow> int \<Rightarrow> fault + int list" where
  "switch_targets m c bci =
    (let a = aligned_bcp m bci in
     rbind (get_Java_u4 m a) (\<lambda>d.
     rbind (get_Java_u4 m (a + 4)) (\<lambda>low.
     rbind (if c = bc_tableswitch
            then rbind (get_Java_u4 m (a + 8)) (\<lambda>high. switch_entries m bci 1 0 (nat (sint high - sint low + 1)))
            else switch_entries m bci 2 0 (nat (sint low))) (\<lambda>ts. Inr ((bci + sint d) # ts)))))"

definition jump_targets :: "code_array \<Rightarrow> Code \<Rightarrow> RawBytecodeStream \<Rightarrow> fault + int list" where
  "jump_targets m c s =
    (if c = bc_goto \<or> c \<in> set conditional_branch_codes then rbind (get_Java_u2 m (bcs_bci s + 1)) (\<lambda>w. Inr [bcs_bci s + sint w])
     else if c = bc_goto_w then rbind (get_Java_u4 m (bcs_bci s + 1)) (\<lambda>w. Inr [bcs_bci s + sint w])
     else if c = bc_tableswitch \<or> c = bc_lookupswitch then switch_targets m c (bcs_bci s)
     else Inr [])"

definition no_fall_codes :: "Code list" where
  "no_fall_codes = [bc_goto, bc_goto_w, bc_tableswitch, bc_lookupswitch, bc_ireturn, bc_lreturn, bc_freturn, bc_dreturn, bc_areturn,
     bc_return, bc_athrow]"

section \<open>What an accepted instruction jumps to\<close>

definition frame_at :: "StackMapTable \<Rightarrow> int \<Rightarrow> bool" where
  "frame_at t p \<longleftrightarrow> p \<in> smf_offset ` set (smt_frame_array t)"

lemma index_from_offset_found: "index_from_offset fs p < length fs \<Longrightarrow> p \<in> smf_offset ` set fs"
  by (induction fs) (auto split: if_splits)

lemma checked_target:
  assumes "check_jump_target context f p t = Inr ()" shows "frame_at t p" "0 \<le> p"
proof -
  have "get_index_from_offset p t < smt_frame_count t"
    using assms by (auto simp: check_jump_target_def match_stackmap_def match_stackmap_at_def rbind_Inr_iff split: if_splits)
  then show "frame_at t p" by (auto simp: get_index_from_offset_def smt_frame_count_def frame_at_def intro: index_from_offset_found)
  show "0 \<le> p" using assms by (auto simp: check_jump_target_def rbind_Inr_iff split: option.splits if_splits prod.splits)
qed

lemma exact_target:
  assumes "0 \<le> bci" "bci < 65536" "0 \<le> signed_take_bit 31 (bci + sint (w :: 32 word))"
  shows "signed_take_bit 31 (bci + sint w) = bci + sint w"
proof -
  have w: "- (2 ^ 31) \<le> sint w" "sint w < 2 ^ 31" using sint_greater_eq [of w] sint_less [of w] by simp_all
  have "bci + sint w < 2 ^ 31"
  proof (rule ccontr)
    assume "\<not> bci + sint w < 2 ^ 31"
    then have "signed_take_bit 31 (bci + sint w) = bci + sint w - 2 ^ 32"
      using w assms(2) minus_mod_self2 [of "bci + sint w + 2 ^ 31" "2 ^ 32"]
      by (simp add: signed_take_bit_eq_take_bit_shift take_bit_eq_mod)
    then show False using assms(3) w assms(2) by simp
  qed
  then show ?thesis using w assms(1) by (intro signed_take_bit_int_eq_self) auto
qed

lemma switch_loop_targets:
  assumes "switch_targets_loop v m bci delta f t (int i + int n) (int i) = Inr ()" "0 \<le> bci" "bci < 65536"
  shows "\<exists>ts. switch_entries m bci delta i n = Inr ts \<and> list_all (frame_at t) ts"
  using assms(1)
proof (induction n arbitrary: i)
  case (Suc n)
  from Suc.prems obtain w where w: "get_Java_u4 m (aligned_bcp m bci + (3 + int i * delta) * 4) = Inr w"
    "check_jump_target (cv_context v) f (signed_take_bit 31 (bci + sint w)) t = Inr ()"
    "switch_targets_loop v m bci delta f t (int i + int (Suc n)) (int i + 1) = Inr ()"
    by (subst (asm) switch_targets_loop.simps) (auto simp: rbind_Inr_iff)
  from Suc.IH [of "Suc i"] w(3) obtain ts where "switch_entries m bci delta (Suc i) n = Inr ts" "list_all (frame_at t) ts"
    by (auto simp: algebra_simps)
  then show ?case using w(1) checked_target [OF w(2)] exact_target [OF assms(2,3) checked_target(2) [OF w(2)]] by simp
qed simp

lemma jump_checked:
  assumes "jump v t d f = Inr f'" shows "\<exists>p. d = Inr p \<and> check_jump_target (cv_context v) f p t = Inr ()"
  using assms by (auto simp: jump_def rbind_Inr_iff)

lemma switch_checked:
  assumes r: "verify_switch v m s t f = Inr f'" and ins: "instruction_at m c s" "bcs_raw_code s = c" "c = bc_tableswitch \<or> c = bc_lookupswitch"
    and size: "code_size m < 65536"
  shows "\<exists>ts. switch_targets m c (bcs_bci s) = Inr ts \<and> list_all (frame_at t) ts"
proof -
  let ?bci = "bcs_bci s" let ?a = "aligned_bcp m ?bci"
  have d: "bc_lookupswitch \<noteq> bc_tableswitch" by (simp add: bc_defs)
  have bci: "0 \<le> ?bci" "?bci < 65536" using ins(1) size by (auto simp: instruction_at_def)
  have "wide_length_for c = Inr 0" using ins(3) by auto
  then have nx: "bcs_next_bci s \<le> code_size m" and sw: "switch_at m c s" using ins(1) by (auto simp: instruction_at_def)
  from r obtain dflt g keys delta where dflt: "get_Java_u4 m ?a = Inr dflt"
    and k: "(if bcs_raw_code s = bc_tableswitch
            then rbind (get_Java_u4 m (?a + 4)) (\<lambda>low.
                 rbind (get_Java_u4 m (?a + 2 * 4)) (\<lambda>high.
                   if sint low > sint high
                   then verify_error (bad_code ?bci) ''low must be less than or equal to high in tableswitch''
                   else if signed_take_bit 31 (sint high - sint low + 1) < 0
                     then verify_error (bad_code ?bci) ''too many keys in tableswitch''
                     else Inr (signed_take_bit 31 (sint high - sint low + 1), 1)))
            else rbind (get_Java_u4 m (?a + 4)) (\<lambda>n.
                   if sint n < 0 then verify_error (bad_code ?bci) ''number of keys in lookupswitch less than 0''
                   else rbind (sorted_keys_loop m ?bci ?a (sint n) 0) (\<lambda>_. Inr (sint n, 2)))) = Inr (keys, delta)"
    and j: "check_jump_target (cv_context v) g (signed_take_bit 31 (?bci + sint dflt)) t = Inr ()"
    and l: "switch_targets_loop v m ?bci delta g t keys 0 = Inr ()"
    unfolding verify_switch_def Let_def by (clarsimp simp only: rbind_Inr_iff split_beta) (rule that; simp only: prod.sel)
  note dt = checked_target(1) [OF j, unfolded exact_target [OF bci checked_target(2) [OF j]]]
  have E: "\<exists>ts. switch_entries m ?bci delta 0 (nat keys) = Inr ts \<and> list_all (frame_at t) ts" if "0 \<le> keys"
    using switch_loop_targets [of v m ?bci delta g t 0 "nat keys"] l that bci by simp
  show ?thesis
  proof (cases "c = bc_tableswitch")
    case True
    then obtain lo hi where w: "get_Java_u4 m (?a + 4) = Inr lo" "get_Java_u4 m (?a + 8) = Inr hi"
      and n: "bcs_next_bci s = ?a + (3 + sint hi - sint lo + 1) * 4" using sw by (auto simp: switch_at_def Let_def)
    have k': "\<not> sint lo > sint hi" "0 \<le> keys" "keys = signed_take_bit 31 (sint hi - sint lo + 1)" "delta = 1"
      using k True ins(2) w by (auto simp: Let_def verify_error_def split: if_splits)
    have "keys = sint hi - sint lo + 1" unfolding k'(3)
      using k'(1) n nx bci(1) aligned_bounds(1) [of ?bci m] size by (intro signed_take_bit_int_eq_self) auto
    then show ?thesis using True w dflt dt E k' by (auto simp: switch_targets_def Let_def)
  next
    case False
    then have "\<exists>k. get_Java_u4 m (?a + 4) = Inr k \<and> keys = sint k \<and> 0 \<le> keys \<and> delta = 2"
      using k ins(2) by (auto simp: rbind_Inr_iff verify_error_def split: if_splits)
    then show ?thesis using False dflt dt E by (auto simp: switch_targets_def Let_def)
  qed
qed

lemma branch_reached:
  assumes "c \<in> set (bc_goto # bc_goto_w # bc_tableswitch # bc_lookupswitch # conditional_branch_codes)"
  shows "verify_instruction v mt rt c s in_try t f = branch_instr v (m_code mt) c s t f (Some (Inl e))"
  using assms unfolding conditional_branch_codes_def list.set insert_iff empty_iff
  by (elim disjE) (simp_all add: verify_instruction_def instr_defs bc_defs)

lemma near_jump:
  assumes "branch_instr v m c s t f (Some (Inl e)) = Some (Inr x)" "c = bc_goto \<or> c \<in> set conditional_branch_codes"
  shows "\<exists>g h. jump v t (dest m s) g = Inr h"
proof -
  have "c \<noteq> bc_goto_w" "c \<noteq> bc_tableswitch" "c \<noteq> bc_lookupswitch" using assms(2) by (auto simp: conditional_branch_codes_def bc_defs)
  then show ?thesis using assms(1) unfolding branch_instr_def Let_def
    by (auto simp only: fall_def leave_def option.inject rbind_Inr_iff sum.distinct simp_thms split: if_split_asm)
qed

lemma near_checked:
  assumes "jump v t (dest m s) g = Inr h"
  shows "\<exists>w. get_Java_u2 m (bcs_bci s + 1) = Inr w \<and> frame_at t (bcs_bci s + sint w)"
  using assms checked_target(1) by (auto simp: jump_def dest_def rbind_Inr_iff)

lemma far_checked:
  assumes "jump v t (dest_w m s) g = Inr h" and bci: "0 \<le> bcs_bci s" "bcs_bci s < 65536"
  shows "\<exists>w. get_Java_u4 m (bcs_bci s + 1) = Inr w \<and> frame_at t (bcs_bci s + sint w)"
proof -
  obtain w where w: "get_Java_u4 m (bcs_bci s + 1) = Inr w" "check_jump_target (cv_context v) g (signed_take_bit 31 (bcs_bci s + sint w)) t = Inr ()"
    using assms(1) by (auto simp: jump_def dest_w_def rbind_Inr_iff)
  then show ?thesis using checked_target(1) [OF w(2)] exact_target [OF bci checked_target(2) [OF w(2)]] by simp
qed

lemma instruction_jumps:
  assumes r: "verify_instruction v mt rt c s in_try t f = Some (Inr (f', u, n))"
    and ins: "instruction_at (m_code mt) c s" "bcs_raw_code s = c" and size: "code_size (m_code mt) < 65536"
  shows "\<exists>ts. jump_targets (m_code mt) c s = Inr ts \<and> list_all (frame_at t) ts"
proof -
  let ?m = "m_code mt" let ?b = "branch_instr v ?m c s t f (Some (Inl Undefined_Behaviour))"
  have bci: "0 \<le> bcs_bci s" "bcs_bci s < 65536" using ins(1) size by (auto simp: instruction_at_def)
  consider (near) "c = bc_goto \<or> c \<in> set conditional_branch_codes" | (far) "c = bc_goto_w" | (switch) "c = bc_tableswitch \<or> c = bc_lookupswitch"
    | (none) "\<not> (c = bc_goto \<or> c \<in> set conditional_branch_codes)" "c \<noteq> bc_goto_w" "\<not> (c = bc_tableswitch \<or> c = bc_lookupswitch)" by blast
  then show ?thesis
  proof cases
    case near
    then have "?b = Some (Inr (f', u, n))" using r branch_reached [of c v mt rt s in_try t f Undefined_Behaviour] by auto
    from near_jump [OF this near] obtain g h where "jump v t (dest ?m s) g = Inr h" by blast
    from near_checked [OF this] show ?thesis using near by (auto simp: jump_targets_def)
  next
    case far
    then have "?b = Some (Inr (f', u, n))" using r branch_reached [of c v mt rt s in_try t f Undefined_Behaviour] by auto
    then obtain h where "jump v t (dest_w ?m s) f = Inr h"
      using far unfolding branch_instr_def Let_def by (auto simp: leave_def rbind_Inr_iff bc_defs)
    from far_checked [OF this bci] show ?thesis using far by (auto simp: jump_targets_def conditional_branch_codes_def bc_defs)
  next
    case switch
    then have "?b = Some (Inr (f', u, n))" using r branch_reached [of c v mt rt s in_try t f Undefined_Behaviour] by auto
    then have "verify_switch v ?m s t f = Inr f'"
      using switch unfolding branch_instr_def Let_def by (auto simp: leave_def rbind_Inr_iff bc_defs)
    from switch_checked [OF this ins switch size] switch show ?thesis
      by (auto simp: jump_targets_def conditional_branch_codes_def bc_defs)
  qed (simp add: jump_targets_def)
qed

section \<open>Whether control reaches the next instruction\<close>

definition tells :: "Code \<Rightarrow> step_result \<Rightarrow> bool" where
  "tells c r \<longleftrightarrow> (\<forall>f u n. r = Some (Inr (f, u, n)) \<longrightarrow> n = (c \<in> set no_fall_codes))"

lemma tells_if: "(P \<Longrightarrow> tells c a) \<Longrightarrow> tells c b \<Longrightarrow> tells c (if P then a else b)"
  by simp

lemma tells_fall: "c \<notin> set no_fall_codes \<Longrightarrow> tells c (fall r)"
  by (auto simp: tells_def fall_def rbind_Inr_iff)

lemma tells_leave: "c \<in> set no_fall_codes \<Longrightarrow> tells c (leave r)"
  by (auto simp: tells_def leave_def rbind_Inr_iff)

lemma group_tells:
  assumes o: "tells c otherwise"
  shows "tells c (const_instr mt c s bci f otherwise)" "tells c (array_load_instr v c bci f otherwise)" "tells c (array_store_instr v c bci f otherwise)"
    "tells c (stack_instr v c bci f otherwise)" "tells c (arith_instr v m c s f otherwise)" "tells c (convert_instr v c f otherwise)"
    "tells c (branch_instr v m c s t f otherwise)" "tells c (return_instr v mt rt c bci f otherwise)" "tells c (object_instr v mt c s bci f otherwise)"
  unfolding const_instr_def array_load_instr_def array_store_instr_def stack_instr_def arith_instr_def convert_instr_def branch_instr_def
    return_instr_def object_instr_def Let_def
  by ((intro tells_if tells_fall tells_leave o; force simp: no_fall_codes_def bc_defs)+)

lemma local_tells:
  assumes "tells c otherwise" "code_0 \<ge> 0" "code_0 < 100" "c \<noteq> code \<or> code < 100"
  shows "tells c (local_instr check code code_0 m c s f otherwise)"
  unfolding local_instr_def
  by (intro tells_if tells_fall assms(1)) (use assms(2-) in \<open>auto simp: no_fall_codes_def bc_defs\<close>)

lemma member_tells: "tells c otherwise \<Longrightarrow> tells c (member_instr v mt c s in_try t f otherwise)"
  unfolding member_instr_def Let_def
  by (intro tells_if tells_fall) (auto simp: no_fall_codes_def bc_defs tells_def pbind_Some_Inr)

lemma instruction_tells: "tells c (verify_instruction v mt rt c s in_try t f)"
proof -
  have "tells c (Some (verify_error ctx msg))" for ctx msg by (simp add: tells_def verify_error_def)
  then show ?thesis unfolding verify_instruction_def load_instr_def store_instr_def Let_def
    by (intro group_tells local_tells member_tells) (simp_all add: bc_defs)
qed

section \<open>The code of an accepted method\<close>

lemma step_accepted:
  assumes "verify_step v mt rt mn mx t c s f i nc = Some (Inr (f', i', nc'))"
    and ins: "instruction_at (m_code mt) c s" "bcs_raw_code s = c" "code_size (m_code mt) < 65536"
  shows "\<exists>ts. jump_targets (m_code mt) c s = Inr ts \<and> list_all (frame_at t) ts" "nc' = (c \<in> set no_fall_codes)"
proof -
  obtain g h u in_try where r: "verify_instruction v mt rt c s in_try t g = Some (Inr (h, u, nc'))"
    using assms(1) by (auto simp: verify_step_def Let_def pbind_Some_Inr rbind_Inr_iff)
  show "\<exists>ts. jump_targets (m_code mt) c s = Inr ts \<and> list_all (frame_at t) ts" by (rule instruction_jumps [OF r ins])
  show "nc' = (c \<in> set no_fall_codes)" using instruction_tells [of c v mt rt s in_try t g] r by (simp add: tells_def)
qed

lemma loop_accepted:
  assumes fresh: "\<forall>p. \<not> cv_rewritten_at v p" and size: "code_size (m_code mt) < 65536"
    and "code_loop v mt rt mn mx t bcs f i nc = Some (Inr r)" "stream_ok (m_code mt) bcs" "codes_from (m_code mt) bcs"
  shows "list_all (\<lambda>(c, s). \<exists>ts. jump_targets (m_code mt) c s = Inr ts \<and> list_all (frame_at t) ts) (instructions (m_code mt) bcs) \<and>
    r = Some (if instructions (m_code mt) bcs = [] then nc else fst (last (instructions (m_code mt) bcs)) \<in> set no_fall_codes)"
  using assms(3-)
proof (induction "nat (bcs_end_bci bcs - bcs_next_bci bcs)" arbitrary: bcs f i nc rule: less_induct)
  case less
  let ?m = "m_code mt"
  show ?case
  proof (cases "is_last_bytecode bcs")
    case True
    then show ?thesis using less.prems(1) by (subst (asm) code_loop.simps) (simp add: instructions_last)
  next
    case False
    obtain c s where n: "raw_next ?m bcs = Inr (c, s)" "bcs_raw_code s = c"
      "c = bc_illegal \<or> instruction_at ?m c s \<and> stream_ok ?m s \<and> codes_from ?m s"
      using stream_next [OF less.prems(2) False less.prems(3)] by blast
    obtain f' i' nc' where st: "verify_step v mt rt mn mx t c s f i nc = Some (Inr (f', i', nc'))"
      and l: "code_loop v mt rt mn mx t s f' i' nc' = Some (Inr r)"
      using less.prems(1) False fresh n(1) by (subst (asm) code_loop.simps) (auto simp: pbind_Some_Inr)
    have legal: "c \<noteq> bc_illegal" using verify_step_legal [OF st] .
    then have ins: "instruction_at ?m c s" "stream_ok ?m s" "codes_from ?m s" using n(3) by simp_all
    have dec: "nat (bcs_end_bci s - bcs_next_bci s) < nat (bcs_end_bci bcs - bcs_next_bci bcs)"
      using raw_next_progress [OF n(1) legal] False by (auto simp: is_last_bytecode_def)
    show ?thesis using less.hyps [OF dec l ins(2,3)] step_accepted [OF st ins(1) n(2) size] instructions_step [OF False n(1) legal] by auto
  qed
qed

lemma instructions_flow:
  "(c, s') \<in> set (instructions m s) \<Longrightarrow> (c, s') = last (instructions m s) \<or> bcs_next_bci s' \<in> set (starts (instructions m s))"
proof (induction m s arbitrary: c s' rule: instructions.induct)
  case (1 m s)
  obtain c0 s0 where r: "\<not> is_last_bytecode s" "raw_next m s = Inr (c0, s0)" "c0 \<noteq> bc_illegal"
    using "1.prems" instructions.simps [of m s] by (cases "raw_next m s") (auto split: if_splits)
  note I = instructions_step [OF r]
  have next_start: "bcs_next_bci s0 \<in> set (starts (instructions m s0))" if ne: "instructions m s0 \<noteq> []"
  proof -
    obtain c1 s1 where r1: "\<not> is_last_bytecode s0" "raw_next m s0 = Inr (c1, s1)" "c1 \<noteq> bc_illegal"
      using ne instructions.simps [of m s0] by (cases "raw_next m s0") (auto split: if_splits)
    then show ?thesis using instructions_step [OF r1] raw_next_progress [OF r1(2,3)] by (simp add: starts_def)
  qed
  show ?case
  proof (cases "(c, s') = (c0, s0)")
    case True
    then show ?thesis using next_start I by (cases "instructions m s0 = []") (auto simp: starts_def)
  next
    case False
    then have in0: "(c, s') \<in> set (instructions m s0)" using "1.prems" I by auto
    then show ?thesis using "1.IH" [OF r(1,2) refl r(3) in0] I by (auto simp: starts_def)
  qed
qed

text \<open>The instructions that may run after an instruction, and the code in which all of them are instructions.\<close>

definition successors :: "code_array \<Rightarrow> Code \<Rightarrow> RawBytecodeStream \<Rightarrow> fault + int list" where
  "successors m c s =
     rbind (jump_targets m c s) (\<lambda>ts. Inr (if c \<in> set no_fall_codes then ts else bcs_next_bci s # ts))"

definition closed_code :: "Method \<Rightarrow> bool" where
  "closed_code mt =
    (let is = method_instructions (m_code mt) in
     list_all (\<lambda>(c, s). case successors (m_code mt) c s of Inl e \<Rightarrow> False | Inr ps \<Rightarrow> list_all (\<lambda>p. p \<in> set (starts is)) ps) is \<and>
     list_all (\<lambda>e. uint (ex_handler_pc e) \<in> set (starts is)) (m_exception_table mt))"

lemma marked_start:
  assumes "generate_code_data m (code_size m) = Inr d" "codes_from m (new_raw_stream m)"
  shows "0 \<le> p \<Longrightarrow> p < code_size m \<Longrightarrow> d ! nat p \<noteq> 0 \<longleftrightarrow> p \<in> set (starts (method_instructions m))"
    and "length d = nat (code_size m)"
proof -
  let ?is = "instructions m (new_raw_stream m)"
  have s: "length d = nat (code_size m)"
    "\<forall>p < nat (code_size m). d ! p \<noteq> 0 \<longrightarrow> (\<exists>(c, s') \<in> set ?is. bcs_bci s' = int p)"
    "\<forall>(c, s') \<in> set ?is. d ! nat (bcs_bci s') = mark_of c"
    using code_data_spec [OF assms(1) [unfolded generate_code_data_def] new_stream_ok assms(2)] by auto
  show "length d = nat (code_size m)" by (rule s(1))
  show "d ! nat p \<noteq> 0 \<longleftrightarrow> p \<in> set (starts (method_instructions m))" if "0 \<le> p" "p < code_size m"
  proof
    assume "d ! nat p \<noteq> 0"
    then show "p \<in> set (starts (method_instructions m))"
      using s(2) [rule_format, of "nat p"] that by (force simp: starts_def method_instructions_def)
  next
    assume "p \<in> set (starts (method_instructions m))"
    then show "d ! nat p \<noteq> 0" using s(3) by (auto simp: starts_def method_instructions_def)
  qed
qed

section \<open>The exception handler table\<close>

definition handler_ok :: "ClassVerifier \<Rightarrow> ConstantPool \<Rightarrow> int \<Rightarrow> u1 list \<Rightarrow> ExceptionTableElement \<Rightarrow> bool" where
  "handler_ok v cp n d e \<longleftrightarrow>
     uint (ex_start_pc e) < n \<and> d ! nat (uint (ex_start_pc e)) \<noteq> 0 \<and>
     (uint (ex_end_pc e) = n \<or> uint (ex_end_pc e) < n \<and> d ! nat (uint (ex_end_pc e)) \<noteq> 0) \<and>
     uint (ex_handler_pc e) < n \<and> d ! nat (uint (ex_handler_pc e)) \<noteq> 0 \<and> verify_catch_type v cp e = Inr ()"

lemma not_an_instruction_eq: "int (length d) = n \<Longrightarrow> not_an_instruction n d (uint (w :: u2)) = Inr (\<not> (uint w < n \<and> d ! nat (uint w) \<noteq> 0))"
  by (auto simp: not_an_instruction_def arr_get_def)

lemma handler_table_accepted:
  assumes "int (length d) = n"
  shows "verify_exception_handler_table v cp n d es mn mx = Inr r \<longleftrightarrow> list_all (handler_ok v cp n d) es \<and>
    r = (foldl min mn (map (\<lambda>e. uint (ex_start_pc e)) es), foldl max mx (map (\<lambda>e. uint (ex_end_pc e)) es))"
proof (induction es arbitrary: mn mx)
  case (Cons e es)
  have stop: "(if uint (ex_end_pc e) = n then Inr False else if uint (ex_end_pc e) > n then Inr True
      else rbind (arr_get d (uint (ex_end_pc e))) (\<lambda>c. Inr (c = 0))) =
    Inr (\<not> (uint (ex_end_pc e) = n \<or> uint (ex_end_pc e) < n \<and> d ! nat (uint (ex_end_pc e)) \<noteq> 0))"
    using assms by (auto simp: arr_get_def)
  have mm: "(if a < b then a else b) = min b a" "(if a > b then a else b) = max b a" for a b :: int by auto
  show ?case unfolding verify_exception_handler_table.simps Let_def stop not_an_instruction_eq [OF assms] mm rbind_simps
    by (cases "verify_catch_type v cp e") (auto simp: Cons.IH handler_ok_def class_format_error_def)
qed auto

lemma method_accepted:
  assumes "verify_method v mt = Some (Inr ())"
  obtains rt f d mn mx t r where
    "set_locals_from_arg (m_name mt) (m_is_static mt) (m_signature mt) (current_type v) (new_frame (m_max_locals mt) (m_max_stack mt)) = Some (Inr (rt, f))"
    "generate_code_data (m_code mt) (code_size (m_code mt)) = Inr d"
    "verify_exception_handler_table v (m_constants mt) (code_size (m_code mt)) d (m_exception_table mt) (code_size (m_code mt)) (- 1) = Inr (mn, mx)"
    "stack_map_of mt f d = Inr t"
    "code_loop v mt rt mn mx t (new_raw_stream (m_code mt)) f 0 False = Some (Inr r)" "r \<noteq> Some False"
  using assms unfolding verify_method_def method_tables_eq
  by (auto simp: pbind_Some_Inr rbind_Inr_iff class_format_error_def verify_error_def split: if_splits)

lemma accepted_closed:
  assumes ok: "method_wf v mt" and acc: "verify_method v mt = Some (Inr ())" and fresh: "\<forall>p. \<not> cv_rewritten_at v p"
  shows "closed_code mt"
proof -
  let ?m = "m_code mt" let ?n = "code_size ?m" let ?is = "method_instructions ?m"
  note size = wf_parts(5) [OF ok] and a = wf_parts(6) [OF ok] and c = wf_parts(7) [OF ok]
  obtain rt f d mn mx t r where p: "set_locals_from_arg (m_name mt) (m_is_static mt) (m_signature mt) (current_type v)
      (new_frame (m_max_locals mt) (m_max_stack mt)) = Some (Inr (rt, f))" "generate_code_data ?m ?n = Inr d"
    "verify_exception_handler_table v (m_constants mt) ?n d (m_exception_table mt) ?n (- 1) = Inr (mn, mx)" "stack_map_of mt f d = Inr t"
    "code_loop v mt rt mn mx t (new_raw_stream ?m) f 0 False = Some (Inr r)" "r \<noteq> Some False"
    by (rule method_accepted [OF acc])
  have len: "int (length d) = ?n" using marked_start(2) [OF p(2) c] by (simp add: code_size_def)
  have f: "fr (uint (m_max_locals mt)) (uint (m_max_stack mt)) 0 f" "smf_offset f = 0"
    using initial_frame_fr [OF wf_parts(1) [OF ok] a] p(1) by auto
  have frames: "q \<in> set (starts ?is)" if "frame_at t q" for q
    using stack_map_frames [OF wf_parts(2) [OF ok] f len p(4)] that marked_start(1) [OF p(2) c, of q]
    by (auto simp: frame_at_def list_all_iff at_instruction_def)
  have pc: "uint w < ?n \<Longrightarrow> d ! nat (uint w) \<noteq> 0 \<Longrightarrow> uint w \<in> set (starts ?is)" for w :: u2
    using marked_start(1) [OF p(2) c, of "uint w"] by simp
  have handlers: "list_all (\<lambda>e. uint (ex_handler_pc e) \<in> set (starts ?is)) (m_exception_table mt)"
    using p(3) pc unfolding handler_table_accepted [OF len] by (auto simp: list_all_iff handler_ok_def)
  note L = loop_accepted [OF fresh size p(5) new_stream_ok c, folded method_instructions_def]
  have last: "fst (last ?is) \<in> set no_fall_codes" if "?is \<noteq> []" using L p(6) that by (auto split: if_splits)
  have "\<exists>ps. successors ?m c s = Inr ps \<and> list_all (\<lambda>q. q \<in> set (starts ?is)) ps" if i: "(c, s) \<in> set ?is" for c s
  proof -
    obtain ts where ts: "jump_targets ?m c s = Inr ts" "list_all (frame_at t) ts" using L i by (auto simp: list_all_iff)
    have ne: "?is \<noteq> []" using i by auto
    have "(c, s) \<noteq> last ?is" if "c \<notin> set no_fall_codes" using last [OF ne] that by (metis fst_conv)
    then have "bcs_next_bci s \<in> set (starts ?is)" if "c \<notin> set no_fall_codes"
      using instructions_flow [OF i [unfolded method_instructions_def]] that by (simp add: method_instructions_def)
    then show ?thesis using ts frames by (auto simp: successors_def list_all_iff)
  qed
  then have "list_all (\<lambda>(c, s). case successors ?m c s of Inl e \<Rightarrow> False | Inr ps \<Rightarrow> list_all (\<lambda>q. q \<in> set (starts ?is)) ps) ?is"
    unfolding list_all_iff [of _ ?is] by (intro ballI) (clarify, drule meta_spec, drule meta_spec, drule meta_mp, assumption, elim exE conjE, simp)
  then show ?thesis unfolding closed_code_def Let_def using handlers by (intro conjI)
qed

section \<open>The scan for \<open>athrow\<close> may not end\<close>

text \<open>A \<open>lookupswitch\<close> without pairs whose default target is itself.\<close>

definition self_switch :: "code_array \<Rightarrow> int \<Rightarrow> bool" where
  "self_switch m p \<longleftrightarrow> 0 \<le> p \<and> aligned_bcp m p + 8 < code_size m \<and> code_size m < 65536 \<and> byte_get m p = Inr bc_lookupswitch \<and>
     get_Java_u4 m (aligned_bcp m p) = Inr 0 \<and> get_Java_u4 m (aligned_bcp m p + 4) = Inr 0"

lemma self_switch_next:
  assumes "self_switch m p" "bcs_next_bci s = p" "bcs_end_bci s = code_size m"
  shows "\<exists>s'. raw_next m s = Inr (bc_lookupswitch, s') \<and> bcs_bci s' = p \<and> \<not> is_last_bytecode s"
proof -
  have l: "length_for bc_lookupswitch = Inr 0" by simp
  have a: "p < aligned_bcp m p" using aligned_bounds(1) [of p m] .
  have "aligned_bcp m p \<le> p + 4" using aligned_bounds(2) [of m p] by simp
  then show ?thesis using assms l a
    by (auto simp: self_switch_def raw_next_def Let_def raw_next_special_def raw_special_length_at_def special_length_at_def positive_int_def
        is_last_bytecode_def bc_defs)
qed

lemma push_handlers_stream: "as_bcs (push_handlers es bci s) = as_bcs s"
  by (induction es arbitrary: s) (simp_all add: Let_def)

lemma self_switch_round:
  assumes w: "self_switch (m_code mt) p" and s: "bcs_next_bci (as_bcs s) = p" "bcs_end_bci (as_bcs s) = code_size (m_code mt)"
  shows "\<exists>s'. athrow_round mt s = Inr (Inr s') \<and> bcs_next_bci (as_bcs s') = p \<and> bcs_end_bci (as_bcs s') = code_size (m_code mt)"
proof -
  obtain b where b: "raw_next (m_code mt) (as_bcs s) = Inr (bc_lookupswitch, b)" "bcs_bci b = p" "\<not> is_last_bytecode (as_bcs s)"
    using self_switch_next [OF w s] by blast
  have "p < aligned_bcp (m_code mt) p" using aligned_bounds(1) [of p "m_code mt"] .
  then have p: "u4_of p = p" "p \<le> code_size (m_code mt)" using w by (auto simp: self_switch_def u4_of_def)
  have c: "bc_lookupswitch \<notin> set conditional_branch_codes" "bc_lookupswitch \<noteq> bc_goto" "bc_lookupswitch \<noteq> bc_goto_w"
    "bc_lookupswitch \<noteq> bc_tableswitch" by (simp_all add: conditional_branch_codes_def bc_defs)
  have "push_alternatives (m_code mt) p 2 0 0 st = Inr (Some st)" for st by (subst push_alternatives.simps) simp
  then show ?thesis using w b p c
    by (simp add: athrow_round_def Let_def athrow_switch_def self_switch_def start_at_def set_start_def set_interval_def)
qed

lemma self_switch_diverges:
  assumes w: "self_switch (m_code mt) p"
  shows "athrow_loop mt s = Some r \<Longrightarrow> \<not> (bcs_next_bci (as_bcs s) = p \<and> bcs_end_bci (as_bcs s) = code_size (m_code mt))"
proof (erule athrow_loop.raw_induct [of "\<lambda>mt' s r. mt' = mt \<longrightarrow> \<not> (bcs_next_bci (as_bcs s) = p \<and> bcs_end_bci (as_bcs s) = code_size (m_code mt))", rotated, rule_format])
  fix loop mt' s r
  assume IH: "\<And>mt' s r. loop mt' s = Some r \<Longrightarrow> mt' = mt \<Longrightarrow> \<not> (bcs_next_bci (as_bcs s) = p \<and> bcs_end_bci (as_bcs s) = code_size (m_code mt))"
    and r: "(case athrow_round mt' s of Inl e \<Rightarrow> Some (Inl e) | Inr (Inl b) \<Rightarrow> Some (Inr b) | Inr (Inr s') \<Rightarrow> loop mt' s') = Some r" "mt' = mt"
  show "\<not> (bcs_next_bci (as_bcs s) = p \<and> bcs_end_bci (as_bcs s) = code_size (m_code mt))"
    using self_switch_round [OF w, of s] r IH by fastforce
qed simp


end
