(* ===== verification/Athrow_Scan.thy ===== *)
theory Athrow_Scan
  imports Accepted_Code "HOL-Library.Multiset_Order" "HOL-Library.Product_Lexorder"
begin

text \<open>
  When \<open>ClassVerifier::ends_in_athrow\<close> returns.  The scan records the branches that it has seen, but not the
  switches; it ends when no switch jumps backwards and every path stays at instructions.  The positions still to be
  scanned form a multiset: a round replaces one position by later ones, unless it sees a new branch or
  pushes a new handler.
\<close>

section \<open>The instruction at a position\<close>

lemma raw_next_same:
  assumes "raw_next m s = Inr (c, s')" "c \<noteq> bc_illegal" "bcs_next_bci t = bcs_next_bci s" "bcs_end_bci t = bcs_end_bci s"
  shows "raw_next m t = Inr (c, s')"
  using assms by (cases s; cases t) (auto simp: raw_next_def raw_next_special_def Let_def rbind_Inr_iff split: if_splits)

lemma raw_next_at:
  "(c, s') \<in> set (instructions m s) \<Longrightarrow> bcs_next_bci t = bcs_bci s' \<Longrightarrow> bcs_end_bci t = bcs_end_bci s \<Longrightarrow>
   raw_next m t = Inr (c, s') \<and> c \<noteq> bc_illegal"
proof (induction m s arbitrary: c s' rule: instructions.induct)
  case (1 m s)
  obtain c0 s0 where r: "\<not> is_last_bytecode s" "raw_next m s = Inr (c0, s0)" "c0 \<noteq> bc_illegal"
    using "1.prems"(1) instructions.simps [of m s] by (cases "raw_next m s") (auto split: if_splits)
  note p = raw_next_progress [OF r(2,3)]
  show ?case
  proof (cases "(c, s') = (c0, s0)")
    case True
    then show ?thesis using raw_next_same [OF r(2,3), of t] p "1.prems"(2,3) r(3) by simp
  next
    case False
    then have "(c, s') \<in> set (instructions m s0)" using "1.prems"(1) instructions_step [OF r] by auto
    then show ?thesis using "1.IH" [OF r(1,2) refl r(3)] "1.prems"(2,3) p by simp
  qed
qed

lemma instructions_at:
  "(c, s') \<in> set (instructions m s) \<Longrightarrow> stream_ok m s \<Longrightarrow> codes_from m s \<Longrightarrow>
   instruction_at m c s' \<and> bcs_raw_code s' = c \<and> bcs_end_bci s' = code_size m"
proof (induction m s arbitrary: c s' rule: instructions.induct)
  case (1 m s)
  obtain c0 s0 where r: "\<not> is_last_bytecode s" "raw_next m s = Inr (c0, s0)" "c0 \<noteq> bc_illegal"
    using "1.prems"(1) instructions.simps [of m s] by (cases "raw_next m s") (auto split: if_splits)
  have n: "bcs_raw_code s0 = c0" "instruction_at m c0 s0" "stream_ok m s0" "codes_from m s0"
    using stream_next [OF "1.prems"(2) r(1) "1.prems"(3)] r by auto
  show ?case
  proof (cases "(c, s') = (c0, s0)")
    case True
    then show ?thesis using n by (simp add: stream_ok_def)
  next
    case False
    then have "(c, s') \<in> set (instructions m s0)" using "1.prems"(1) instructions_step [OF r] by auto
    then show ?thesis using "1.IH" [OF r(1,2) refl r(3)] n by simp
  qed
qed

section \<open>Code that can be scanned\<close>

text \<open>The instructions reach the end of the code, and no switch jumps backwards or to itself.\<close>

definition covered :: "code_array \<Rightarrow> bool" where
  "covered m \<longleftrightarrow> (let is = method_instructions m in is \<noteq> [] \<longrightarrow> bcs_next_bci (snd (last is)) = code_size m)"

definition forward_switches :: "code_array \<Rightarrow> bool" where
  "forward_switches m = list_all (\<lambda>(c, s). c = bc_tableswitch \<or> c = bc_lookupswitch \<longrightarrow>
     (case switch_targets m c (bcs_bci s) of Inl e \<Rightarrow> False | Inr ts \<Rightarrow> list_all (\<lambda>p. bcs_bci s < p) ts)) (method_instructions m)"

text \<open>A method has no handlers, or its code is closed, consists of instructions and switches forward.\<close>

definition scannable :: "Method \<Rightarrow> bool" where
  "scannable mt \<longleftrightarrow> m_exception_table mt = [] \<or> closed_code mt \<and> covered (m_code mt) \<and> forward_switches (m_code mt)"

definition points :: "code_array \<Rightarrow> int set" where
  "points m = insert (code_size m) (set (starts (method_instructions m)))"

section \<open>One round\<close>

lemma push_handlers_fields [simp]:
  "as_bcs (push_handlers es bci s) = as_bcs s" "as_bci_stack (push_handlers es bci s) = as_bci_stack s"
  "as_visited (push_handlers es bci s) = as_visited s"
  by (induction es arbitrary: s) (simp_all add: Let_def)

abbreviation handler_pcs :: "ExceptionTableElement list \<Rightarrow> int set" where
  "handler_pcs es \<equiv> (\<lambda>e. uint (ex_handler_pc e)) ` set es"

lemma push_handlers_step:
  "push_handlers (e # es) bci s = push_handlers es bci s \<or>
   (\<exists>hs. uint (ex_handler_pc e) \<notin> set (as_handler_list s) \<and> set hs \<subseteq> insert (uint (ex_handler_pc e)) (set (as_handler_stack s)) \<and>
      push_handlers (e # es) bci s =
        push_handlers es bci (s\<lparr>as_handler_stack := hs, as_handler_list := uint (ex_handler_pc e) # as_handler_list s\<rparr>))"
proof (cases "bci \<ge> uint (ex_start_pc e) \<and> bci < uint (ex_end_pc e) \<and> uint (ex_handler_pc e) \<notin> set (as_handler_list s)")
  case True
  then show ?thesis
    by (intro disjI2 exI [of _ "if uint (ex_handler_pc e) \<in> set (as_handler_stack s) then as_handler_stack s
        else uint (ex_handler_pc e) # as_handler_stack s"]) (auto simp: Let_def)
qed (auto simp: Let_def)

lemma push_handlers_stack: "set (as_handler_stack (push_handlers es bci s)) \<subseteq> set (as_handler_stack s) \<union> handler_pcs es"
proof (induction es arbitrary: s)
  case (Cons e es)
  from push_handlers_step [of e es bci s] show ?case
  proof (elim disjE exE conjE)
    fix hs assume "set hs \<subseteq> insert (uint (ex_handler_pc e)) (set (as_handler_stack s))" "push_handlers (e # es) bci s =
        push_handlers es bci (s\<lparr>as_handler_stack := hs, as_handler_list := uint (ex_handler_pc e) # as_handler_list s\<rparr>)"
    then show ?thesis using Cons.IH [of "s\<lparr>as_handler_stack := hs, as_handler_list := uint (ex_handler_pc e) # as_handler_list s\<rparr>"]
      by (simp del: push_handlers.simps) blast
  qed (use Cons.IH [of s] in auto)
qed simp

lemma push_handlers_list:
  "push_handlers es bci s = s \<or>
   set (as_handler_list s) \<subset> set (as_handler_list (push_handlers es bci s)) \<and>
   set (as_handler_list (push_handlers es bci s)) \<subseteq> set (as_handler_list s) \<union> handler_pcs es"
proof (induction es arbitrary: s)
  case (Cons e es)
  let ?pc = "uint (ex_handler_pc e)"
  from push_handlers_step [of e es bci s] show ?case
  proof (elim disjE exE conjE)
    assume "push_handlers (e # es) bci s = push_handlers es bci s"
    then show ?thesis using Cons.IH [of s] by (auto simp del: push_handlers.simps)
  next
    fix hs assume n: "?pc \<notin> set (as_handler_list s)" and p: "push_handlers (e # es) bci s =
        push_handlers es bci (s\<lparr>as_handler_stack := hs, as_handler_list := ?pc # as_handler_list s\<rparr>)"
    let ?s = "s\<lparr>as_handler_stack := hs, as_handler_list := ?pc # as_handler_list s\<rparr>"
    have "set (as_handler_list s) \<subset> set (as_handler_list ?s)" "set (as_handler_list ?s) \<subseteq> insert ?pc (set (as_handler_list s))" using n by auto
    moreover have "set (as_handler_list ?s) \<subseteq> set (as_handler_list (push_handlers es bci ?s))"
      "set (as_handler_list (push_handlers es bci ?s)) \<subseteq> set (as_handler_list ?s) \<union> handler_pcs es"
      using Cons.IH [of ?s] by auto
    ultimately show ?thesis unfolding p by auto
  qed
qed simp

text \<open>Where the scan may be, and what gets smaller in each round.\<close>

definition scan_ok :: "Method \<Rightarrow> athrow_scan \<Rightarrow> bool" where
  "scan_ok mt s \<longleftrightarrow> bcs_end_bci (as_bcs s) = code_size (m_code mt) \<and>
     set (bcs_next_bci (as_bcs s) # as_bci_stack s @ as_handler_stack s) \<subseteq> points (m_code mt)"

definition scan_measure :: "Method \<Rightarrow> athrow_scan \<Rightarrow> nat \<times> nat \<times> nat multiset" where
  "scan_measure mt s =
    (card (set (starts (method_instructions (m_code mt))) - set (as_visited s)),
     card (handler_pcs (m_exception_table mt) - set (as_handler_list s)),
     mset (map (\<lambda>p. nat (code_size (m_code mt) - p)) (bcs_next_bci (as_bcs s) # as_bci_stack s @ as_handler_stack s)))"

lemma mset_smaller:
  assumes "\<forall>q \<in> set qs. p < q \<and> q \<le> n" "(p :: int) < n"
  shows "mset (map (\<lambda>p. nat (n - p)) (qs @ rs)) < mset (map (\<lambda>p. nat (n - p)) (p # rs))"
proof -
  have "mset (map (\<lambda>p. nat (n - p)) qs) < {#nat (n - p)#}" by (rule ex_gt_imp_less_multiset) (use assms in auto)
  then show ?thesis by (simp add: add.commute [of "mset _"])
qed

text \<open>A round that goes on from the positions \<open>qs\<close> instead of \<open>p\<close>.\<close>

definition goes_on :: "Method \<Rightarrow> int \<Rightarrow> athrow_scan \<Rightarrow> athrow_scan \<Rightarrow> bool" where
  "goes_on mt p s s' \<longleftrightarrow> scan_ok mt s' \<and>
     (p \<notin> set (as_visited s) \<and> as_visited s' = p # as_visited s \<or>
      as_visited s' = as_visited s \<and> as_handler_list s' = as_handler_list s \<and>
      (\<exists>qs. (\<forall>q \<in> set qs. p < q \<and> q \<le> code_size (m_code mt)) \<and>
         mset (bcs_next_bci (as_bcs s') # as_bci_stack s' @ as_handler_stack s') = mset (qs @ as_bci_stack s @ as_handler_stack s)))"

lemma measure_decreases:
  assumes p: "p \<in> set (starts (method_instructions (m_code mt)))" "p < code_size (m_code mt)" "bcs_next_bci (as_bcs s) = p"
    and g: "goes_on mt p (push_handlers (m_exception_table mt) p (s\<lparr>as_bcs := b\<rparr>)) s'"
  shows "scan_measure mt s' < scan_measure mt s"
proof -
  let ?s = "push_handlers (m_exception_table mt) p (s\<lparr>as_bcs := b\<rparr>)" let ?n = "code_size (m_code mt)"
  let ?S = "set (starts (method_instructions (m_code mt)))" let ?H = "handler_pcs (m_exception_table mt)"
  consider (branch) "p \<notin> set (as_visited s)" "as_visited s' = p # as_visited s"
    | (on) qs where "as_visited s' = as_visited s" "as_handler_list s' = as_handler_list ?s" "\<forall>q \<in> set qs. p < q \<and> q \<le> ?n"
      "mset (bcs_next_bci (as_bcs s') # as_bci_stack s' @ as_handler_stack s') = mset (qs @ as_bci_stack ?s @ as_handler_stack ?s)"
    using g by (auto simp: goes_on_def)
  then show ?thesis
  proof cases
    case branch
    then have "?S - set (as_visited s') \<subset> ?S - set (as_visited s)" using p(1) by auto
    then have "card (?S - set (as_visited s')) < card (?S - set (as_visited s))" by (intro psubset_card_mono) auto
    then show ?thesis by (simp add: scan_measure_def)
  next
    case on
    show ?thesis
    proof (cases "?s = s\<lparr>as_bcs := b\<rparr>")
      case True
      have "mset (map (\<lambda>p. nat (?n - p)) (bcs_next_bci (as_bcs s') # as_bci_stack s' @ as_handler_stack s')) =
          mset (map (\<lambda>p. nat (?n - p)) (qs @ as_bci_stack s @ as_handler_stack s))"
        using on(4) unfolding mset_map by (simp add: True)
      also have "\<dots> < mset (map (\<lambda>p. nat (?n - p)) (p # as_bci_stack s @ as_handler_stack s))" by (rule mset_smaller [OF on(3) p(2)])
      finally show ?thesis using on(1,2) True p(3) by (simp add: scan_measure_def)
    next
      case False
      then have "set (as_handler_list s) \<subset> set (as_handler_list ?s)" "set (as_handler_list ?s) \<subseteq> set (as_handler_list s) \<union> ?H"
        using push_handlers_list [of "m_exception_table mt" p "s\<lparr>as_bcs := b\<rparr>"] by auto
      then have "?H - set (as_handler_list ?s) \<subset> ?H - set (as_handler_list s)" by blast
      then have "card (?H - set (as_handler_list ?s)) < card (?H - set (as_handler_list s))" by (intro psubset_card_mono) auto
      then show ?thesis using on(1,2) by (simp add: scan_measure_def)
    qed
  qed
qed

section \<open>The rounds of a scan\<close>

text \<open>Both stacks hold positions of the code.\<close>

definition stacks_ok :: "Method \<Rightarrow> athrow_scan \<Rightarrow> bool" where
  "stacks_ok mt s \<longleftrightarrow> set (as_bci_stack s) \<subseteq> points (m_code mt) \<and> set (as_handler_stack s) \<subseteq> points (m_code mt)"

definition round_ok :: "Method \<Rightarrow> int \<Rightarrow> athrow_scan \<Rightarrow> fault + bool + athrow_scan \<Rightarrow> bool" where
  "round_ok mt p s r \<longleftrightarrow> (\<exists>b. r = Inr (Inl b)) \<or> (\<exists>s'. r = Inr (Inr s') \<and> goes_on mt p s s')"

lemma round_ok_stop [simp]: "round_ok mt p s (Inr (Inl b))"
  by (simp add: round_ok_def)

lemma set_start_fields [simp]: "bcs_next_bci (set_start m b s) = b" "bcs_end_bci (set_start m b s) = code_size m"
  by (simp_all add: set_start_def set_interval_def)

lemma pop_start_ok: "stacks_ok mt s \<Longrightarrow> round_ok mt p s (pop_start (m_code mt) s)"
  by (auto simp: pop_start_def round_ok_def goes_on_def scan_ok_def stacks_ok_def intro: exI [of _ "[]"] split: list.splits)

lemma start_point:
  assumes "p \<in> set (starts (method_instructions m))" "codes_from m (new_raw_stream m)"
  shows "0 \<le> p" "p < code_size m" "p \<in> points m"
proof -
  obtain c s where "(c, s) \<in> set (instructions m (new_raw_stream m))" "p = bcs_bci s" using assms(1) by (auto simp: starts_def method_instructions_def)
  with instructions_at [OF _ new_stream_ok assms(2)] have "instruction_at m c s" "p = bcs_bci s" by auto
  then show "0 \<le> p" "p < code_size m" by (auto simp: instruction_at_def)
  show "p \<in> points m" using assms(1) by (simp add: points_def)
qed

lemma u4_of_point: "0 \<le> p \<Longrightarrow> p < code_size m \<Longrightarrow> code_size m < 65536 \<Longrightarrow> u4_of p = p"
  by (simp add: u4_of_def)

lemma branch_round:
  assumes "dest (m_code mt) (as_bcs s) = Inr d" "u4_of d \<in> points (m_code mt)" "bcs_next_bci (as_bcs s) \<in> points (m_code mt)" "stacks_ok mt s"
  shows "round_ok mt p s (athrow_branch (m_code mt) p s)"
proof (cases "p \<in> set (as_visited s)")
  case True
  then show ?thesis using pop_start_ok [OF assms(4)] assms(1) by (simp add: athrow_branch_def Let_def)
next
  case False
  then show ?thesis using assms
    by (auto simp: athrow_branch_def Let_def round_ok_def goes_on_def scan_ok_def stacks_ok_def start_at_def)
qed

lemma goto_round:
  assumes "(if c = bc_goto then dest (m_code mt) (as_bcs s) else dest_w (m_code mt) (as_bcs s)) = Inr d" "u4_of d \<in> points (m_code mt)" "stacks_ok mt s"
  shows "round_ok mt p s (athrow_goto (m_code mt) c p s)"
proof (cases "p \<in> set (as_visited s)")
  case True
  then show ?thesis using pop_start_ok [OF assms(3)] assms(1) by (simp add: athrow_goto_def Let_def)
next
  case False
  then show ?thesis using assms
    by (auto simp: athrow_goto_def Let_def round_ok_def goes_on_def scan_ok_def stacks_ok_def start_at_def)
qed

lemma alternatives_pushed:
  assumes "switch_entries m bci delta i n = Inr ts" "\<forall>q \<in> set ts. 0 \<le> q \<and> q < code_size m" "code_size m < 65536"
  shows "push_alternatives m bci delta (int i + int n) (int i) st = Inr (Some (rev ts @ st))"
  using assms(1,2)
proof (induction n arbitrary: i st ts)
  case 0
  then show ?case by (subst push_alternatives.simps) simp
next
  case (Suc n)
  then obtain w us where w: "get_Java_u4 m (aligned_bcp m bci + (3 + int i * delta) * 4) = Inr w"
    "switch_entries m bci delta (Suc i) n = Inr us" "ts = (bci + sint w) # us" by (auto simp: rbind_Inr_iff)
  have t: "u4_of (bci + sint w) = bci + sint w" "bci + sint w \<le> code_size m" using Suc.prems(2) w(3) u4_of_point assms(3) by auto
  have "push_alternatives m bci delta (int (Suc i) + int n) (int (Suc i)) ((bci + sint w) # st) = Inr (Some (rev us @ (bci + sint w) # st))"
    using w(2,3) Suc.prems(2) by (intro Suc.IH) auto
  then show ?case using w(1,3) t by (subst push_alternatives.simps) (simp add: algebra_simps)
qed

lemma u4_sum: "u4_of (uint (w :: 32 word) + p) = u4_of (p + sint w)"
  unfolding u4_of_def by (simp add: uint_sint take_bit_eq_mod add.commute mod_simps)

lemma switch_start:
  assumes d: "get_Java_u4 m (aligned_bcp m p) = Inr d" and e: "switch_entries m p delta 0 (nat keys) = Inr ts" "0 \<le> keys"
    and q: "\<forall>q \<in> set ((p + sint d) # ts). 0 \<le> q \<and> q < code_size m" and size: "code_size m < 65536"
  shows "u4_of (uint d + p) = p + sint d" "push_alternatives m p delta keys 0 st = Inr (Some (rev ts @ st))"
  using alternatives_pushed [OF e(1), of st] e(2) q size u4_of_point [of "p + sint d" m] by (simp_all add: u4_sum)

lemma switch_round:
  assumes ins: "instruction_at (m_code mt) c b" "c = bc_tableswitch \<or> c = bc_lookupswitch" and b: "as_bcs s = b" "bcs_bci b = p"
    and ts: "switch_targets (m_code mt) c p = Inr ts" "\<forall>q \<in> set ts. p < q \<and> q < code_size (m_code mt) \<and> q \<in> points (m_code mt)"
    and nx: "bcs_next_bci b \<in> points (m_code mt)" and st: "stacks_ok mt s" and size: "code_size (m_code mt) < 65536"
  shows "round_ok mt p s (athrow_switch (m_code mt) c p s)"
proof -
  let ?m = "m_code mt" let ?a = "aligned_bcp ?m p"
  have ne: "bc_lookupswitch \<noteq> bc_tableswitch" by (simp add: bc_defs)
  have p: "0 \<le> p" "p < bcs_next_bci b" "bcs_next_bci b \<le> code_size ?m" using ins(1) b(2) by (auto simp: instruction_at_def)
  have "wide_length_for c = Inr 0" using ins(2) by auto
  then have sw: "switch_at ?m c b" using ins(1) by (auto simp: instruction_at_def)
  obtain d low where d: "get_Java_u4 ?m ?a = Inr d" "get_Java_u4 ?m (?a + 4) = Inr low"
    using ts(1) by (auto simp: switch_targets_def Let_def rbind_Inr_iff)
  have on: "round_ok mt p s (Inr (Inr (start_at ?m (p + sint d) (s\<lparr>as_bci_stack := rev us @ bcs_next_bci b # as_bci_stack s\<rparr>))))"
    if "ts = (p + sint d) # us" for us
  proof -
    let ?s = "start_at ?m (p + sint d) (s\<lparr>as_bci_stack := rev us @ bcs_next_bci b # as_bci_stack s\<rparr>)"
    let ?q = "(p + sint d) # rev us @ [bcs_next_bci b]"
    have "\<forall>q \<in> set ?q. p < q \<and> q \<le> code_size ?m" using ts(2) that p by auto
    moreover have "scan_ok mt ?s" using ts(2) that nx st by (auto simp: scan_ok_def start_at_def stacks_ok_def)
    ultimately have "goes_on mt p s ?s" unfolding goes_on_def by (intro conjI disjI2 exI [of _ ?q]) (simp_all add: start_at_def)
    then show ?thesis by (simp add: round_ok_def)
  qed
  have exact: "\<forall>q \<in> set ((p + sint d) # us). 0 \<le> q \<and> q < code_size ?m" if "ts = (p + sint d) # us" for us using ts(2) that p by auto
  show ?thesis
  proof (cases "c = bc_tableswitch")
    case True
    obtain high where h: "get_Java_u4 ?m (?a + 8) = Inr high" "bcs_next_bci b = ?a + (3 + sint high - sint low + 1) * 4"
      using sw True d(2) b(2) by (auto simp: switch_at_def Let_def)
    show ?thesis
    proof (cases "sint low > sint high")
      case True
      then show ?thesis using \<open>c = bc_tableswitch\<close> d h(1) by (simp add: athrow_switch_def Let_def)
    next
      case False
      have k: "signed_take_bit 31 (sint high - sint low + 1) = sint high - sint low + 1"
        using False h(2) p(1,3) aligned_bounds(1) [of p ?m] size by (intro signed_take_bit_int_eq_self) auto
      obtain us where us: "switch_entries ?m p 1 0 (nat (sint high - sint low + 1)) = Inr us" "ts = (p + sint d) # us"
        using ts(1) d h(1) True by (auto simp: switch_targets_def Let_def rbind_Inr_iff)
      have "0 \<le> sint high - sint low + 1" using False by simp
      note e = switch_start [OF d(1) us(1) this exact [OF us(2)] size]
      have "athrow_switch ?m c p s = Inr (Inr (start_at ?m (p + sint d) (s\<lparr>as_bci_stack := rev us @ bcs_next_bci b # as_bci_stack s\<rparr>)))"
        using True False d h(1) k e exact [OF us(2)] b by (simp add: athrow_switch_def Let_def)
      then show ?thesis using on [OF us(2)] by simp
    qed
  next
    case False
    show ?thesis
    proof (cases "sint low < 0")
      case True
      then show ?thesis using False d by (simp add: athrow_switch_def Let_def)
    next
      case nonneg: False
      obtain us where us: "switch_entries ?m p 2 0 (nat (sint low)) = Inr us" "ts = (p + sint d) # us"
        using ts(1) d False by (auto simp: switch_targets_def Let_def rbind_Inr_iff)
      have "0 \<le> sint low" using nonneg by simp
      note e = switch_start [OF d(1) us(1) this exact [OF us(2)] size]
      have "athrow_switch ?m c p s = Inr (Inr (start_at ?m (p + sint d) (s\<lparr>as_bci_stack := rev us @ bcs_next_bci b # as_bci_stack s\<rparr>)))"
        using False nonneg d e exact [OF us(2)] b by (simp add: athrow_switch_def Let_def)
      then show ?thesis using on [OF us(2)] by simp
    qed
  qed
qed

text \<open>The successors of an instruction of such a method.\<close>

lemma scanned_instruction:
  assumes i: "(c, b) \<in> set (method_instructions (m_code mt))" and c: "codes_from (m_code mt) (new_raw_stream (m_code mt))"
    and k: "closed_code mt" "covered (m_code mt)" "forward_switches (m_code mt)"
  shows "instruction_at (m_code mt) c b" "bcs_bci b \<in> set (starts (method_instructions (m_code mt)))" "bcs_next_bci b \<in> points (m_code mt)"
    "\<exists>ts. jump_targets (m_code mt) c b = Inr ts \<and> set ts \<subseteq> set (starts (method_instructions (m_code mt)))"
    "c = bc_tableswitch \<or> c = bc_lookupswitch \<Longrightarrow> \<exists>ts. switch_targets (m_code mt) c (bcs_bci b) = Inr ts \<and> (\<forall>q \<in> set ts. bcs_bci b < q)"
proof -
  let ?m = "m_code mt"
  show "instruction_at ?m c b" using instructions_at [OF i [unfolded method_instructions_def] new_stream_ok c] by simp
  show "bcs_bci b \<in> set (starts (method_instructions ?m))" using i by (force simp: starts_def)
  have "method_instructions ?m \<noteq> []" using i by auto
  then have "bcs_next_bci (snd (last (method_instructions ?m))) = code_size ?m" using k(2) by (simp add: covered_def Let_def)
  then show "bcs_next_bci b \<in> points ?m"
    using instructions_flow [OF i [unfolded method_instructions_def]] by (metis insertCI method_instructions_def points_def snd_conv)
  have "case successors ?m c b of Inl e \<Rightarrow> False | Inr ps \<Rightarrow> list_all (\<lambda>p. p \<in> set (starts (method_instructions ?m))) ps"
    using k(1) i by (auto simp: closed_code_def Let_def list_all_iff)
  then show "\<exists>ts. jump_targets ?m c b = Inr ts \<and> set ts \<subseteq> set (starts (method_instructions ?m))"
    by (cases "jump_targets ?m c b") (auto simp: successors_def list_all_iff split: if_splits)
  show "\<exists>ts. switch_targets ?m c (bcs_bci b) = Inr ts \<and> (\<forall>q \<in> set ts. bcs_bci b < q)" if "c = bc_tableswitch \<or> c = bc_lookupswitch"
    using bspec [OF k(3) [unfolded forward_switches_def list_all_iff] i] that by (cases "switch_targets ?m c (bcs_bci b)") auto
qed

lemma code_round:
  assumes i: "(c, b) \<in> set (method_instructions (m_code mt))" and w: "codes_from (m_code mt) (new_raw_stream (m_code mt))"
    and size: "code_size (m_code mt) < 65536" and k: "closed_code mt" "covered (m_code mt)" "forward_switches (m_code mt)"
    and s: "as_bcs s = b" "stacks_ok mt s"
  shows "round_ok mt (bcs_bci b) s
    (if c \<in> set conditional_branch_codes then athrow_branch (m_code mt) (bcs_bci b) s
     else if c = bc_goto \<or> c = bc_goto_w then athrow_goto (m_code mt) c (bcs_bci b) s
     else if c = bc_lookupswitch \<or> c = bc_tableswitch then athrow_switch (m_code mt) c (bcs_bci b) s
     else if c = bc_return then Inr (Inl False) else if c = bc_athrow then pop_start (m_code mt) s else Inr (Inr s))"
proof -
  let ?m = "m_code mt"
  note f = scanned_instruction [OF i w k]
  obtain ts where ts: "jump_targets ?m c b = Inr ts" "set ts \<subseteq> set (starts (method_instructions ?m))" using f(4) by blast
  have pt: "0 \<le> q \<and> q < code_size ?m \<and> q \<in> points ?m" "u4_of q = q" if "q \<in> set ts" for q
    using start_point [OF _ w, of q] u4_of_point [of q ?m] ts(2) that size by auto
  have p: "bcs_bci b < bcs_next_bci b" "bcs_next_bci b \<le> code_size ?m" "0 \<le> bcs_bci b" using f(1) by (auto simp: instruction_at_def)
  consider (near) "c \<in> set conditional_branch_codes \<or> c = bc_goto" | (far) "c = bc_goto_w" | (switch) "c = bc_lookupswitch \<or> c = bc_tableswitch"
    | (plain) "c \<notin> set conditional_branch_codes" "c \<noteq> bc_goto" "c \<noteq> bc_goto_w" "c \<noteq> bc_lookupswitch" "c \<noteq> bc_tableswitch" by blast
  then show ?thesis
  proof cases
    case near
    then obtain d where d: "dest ?m b = Inr d" "d \<in> set ts" using ts(1) by (auto simp: jump_targets_def dest_def rbind_Inr_iff)
    then have "u4_of d \<in> points ?m" using pt by simp
    then have "round_ok mt (bcs_bci b) s (athrow_branch ?m (bcs_bci b) s)" using d(1) f(3) s by (intro branch_round) simp_all
    moreover have "round_ok mt (bcs_bci b) s (athrow_goto ?m c (bcs_bci b) s)" if "c = bc_goto"
      using d(1) \<open>u4_of d \<in> points ?m\<close> s that by (intro goto_round [of _ _ _ d]) simp_all
    ultimately show ?thesis using near by (cases "c \<in> set conditional_branch_codes") simp_all
  next
    case far
    have ne: "bc_goto_w \<noteq> bc_goto" "bc_goto_w \<notin> set conditional_branch_codes" by (simp_all add: conditional_branch_codes_def bc_defs)
    obtain x where x: "get_Java_u4 ?m (bcs_bci b + 1) = Inr x" "bcs_bci b + sint x \<in> set ts"
      using ts(1) far ne by (auto simp: jump_targets_def rbind_Inr_iff)
    have "signed_take_bit 31 (bcs_bci b + sint x) = bcs_bci b + sint x" using pt(1) [OF x(2)] size by (intro signed_take_bit_int_eq_self) auto
    then have "dest_w ?m b = Inr (bcs_bci b + sint x)" using x(1) by (simp add: dest_w_def)
    then show ?thesis using goto_round [of c mt s "bcs_bci b + sint x"] pt [OF x(2)] far ne s by simp
  next
    case switch
    have ne: "c \<notin> set conditional_branch_codes" "c \<noteq> bc_goto" "c \<noteq> bc_goto_w" using switch by (auto simp: conditional_branch_codes_def bc_defs)
    then have "switch_targets ?m c (bcs_bci b) = Inr ts" using ts(1) switch by (auto simp: jump_targets_def)
    moreover have "c = bc_tableswitch \<or> c = bc_lookupswitch" using switch by blast
    ultimately have "round_ok mt (bcs_bci b) s (athrow_switch ?m c (bcs_bci b) s)"
      using switch_round [OF f(1) _ s(1) refl _ _ f(3) s(2) size, of ts] f(5) pt by simp
    then show ?thesis using switch ne by simp
  next
    case plain
    have "bcs_end_bci b = code_size ?m" using instructions_at [OF i [unfolded method_instructions_def] new_stream_ok w] by simp
    then have "scan_ok mt s" using s f(3) by (simp add: scan_ok_def stacks_ok_def)
    then have "goes_on mt (bcs_bci b) s s" unfolding goes_on_def
      by (intro conjI disjI2 exI [of _ "[bcs_next_bci b]"]) (use p s in simp_all)
    then have "round_ok mt (bcs_bci b) s (Inr (Inr s))" by (simp add: round_ok_def)
    then show ?thesis using plain pop_start_ok [OF s(2)] by simp
  qed
qed

lemma scan_round:
  assumes w: "codes_from (m_code mt) (new_raw_stream (m_code mt))" "code_size (m_code mt) < 65536"
    and k: "closed_code mt" "covered (m_code mt)" "forward_switches (m_code mt)" and s: "scan_ok mt s"
  shows "(\<exists>b. athrow_round mt s = Inr (Inl b)) \<or>
    (\<exists>s'. athrow_round mt s = Inr (Inr s') \<and> scan_ok mt s' \<and> scan_measure mt s' < scan_measure mt s)"
proof (cases "is_last_bytecode (as_bcs s)")
  case True
  then have "athrow_round mt s = Inr (Inl False)" using s by (simp add: athrow_round_def Let_def scan_ok_def split: list.splits)
  then show ?thesis by blast
next
  case False
  let ?m = "m_code mt" let ?p = "bcs_next_bci (as_bcs s)"
  have "?p \<in> set (starts (method_instructions ?m))" "bcs_end_bci (as_bcs s) = code_size ?m"
    using s False by (auto simp: scan_ok_def points_def is_last_bytecode_def)
  then obtain c b where i: "(c, b) \<in> set (method_instructions ?m)" "bcs_bci b = ?p" and p: "?p \<in> set (starts (method_instructions ?m))"
    and e: "bcs_end_bci (as_bcs s) = code_size ?m" by (auto simp: starts_def)
  have r: "raw_next ?m (as_bcs s) = Inr (c, b)"
    using raw_next_at [OF i(1) [unfolded method_instructions_def], of "as_bcs s"] i(2) e by (simp add: new_raw_stream_def set_interval_def)
  let ?s = "push_handlers (m_exception_table mt) ?p (s\<lparr>as_bcs := b\<rparr>)"
  have "handler_pcs (m_exception_table mt) \<subseteq> points ?m" using k(1) by (auto simp: closed_code_def Let_def list_all_iff points_def)
  then have st: "stacks_ok mt ?s"
    using s push_handlers_stack [of "m_exception_table mt" ?p "s\<lparr>as_bcs := b\<rparr>"] by (simp add: stacks_ok_def scan_ok_def) blast
  have "as_bcs ?s = b" by simp
  from code_round [OF i(1) w k this st] have "round_ok mt ?p ?s (athrow_round mt s)"
    by (simp only: athrow_round_def Let_def if_not_P [OF False] r rbind_simps prod.case i(2))
  then show ?thesis using measure_decreases [OF p start_point(2) [OF p w(1)] refl] by (auto simp: round_ok_def goes_on_def)
qed

lemma scan_returns:
  assumes "codes_from (m_code mt) (new_raw_stream (m_code mt))" "code_size (m_code mt) < 65536"
    and "closed_code mt" "covered (m_code mt)" "forward_switches (m_code mt)"
  shows "scan_ok mt s \<Longrightarrow> \<exists>b. athrow_loop mt s = Some (Inr b)"
proof (induction "scan_measure mt s" arbitrary: s rule: less_induct)
  case less
  from scan_round [OF assms less.prems] show ?case
  proof (elim disjE exE conjE)
    fix s' assume "athrow_round mt s = Inr (Inr s')" "scan_ok mt s'" "scan_measure mt s' < scan_measure mt s"
    then show ?thesis using less.hyps [of s'] by (subst athrow_loop.simps) simp
  qed (subst athrow_loop.simps, simp)
qed

lemma scannable_returns:
  assumes "codes_from (m_code mt) (new_raw_stream (m_code mt))" "code_size (m_code mt) < 65536" "scannable mt"
  shows "scans_return mt"
proof (cases "m_exception_table mt = []")
  case False
  then have k: "closed_code mt" "covered (m_code mt)" "forward_switches (m_code mt)" using assms(3) by (auto simp: scannable_def)
  have "\<exists>b. ends_in_athrow mt (uint (ex_handler_pc e)) = Some (Inr b)" if "e \<in> set (m_exception_table mt)" for e
    unfolding ends_in_athrow_def using k(1) that
    by (intro scan_returns [OF assms(1,2) k]) (auto simp: scan_ok_def closed_code_def Let_def list_all_iff points_def)
  then show ?thesis by (fastforce simp: scans_return_def list_all_iff returns_def safe_def)
qed (simp add: scans_return_def)

section \<open>The scan returns\<close>

text \<open>C13: \<open>ends_in_athrow\<close> returns \<open>true\<close> or \<open>false\<close> when it is started at an instruction of a method whose code is closed
  under jumps, handlers and falling through, consists of instructions to its end, and has no switch that jumps backwards or to
  itself.  Every byte read as a code is assumed to be the number of a code.\<close>

theorem ends_in_athrow_returns:
  assumes "codes_from (m_code mt) (new_raw_stream (m_code mt))" "code_size (m_code mt) < 65536"
    and "closed_code mt" "covered (m_code mt)" "forward_switches (m_code mt)" "start \<in> set (starts (method_instructions (m_code mt)))"
  shows "\<exists>b. ends_in_athrow mt start = Some (Inr b)"
  unfolding ends_in_athrow_def by (rule scan_returns [OF assms(1-5)]) (use assms(6) in \<open>simp add: scan_ok_def points_def\<close>)

text \<open>\<open>nop; 1: iconst_0; ifeq 1; tableswitch 24 24; 24: aconst_null; athrow\<close>, where the handler of the code starts at 1.\<close>

definition scan_method :: Method where
  "scan_method = \<lparr>m_name = symbol_of ''<init>'', m_signature = symbol_of ''()V'', m_is_static = False, m_is_native = False, m_is_abstract = False,
     m_is_overpass = False, m_max_stack = 1, m_max_locals = 1,
     m_constants = \<lparr>cp_tags = [0], cp_slots = [], cp_cache = None, cp_operands = []\<rparr>,
     m_code = \<lparr>ca_base = 0, ca_bytes = [0, 3, 0x99, 0xff, 0xff, 0xaa, 0, 0, 0, 0, 0, 19, 0, 0, 0, 0, 0, 0, 0, 0, 0, 0, 0, 19, 1, 0xbf]\<rparr>,
     m_exception_table = [\<lparr>ex_start_pc = 0, ex_end_pc = 26, ex_handler_pc = 1, ex_catch_type_index = 0\<rparr>],
     m_localvariable_table = None, m_stackmap_data = None\<rparr>"

theorem ends_in_athrow_returns_witness:
  "scannable scan_method \<and> (\<exists>b. ends_in_athrow scan_method 1 = Some (Inr b)) \<and> ends_in_athrow scan_method 1 = Some (Inr True)"
proof -
  have s: "codes_from (m_code scan_method) (new_raw_stream (m_code scan_method))" "code_size (m_code scan_method) < 65536"
    "closed_code scan_method" "covered (m_code scan_method)" "forward_switches (m_code scan_method)"
    "1 \<in> set (starts (method_instructions (m_code scan_method)))" by code_simp+
  moreover have "ends_in_athrow scan_method 1 = Some (Inr True)" by code_simp
  ultimately show ?thesis using ends_in_athrow_returns [OF s] by (simp add: scannable_def)
qed

end
