(* ===== verification/Verified_Class.thy ===== *)
theory Verified_Class
  imports Athrow_Scan
begin

text \<open>
  The properties of the verifier (\<open>ClassVerifier::verify_method\<close>, \<open>verify_class\<close>), each with a method
  on which it is evaluated: the verification returns, accepted code is closed, an instruction moves
  the height of the stack as \<open>Bytecodes\<close> says, the map of the code and the exception handler table
  are exact.  And where a promise is not kept: the scan for \<open>athrow\<close> may not end at a switch, and an error
  message reads past the operand stack.
\<close>

section \<open>Examples\<close>

definition sample_class :: ClassVerifier where
  "sample_class = \<lparr>cv_context = \<lparr>resolve_or_fail = (\<lambda>_. Inr 0), klass_is_interface = (\<lambda>_. False), klass_is_subclass_of = (\<lambda>_ _. True)\<rparr>,
     cv_klass = 0, cv_name_of = (\<lambda>_. symbol_of ''A''), cv_supers = (\<lambda>k. [k]), cv_is_anonymous = (\<lambda>_. False), cv_host_klass = id,
     cv_local_interfaces = (\<lambda>_. []), cv_major_version = (\<lambda>_. 52), cv_find_local_field = (\<lambda>_ _ _. False),
     cv_find_field = (\<lambda>_ _ _. None), cv_lookup_method = (\<lambda>_ _ _. None), cv_same_class_package = (\<lambda>_ _. True),
     cv_enable_invokedynamic = True, cv_rewritten_at = (\<lambda>_. False)\<rparr>"

text \<open>\<open>iconst_0; ifeq 5; nop; return\<close>, with a frame at 5.\<close>

definition sample_method :: Method where
  "sample_method = \<lparr>m_name = symbol_of ''m'', m_signature = symbol_of ''()V'', m_is_static = True, m_is_native = False, m_is_abstract = False,
     m_is_overpass = False, m_max_stack = 1, m_max_locals = 0,
     m_constants = \<lparr>cp_tags = [0], cp_slots = [], cp_cache = None, cp_operands = []\<rparr>,
     m_code = \<lparr>ca_base = 0, ca_bytes = [3, 0x99, 0, 4, 0, 0xb1]\<rparr>, m_exception_table = [],
     m_localvariable_table = None, m_stackmap_data = Some [0, 1, 5]\<rparr>"

lemma sample_tags: "tag_at i (m_constants sample_method) = Inr t \<Longrightarrow> t = 0"
  by (auto simp: sample_method_def tag_at_def arr_get_def split: if_splits)

lemma sample_class_ok: "class_ok sample_class"
  by (simp add: class_ok_def sample_class_def env_defined_def symbol_of_def sound_name.simps)

lemma sample_pool: "pool_ok (m_constants sample_method)" "members_ok (m_constants sample_method)"
proof -
  have "cp_cache (m_constants sample_method) = None" by (simp add: sample_method_def)
  then show "pool_ok (m_constants sample_method)" unfolding pool_ok_def by (auto simp: tag_defs tag_values dest!: sample_tags)
  show "members_ok (m_constants sample_method)" unfolding members_ok_def by (auto simp: tag_defs tag_values dest!: sample_tags)
qed

lemma sample_open: "fields_open sample_class cp"
  by (simp add: fields_open_def is_protected_access_def sample_class_def)

lemma sample_codes: "codes_from (m_code sample_method) (new_raw_stream (m_code sample_method))"
  by code_simp

lemma sample_size: "code_size (m_code sample_method) < 65536"
  by (simp add: sample_method_def code_size_def)

lemma sample_wf: "method_wf sample_class sample_method"
proof -
  have "m_signature sample_method = show_method [] (FT_Base T_VOID)" by code_simp
  then have "arguments_ok sample_class sample_method" unfolding arguments_ok_def
    by (intro exI [of _ "[]"] exI [of _ "FT_Base T_VOID"]) (simp add: sample_method_def receiver_types_def no_void_array_def)
  moreover have "handlers_ok sample_method" by (simp add: handlers_ok_def sample_method_def)
  ultimately show ?thesis using sample_class_ok sample_pool sample_codes sample_size by (simp add: method_wf_def)
qed

lemma sample_scannable: "scannable sample_method"
  by (simp add: scannable_def sample_method_def)

lemma sample_verified: "verify_method sample_class sample_method = Some (Inr ())" 
  by code_simp

lemma sample_map: "generate_code_data (m_code sample_method) (code_size (m_code sample_method)) = Inr [1, 1, 0, 0, 1, 1]"
  by code_simp

section \<open>The verification of a method\<close>

lemma undefined_returns:
  assumes "method_ok v mt" "stack_map_undefined v mt"
  shows "\<exists>r. verify_method v mt = Some r"
proof -
  obtain rt f d where i: "set_locals_from_arg (m_name mt) (m_is_static mt) (m_signature mt) (current_type v)
      (new_frame (m_max_locals mt) (m_max_stack mt)) = Some (Inr (rt, f))" "generate_code_data (m_code mt) (code_size (m_code mt)) = Inr d"
      "stack_map_of mt f d = Inl Undefined_Behaviour"
    using assms(2) unfolding stack_map_undefined_def
    by (cases "generate_code_data (m_code mt) (code_size (m_code mt))") (auto split: option.splits sum.splits)
  then have "\<exists>e. method_tables v mt f = Inl e"
    by (cases "method_tables v mt f") (auto simp: method_tables_eq rbind_Inr_iff split: prod.splits)
  then show ?thesis using i(1) by (auto simp: verify_method_def class_format_error_def)
qed

lemma method_defined:
  assumes "method_wf v mt" "fields_open v (m_constants mt)" "scannable mt"
  shows "\<exists>r. verify_method v mt = Some r \<and> (r = Inl Undefined_Behaviour \<longrightarrow> stack_map_undefined v mt)"
proof -
  have "scans_return mt" using scannable_returns [of mt] assms(1,3) by (simp add: method_wf_def)
  then have ok: "method_ok v mt" using assms(1,2) by (simp add: method_ok_iff)
  show ?thesis
  proof (cases "stack_map_undefined v mt")
    case True
    then show ?thesis using undefined_returns [OF ok] by blast
  next
    case False
    from method_returns [OF ok False] show ?thesis by (cases "verify_method v mt") (auto simp: returns_def safe_def)
  qed
qed

text \<open>C1: The verification of a method returns, and its result is defined unless the constructor of the stack map table
  is not.  \<open>method_wf\<close> is what the class file parser has established of the constant pool, the signatures and the
  handlers, and that each byte read as a code is one.  Two conditions exclude what is not so in general: no field
  reference of the pool leads to a protected field of a superclass in another package, where an error message may read past the
  stack, and \<open>scannable\<close>: a method with handlers has closed code whose switches jump forward.\<close>

theorem verify_method_returns:
  assumes "method_wf v mt" "fields_open v (m_constants mt)" "scannable mt"
  shows "\<exists>r. verify_method v mt = Some r \<and> (r = Inl Undefined_Behaviour \<longrightarrow> stack_map_undefined v mt)"
  by (rule method_defined [OF assms])

lemma sample_defined: "\<not> stack_map_undefined sample_class sample_method"
  by code_simp

theorem verify_method_returns_witness:
  "\<exists>r. verify_method sample_class sample_method = Some r \<and> r \<noteq> Inl Undefined_Behaviour"
  using verify_method_returns [OF sample_wf sample_open sample_scannable] sample_defined by blast

text \<open>C2: The code of an accepted method, whose pool, signatures and handlers are as the parser leaves them and whose
  instructions the verifier does not rewrite, is closed: what a jump, an alternative of a switch or the end
  of an instruction leads to, and the start of each handler, is an instruction of the method.  The
  targets are those of exact arithmetic.\<close>

theorem accepted_code_closed:
  assumes "method_wf v mt" "verify_method v mt = Some (Inr ())" "\<forall>p. \<not> cv_rewritten_at v p"
  shows "closed_code mt"
  by (rule accepted_closed [OF assms])

theorem accepted_code_closed_witness: "closed_code sample_method \<and> length (method_instructions (m_code sample_method)) = 4"
proof
  have "\<forall>p. \<not> cv_rewritten_at sample_class p" by (simp add: sample_class_def)
  then show "closed_code sample_method" by (rule accepted_code_closed [OF sample_wf sample_verified])
  show "length (method_instructions (m_code sample_method)) = 4" by code_simp
qed

text \<open>C6: The check of an instruction that has a fixed effect, on a frame of the method, changes the height of the
  operand stack by what the table of \<open>Bytecodes\<close> has as its depth, and leaves a frame within its bounds.  The codes with a
  varying effect (field accesses, invocations, \<open>multianewarray\<close>) are left out.\<close>

theorem stack_effect_is_depth:
  assumes "class_ok v" "pool_ok (m_constants mt)" "code_size (m_code mt) < 65536"
    and "table_ok ml ms t" "fr (uint ml) (uint ms) n f" "sound_type return_type"
    and "instruction_at (m_code mt) opcode bcs" "bcs_raw_code bcs = opcode" "opcode \<notin> set varying_codes"
    and "verify_instruction v mt return_type opcode bcs in_try t f = Some (Inr (f', this_uninit, no_control_flow))"
  shows "bc_depth opcode = Inr (stack_size f' - n) \<and> frame_ok f'"
  using instruction_ok [OF assms(1-3) _ assms(4-8), of in_try] assms(9,10) by (auto simp: step_ok_def fr_def)

definition sample_at_0 :: RawBytecodeStream where
  "sample_at_0 = \<lparr>bcs_bci = 0, bcs_next_bci = 1, bcs_end_bci = 6, bcs_raw_code = bc_iconst_0, bcs_is_wide = Some False\<rparr>"

theorem stack_effect_is_depth_witness:
  "\<exists>f'. verify_instruction sample_class sample_method bogus_type bc_iconst_0 sample_at_0 False \<lparr>smt_code_length = 6, smt_frame_array = []\<rparr>
       (new_frame 0 1) = Some (Inr (f', False, False)) \<and> bc_depth bc_iconst_0 = Inr (stack_size f')"
proof -
  let ?t = "\<lparr>smt_code_length = 6, smt_frame_array = []\<rparr>"
  have t: "table_ok 0 1 ?t" by (simp add: table_ok_def)
  have f: "fr (uint (0 :: u2)) (uint (1 :: u2)) 0 (new_frame 0 1)" using new_frame_ok [of 0 1] by (simp add: fr_def new_frame_def)
  have b: "sound_type bogus_type" by simp
  have i: "instruction_at (m_code sample_method) bc_iconst_0 sample_at_0"
    by (simp add: instruction_at_def sample_at_0_def sample_method_def code_size_def switch_at_def) (simp add: bc_defs number_of_codes_def)
  have r: "bcs_raw_code sample_at_0 = bc_iconst_0" "bc_iconst_0 \<notin> set varying_codes"
    by (simp_all add: sample_at_0_def varying_codes_def bc_defs)
  obtain f' where v: "verify_instruction sample_class sample_method bogus_type bc_iconst_0 sample_at_0 False ?t (new_frame 0 1) =
      Some (Inr (f', False, False))"
    by (simp add: verify_instruction_def const_instr_def bc_defs fall_def push_stack_def new_frame_def arr_set_def)
  show ?thesis using stack_effect_is_depth [OF sample_class_ok sample_pool(1) sample_size t f b i r v] v by auto
qed

text \<open>C11: The map of the code has, for each position, 0 when no instruction starts there, and
  otherwise the mark of the instruction.\<close>

theorem code_map_exact:
  assumes "generate_code_data m (code_size m) = Inr code_data" "codes_from m (new_raw_stream m)"
  shows "code_data = map (\<lambda>p. case map_of (map (\<lambda>(c, s). (bcs_bci s, c)) (method_instructions m)) (int p) of
     None \<Rightarrow> 0 | Some c \<Rightarrow> mark_of c) [0..<nat (code_size m)]"
proof (rule nth_equalityI)
  let ?is = "method_instructions m"
  show len: "length code_data = length (map (\<lambda>p. case map_of (map (\<lambda>(c, s). (bcs_bci s, c)) ?is) (int p) of
     None \<Rightarrow> 0 | Some c \<Rightarrow> mark_of c) [0..<nat (code_size m)])" using marked_start(2) [OF assms] by simp
  fix p assume "p < length code_data"
  then have p: "p < nat (code_size m)" using len by simp
  have spec: "\<forall>(c, s) \<in> set ?is. code_data ! nat (bcs_bci s) = mark_of c"
    using code_data_spec [OF assms(1) [unfolded generate_code_data_def] new_stream_ok assms(2)] by (auto simp: method_instructions_def)
  show "code_data ! p = map (\<lambda>p. case map_of (map (\<lambda>(c, s). (bcs_bci s, c)) ?is) (int p) of
     None \<Rightarrow> 0 | Some c \<Rightarrow> mark_of c) [0..<nat (code_size m)] ! p"
  proof (cases "map_of (map (\<lambda>(c, s). (bcs_bci s, c)) ?is) (int p)")
    case None
    then have "int p \<notin> set (starts ?is)" by (auto simp: map_of_eq_None_iff starts_def image_iff split_beta)
    then show ?thesis using None p marked_start(1) [OF assms, of "int p"] by simp
  next
    case (Some c)
    then obtain s where "(c, s) \<in> set ?is" "bcs_bci s = int p" by (force dest!: map_of_SomeD)
    then show ?thesis using Some p spec by force
  qed
qed

theorem code_map_exact_witness:
  "map (\<lambda>p. case map_of (map (\<lambda>(c, s). (bcs_bci s, c)) (method_instructions (m_code sample_method))) (int p) of
     None \<Rightarrow> 0 | Some c \<Rightarrow> mark_of c) [0..<nat (code_size (m_code sample_method))] = [1, 1, 0, 0, 1, 1 :: u1]"
  by (rule code_map_exact [OF sample_map sample_codes, symmetric])

text \<open>C12: The exception handler table is accepted exactly when each entry starts, ends and is handled
  at an instruction, where the end may be that of the code, and its type is accepted; the result is
  the least start and the greatest end.\<close>

theorem handler_table_iff:
  "verify_exception_handler_table v cp (int (length code_data)) code_data es mn mx = Inr r \<longleftrightarrow>
     list_all (handler_ok v cp (int (length code_data)) code_data) es \<and>
     r = (foldl min mn (map (\<lambda>e. uint (ex_start_pc e)) es), foldl max mx (map (\<lambda>e. uint (ex_end_pc e)) es))"
  by (rule handler_table_accepted) simp

text \<open>C14: \<open>ends_in_athrow\<close>, started at a \<open>lookupswitch\<close> without pairs whose default target is itself, does not
  return: switches are not among the visited branches.\<close>

theorem self_switch_never_returns:
  assumes "self_switch (m_code mt) p"
  shows "ends_in_athrow mt p = None"
proof (cases "ends_in_athrow mt p")
  case (Some r)
  then show ?thesis using self_switch_diverges [OF assms] by (force simp: ends_in_athrow_def set_start_def set_interval_def)
qed

definition switch_method :: Method where
  "switch_method = sample_method\<lparr>m_code := \<lparr>ca_base = 0, ca_bytes = [0xab, 0, 0, 0, 0, 0, 0, 0, 0, 0, 0, 0, 0xbf]\<rparr>\<rparr>"

theorem self_switch_never_returns_witness: "ends_in_athrow switch_method 0 = None"
proof (rule self_switch_never_returns)
  show "self_switch (m_code switch_method) 0" by code_simp
qed

text \<open>C15: When a protected access is refused in \<open>getfield\<close> and the operand stack is full, the
  construction of the error reads past the end of the stack.\<close>

theorem protected_error_undefined:
  assumes "frame_ok f" "stack_size f = max_stack f" "max_stack f < 65536" "current_type v \<noteq> type"
    and "klass_ref_index_at index cp = Inr i" "klass_name_at i cp = Inr c" "name_in_supers v c (cv_supers v (cv_klass v))"
    and "load_class v c = Inr k" "is_protected_access v (cv_klass v) k field_name field_sig False"
    and "is_assignable_from (cv_context v) (current_type v) type True = Inr False"
  shows "check_protected v cp bci index field_name field_sig type f = Inl Undefined_Behaviour"
proof -
  have n: "0 \<le> max_stack f" "int (length (stack f)) = max_stack f" using assms(1) by (simp_all add: frame_ok_def)
  have "stack_at (u2_of (stack_size f)) f = Inl Undefined_Behaviour" using n assms(2,3) by (simp add: stack_at_def arr_get_def u2_of_def)
  then have "stack_top_ctx f = Inl Undefined_Behaviour" unfolding stack_top_ctx_def by (cases "copy_frame f") (auto simp: copy_frame_def copy_prefix_def rbind_def split: if_splits sum.splits)
  then show ?thesis using assms(4-) by (simp add: check_protected_def stack_top_error_def)
qed

text \<open>\<open>aload_0; getfield Q/P.f; ireturn\<close> in a subclass \<open>A\<close> of \<open>Q/P\<close>, whose protected field is in another package.\<close>

definition field_class :: ClassVerifier where
  "field_class = sample_class\<lparr>cv_context := \<lparr>resolve_or_fail = (\<lambda>s. Inr (if s = symbol_of ''A'' then 0 else 1)),
       klass_is_interface = (\<lambda>_. False), klass_is_subclass_of = (\<lambda>k l. k \<le> l)\<rparr>,
     cv_name_of := (\<lambda>k. symbol_of (if k = 0 then ''A'' else ''Q/P'')), cv_supers := (\<lambda>k. if k = 0 then [1] else []),
     cv_find_field := (\<lambda>_ _ _. Some (1, True)), cv_same_class_package := (=)\<rparr>"

definition field_pool :: ConstantPool where
  "field_pool = \<lparr>cp_tags = [0, 100, 9, 12, 1, 1], cp_slots = [Slot_Null, Slot_Unresolved (symbol_of ''Q/P''), Slot_Int (pack_indices 3 1),
     Slot_Int (pack_indices 5 4), Slot_Symbol (symbol_of ''f''), Slot_Symbol (symbol_of ''I'')], cp_cache = None, cp_operands = []\<rparr>"

definition field_method :: Method where
  "field_method = sample_method\<lparr>m_signature := symbol_of ''(LQ/P;)I'', m_max_locals := 1, m_constants := field_pool,
     m_code := \<lparr>ca_base = 0, ca_bytes = [42, 0xb4, 0, 2, 0xac]\<rparr>, m_stackmap_data := None\<rparr>"

theorem protected_error_undefined_witness:
  "check_protected field_class field_pool 1 2 (symbol_of ''f'') (symbol_of ''I'') (reference_type (symbol_of ''Q/P'')) (new_frame 1 0) =
     Inl Undefined_Behaviour \<and> verify_method field_class field_method = Some (Inl Undefined_Behaviour)"
proof
  show "check_protected field_class field_pool 1 2 (symbol_of ''f'') (symbol_of ''I'') (reference_type (symbol_of ''Q/P'')) (new_frame 1 0) =
     Inl Undefined_Behaviour"
  proof (rule protected_error_undefined)
    show "frame_ok (new_frame 1 0)" by (rule new_frame_ok)
    show "klass_ref_index_at 2 field_pool = Inr 1" "klass_name_at 1 field_pool = Inr (symbol_of ''Q/P'')" "load_class field_class (symbol_of ''Q/P'') = Inr 1"
      "stack_size (new_frame 1 0) = max_stack (new_frame 1 0)" "max_stack (new_frame 1 0) < 65536"
      "current_type field_class \<noteq> reference_type (symbol_of ''Q/P'')" "name_in_supers field_class (symbol_of ''Q/P'') (cv_supers field_class (cv_klass field_class))"
      "is_protected_access field_class (cv_klass field_class) 1 (symbol_of ''f'') (symbol_of ''I'') False"
      "is_assignable_from (cv_context field_class) (current_type field_class) (reference_type (symbol_of ''Q/P'')) True = Inr False"
      by code_simp+
  qed
  show "verify_method field_class field_method = Some (Inl Undefined_Behaviour)" by code_simp
qed

section \<open>The verification of a class\<close>

definition has_code :: "Method \<Rightarrow> bool" where
  "has_code mt \<longleftrightarrow> \<not> (m_is_native mt \<or> m_is_abstract mt \<or> m_is_overpass mt)"

lemma verify_class_method:
  assumes "cv_rewritten_at v = (\<lambda>_. False)"
  shows "verify_class v (map (\<lambda>mt. (False, \<lambda>_. False, mt)) (mt # mts)) =
    (if has_code mt then pbind (verify_method v mt) (\<lambda>_. verify_class v (map (\<lambda>mt. (False, \<lambda>_. False, mt)) mts))
     else verify_class v (map (\<lambda>mt. (False, \<lambda>_. False, mt)) mts))"
proof -
  have "v\<lparr>cv_rewritten_at := \<lambda>_. False\<rparr> = v" using assms by (metis ClassVerifier.surjective ClassVerifier.update_convs(14))
  then show ?thesis by (simp add: has_code_def)
qed

lemma class_accepted:
  assumes fresh: "cv_rewritten_at v = (\<lambda>_. False)"
  shows "list_all (method_wf v) (filter has_code mts) \<Longrightarrow>
    verify_class v (map (\<lambda>mt. (False, \<lambda>_. False, mt)) mts) = Some (Inr ()) \<Longrightarrow> list_all closed_code (filter has_code mts)"
proof (induction mts)
  case (Cons mt mts)
  show ?case
  proof (cases "has_code mt")
    case True
    then have wf: "method_wf v mt" using Cons.prems(1) by simp
    from Cons.prems(2) have "verify_method v mt = Some (Inr ())" "verify_class v (map (\<lambda>mt. (False, \<lambda>_. False, mt)) mts) = Some (Inr ())"
      unfolding verify_class_method [OF fresh] using True by (auto simp: pbind_def split: option.splits sum.splits)
    then show ?thesis using accepted_closed [OF wf] Cons.IH Cons.prems(1) fresh True by simp
  next
    case False
    then show ?thesis using Cons.IH Cons.prems unfolding verify_class_method [OF fresh] by simp
  qed
qed simp

lemma class_returns:
  assumes fresh: "cv_rewritten_at v = (\<lambda>_. False)"
  shows "list_all (method_wf v) (filter has_code mts) \<Longrightarrow>
    list_all (\<lambda>mt. fields_open v (m_constants mt) \<and> scannable mt) (filter has_code mts) \<Longrightarrow>
    \<exists>r. verify_class v (map (\<lambda>mt. (False, \<lambda>_. False, mt)) mts) = Some r \<and>
      (r = Inl Undefined_Behaviour \<longrightarrow> list_ex (stack_map_undefined v) (filter has_code mts))"
proof (induction mts)
  case (Cons mt mts)
  then obtain r where r: "verify_class v (map (\<lambda>mt. (False, \<lambda>_. False, mt)) mts) = Some r"
    "r = Inl Undefined_Behaviour \<longrightarrow> list_ex (stack_map_undefined v) (filter has_code mts)" by (auto split: if_splits)
  show ?case
  proof (cases "has_code mt")
    case True
    then obtain x where "verify_method v mt = Some x" "x = Inl Undefined_Behaviour \<longrightarrow> stack_map_undefined v mt"
      using method_defined [of v mt] Cons.prems by auto
    then show ?thesis unfolding verify_class_method [OF fresh] using True r by (cases x) auto
  qed (unfold verify_class_method [OF fresh], use r in simp)
qed simp

text \<open>C5: The verification of a class, none of whose methods is rewritten or verified recursively, where each method with code
  is as the class file parser leaves it.  When the class is accepted, the code of each of its methods is closed.
  When each method meets the two conditions of the verification of a method, that of the class returns, and is
  defined unless a stack map table of one of the methods is not.\<close>

theorem verify_class_closed:
  assumes "cv_rewritten_at v = (\<lambda>_. False)" and "list_all (method_wf v) (filter has_code mts)"
  shows "(verify_class v (map (\<lambda>mt. (False, \<lambda>_. False, mt)) mts) = Some (Inr ()) \<longrightarrow> list_all closed_code (filter has_code mts)) \<and>
    (list_all (\<lambda>mt. fields_open v (m_constants mt) \<and> scannable mt) (filter has_code mts) \<longrightarrow>
      (\<exists>r. verify_class v (map (\<lambda>mt. (False, \<lambda>_. False, mt)) mts) = Some r \<and>
        (r = Inl Undefined_Behaviour \<longrightarrow> list_ex (stack_map_undefined v) (filter has_code mts))))"
  using class_accepted [OF assms] class_returns [OF assms] by blast

lemma sample_class_verified: "verify_class sample_class (map (\<lambda>mt. (False, \<lambda>_. False, mt)) [sample_method, sample_method]) = Some (Inr ())"
  by code_simp

theorem verify_class_closed_witness:
  "list_all closed_code [sample_method, sample_method] \<and>
   (\<exists>r. verify_class sample_class (map (\<lambda>mt. (False, \<lambda>_. False, mt)) [sample_method, sample_method]) = Some r \<and> r \<noteq> Inl Undefined_Behaviour)"
proof -
  have 1: "cv_rewritten_at sample_class = (\<lambda>_. False)" by (simp add: sample_class_def)
  have 2: "filter has_code [sample_method, sample_method] = [sample_method, sample_method]" by (simp add: has_code_def sample_method_def)
  have 3: "list_all (method_wf sample_class) (filter has_code [sample_method, sample_method])" unfolding 2 using sample_wf by simp
  note c = verify_class_closed [OF 1 3, unfolded 2]
  show ?thesis using c sample_class_verified sample_open sample_scannable sample_defined by auto
qed

end
