(* ===== verification/Parsed_Class.thy ===== *)
theory Parsed_Class
  imports Checked_Pool Verified_Class
begin

text \<open>What the class file parser promises the split verifier: the constant pool that is returned for a class to be
  verified meets the conditions on pools the theorems of Method_Safety start from, and so do the
  handlers of an exception table read against it.\<close>

section \<open>The pool\<close>

lemma pool_checks:
  assumes f: "new_format cfp" and s: "input_ok 0 cfs"
  shows "checks (\<lambda>(cp, cfs). checked_pool cfp (cp_length cp) cp \<and> input_ok 1 cfs) (parse_constant_pool cfp cfs)"
proof -
  have v: "cfp_need_verify cfp" "47 < cfp_major_version cfp" using f by (auto simp: new_format_def JAVA_1_5_VERSION_def)
  let ?post = "\<lambda>(cp, cfs). checked_pool cfp (cp_length cp) cp \<and> input_ok 1 cfs"
  let ?link = "\<lambda>len ps. rbind (pass1_loop cfp len 1 (ps_cp ps)) (\<lambda>cp.
    rbind (if cfp_need_verify cfp then pass2_loop cfp len 1 cp else Inr ()) (\<lambda>_. Inr (cp, ps_stream ps)))"
  let ?rest = "\<lambda>len s'. rbind (parse_constant_pool_entries cfp len
    \<lparr>ps_stream = s', ps_cp = allocate (nat len), ps_names = [], ps_max_bootstrap = -1\<rparr>) (?link len)"
  have entries: "checks ?post (?rest len s')"
    if s': "1 \<le> len" "input_ok 1 s'" for len s'
  proof (rule checks_bind [OF parse_entries_checks [OF _ v]])
    show "state_ok len 1 \<lparr>ps_stream = s', ps_cp = allocate (nat len), ps_names = [], ps_max_bootstrap = -1\<rparr>"
      using s' allocate_parsed by (simp add: state_ok_def)
  next
    fix ps assume ps: "parsed len len (ps_cp ps) [] \<and> input_ok 1 (ps_stream ps)"
    show "checks ?post (?link len ps)"
    proof (rule checks_bind [OF pass1_loop_checks [OF parsed_pass1 v(1)]])
      show "parsed len len (ps_cp ps) []" using ps by simp
    next
      fix cp assume "\<exists>k. len \<le> k \<and> pass1_at len k cp"
      then have l: "linked_pool len cp" by (simp add: linked_pool_def)
      then have "cp_length cp = len" by (auto simp: linked_pool_def pass1_at_def)
      with checks_mono [OF pass2_loop_checks [OF l f order.refl]]
      show "checks ?post
          (rbind (if cfp_need_verify cfp then pass2_loop cfp len 1 cp else Inr ()) (\<lambda>_. Inr (cp, ps_stream ps)))"
        using v(1) l ps by (intro checks_bind [where P = "\<lambda>_. checked_pool cfp len cp"]) (auto simp: checked_pool_def)
    qed
  qed
  have size: "checks ?post (case x of (len, s') \<Rightarrow>
      rbind (guarantee_property (len \<ge> 1) ''Illegal constant pool size %u in class file %s'') (\<lambda>_. ?rest len s'))"
    if "case x of (len, s') \<Rightarrow> u2_index len \<and> input_ok (3 - 2) s'" for x
    using that by (cases x) (simp, rule checks_bind [OF guarantee_checks], rule entries, auto)
  show ?thesis unfolding parse_constant_pool_def
    by (rule checks_bind [OF more_checks [OF s]]) (simp_all, rule checks_bind [OF u2_checks], assumption, simp, rule size)
qed

section \<open>The exception table\<close>

definition handler_in_range :: "ConstantPool \<Rightarrow> int \<Rightarrow> ExceptionTableElement \<Rightarrow> bool" where
  "handler_in_range cp code_length e \<longleftrightarrow>
     uint (ex_start_pc e) < uint (ex_end_pc e) \<and> uint (ex_end_pc e) \<le> code_length \<and> uint (ex_handler_pc e) < code_length \<and>
     (ex_catch_type_index e = 0 \<or> tag_at (uint (ex_catch_type_index e)) cp = Inr JVM_CONSTANT_UnresolvedClass)"

lemma catch_type_checks:
  assumes p: "linked_pool len cp"
  shows "checks (\<lambda>_. i = 0 \<or> tag_at i cp = Inr JVM_CONSTANT_UnresolvedClass)
    (if i \<noteq> 0 then rbind (valid_klass_reference_at cfp i cp) (\<lambda>b. guarantee_property b m) else Inr ())"
proof (cases "i = 0")
  case False
  obtain k where k: "pass1_at len k cp" using p by (auto simp: linked_pool_def)
  let ?test = "if cfp_enable_invokedynamic cfp then tag_is_klass_or_reference else tag_is_klass_reference"
  show ?thesis
  proof (cases "is_within_bounds i cp")
    case True
    then obtain t where t: "tag_at i cp = Inr t" by (auto simp: is_within_bounds_def tag_at_def cp_length_def arr_get_def)
    have "t = JVM_CONSTANT_UnresolvedClass" if "?test t"
      using klass_reference_tag [OF k t] linked_tags(2) [OF p t] that by (auto simp: klassish_def split: if_splits)
    then show ?thesis using False True t by (auto simp: valid_klass_reference_at_def tag_test_def guarantee_property_def)
  qed (use False in \<open>simp add: valid_klass_reference_at_def tag_test_def guarantee_property_def\<close>)
qed simp

lemma handler_word: "u2_index i \<Longrightarrow> uint (word_of_int i :: u2) = i"
  by (simp add: u2_index_def uint_word_of_int)

lemma handler_of_indices:
  assumes "u2_index a" "u2_index b" "u2_index h" "u2_index c" "a < b \<and> b \<le> code_length" "h < code_length"
    "c = 0 \<or> tag_at c cp = Inr JVM_CONSTANT_UnresolvedClass"
  shows "handler_in_range cp code_length \<lparr>ex_start_pc = word_of_int a, ex_end_pc = word_of_int b,
    ex_handler_pc = word_of_int h, ex_catch_type_index = word_of_int c\<rparr>"
  using assms by (auto simp: handler_in_range_def handler_word)

lemma handler_checks:
  assumes p: "linked_pool len cp"
  shows "input_ok (8 * int n) cfs \<Longrightarrow>
    checks (\<lambda>(es, cfs). length es = n \<and> list_all (handler_in_range cp code_length) es \<and> input_ok 0 cfs)
      (exception_table_loop cfp cp code_length n cfs)"
proof (induction n arbitrary: cfs)
  case (Suc n)
  let ?post = "\<lambda>(es, cfs). length es = Suc n \<and> list_all (handler_in_range cp code_length) es \<and> input_ok 0 cfs"
  let ?last = "\<lambda>a b h c s. rbind (exception_table_loop cfp cp code_length n s) (\<lambda>(es, cfs).
     Inr (\<lparr>ex_start_pc = word_of_int a, ex_end_pc = word_of_int b, ex_handler_pc = word_of_int h,
           ex_catch_type_index = word_of_int c\<rparr> # es, cfs))"
  let ?tests = "\<lambda>a b h c s.
     rbind (guarantee_property (a < b \<and> b \<le> code_length) ''Illegal exception table range in class file %s'') (\<lambda>_.
     rbind (guarantee_property (h < code_length) ''Illegal exception table handler in class file %s'') (\<lambda>_.
     rbind (if c \<noteq> 0
            then rbind (valid_klass_reference_at cfp c cp) (\<lambda>b.
                 guarantee_property b ''Catch type in exception table has bad constant type in class file %s'')
            else Inr ()) (\<lambda>_. ?last a b h c s)))"
  have last: "checks ?post (?last a b h c s)"
    if "u2_index a" "u2_index b" "u2_index h" "u2_index c" "input_ok (8 * int n) s" "a < b \<and> b \<le> code_length" "h < code_length"
      "c = 0 \<or> tag_at c cp = Inr JVM_CONSTANT_UnresolvedClass" for a b h c s
    by (rule checks_bind [OF Suc.IH [OF that(5)]]) (use handler_of_indices [OF that(1-4,6-8)] in auto)
  have tests: "checks ?post (?tests a b h c s)"
    if "u2_index a" "u2_index b" "u2_index h" "u2_index c" "input_ok (8 * int n) s" for a b h c s
    by (rule checks_bind [OF guarantee_checks], rule checks_bind [OF guarantee_checks],
        rule checks_bind [OF catch_type_checks [OF p]], rule last [OF that])
  have read: "checks Q (rbind (get_u2_fast s) (\<lambda>(a, s). rbind (get_u2_fast s) (\<lambda>(b, s). k a b s)))"
    if "input_ok m s" "4 \<le> m" "\<And>a b s'. u2_index a \<Longrightarrow> u2_index b \<Longrightarrow> input_ok (m - 4) s' \<Longrightarrow> checks Q (k a b s')" for m s Q k
  proof (rule checks_bind [OF u2_checks [OF that(1)]])
    fix x assume "case x of (v, s') \<Rightarrow> u2_index v \<and> input_ok (m - 2) s'"
    then show "checks Q (case x of (a, s) \<Rightarrow> rbind (get_u2_fast s) (\<lambda>(b, s). k a b s))"
      using that(2,3) by (cases x) (auto intro!: checks_bind [OF u2_checks [of "m - 2"]])
  qed (use that(2) in simp)
  have "input_ok (8 + 8 * int n) cfs" using Suc.prems by (simp add: algebra_simps)
  then show ?case unfolding exception_table_loop.simps
  proof (rule read, goal_cases)
    case (2 a b s)
    show ?case by (rule read [OF 2(3)], simp, rule tests [OF 2(1,2)]) simp_all
  qed simp_all
qed simp

lemma exception_table_checks:
  assumes "linked_pool len cp" "input_ok 0 cfs" "cfp_need_verify cfp" "n < 2 ^ 16"
  shows "checks (\<lambda>(es, cfs). (\<exists>l. es = Some l \<and> length l = n \<and> list_all (handler_in_range cp code_length) l) \<and> input_ok 0 cfs)
    (parse_exception_table cfp cp code_length n cfs)"
proof -
  have "checks (\<lambda>(es, cfs). (\<exists>l. es = Some l \<and> length l = n \<and> list_all (handler_in_range cp code_length) l) \<and> input_ok 0 cfs)
      (rbind (exception_table_loop cfp cp code_length n cfs) (\<lambda>(es, cfs). Inr (Some es, cfs)))" if "input_ok (8 * int n) cfs"
    by (rule checks_bind [OF handler_checks [OF assms(1) that]]) auto
  then show ?thesis using assms(3,4) unfolding parse_exception_table_def
    by (intro checks_bind [OF more_checks [OF assms(2)]]) auto
qed

section \<open>Examples\<close>

text \<open>The pool of a class file with the class \<open>A\<close>, and an exception table that catches it in \<open>sample_method\<close>.\<close>

definition named_file :: ClassFileStream where
  "named_file = new_class_file_stream [0, 3, 7, 0, 2, 1, 0, 1, 65, 0]"

definition named_pool :: ConstantPool where
  "named_pool = \<lparr>cp_tags = [0, 100, 1], cp_slots = [Slot_Null, Slot_Unresolved [65], Slot_Symbol [65]], cp_cache = None, cp_operands = []\<rparr>"

definition handler_file :: ClassFileStream where
  "handler_file = new_class_file_stream [0, 0, 0, 4, 0, 5, 0, 1]"

definition named_method :: Method where
  "named_method = sample_method\<lparr>m_constants := named_pool,
     m_exception_table := [\<lparr>ex_start_pc = 0, ex_end_pc = 4, ex_handler_pc = 5, ex_catch_type_index = 1\<rparr>]\<rparr>"

lemma named_parsed: "parse_constant_pool sample_parser named_file = Inr (named_pool, set_current 9 named_file)"
  by code_simp

lemma named_tags: "tag_at i named_pool = Inr t \<Longrightarrow> i = 0 \<and> t = 0 \<or> i = 1 \<and> t = 100 \<or> i = 2 \<and> t = 1"
  by (auto simp: named_pool_def tag_at_def arr_get_def nth_Cons' split: if_splits)

lemma named_plain: "plain_pool named_pool"
proof -
  have "klass_name_at 1 named_pool = Inr [65]" by code_simp
  then show ?thesis by (auto simp: plain_pool_def nameable_tags_def member_tags_def tag_values dest!: named_tags)
qed

lemma named_streams: "has_more 0 named_file" "length (cfs_buffer named_file) < 2 ^ 31" "has_more 0 handler_file" "length (cfs_buffer handler_file) < 2 ^ 31"
  by (simp_all add: has_more_def named_file_def handler_file_def new_class_file_stream_def)

lemma sample_format: "cfp_need_verify sample_parser" "\<not> cfp_relax_verify sample_parser" "cfp_major_version sample_parser \<ge> 49"
  by (simp_all add: sample_parser_def)

section \<open>What the verifier is given\<close>

text \<open>C4: The constant pool of a class to be verified, of version 49 or later.  Whatever the bytes, \<open>parse_constant_pool\<close> stays
  within the class file and within the pool, and its only error is \<open>ClassFormatError\<close>.  The pool that it returns meets what
  the verifier relies on: each class entry has a legal name, each member reference a class, a name that is not
  empty and a descriptor of its kind.  The names and descriptors with a \<open>[\<close> behind an \<open>L\<close>, which the parser accepts, are left out.\<close>

theorem parsed_pool_ok:
  assumes "cfp_need_verify cfp" "\<not> cfp_relax_verify cfp" "cfp_major_version cfp \<ge> 49"
    and "has_more 0 cfs" "length (cfs_buffer cfs) < 2 ^ 31"
  shows "case parse_constant_pool cfp cfs of Inl e \<Rightarrow> \<exists>m. e = Class_Format_Error m
    | Inr (cp, cfs') \<Rightarrow> has_more 1 cfs' \<and> (plain_pool cp \<longrightarrow> pool_ok cp \<and> members_ok cp)"
proof -
  have "new_format cfp" "input_ok 0 cfs" using assms by (simp_all add: new_format_def java_versions input_ok_def)
  from pool_checks [OF this] show ?thesis
    by (cases "parse_constant_pool cfp cfs") (auto simp: input_ok_def dest: checked_pool_ok checked_members_ok)
qed

theorem parsed_pool_ok_witness: "parse_constant_pool sample_parser named_file = Inr (named_pool, set_current 9 named_file) \<and>
    pool_ok named_pool \<and> members_ok named_pool"
  using parsed_pool_ok [OF sample_format named_streams(1,2)] named_parsed named_plain by simp

lemma parsed_handlers:
  assumes c: "checked_pool cfp len cp" "plain_pool cp" and m: "m_constants mt = cp" "list_all (handler_in_range cp n) (m_exception_table mt)"
  shows "handlers_ok mt"
  using m checked_class [OF c] by (fastforce simp: handlers_ok_def list_all_iff handler_in_range_def)

lemma parsed_arguments:
  assumes "method_result (m_name mt) (m_signature mt) n" "plain_name (m_signature mt)"
    and "(if m_is_static mt then 0 else 1) + n \<le> uint (m_max_locals mt)"
  shows "arguments_ok v mt"
proof -
  obtain ps r where s: "m_signature mt = show_method ps r" "list_all legal_type ps" "legal_type r \<or> r = FT_Base T_VOID" "n = params_size ps"
    using assms(1) by (auto simp: method_result_def legal_return_def)
  note d = plain_descriptor [OF assms(2) [unfolded s(1)] s(2,3)]
  have "int (length (receiver_types (m_name mt) (m_is_static mt) (current_type v) @ arg_types ps)) \<le> uint (m_max_locals mt)"
    using arg_types_size [OF d(1)] assms(3) s(4) by (auto simp: receiver_types_def)
  then have "length (receiver_types (m_name mt) (m_is_static mt) (current_type v) @ arg_types ps) \<le> unat (m_max_locals mt)"
    by (simp only: uint_nat of_nat_le_iff)
  then show ?thesis unfolding arguments_ok_def using s(1) d by blast
qed

text \<open>C3: From the bytes of a class file to the verdict.  A method is verified whose constant pool, exception table and
  signature come from \<open>parse_constant_pool\<close>, \<open>parse_exception_table\<close> and \<open>verify_legal_method_signature\<close>.  The
  verification returns, and is defined unless the constructor of the stack map table is not.  The class is to be verified in
  full, of version 49 or later, and no name or descriptor has a \<open>[\<close> behind an \<open>L\<close>.  What is assumed besides the parser: the
  names of the loaded classes are sound, no field reference of the pool leads to a protected field of a superclass in another package,
  a method with handlers has closed code whose switches jump forward (\<open>scannable\<close>), the arguments fit into the locals as the
  parser checks, and each opcode fetched is one of the \<open>number_of_codes\<close> codes, below 235.\<close>

theorem parsed_method_returns:
  assumes "cfp_need_verify cfp" "\<not> cfp_relax_verify cfp" "cfp_major_version cfp \<ge> 49"
    and "has_more 0 cfs" "length (cfs_buffer cfs) < 2 ^ 31" "parse_constant_pool cfp cfs = Inr (m_constants mt, cfs1)" "plain_pool (m_constants mt)"
    and "has_more 0 cfs2" "length (cfs_buffer cfs2) < 2 ^ 31" "n < 65536"
    and "parse_exception_table cfp (m_constants mt) (code_size (m_code mt)) n cfs2 = Inr (Some (m_exception_table mt), cfs3)"
    and "verify_legal_method_signature cfp (m_name mt) (m_signature mt) = Inr args" "length (m_signature mt) < 65536" "plain_name (m_signature mt)"
    and "(if m_is_static mt then 0 else 1) + args \<le> uint (m_max_locals mt)"
    and "class_ok v" "fields_open v (m_constants mt)" "scannable mt" "code_size (m_code mt) < 65536" "codes_from (m_code mt) (new_raw_stream (m_code mt))"
  shows "\<exists>r. verify_method v mt = Some r \<and> (r = Inl Undefined_Behaviour \<longrightarrow> stack_map_undefined v mt)"
proof -
  have f: "new_format cfp" "input_ok 0 cfs" "input_ok 0 cfs2" using assms by (simp_all add: new_format_def java_versions input_ok_def)
  have c: "checked_pool cfp (cp_length (m_constants mt)) (m_constants mt)" using pool_checks [OF f(1,2)] assms(6) by simp
  then have l: "linked_pool (cp_length (m_constants mt)) (m_constants mt)" by (simp add: checked_pool_def)
  have "list_all (handler_in_range (m_constants mt) (code_size (m_code mt))) (m_exception_table mt)"
    using exception_table_checks [OF l f(3) assms(1), of n "code_size (m_code mt)"] assms(10) unfolding assms(11) by simp
  then have h: "handlers_ok mt" by (rule parsed_handlers [OF c assms(7) refl])
  have "method_result (m_name mt) (m_signature mt) args"
    using method_signature_checks [OF f(1), of "m_signature mt" "m_name mt"] assms(13) unfolding assms(12) by simp
  then have "arguments_ok v mt" using assms(14,15) by (rule parsed_arguments)
  then have "method_wf v mt" unfolding method_wf_def
    by (intro conjI checked_pool_ok [OF c assms(7)] checked_members_ok [OF c assms(7)] h assms(16,19,20))
  then show ?thesis using assms(17,18) by (rule method_defined)
qed

theorem parsed_method_returns_witness: "\<exists>r. verify_method sample_class named_method = Some r \<and> r \<noteq> Inl Undefined_Behaviour"
proof -
  have c: "m_constants named_method = named_pool" "m_code named_method = m_code sample_method" by (simp_all add: named_method_def)
  have "parse_exception_table sample_parser (m_constants named_method) (code_size (m_code named_method)) 1 handler_file =
      Inr (Some (m_exception_table named_method), set_current 8 handler_file)"
    and "verify_legal_method_signature sample_parser (m_name named_method) (m_signature named_method) = Inr 0"
    and s: "plain_name (m_signature named_method)" "scannable named_method" "\<not> stack_map_undefined sample_class named_method"
    by code_simp+
  note p = parsed_method_returns [OF sample_format named_streams(1,2) _ _ named_streams(3,4) _ this(1) this(2)]
  have "\<exists>r. verify_method sample_class named_method = Some r \<and> (r = Inl Undefined_Behaviour \<longrightarrow> stack_map_undefined sample_class named_method)"
    by (rule p) (use named_parsed named_plain s sample_class_ok sample_open sample_size sample_codes c in
      \<open>auto simp: named_method_def sample_method_def symbol_of_def\<close>)
  then show ?thesis using s(3) by blast
qed

section \<open>A class name that the verifier cannot read\<close>

text \<open>The class file whose only class is named \<open>[L[L;\<close>, and \<open>aload_0; checkcast #1; areturn\<close> with the result type \<open>[[I\<close>.\<close>

definition bracket_file :: ClassFileStream where
  "bracket_file = new_class_file_stream [0, 3, 7, 0, 2, 1, 0, 5, 0x5B, 0x4C, 0x5B, 0x4C, 0x3B, 0]"

definition bracket_method :: "ConstantPool \<Rightarrow> Method" where
  "bracket_method cp = \<lparr>m_name = symbol_of ''m'', m_signature = symbol_of ''(Ljava/lang/Object;)[[I'', m_is_static = True, m_is_native = False,
     m_is_abstract = False, m_is_overpass = False, m_max_stack = 1, m_max_locals = 1, m_constants = cp,
     m_code = \<lparr>ca_base = 0, ca_bytes = [0x2a, 0xc0, 0, 1, 0xb0]\<rparr>, m_exception_table = [],
     m_localvariable_table = None, m_stackmap_data = None\<rparr>"

text \<open>C16: \<open>skip_over_field_signature\<close> looks for the end of a class name without a test for \<open>[\<close>, so the parser accepts the
  class name \<open>[L[L;\<close>.  To compare it with \<open>[[I\<close> the verifier takes its element type \<open>[L\<close>, which it finds to be an array of
  objects again, and asks for the symbol from position 2 up to position 1.\<close>

theorem bracket_class_undefined:
  "\<exists>cp cfs. parse_constant_pool sample_parser bracket_file = Inr (cp, cfs) \<and> klass_name_at 1 cp = Inr (symbol_of ''[L[L;'') \<and>
     verify_method sample_class (bracket_method cp) = Some (Inl Undefined_Behaviour)"
proof -
  let ?cp = "\<lparr>cp_tags = [0, 100, 1], cp_slots = [Slot_Null, Slot_Unresolved (symbol_of ''[L[L;''), Slot_Symbol (symbol_of ''[L[L;'')],
    cp_cache = None, cp_operands = []\<rparr>"
  have "parse_constant_pool sample_parser bracket_file = Inr (?cp, set_current 13 bracket_file)" by code_simp
  moreover have "klass_name_at 1 ?cp = Inr (symbol_of ''[L[L;'')" by code_simp
  moreover have "verify_method sample_class (bracket_method ?cp) = Some (Inl Undefined_Behaviour)" by code_simp
  ultimately show ?thesis by blast
qed

end
