(* ===== verification/Spec2Isabelle.thy ===== *)
theory Spec2Isabelle
  imports Compressed_Stream Parsed_Class
begin

text \<open>
  A verification development for the bytecode verifier of the HotSpot virtual machine, for the part of
  the class file parser that it relies on, and for the parts of the machine that both are built from: \<^verbatim>\<open>src/src/share/vm/classfile/verifier.cpp\<close> with everything
  that it calls down to the bytes of a class file, and the compressed streams of
  \<^verbatim>\<open>code/compressedStream.cpp\<close>.  File names below are relative to \<^verbatim>\<open>src/src/share/vm\<close>.

  \<^bold>\<open>The program.\<close>  A class file is parsed into a constant pool and methods.  \<^verbatim>\<open>ClassFileParser\<close> reads the entries
  of the pool, checks in a first pass that the indices of each entry lead to entries of the right kind, and
  in a second pass that names and descriptors are legal; it checks each exception table against the pool and
  the length of the code.  Before a class is used,
  \<^verbatim>\<open>ClassVerifier::verify_class\<close> checks each method: \<^verbatim>\<open>verify_method\<close> builds the initial frame from the
  signature, maps the starts of the instructions, checks the exception and local variable tables,
  reads the stack map table, and runs over the code once, keeping the types of the local variables
  and of the operand stack in a frame and matching the frame with the table at each jump.  Names and
  signatures are modified UTF-8; the code is read through a stream that looks up the length of
  each instruction in the tables of \<^verbatim>\<open>Bytecodes\<close>.

  \<^bold>\<open>The theories\<close>, in the order of their imports.

  \<^descr> \<open>VM_Prelude\<close>: types of machine integers, the faults, results \<open>fault + 'a\<close> with \<open>rbind\<close>, and
    arrays as lists whose accesses are checked.  An access outside an array, a read of an
    uninitialized variable and the like is the fault \<open>Undefined_Behaviour\<close>; a \<open>VerifyError\<close>, a
    \<open>ClassFormatError\<close> and a pending exception are the other faults.
  \<^descr> \<open>Compressed_Stream\<close> (\<^verbatim>\<open>code/compressedStream.hpp\<close>, \<^verbatim>\<open>.cpp\<close>): the reader and the writer, growth of the
    buffer included.  One locale holds the contract of a pair of operations; it is interpreted on
    each of the nine pairs.  The UNSIGNED5 encoding is compared with a grammar.
  \<^descr> \<open>Utf8\<close> (\<^verbatim>\<open>utilities/utf8.hpp\<close>, \<^verbatim>\<open>.cpp\<close>): every function of \<^verbatim>\<open>UTF8\<close> and \<^verbatim>\<open>UNICODE\<close>.  Round trip,
    truncation to a buffer, behaviour on malformed bytes, quoting.  \<^verbatim>\<open>from_quoted_ascii\<close> is a
    partial function, and returns only on the empty string.
  \<^descr> \<open>Verification_Type\<close> (\<^verbatim>\<open>classfile/verificationType.hpp\<close>, \<^verbatim>\<open>.cpp\<close>): the encoding of types in a word,
    refined to a datatype, and assignability with its laws, arrays of basic types among them.  Symbols are lists of bytes, compared by
    value as interned symbols are by address.  Class loading is the record \<open>class_env\<close>.
  \<^descr> \<open>Signature\<close> (\<^verbatim>\<open>runtime/signature.hpp\<close>, \<^verbatim>\<open>.cpp\<close>): iterators, the stream, fingerprints, and the
    signature verifier, against a grammar of field and method descriptors.
  \<^descr> \<open>Stack_Map_Frame\<close> (\<^verbatim>\<open>classfile/stackMapFrame.hpp\<close>, \<^verbatim>\<open>.cpp\<close>): the frame with its operations, the
    invariant \<open>frame_ok\<close>, the initial frame of a method, assignability of frames.
  \<^descr> \<open>Constant_Pool\<close> (\<^verbatim>\<open>oops/constantPool.hpp\<close>, \<^verbatim>\<open>.cpp\<close>, \<^verbatim>\<open>utilities/constantTag.hpp\<close>): tags, slots, references
    to members, operands of call sites.  One locale has the contract of a kind of entry.
  \<^descr> \<open>Stack_Map_Table\<close> (\<^verbatim>\<open>classfile/stackMapTable.hpp\<close>, \<^verbatim>\<open>.cpp\<close>): the reader of the table with every
    kind of frame, the constructor, matching and updating of a frame.  When reading a frame, and the
    constructor, are undefined is stated exactly.
  \<^descr> \<open>Bytecodes\<close> (\<^verbatim>\<open>interpreter/bytecodes.hpp\<close>, \<^verbatim>\<open>.cpp\<close>, \<^verbatim>\<open>bytecodeStream.hpp\<close>, \<^verbatim>\<open>.cpp\<close>): the codes, the
    initialization of the tables, the raw stream over the code.
  \<^descr> \<open>Verifier_Checks\<close>, \<open>Method_Verifier\<close> (\<^verbatim>\<open>classfile/verifier.hpp\<close>, \<^verbatim>\<open>.cpp\<close>): the checks of constants,
    tables, switches, local variables and returns; fields, invocations, constructors,
    \<^verbatim>\<open>ends_in_athrow\<close>, each case of the switch over the instructions, the loop over the code,
    \<^verbatim>\<open>verify_method\<close> and \<^verbatim>\<open>verify_class\<close>.  A result is \<open>(fault + 'a) option\<close>, where \<open>None\<close> is a
    computation that does not end.
  \<^descr> \<open>Instruction_Safety\<close>, \<open>Member_Safety\<close>, \<open>Method_Safety\<close>: a calculus of results that are defined
    (\<open>safe\<close>, \<open>returns\<close>), and one lemma per group of instructions: on a well-formed frame, no
    array is left, the frame stays well-formed, and the height of the stack changes as the tables
    say.  Then the tables of a method, the loop, the method.
  \<^descr> \<open>Accepted_Code\<close>: the successors of an instruction, and that the code of an accepted method has them.
  \<^descr> \<open>Athrow_Scan\<close>: on which code \<^verbatim>\<open>ends_in_athrow\<close> returns, by a measure on the branches not yet seen and the multiset of
    the positions still to be scanned.
  \<^descr> \<open>Verified_Class\<close>: the properties of the verifier with methods on which they are evaluated.
  \<^descr> \<open>Class_File_Stream\<close> (\<^verbatim>\<open>classfile/classFileStream.hpp\<close>, \<^verbatim>\<open>.cpp\<close>), \<open>Format_Checks\<close>, \<open>Class_File_Parser\<close>
    (\<^verbatim>\<open>classfile/classFileParser.hpp\<close>, \<^verbatim>\<open>.cpp\<close>): the stream over the bytes, the checks of strings, names, descriptors
    and access flags, the entries of the constant pool with both passes, the exception table.
  \<^descr> \<open>Legal_Utf8\<close>, \<open>Legal_Formats\<close>: what the format checks accept, compared with the encoder of \<open>Utf8\<close> and with
    the grammar of \<open>Signature\<close>; results that are defined up to a \<open>ClassFormatError\<close> (\<open>checks\<close>).
  \<^descr> \<open>Parsed_Pool\<close>, \<open>Checked_Pool\<close>: the invariants of the pool while it is read and in each pass.
  \<^descr> \<open>Parsed_Class\<close>: the pool and the handlers that the parser returns are those that the theorems on
    methods assume, and a class name for which this fails.

  \<^bold>\<open>What the theorems show.\<close>  Parsing a constant pool stays within the file and the pool for any bytes, and a
  pool that is returned, unless it has a \<open>[\<close> behind an \<open>L\<close> in a name, meets the assumptions of the theorems on the verifier.  The checks of strings and
  of method descriptors accept exactly what the encoder and the grammar produce.  The verification of a
  method or of a class returns, under the conditions below, and is undefined only if the constructor of a stack map table is,
  which is so exactly for an attribute of less than two bytes and for a chop frame after a frame without locals.  The code of an accepted method is
  closed under jumps, switches, handlers and falling through.  The check of each instruction with a
  fixed effect agrees with the table of \<^verbatim>\<open>Bytecodes\<close>.  The frames of a stack map table that has been
  read are well-formed, at instructions and in order.  Assignability is transitive on types and
  frames; on arrays of basic types it is equality, except that an array of \<open>int\<close> passes for one of a smaller type.
  Signatures are accepted exactly as the grammar says, up to \<open>V\<close> in arrays.  Encoders and
  decoders are inverse.  Several theorems state where the code does not keep its promise: the two undefined stack map tables, an error message that reads past the
  operand stack, loops that do not end, bytes that are no codes, a class name that the parser accepts and the
  verifier cannot take apart.

  \<^bold>\<open>Assumptions.\<close>  The theorems on methods assume \<open>method_wf\<close>: the names of the loaded classes are sound, the constant pool has
  entries of the forms that the class file parser accepts, signatures are well-formed and fit into the local
  variables, the code has less than \<open>2 ^ 16\<close> bytes, and each byte read as a code is less than the number of codes, 235.
  This is enough for the theorem on accepted code.  That the verification returns has two more conditions.
  \<open>fields_open\<close>: no field reference of the pool, whose class can be loaded, leads to a protected field of a superclass in another
  package; an error message on such an access may read past the stack.  \<open>scannable\<close>: a method with handlers has code that is closed under
  its jumps, consists of instructions to its end, and has no switch that jumps backwards or to itself.  \<^verbatim>\<open>ends_in_athrow\<close> is
  called before the jumps behind it are checked, and does not record switches; that it may not return otherwise is a theorem.
  The theorem on classes also excludes methods that are rewritten or verified again while they are verified, and that on the effect
  of an instruction the codes whose effect depends on a constant (\<open>varying_codes\<close>).  \<open>Parsed_Class\<close> derives the parts of \<open>method_wf\<close> on
  the pool, the handlers and the signature from the parser, for classes of version 49 or later that are verified without
  relaxation, and for names without a \<open>[\<close> behind an \<open>L\<close> (\<open>plain_pool\<close>).

  \<^bold>\<open>Bounds and fuel.\<close>  No definition has fuel.  Loops over the code and over switches are defined with
  a measure; loops that may not end are partial functions into \<open>option\<close>, and that they return is
  proved where it holds.  Integers are words where they wrap; elsewhere they are integers with
  \<open>u2_of\<close>, \<open>u4_of\<close> or \<open>signed_take_bit 31\<close> written where the source converts.  Signed
  overflow in the sums of an index and an offset is taken as on the target, modulo \<open>2 ^ 32\<close>.

  \<^bold>\<open>Not modelled.\<close>  Of the modelled files: printing, tracing, the text of error reports, code that only
  runs in debug builds, and \<^verbatim>\<open>Verifier::verify\<close>, which chooses between this verifier and a separate
  library.  Of the class file parser: patches of the pool, fields, methods and attributes, which build objects in
  metaspace; the methods \<^verbatim>\<open>Character.isJavaIdentifierStart\<close> and \<^verbatim>\<open>isJavaIdentifierPart\<close>, and whether the symbol table
  has a name, are fields of the record \<open>ClassFileParser\<close>.  Of the machine: class loading, the interpreter and both
  compilers, the garbage collectors, threads and safepoints, the native interfaces, and the layers
  for processors and operating systems.  They generate machine code, work concurrently on raw memory
  or call the system; where the verifier calls into them, its calls are fields of the records
  \<open>class_env\<close> and \<open>ClassVerifier\<close>.
\<close>

end
